(* ===== verification/Prelude.thy ===== *)
theory Prelude
  imports Main "HOL-Library.Word" "HOL-Library.Monad_Syntax"
begin

text \<open>
  Shared vocabulary of the development: the machine types of the C++ sources, the wrap-around
  of \<open>size_t\<close> and of the narrowing casts, the convention for undefined behaviour, and the
  generic list, option and word lemmas the component theories rely on.

  Conventions used everywhere:
  \<^item> \<open>None\<close> of an operation of type \<open>\<dots> option\<close> means that the C++ code does not return
    normally: it dereferences freed, null or out-of-range memory, or a \<open>RAPTOR_ASSERT\<close> aborts.
    The operations are written in the option monad, so the first such event ends the run.
  \<^item> \<open>size_t\<close> is a natural number below \<open>2 ^ 64\<close>; \<open>sz_add\<close> and \<open>sz_sub\<close> wrap.
  \<^item> Values the operating system returns are arguments of the definitions.
\<close>

unbundle bit_operations_syntax

section \<open>Machine types\<close>

type_synonym byte = "8 word"
type_synonym u16 = "16 word"
type_synonym u32 = "32 word"
type_synonym u64 = "64 word"
type_synonym size_t = nat
type_synonym addr = nat

named_theorems sz_simps \<open>size_t arithmetic without wrap-around\<close>
named_theorems byte_simps \<open>list facts about byte strings\<close>

abbreviation size_lim :: nat where
  "size_lim \<equiv> 18446744073709551616"

definition sz_add :: "size_t \<Rightarrow> size_t \<Rightarrow> size_t" where
  "sz_add a b = (a + b) mod size_lim"

definition sz_sub :: "size_t \<Rightarrow> size_t \<Rightarrow> size_t" where
  "sz_sub a b = (a + (size_lim - b mod size_lim)) mod size_lim"

lemma sz_add_exact [sz_simps]: "a + b < size_lim \<Longrightarrow> sz_add a b = a + b"
  by (simp add: sz_add_def)

lemma sz_sub_exact [sz_simps]:
  assumes "b \<le> a" and "a < size_lim"
  shows "sz_sub a b = a - b"
proof -
  have b: "b mod size_lim = b" using assms by simp
  have "a + (size_lim - b) = (a - b) + size_lim" using assms by simp
  then have "(a + (size_lim - b)) mod size_lim = (a - b) mod size_lim" by simp
  also have "\<dots> = a - b" using assms by simp
  finally show ?thesis by (simp only: sz_sub_def b)
qed

lemma sz_add_bound [simp]: "sz_add a b < size_lim"
  by (simp add: sz_add_def)

lemma sz_sub_bound [simp]: "sz_sub a b < size_lim"
  by (simp add: sz_sub_def)

text \<open>
  Narrowing casts: \<open>static_cast<int>\<close> keeps the low 32 bits and reads them in two's
  complement; a cast to an unsigned type keeps the low bits.
\<close>

definition to_i32 :: "int \<Rightarrow> int" where
  "to_i32 x = (x + 2147483648) mod 4294967296 - 2147483648"

definition to_i64 :: "int \<Rightarrow> int" where
  "to_i64 x = (x + 9223372036854775808) mod 18446744073709551616 - 9223372036854775808"

definition to_u32 :: "int \<Rightarrow> nat" where
  "to_u32 x = nat (x mod 4294967296)"

definition to_u64 :: "int \<Rightarrow> nat" where
  "to_u64 x = nat (x mod int size_lim)"

lemma to_i32_range: "- 2147483648 \<le> to_i32 x \<and> to_i32 x < 2147483648"
proof -
  have "0 \<le> (x + 2147483648) mod 4294967296" by simp
  moreover have "(x + 2147483648) mod 4294967296 < (4294967296 :: int)" by simp
  ultimately show ?thesis by (simp add: to_i32_def)
qed

lemma to_i32_id [simp]:
  assumes "- 2147483648 \<le> x" and "x < 2147483648"
  shows "to_i32 x = x"
proof -
  have "(x + 2147483648) mod 4294967296 = x + 2147483648"
    by (rule mod_pos_pos_trivial) (use assms in auto)
  then show ?thesis by (simp add: to_i32_def)
qed

lemma to_i64_id [simp]:
  assumes "- 9223372036854775808 \<le> x" and "x < 9223372036854775808"
  shows "to_i64 x = x"
proof -
  have "(x + 9223372036854775808) mod 18446744073709551616 = x + 9223372036854775808"
    by (rule mod_pos_pos_trivial) (use assms in auto)
  then show ?thesis by (simp add: to_i64_def)
qed

lemma to_u32_bound [simp]: "to_u32 x < 4294967296"
  by (simp add: to_u32_def nat_less_iff)

lemma to_u64_bound [simp]: "to_u64 x < size_lim"
  by (simp add: to_u64_def nat_less_iff)

lemma to_u64_of_nat [simp]: "n < size_lim \<Longrightarrow> to_u64 (int n) = n"
  by (simp add: to_u64_def nat_mod_distrib)

section \<open>Lists\<close>

lemma take_append_le [byte_simps]: "n \<le> length xs \<Longrightarrow> take n (xs @ ys) = take n xs"
  by simp

lemma drop_append_le [byte_simps]: "n \<le> length xs \<Longrightarrow> drop n (xs @ ys) = drop n xs @ ys"
  by simp

lemma length_concat_sum [byte_simps]: "length (concat xss) = sum_list (map length xss)"
  by (rule length_concat)

lemma filter_remove1_length:
  "x \<in> set xs \<Longrightarrow> P x \<Longrightarrow> Suc (length (filter P (remove1 x xs))) = length (filter P xs)"
  by (induction xs) auto

lemma filter_remove1_other:
  "\<not> P x \<Longrightarrow> filter P (remove1 x xs) = filter P xs"
  by (induction xs) auto

lemma filter_pos_if_mem: "x \<in> set xs \<Longrightarrow> P x \<Longrightarrow> 0 < length (filter P xs)"
  by (induction xs) auto

section \<open>The option monad\<close>

lemma bind_Some_iff [simp]:
  "(Option.bind m f = Some y) \<longleftrightarrow> (\<exists>x. m = Some x \<and> f x = Some y)"
  by (cases m) auto

text \<open>\<open>vector::operator[]\<close>: reading past the end is undefined behaviour.\<close>

definition vec_at :: "'a list \<Rightarrow> nat \<Rightarrow> 'a option" where
  "vec_at xs i = (if i < length xs then Some (xs ! i) else None)"

definition vec_set :: "'a list \<Rightarrow> nat \<Rightarrow> 'a \<Rightarrow> 'a list option" where
  "vec_set xs i x = (if i < length xs then Some (xs[i := x]) else None)"

lemma vec_at_Some [simp]: "vec_at xs i = Some x \<longleftrightarrow> i < length xs \<and> xs ! i = x"
  by (auto simp: vec_at_def)

lemma vec_at_None [simp]: "vec_at xs i = None \<longleftrightarrow> length xs \<le> i"
  by (auto simp: vec_at_def)

lemma vec_set_Some [simp]: "vec_set xs i x = Some ys \<longleftrightarrow> i < length xs \<and> ys = xs[i := x]"
  by (auto simp: vec_set_def)

lemma vec_set_None [simp]: "vec_set xs i x = None \<longleftrightarrow> length xs \<le> i"
  by (auto simp: vec_set_def)

end
