(* ===== verification/Text.thy ===== *)
theory Text
  imports Prelude
begin

text \<open>
  Character strings: the decimal conversions of \<open>printf\<close>, and the string helpers of
  src/src/utils/string.cc. A C string is the list of its characters without the terminating
  NUL; where the code copies bytes, the NUL is written out.
\<close>

section \<open>Decimal conversion\<close>

definition digit :: "nat \<Rightarrow> char" where
  "digit n = char_of (48 + n)"

fun dec_nat :: "nat \<Rightarrow> string" where
  "dec_nat n = (if n < 10 then [digit n] else dec_nat (n div 10) @ [digit (n mod 10)])"

declare dec_nat.simps [simp del]

definition dec_int :: "int \<Rightarrow> string" where
  "dec_int i = (if i < 0 then ''-'' @ dec_nat (nat (- i)) else dec_nat (nat i))"

definition is_digit :: "char \<Rightarrow> bool" where
  "is_digit c \<longleftrightarrow> 48 \<le> (of_char c :: nat) \<and> (of_char c :: nat) \<le> 57"

definition digit_val :: "char \<Rightarrow> nat" where
  "digit_val c = of_char c - 48"

definition parse_nat :: "string \<Rightarrow> nat" where
  "parse_nat s = foldl (\<lambda>a c. 10 * a + digit_val c) 0 s"

lemma of_char_digit [simp]: "n < 10 \<Longrightarrow> (of_char (digit n) :: nat) = 48 + n"
  by (simp add: digit_def)

lemma digit_facts [simp]:
  assumes "n < 10"
  shows "is_digit (digit n)" "digit_val (digit n) = n"
  using assms by (simp_all add: is_digit_def digit_val_def)

lemma dec_nat_digits: "\<forall>c \<in> set (dec_nat n). is_digit c"
  by (induction n rule: dec_nat.induct) (subst dec_nat.simps, auto)

lemma dec_nat_nonempty [simp]: "dec_nat n \<noteq> []"
  by (subst dec_nat.simps) simp

lemma parse_dec_nat [simp]: "parse_nat (dec_nat n) = n"
proof (induction n rule: dec_nat.induct)
  case (1 n)
  show ?case
  proof (cases "n < 10")
    case True
    then show ?thesis by (subst dec_nat.simps) (simp add: parse_nat_def)
  next
    case False
    have "parse_nat (dec_nat n) = 10 * parse_nat (dec_nat (n div 10)) + n mod 10"
      using False by (subst dec_nat.simps) (simp add: parse_nat_def)
    also have "\<dots> = n" using 1 False by simp
    finally show ?thesis .
  qed
qed

lemma dec_nat_inj: "dec_nat m = dec_nat n \<longleftrightarrow> m = n"
  by (metis parse_dec_nat)

lemma dec_nat_length: "n < 10 ^ k \<Longrightarrow> 0 < k \<Longrightarrow> length (dec_nat n) \<le> k"
proof (induction n arbitrary: k rule: dec_nat.induct)
  case (1 n)
  show ?case
  proof (cases "n < 10")
    case True
    with 1 show ?thesis by (subst dec_nat.simps) simp
  next
    case False
    with 1 obtain j where k: "k = Suc j" "0 < j" by (cases k; cases "k - 1") auto
    have "n div 10 < 10 ^ j" using "1.prems"(1) k by (simp add: less_mult_imp_div_less mult.commute)
    from "1.IH" [OF False this k(2)] False k show ?thesis by (subst dec_nat.simps) simp
  qed
qed

lemma dec_nat_not_digit: "\<not> is_digit c \<Longrightarrow> c \<notin> set (dec_nat n)"
  using dec_nat_digits by blast

section \<open>String helpers\<close>

text \<open>\<open>vsnprintf(buf, n, \<dots>)\<close>: the formatted text truncated to \<open>n - 1\<close> characters and a NUL, and
  the length of the whole text.\<close>

definition vsnprintf :: "nat \<Rightarrow> string \<Rightarrow> string \<times> nat" where
  "vsnprintf n out = (take (n - 1) out @ [CHR 0x00], length out)"

definition c_str :: "string \<Rightarrow> string" where
  "c_str mem = takeWhile (\<lambda>c. c \<noteq> CHR 0x00) mem"

definition raptor_strdup :: "string option \<Rightarrow> string option" where
  "raptor_strdup src =
     (case src of
        None \<Rightarrow> None
      | Some s \<Rightarrow> let len = length s + 1; dst = take len (s @ [CHR 0x00]) in Some dst)"

text \<open>\<open>raptor_format_message\<close> of the Windows build; \<open>FormatMessage\<close> is the text the system has for an error, if any.\<close>

definition raptor_format_message :: "(int \<Rightarrow> string option) \<Rightarrow> int \<Rightarrow> string option" where
  "raptor_format_message FormatMessage messageid =
     (case FormatMessage messageid of
        None \<Rightarrow> raptor_strdup (Some ''Unable to retrieve error string'')
      | Some error_text \<Rightarrow> raptor_strdup (Some error_text))"

text \<open>
  \<open>raptor_asprintf\<close>: \<open>out\<close> is the text the format and its arguments stand for, \<open>None\<close> when
  \<open>vsnprintf\<close> reports an encoding error. The result is the return value and the memory stored
  to \<open>*strp\<close>, \<open>None\<close> for a null pointer. \<open>malloc_ok\<close> is whether the allocation succeeds.
\<close>

definition raptor_asprintf :: "string option \<Rightarrow> bool \<Rightarrow> int \<times> string option" where
  "raptor_asprintf out malloc_ok =
     (case out of
        None \<Rightarrow> (- 1, None)
      | Some text \<Rightarrow>
          let (buf, ret) = vsnprintf 128 text;
              strp_buflen = ret + 1 in
          if \<not> malloc_ok then (- 1, None)
          else if strp_buflen \<le> 128 then (int ret, Some (take strp_buflen buf))
          else let (mem, ret2) = vsnprintf strp_buflen text in
               if ret2 = strp_buflen - 1 then (int ret2, Some mem) else (- 1, None))"

text \<open>Whatever the length of the text, the result is the whole text.\<close>

lemma raptor_asprintf_whole: "raptor_asprintf (Some text) True = (int (length text), Some (text @ [CHR 0x00]))"
  by (simp add: raptor_asprintf_def vsnprintf_def Let_def)

lemma c_str_terminated [simp]: "CHR 0x00 \<notin> set s \<Longrightarrow> c_str (s @ CHR 0x00 # r) = s"
  by (induction s) (auto simp: c_str_def)

end
