(* ===== verification/Status.thy ===== *)
theory Status
  imports Text
begin

text \<open>
  \<open>Status\<close> (src/src/utils/status.cc), the error values of the library, and \<open>Event\<close>
  (include/raptor-lite/impl/event.h), the reason a connection was closed. A \<open>raptor_error\<close> is a
  counted pointer to a status; \<open>RAPTOR_ERROR_NONE\<close>, the null pointer, is \<open>None\<close>. A status is
  only changed while it is being built, so the pointer is modelled by the value it points to.
\<close>

section \<open>Status\<close>

record Status =
  error_code :: int
  message :: string

type_synonym raptor_error = "Status option"

abbreviation RAPTOR_ERROR_NONE :: raptor_error where
  "RAPTOR_ERROR_NONE \<equiv> None"

definition Status_code_msg :: "int \<Rightarrow> string \<Rightarrow> Status" where
  "Status_code_msg err_code err_msg = \<lparr>error_code = err_code, message = err_msg\<rparr>"

definition Status_new :: Status where
  "Status_new = Status_code_msg 0 []"

definition Status_msg :: "string \<Rightarrow> Status" where
  "Status_msg msg = Status_code_msg (- 1) msg"

definition Status_IsOK :: "Status \<Rightarrow> bool" where
  "Status_IsOK st \<longleftrightarrow> error_code st = 0"

definition Status_ErrorCode :: "Status \<Rightarrow> int" where
  "Status_ErrorCode st = error_code st"

text \<open>
  \<open>%s\<close> prints characters up to a NUL, and the bytes of a slice are not followed by one:
  \<open>after\<close> is what the memory behind the message holds.
\<close>

definition Status_ToString :: "Status \<Rightarrow> string \<Rightarrow> string" where
  "Status_ToString st after =
     (if error_code st = 0 then ''No error''
      else if message st = [] then ''Error code is '' @ dec_int (error_code st) @ ''. No description.''
      else ''Error code is '' @ dec_int (error_code st) @ ''. '' @ c_str (message st @ after) @ ''.'')"

definition Status_AppendMessage :: "Status \<Rightarrow> string \<Rightarrow> Status" where
  "Status_AppendMessage st msg = st\<lparr>message := message st @ msg\<rparr>"

definition Status_eq :: "Status \<Rightarrow> Status \<Rightarrow> bool" where
  "Status_eq a b \<longleftrightarrow> error_code a = error_code b"

definition Status_ne :: "Status \<Rightarrow> Status \<Rightarrow> bool" where
  "Status_ne a b \<longleftrightarrow> error_code a \<noteq> error_code b"

definition MakeStatusFromStaticString :: "string \<Rightarrow> raptor_error" where
  "MakeStatusFromStaticString msg = Some (Status_msg msg)"

text \<open>\<open>errno\<close> and \<open>strerror\<close> come from the C library.\<close>

definition MakeStatusFromPosixError :: "(int \<Rightarrow> string) \<Rightarrow> int \<Rightarrow> string \<Rightarrow> raptor_error" where
  "MakeStatusFromPosixError strerror errno api =
     (let err = errno;
          text = snd (raptor_asprintf (Some (api @ '': '' @ strerror err)) True)
      in map_option (\<lambda>t. Status_code_msg err (c_str t)) text)"

text \<open>The part of the environment an error is made from.\<close>

record os_error =
  os_errno :: int
  os_strerror :: "int \<Rightarrow> string"

abbreviation RAPTOR_POSIX_ERROR :: "os_error \<Rightarrow> string \<Rightarrow> raptor_error" where
  "RAPTOR_POSIX_ERROR os api \<equiv> MakeStatusFromPosixError (os_strerror os) (os_errno os) api"

text \<open>On Windows the code is an argument; \<open>FormatMessage\<close> is what the system has for it.\<close>

definition MakeStatusFromWindowsError :: "(int \<Rightarrow> string option) \<Rightarrow> int \<Rightarrow> string \<Rightarrow> raptor_error" where
  "MakeStatusFromWindowsError FormatMessage err api =
     (let message = (case raptor_format_message FormatMessage err of None \<Rightarrow> [] | Some m \<Rightarrow> c_str m);
          text = snd (raptor_asprintf (Some (api @ '': '' @ message)) True)
      in map_option (\<lambda>t. Status_code_msg err (c_str t)) text)"

definition MakeStatusFromFormat :: "string option \<Rightarrow> bool \<Rightarrow> raptor_error" where
  "MakeStatusFromFormat out malloc_ok =
     (let msg = snd (raptor_asprintf out malloc_ok)
      in case msg of None \<Rightarrow> None | Some m \<Rightarrow> Some (Status_msg (c_str m)))"

lemma MakeStatusFromFormat_Some [simp]: "MakeStatusFromFormat (Some text) True \<noteq> RAPTOR_ERROR_NONE"
  by (simp add: MakeStatusFromFormat_def raptor_asprintf_whole)

lemma MakeStatusFromPosixError_Some [simp]:
  "MakeStatusFromPosixError strerror errno api \<noteq> RAPTOR_ERROR_NONE"
  by (simp add: MakeStatusFromPosixError_def raptor_asprintf_whole)

lemma MakeStatusFromWindowsError_Some [simp]:
  "MakeStatusFromWindowsError FormatMessage err api \<noteq> RAPTOR_ERROR_NONE"
  by (simp add: MakeStatusFromWindowsError_def raptor_asprintf_whole)

lemma MakeStatusFromStaticString_Some [simp]: "MakeStatusFromStaticString msg \<noteq> RAPTOR_ERROR_NONE"
  by (simp add: MakeStatusFromStaticString_def)

section \<open>Event\<close>

datatype EventType = kManualShutdown | kSocketError | kConnectionTimeout

record Event =
  ev_type :: EventType
  ev_desc :: raptor_error

definition Event_default :: Event where
  "Event_default = \<lparr>ev_type = kManualShutdown, ev_desc = RAPTOR_ERROR_NONE\<rparr>"

definition Event_new :: "EventType \<Rightarrow> raptor_error \<Rightarrow> Event" where
  "Event_new t err = \<lparr>ev_type = t, ev_desc = err\<rparr>"

definition Event_Type :: "Event \<Rightarrow> EventType" where
  "Event_Type e = ev_type e"

definition Event_What :: "Event \<Rightarrow> string \<Rightarrow> string" where
  "Event_What e after =
     (case ev_desc e of None \<Rightarrow> [] | Some st \<Rightarrow> Status_ToString st after)"

definition Event_ErrorCode :: "Event \<Rightarrow> int" where
  "Event_ErrorCode e = (case ev_desc e of None \<Rightarrow> 0 | Some st \<Rightarrow> Status_ErrorCode st)"

section \<open>Properties\<close>

text \<open>
  Error values keep their cause: an error made from \<open>errno\<close> is never the null \<open>no error\<close> value,
  carries the code and the text \<open>api: strerror\<close>, whatever the length of that text, and an event
  built from it reports the same code.
\<close>

theorem posix_error_preserves_cause:
  assumes "CHR 0x00 \<notin> set api" and "CHR 0x00 \<notin> set (strerror errno)"
  shows "MakeStatusFromPosixError strerror errno api
           = Some \<lparr>error_code = errno, message = api @ '': '' @ strerror errno\<rparr>
    \<and> Event_ErrorCode (Event_new t (MakeStatusFromPosixError strerror errno api)) = errno"
proof -
  have "CHR 0x00 \<notin> set (api @ '': '' @ strerror errno)" using assms by simp
  from c_str_terminated [OF this, of "[]"] show ?thesis
    by (simp add: MakeStatusFromPosixError_def raptor_asprintf_whole Status_code_msg_def
        Event_ErrorCode_def Event_new_def Status_ErrorCode_def)
qed

theorem posix_error_preserves_cause_witness:
  "MakeStatusFromPosixError (\<lambda>_. ''Broken pipe'') 32 ''send''
     = Some \<lparr>error_code = 32, message = ''send: Broken pipe''\<rparr>"
  using posix_error_preserves_cause [of "''send''" "\<lambda>_. ''Broken pipe''" 32] by simp

end
