(* ===== verification/Threads.thy ===== *)
theory Threads
  imports Prelude
begin

text \<open>
  \<open>Thread\<close> (src/src/utils/thread.cc): a thread object is created stopped, released by \<open>Start\<close>
  and collected by \<open>Join\<close>; each of them asserts that it is called in a proper state. The
  operating system decides whether a thread can be created; a created thread waits for
  \<open>_started\<close>, so joining one that was never started would never return.
\<close>

section \<open>The internal thread\<close>

text \<open>\<open>it_join_object\<close> is whether \<open>_join_object\<close> is non-zero.\<close>

record InternalThreadImpl =
  it_started :: bool
  it_join_object :: bool

text \<open>The constructor; \<open>created\<close> is whether \<open>pthread_create\<close> succeeds, and also the value of
  \<open>*success\<close>.\<close>

definition InternalThreadImpl_new :: "bool \<Rightarrow> bool \<times> InternalThreadImpl" where
  "InternalThreadImpl_new created =
     (let impl = \<lparr>it_started = False, it_join_object = False\<rparr>; success = created
      in if success then (success, impl\<lparr>it_join_object := True\<rparr>) else (success, impl))"

definition InternalThreadImpl_Start :: "InternalThreadImpl \<Rightarrow> InternalThreadImpl" where
  "InternalThreadImpl_Start impl = impl\<lparr>it_started := True\<rparr>"

text \<open>\<open>Run\<close>: the thread function runs once the wait loop sees \<open>_started\<close>.\<close>

definition InternalThreadImpl_Run :: "InternalThreadImpl \<Rightarrow> ('s \<Rightarrow> 's) \<Rightarrow> 's \<Rightarrow> 's option" where
  "InternalThreadImpl_Run impl thread_proc arg = (if it_started impl then Some (thread_proc arg) else None)"

text \<open>\<open>pthread_join\<close> returns when the thread function has ended, which needs \<open>_started\<close>.\<close>

definition InternalThreadImpl_Join :: "InternalThreadImpl \<Rightarrow> unit option" where
  "InternalThreadImpl_Join impl =
     (if it_join_object impl then (if it_started impl then Some () else None) else Some ())"

section \<open>The thread object\<close>

datatype thread_state = kNull | kAlive | kActive | kFinish | kFailed

record Thread =
  t_impl :: "InternalThreadImpl option"
  t_state :: thread_state

definition Thread_null :: Thread where
  "Thread_null = \<lparr>t_impl = None, t_state = kNull\<rparr>"

definition Thread_new :: "bool \<Rightarrow> bool \<times> Thread" where
  "Thread_new created =
     (let (ret, impl) = InternalThreadImpl_new created
      in if \<not> ret then (ret, \<lparr>t_impl = None, t_state = kFailed\<rparr>)
         else (ret, \<lparr>t_impl = Some impl, t_state = kAlive\<rparr>))"

text \<open>Moving returns the new object and what is left of the old one; \<open>same\<close> is \<open>this == &other\<close>.\<close>

definition Thread_move :: "Thread \<Rightarrow> Thread \<times> Thread" where
  "Thread_move oth = (\<lparr>t_impl = t_impl oth, t_state = t_state oth\<rparr>, oth\<lparr>t_impl := None, t_state := kNull\<rparr>)"

definition Thread_move_assign :: "bool \<Rightarrow> Thread \<Rightarrow> Thread \<Rightarrow> Thread \<times> Thread" where
  "Thread_move_assign same self oth =
     (if \<not> same then (self\<lparr>t_impl := t_impl oth, t_state := t_state oth\<rparr>, oth\<lparr>t_impl := None, t_state := kNull\<rparr>)
      else (self, oth))"

definition Thread_Start :: "Thread \<Rightarrow> Thread option" where
  "Thread_Start t =
     (case t_impl t of
        Some impl \<Rightarrow>
          if t_state t = kAlive
          then Some (t\<lparr>t_state := kActive, t_impl := Some (InternalThreadImpl_Start impl)\<rparr>) else None
      | None \<Rightarrow> if t_state t = kFailed then Some t else None)"

definition Thread_Join :: "Thread \<Rightarrow> Thread option" where
  "Thread_Join t =
     (case t_impl t of
        Some impl \<Rightarrow>
          let (t1, impl1) = (if t_state t = kAlive
                             then (t\<lparr>t_state := kActive\<rparr>, InternalThreadImpl_Start impl) else (t, impl))
          in do {
            _ \<leftarrow> InternalThreadImpl_Join impl1;
            Some (t1\<lparr>t_state := kFinish, t_impl := None\<rparr>) }
      | None \<Rightarrow> if t_state t = kFailed then Some t else None)"

section \<open>Groups of threads\<close>

text \<open>
  The loops with which a component creates, starts and joins its threads (\<open>PollingThread\<close>,
  \<open>ContainerImpl\<close>): an array of null threads is filled from the front until a creation fails, and
  the counter of running threads goes up for each success. \<open>created i\<close> is whether the operating
  system creates the \<open>i\<close>th thread.
\<close>

fun spawn_loop :: "nat \<Rightarrow> nat \<Rightarrow> (nat \<Rightarrow> bool) \<Rightarrow> Thread list \<Rightarrow> int \<Rightarrow> Thread list \<times> int" where
  "spawn_loop 0 i created ts running = (ts, running)"
| "spawn_loop (Suc k) i created ts running =
     (let (success, t) = Thread_new (created i); ts' = ts[i := t]
      in if \<not> success then (ts', running) else spawn_loop k (Suc i) created ts' (running + 1))"

fun start_loop :: "nat \<Rightarrow> nat \<Rightarrow> Thread list \<Rightarrow> Thread list option" where
  "start_loop 0 i ts = Some ts"
| "start_loop (Suc k) i ts = do {
     t \<leftarrow> vec_at ts i;
     u \<leftarrow> Thread_Start t;
     start_loop k (Suc i) (ts[i := u]) }"

fun join_loop :: "nat \<Rightarrow> nat \<Rightarrow> Thread list \<Rightarrow> Thread list option" where
  "join_loop 0 i ts = Some ts"
| "join_loop (Suc k) i ts = do {
     t \<leftarrow> vec_at ts i;
     u \<leftarrow> Thread_Join t;
     join_loop k (Suc i) (ts[i := u]) }"

section \<open>Life cycle\<close>

text \<open>The invariant ties the state to the object and to the release flag.\<close>

definition thread_ok :: "Thread \<Rightarrow> bool" where
  "thread_ok t \<longleftrightarrow>
     (case t_impl t of
        None \<Rightarrow> t_state t \<in> {kNull, kFinish, kFailed}
      | Some impl \<Rightarrow> it_join_object impl \<and> t_state t \<in> {kAlive, kActive}
           \<and> it_started impl = (t_state t = kActive))"

lemma thread_ok_new: "thread_ok Thread_null" "thread_ok (snd (Thread_new c))"
  by (cases c; simp add: thread_ok_def Thread_null_def Thread_new_def InternalThreadImpl_new_def Let_def)+

lemma thread_ok_move:
  assumes "thread_ok t"
  shows "thread_ok (fst (Thread_move t))" "thread_ok (snd (Thread_move t))"
    "thread_ok (fst (Thread_move_assign same self t)) \<or> same"
  using assms by (auto simp: thread_ok_def Thread_move_def Thread_move_assign_def split: option.splits)

lemma Thread_Start_ok:
  assumes "thread_ok t" and "Thread_Start t = Some u"
  shows "thread_ok u" "t_state u = (if t_state t = kFailed then kFailed else kActive)"
  using assms by (auto simp: thread_ok_def Thread_Start_def InternalThreadImpl_Start_def
      split: option.splits if_splits)

lemma Thread_Join_ok:
  assumes "thread_ok t" and "t_state t \<in> {kAlive, kActive, kFailed}"
  shows "\<exists>u. Thread_Join t = Some u \<and> thread_ok u \<and> t_state u = (if t_state t = kFailed then kFailed else kFinish)"
  using assms by (auto simp: thread_ok_def Thread_Join_def InternalThreadImpl_Join_def
      InternalThreadImpl_Start_def split: option.splits)

text \<open>A group: the first \<open>n\<close> threads are all in one of the given states.\<close>

definition group_ok :: "thread_state set \<Rightarrow> nat \<Rightarrow> Thread list \<Rightarrow> bool" where
  "group_ok S n ts \<longleftrightarrow> n \<le> length ts \<and> (\<forall>i < n. thread_ok (ts ! i) \<and> t_state (ts ! i) \<in> S)"

lemma spawn_loop_ok:
  assumes "i + k = length ts" and "group_ok {kAlive} i ts"
  shows "\<exists>n. snd (spawn_loop k i created ts (int i)) = int n
           \<and> group_ok {kAlive} n (fst (spawn_loop k i created ts (int i)))
           \<and> length (fst (spawn_loop k i created ts (int i))) = length ts
           \<and> n = i + length (takeWhile created [i..<length ts])"
  using assms
proof (induction k arbitrary: i ts)
  case (Suc k)
  show ?case
  proof (cases "created i")
    case True
    obtain t where t: "Thread_new (created i) = (True, t)" "thread_ok t" "t_state t = kAlive"
      using True thread_ok_new(2) [of True] by (simp add: Thread_new_def InternalThreadImpl_new_def)
    have g: "group_ok {kAlive} (Suc i) (ts[i := t])"
      using Suc.prems t by (auto simp: group_ok_def nth_list_update less_Suc_eq)
    have up: "takeWhile created [i..<length ts] = i # takeWhile created [Suc i..<length ts]"
      using True Suc.prems(1) upt_conv_Cons [of i "length ts"] by simp
    from Suc.IH [of "Suc i" "ts[i := t]"] Suc.prems g t(1) up show ?thesis
      by (simp add: add.commute)
  next
    case False
    then have t: "Thread_new (created i) = (False, \<lparr>t_impl = None, t_state = kFailed\<rparr>)"
      by (simp add: Thread_new_def InternalThreadImpl_new_def)
    have "takeWhile created [i..<length ts] = []"
      using False Suc.prems(1) upt_conv_Cons [of i "length ts"] by simp
    with t Suc.prems show ?thesis
      by (intro exI [of _ i]) (auto simp: group_ok_def nth_list_update)
  qed
qed (auto simp: group_ok_def)

lemma start_loop_ok:
  assumes "\<forall>j. i \<le> j \<and> j < i + k \<longrightarrow> thread_ok (ts ! j) \<and> t_state (ts ! j) = kAlive"
    and "group_ok {kActive} i ts" and "i + k \<le> length ts"
  shows "\<exists>us. start_loop k i ts = Some us \<and> group_ok {kActive} (i + k) us \<and> length us = length ts"
  using assms
proof (induction k arbitrary: i ts)
  case (Suc k)
  then have "thread_ok (ts ! i)" "t_state (ts ! i) = kAlive" by auto
  then obtain u where u: "Thread_Start (ts ! i) = Some u" "thread_ok u" "t_state u = kActive"
    by (auto simp: Thread_Start_def thread_ok_def InternalThreadImpl_Start_def split: option.splits)
  have "group_ok {kActive} (Suc i) (ts[i := u])"
    using Suc.prems u by (auto simp: group_ok_def nth_list_update less_Suc_eq)
  with Suc.IH [of "Suc i" "ts[i := u]"] Suc.prems u show ?case
    by (auto simp: nth_list_update)
qed auto

lemma join_loop_ok:
  assumes "\<forall>j. i \<le> j \<and> j < i + k \<longrightarrow> thread_ok (ts ! j) \<and> t_state (ts ! j) \<in> {kAlive, kActive}"
    and "group_ok {kFinish} i ts" and "i + k \<le> length ts"
  shows "\<exists>us. join_loop k i ts = Some us \<and> group_ok {kFinish} (i + k) us \<and> length us = length ts"
  using assms
proof (induction k arbitrary: i ts)
  case (Suc k)
  then have ok: "thread_ok (ts ! i)" "t_state (ts ! i) \<in> {kAlive, kActive}" by auto
  then obtain u where u: "Thread_Join (ts ! i) = Some u" "thread_ok u" "t_state u = kFinish"
    using Thread_Join_ok [of "ts ! i"] by auto
  have "group_ok {kFinish} (Suc i) (ts[i := u])"
    using Suc.prems u by (auto simp: group_ok_def nth_list_update less_Suc_eq)
  with Suc.IH [of "Suc i" "ts[i := u]"] Suc.prems u show ?case
    by (auto simp: nth_list_update)
qed auto

text \<open>What an owner of thread objects does with one after creating it.\<close>

datatype thread_op = OpStart | OpJoin

fun thread_exec :: "thread_op \<Rightarrow> Thread \<Rightarrow> Thread option" where
  "thread_exec OpStart t = Thread_Start t"
| "thread_exec OpJoin t = Thread_Join t"

fun thread_run :: "thread_op list \<Rightarrow> Thread \<Rightarrow> Thread option" where
  "thread_run [] t = Some t"
| "thread_run (c # cs) t = do { u \<leftarrow> thread_exec c t; thread_run cs u }"

lemma thread_run_failed: "t_impl t = None \<Longrightarrow> t_state t = kFailed \<Longrightarrow> thread_run cs t = Some t"
proof (induction cs)
  case (Cons c cs)
  then show ?case by (cases c) (simp_all add: Thread_Start_def Thread_Join_def)
qed simp

text \<open>
  The life cycle of a thread object: after a successful creation the only calls that return are
  nothing, one \<open>Start\<close>, one \<open>Join\<close> and \<open>Start\<close> followed by \<open>Join\<close>; every other sequence hits an
  assertion. \<open>Join\<close> always returns, even when \<open>Start\<close> was never called, because it releases the
  thread first. After a failed creation every call returns and does nothing.
\<close>

theorem thread_life_cycle:
  "(thread_run cs (snd (Thread_new True)) \<noteq> None
      \<longleftrightarrow> cs \<in> {[], [OpStart], [OpJoin], [OpStart, OpJoin]})
   \<and> (\<exists>t. thread_run [OpJoin] (snd (Thread_new True)) = Some t \<and> t_state t = kFinish)
   \<and> thread_run cs (snd (Thread_new False)) = Some (snd (Thread_new False))"
proof -
  have fin: "thread_run cs t \<noteq> None \<longleftrightarrow> cs = []" if "t_impl t = None" "t_state t = kFinish" for cs t
  proof (cases cs)
    case (Cons c ds)
    with that show ?thesis by (cases c) (simp_all add: Thread_Start_def Thread_Join_def)
  qed simp
  have act: "thread_run cs t \<noteq> None \<longleftrightarrow> cs = [] \<or> cs = [OpJoin]"
    if "t_impl t = Some \<lparr>it_started = True, it_join_object = j\<rparr>" "t_state t = kActive" for cs t j
  proof (cases cs)
    case (Cons c ds)
    with that fin [of "t\<lparr>t_state := kFinish, t_impl := None\<rparr>" ds] show ?thesis
      by (cases c) (simp_all add: Thread_Start_def Thread_Join_def InternalThreadImpl_Join_def)
  qed simp
  let ?t = "\<lparr>t_impl = Some \<lparr>it_started = False, it_join_object = True\<rparr>, t_state = kAlive\<rparr>"
  have new: "snd (Thread_new True) = ?t"
    by (simp add: Thread_new_def InternalThreadImpl_new_def)
  have "thread_run cs ?t \<noteq> None \<longleftrightarrow> cs \<in> {[], [OpStart], [OpJoin], [OpStart, OpJoin]}"
  proof (cases cs)
    case (Cons c ds)
    have s: "Thread_Start ?t = Some \<lparr>t_impl = Some \<lparr>it_started = True, it_join_object = True\<rparr>, t_state = kActive\<rparr>"
      and j: "Thread_Join ?t = Some \<lparr>t_impl = None, t_state = kFinish\<rparr>"
      by (simp_all add: Thread_Start_def Thread_Join_def InternalThreadImpl_Start_def InternalThreadImpl_Join_def)
    show ?thesis
      using Cons s j act [of "the (Thread_Start ?t)" True ds] fin [of "the (Thread_Join ?t)" ds]
      by (cases c) auto
  qed simp
  moreover have "thread_run cs (snd (Thread_new False)) = Some (snd (Thread_new False))"
    by (rule thread_run_failed) (simp_all add: Thread_new_def InternalThreadImpl_new_def)
  ultimately show ?thesis
    by (simp add: new Thread_Join_def InternalThreadImpl_Join_def InternalThreadImpl_Start_def)
qed

end
