(* ===== verification/Polling.thy ===== *)
theory Polling
  imports Status Threads
begin

text \<open>
  \<open>Epoll\<close> and \<open>PollingThread\<close> (src/src/linux/epoll.cc, epoll_thread.cc): the threads that wait for
  socket events and hand each event to the receiver. The system calls are recorded as actions;
  their results are arguments. The receiver is a pair of functions on its own state, as the acceptor,
  the connector and the container implement it.
\<close>

unbundle bit_operations_syntax

section \<open>System calls and constants\<close>

datatype ctl_op = EPOLL_CTL_ADD | EPOLL_CTL_MOD | EPOLL_CTL_DEL

text \<open>The calls that change kernel state, in the order they are made.\<close>

datatype sys_act =
    EpollCtl int ctl_op int u64 u32
  | SysShutdown int
  | SysClose int

abbreviation "EPOLLIN \<equiv> (0x001 :: u32)"
abbreviation "EPOLLOUT \<equiv> (0x004 :: u32)"
abbreviation "EPOLLERR \<equiv> (0x008 :: u32)"
abbreviation "EPOLLHUP \<equiv> (0x010 :: u32)"
abbreviation "EPOLLRDHUP \<equiv> (0x2000 :: u32)"
abbreviation "EPOLLET \<equiv> (0x80000000 :: u32)"

definition kErrorEvent :: u32 where "kErrorEvent = 1"
definition kSendEvent :: u32 where "kSendEvent = 2"
definition kRecvEvent :: u32 where "kRecvEvent = 4"
definition kConnectEvent :: u32 where "kConnectEvent = 8"
definition kAcceptEvent :: u32 where "kAcceptEvent = 16"

section \<open>Epoll\<close>

text \<open>An \<open>epoll_event\<close> is its event mask and its data pointer.\<close>

type_synonym epoll_event = "u32 \<times> u64"

record Epoll =
  ep_fd :: int
  ep_events :: "epoll_event list"

definition MAX_EPOLL_EVENTS :: nat where
  "MAX_EPOLL_EVENTS = 256"

definition Epoll_new :: Epoll where
  "Epoll_new = \<lparr>ep_fd = - 1, ep_events = replicate MAX_EPOLL_EVENTS (0, 0)\<rparr>"

text \<open>\<open>fd\<close> and \<open>fcntl_ret\<close> are the results of \<open>epoll_create\<close> and \<open>fcntl\<close>.\<close>

definition Epoll_create :: "os_error \<Rightarrow> int \<Rightarrow> int \<Rightarrow> Epoll \<Rightarrow> raptor_error \<times> Epoll" where
  "Epoll_create os fd fcntl_ret e =
     (if ep_fd e > 0 then (RAPTOR_ERROR_NONE, e)
      else let e1 = e\<lparr>ep_fd := fd\<rparr> in
        if ep_fd e1 < 0 then (RAPTOR_POSIX_ERROR os ''epoll_create'', e1)
        else if fcntl_ret \<noteq> 0 then (RAPTOR_POSIX_ERROR os ''fcntl'', e1)
        else (RAPTOR_ERROR_NONE, e1))"

definition Epoll_shutdown :: "Epoll \<Rightarrow> sys_act list \<times> Epoll" where
  "Epoll_shutdown e = (if ep_fd e \<noteq> - 1 then ([SysClose (ep_fd e)], e\<lparr>ep_fd := - 1\<rparr>) else ([], e))"

definition Epoll_dtor :: "Epoll \<Rightarrow> sys_act list" where
  "Epoll_dtor e = (if ep_fd e \<noteq> - 1 then [SysClose (ep_fd e)] else [])"

definition Epoll_ctl :: "Epoll \<Rightarrow> int \<Rightarrow> epoll_event \<Rightarrow> ctl_op \<Rightarrow> sys_act" where
  "Epoll_ctl e fd ev cop = EpollCtl (ep_fd e) cop fd (snd ev) (fst ev)"

definition Epoll_add :: "Epoll \<Rightarrow> int \<Rightarrow> u64 \<Rightarrow> u32 \<Rightarrow> sys_act" where
  "Epoll_add e fd data events = Epoll_ctl e fd (events, data) EPOLL_CTL_ADD"

definition Epoll_modify :: "Epoll \<Rightarrow> int \<Rightarrow> u64 \<Rightarrow> u32 \<Rightarrow> sys_act" where
  "Epoll_modify e fd data events = Epoll_ctl e fd (events, data) EPOLL_CTL_MOD"

definition Epoll_remove :: "Epoll \<Rightarrow> int \<Rightarrow> u32 \<Rightarrow> sys_act" where
  "Epoll_remove e fd events = Epoll_ctl e fd (events, 0) EPOLL_CTL_DEL"

text \<open>\<open>epoll_wait\<close> overwrites the front of \<open>_events\<close> with the events it reports.\<close>

definition Epoll_polling :: "epoll_event list \<Rightarrow> Epoll \<Rightarrow> int \<times> Epoll" where
  "Epoll_polling reported e =
     (let evs = take MAX_EPOLL_EVENTS reported
      in (int (length evs), e\<lparr>ep_events := evs @ drop (length evs) (ep_events e)\<rparr>))"

definition Epoll_get_event :: "Epoll \<Rightarrow> nat \<Rightarrow> epoll_event option" where
  "Epoll_get_event e i = vec_at (ep_events e) i"

section \<open>PollingThread\<close>

record EventDetail =
  ed_ptr :: u64
  ed_event_type :: u32
  ed_error_code :: int

record PollingThread =
  pt_shutdown :: bool
  pt_enable_timeout_check :: bool
  pt_number_of_threads :: int
  pt_running_threads :: int
  pt_epoll :: Epoll
  pt_threads :: "Thread list"

definition PollingThread_new :: PollingThread where
  "PollingThread_new = \<lparr>pt_shutdown = True, pt_enable_timeout_check = False, pt_number_of_threads = 0,
     pt_running_threads = 0, pt_epoll = Epoll_new, pt_threads = []\<rparr>"

text \<open>The answers of the operating system during \<open>Init\<close>.\<close>

record poll_init_os =
  pio_err :: os_error
  pio_epoll_create :: int
  pio_fcntl :: int
  pio_thread :: "nat \<Rightarrow> bool"

definition PollingThread_Init ::
  "poll_init_os \<Rightarrow> int \<Rightarrow> PollingThread \<Rightarrow> raptor_error \<times> PollingThread" where
  "PollingThread_Init os threads p =
     (if \<not> pt_shutdown p then (RAPTOR_ERROR_NONE, p)
      else let (err, ep) = Epoll_create (pio_err os) (pio_epoll_create os) (pio_fcntl os) (pt_epoll p);
               p0 = p\<lparr>pt_epoll := ep\<rparr> in
        if err \<noteq> RAPTOR_ERROR_NONE then (err, p0)
        else let (ts, running) = spawn_loop (nat threads) 0 (pio_thread os)
                                   (replicate (nat threads) Thread_null) (pt_running_threads p0);
                 p1 = p0\<lparr>pt_shutdown := False, pt_number_of_threads := threads, pt_threads := ts,
                         pt_running_threads := running\<rparr> in
          if pt_running_threads p1 = 0
          then (MakeStatusFromStaticString ''PollingThread failed to create thread'', p1)
          else (RAPTOR_ERROR_NONE, p1))"

definition PollingThread_Start :: "PollingThread \<Rightarrow> (raptor_error \<times> PollingThread) option" where
  "PollingThread_Start p =
     (if pt_shutdown p
      then Some (MakeStatusFromStaticString ''PollingThread is not initialized'', p)
      else do {
        ts \<leftarrow> start_loop (nat (pt_running_threads p)) 0 (pt_threads p);
        Some (RAPTOR_ERROR_NONE, p\<lparr>pt_threads := ts\<rparr>) })"

definition PollingThread_Shutdown :: "PollingThread \<Rightarrow> (sys_act list \<times> PollingThread) option" where
  "PollingThread_Shutdown p =
     (if pt_shutdown p then Some ([], p)
      else do {
        let p1 = p\<lparr>pt_shutdown := True\<rparr>;
        _ \<leftarrow> join_loop (nat (pt_running_threads p1)) 0 (pt_threads p1);
        let (acts, ep) = Epoll_shutdown (pt_epoll p1);
        Some (acts, p1\<lparr>pt_threads := [], pt_epoll := ep\<rparr>) })"

definition PollingThread_EnableTimeoutCheck :: "bool \<Rightarrow> PollingThread \<Rightarrow> PollingThread" where
  "PollingThread_EnableTimeoutCheck b p = p\<lparr>pt_enable_timeout_check := b\<rparr>"

definition PollingThread_Add :: "PollingThread \<Rightarrow> int \<Rightarrow> u64 \<Rightarrow> u32 \<Rightarrow> sys_act" where
  "PollingThread_Add p fd data events = Epoll_add (pt_epoll p) fd data (events OR EPOLLRDHUP)"

definition PollingThread_Modify :: "PollingThread \<Rightarrow> int \<Rightarrow> u64 \<Rightarrow> u32 \<Rightarrow> sys_act" where
  "PollingThread_Modify p fd data events = Epoll_modify (pt_epoll p) fd data (events OR EPOLLRDHUP)"

definition PollingThread_Delete :: "PollingThread \<Rightarrow> int \<Rightarrow> u32 \<Rightarrow> sys_act" where
  "PollingThread_Delete p fd events = Epoll_remove (pt_epoll p) fd (events OR EPOLLRDHUP)"

text \<open>The body of the event loop: the detail handed to the receiver for one reported event.\<close>

definition event_detail :: "int \<Rightarrow> epoll_event \<Rightarrow> EventDetail" where
  "event_detail errno ev =
     (let events = fst ev; detail = \<lparr>ed_ptr = snd ev, ed_event_type = 0, ed_error_code = 0\<rparr> in
      if events AND EPOLLERR \<noteq> 0 \<or> events AND EPOLLHUP \<noteq> 0 \<or> events AND EPOLLRDHUP \<noteq> 0
      then detail\<lparr>ed_event_type := ed_event_type detail OR kErrorEvent, ed_error_code := errno\<rparr>
      else let d1 = (if events AND EPOLLIN \<noteq> 0
                     then detail\<lparr>ed_event_type := ed_event_type detail OR kRecvEvent\<rparr> else detail)
           in if events AND EPOLLOUT \<noteq> 0
              then d1\<lparr>ed_event_type := ed_event_type d1 OR kSendEvent\<rparr> else d1)"

fun event_loop ::
  "(EventDetail \<Rightarrow> 's \<Rightarrow> 's option) \<Rightarrow> int \<Rightarrow> Epoll \<Rightarrow> nat \<Rightarrow> nat \<Rightarrow> 's \<Rightarrow> 's option" where
  "event_loop on_event errno e 0 i s = Some s"
| "event_loop on_event errno e (Suc k) i s = do {
     ev \<leftarrow> Epoll_get_event e i;
     s1 \<leftarrow> on_event (event_detail errno ev) s;
     event_loop on_event errno e k (Suc i) s1 }"

text \<open>
  One round of \<open>DoWork\<close>: the value of \<open>_shutdown\<close> before it and after the wait, the clock, the
  result of \<open>epoll_wait\<close> (\<open>None\<close> an error) and \<open>errno\<close>. \<open>DoWork\<close> runs over the rounds.
\<close>

record poll_round =
  pr_down_before :: bool
  pr_time :: int
  pr_wait :: "epoll_event list option"
  pr_down_after :: bool
  pr_errno :: int

fun DoWork ::
  "(EventDetail \<Rightarrow> 's \<Rightarrow> 's option) \<Rightarrow> (int \<Rightarrow> 's \<Rightarrow> 's option) \<Rightarrow> bool \<Rightarrow> Epoll \<Rightarrow> poll_round list \<Rightarrow> 's \<Rightarrow> 's option" where
  "DoWork on_event on_timeout check e [] s = Some s"
| "DoWork on_event on_timeout check e (r # rs) s =
     (if pr_down_before r then Some s
      else do {
        s1 \<leftarrow> (if check then on_timeout (pr_time r) s else Some s);
        let (n, e1) = (case pr_wait r of None \<Rightarrow> (- 1, e) | Some evs \<Rightarrow> Epoll_polling evs e);
        if pr_down_after r then Some s1
        else if n \<le> 0 then DoWork on_event on_timeout check e1 rs s1
        else do {
          s2 \<leftarrow> event_loop on_event (pr_errno r) e1 (nat n) 0 s1;
          DoWork on_event on_timeout check e1 rs s2 } })"

section \<open>Every reported event is handed over\<close>

fun deliver :: "(EventDetail \<Rightarrow> 's \<Rightarrow> 's option) \<Rightarrow> EventDetail list \<Rightarrow> 's \<Rightarrow> 's option" where
  "deliver on_event [] s = Some s"
| "deliver on_event (d # ds) s = do { s1 \<leftarrow> on_event d s; deliver on_event ds s1 }"

lemma event_loop_deliver:
  "i + k \<le> length (ep_events e) \<Longrightarrow>
     event_loop on_event errno e k i s
       = deliver on_event (map (event_detail errno) (take k (drop i (ep_events e)))) s"
proof (induction k arbitrary: i s)
  case (Suc k)
  then have "drop i (ep_events e) = ep_events e ! i # drop (Suc i) (ep_events e)"
    by (simp add: Cons_nth_drop_Suc)
  moreover have "event_loop on_event errno e k (Suc i)
      = deliver on_event (map (event_detail errno) (take k (drop (Suc i) (ep_events e))))"
    using Suc by (intro ext) simp
  ultimately show ?case using Suc.prems by (simp add: Epoll_get_event_def vec_at_def)
qed simp

text \<open>What a round asks of the receiver: the timeout check, then the events in order.\<close>

definition round_spec ::
  "(EventDetail \<Rightarrow> 's \<Rightarrow> 's option) \<Rightarrow> (int \<Rightarrow> 's \<Rightarrow> 's option) \<Rightarrow> bool \<Rightarrow> poll_round \<Rightarrow> 's \<Rightarrow> 's option" where
  "round_spec on_event on_timeout check r s = do {
     s1 \<leftarrow> (if check then on_timeout (pr_time r) s else Some s);
     deliver on_event (map (event_detail (pr_errno r))
       (case pr_wait r of None \<Rightarrow> [] | Some evs \<Rightarrow> take MAX_EPOLL_EVENTS evs)) s1 }"

fun rounds_spec ::
  "(EventDetail \<Rightarrow> 's \<Rightarrow> 's option) \<Rightarrow> (int \<Rightarrow> 's \<Rightarrow> 's option) \<Rightarrow> bool \<Rightarrow> poll_round list \<Rightarrow> 's \<Rightarrow> 's option" where
  "rounds_spec on_event on_timeout check [] s = Some s"
| "rounds_spec on_event on_timeout check (r # rs) s = do {
     s1 \<leftarrow> round_spec on_event on_timeout check r s;
     rounds_spec on_event on_timeout check rs s1 }"

lemma length_Epoll_polling [simp]:
  "length (ep_events e) = MAX_EPOLL_EVENTS \<Longrightarrow> length (ep_events (snd (Epoll_polling evs e))) = MAX_EPOLL_EVENTS"
  by (simp add: Epoll_polling_def)

lemma event_loop_polling:
  assumes "length (ep_events e) = MAX_EPOLL_EVENTS" and "Epoll_polling evs e = (n, e1)"
  shows "event_loop on_event errno e1 (nat n) 0 s
    = deliver on_event (map (event_detail errno) (take MAX_EPOLL_EVENTS evs)) s"
proof -
  let ?evs = "take MAX_EPOLL_EVENTS evs"
  have e1: "e1 = e\<lparr>ep_events := ?evs @ drop (length ?evs) (ep_events e)\<rparr>" "nat n = length ?evs"
    using assms(2) by (auto simp: Epoll_polling_def)
  then have "0 + nat n \<le> length (ep_events e1)" by simp
  moreover have "take (min (length evs) MAX_EPOLL_EVENTS) evs = take MAX_EPOLL_EVENTS evs"
    by (simp add: min_def)
  ultimately show ?thesis using event_loop_deliver [of 0 "nat n" e1] e1 by simp
qed

lemma DoWork_rounds:
  assumes "length (ep_events e) = MAX_EPOLL_EVENTS"
    and "\<forall>r \<in> set rs. \<not> pr_down_before r \<and> \<not> pr_down_after r"
  shows "DoWork on_event on_timeout check e rs s = rounds_spec on_event on_timeout check rs s"
  using assms
proof (induction rs arbitrary: e s)
  case (Cons r rs)
  obtain n e1 where w: "(case pr_wait r of None \<Rightarrow> (- 1, e) | Some evs \<Rightarrow> Epoll_polling evs e) = (n, e1)"
    by fastforce
  have l: "length (ep_events e1) = MAX_EPOLL_EVENTS"
  proof (cases "pr_wait r")
    case None
    with w Cons.prems(1) show ?thesis by auto
  next
    case (Some evs)
    with w Cons.prems(1) length_Epoll_polling [of e evs] show ?thesis by simp
  qed
  define D where "D = map (event_detail (pr_errno r))
    (case pr_wait r of None \<Rightarrow> [] | Some evs \<Rightarrow> take MAX_EPOLL_EVENTS evs)"
  have ev: "event_loop on_event (pr_errno r) e1 (nat n) 0 s' = deliver on_event D s'" for s'
    using w event_loop_polling [OF Cons.prems(1)] by (cases "pr_wait r") (auto simp: D_def)
  have neg: "n \<le> 0 \<Longrightarrow> D = []"
    using w by (cases "pr_wait r") (auto simp: D_def Epoll_polling_def MAX_EPOLL_EVENTS_def min_def split: if_splits)
  have body: "(if n \<le> 0 then DoWork on_event on_timeout check e1 rs s'
      else do { s2 \<leftarrow> event_loop on_event (pr_errno r) e1 (nat n) 0 s';
                DoWork on_event on_timeout check e1 rs s2 })
    = do { s2 \<leftarrow> deliver on_event D s'; rounds_spec on_event on_timeout check rs s2 }" for s'
    using neg Cons.IH [OF l] Cons.prems(2) by (auto simp: ev)
  show ?case
    using Cons.prems(2)
    by (simp add: w body round_spec_def flip: D_def)
qed simp

section \<open>Life cycle\<close>

lemma PollingThread_Init_ok:
  assumes "pt_shutdown p" and "pt_running_threads p = 0"
    and "PollingThread_Init os threads p = (RAPTOR_ERROR_NONE, q)"
  shows "\<not> pt_shutdown q" and "0 < pt_running_threads q"
    and "group_ok {kAlive} (nat (pt_running_threads q)) (pt_threads q)"
    and "pt_running_threads q \<le> pt_number_of_threads q"
proof -
  obtain err ep where ep: "Epoll_create (pio_err os) (pio_epoll_create os) (pio_fcntl os) (pt_epoll p) = (err, ep)"
    by fastforce
  obtain ts running where sp: "spawn_loop (nat threads) 0 (pio_thread os)
      (replicate (nat threads) Thread_null) 0 = (ts, running)" by fastforce
  obtain n where n: "running = int n" "group_ok {kAlive} n ts" "length ts = nat threads"
    using spawn_loop_ok [of 0 "nat threads" "replicate (nat threads) Thread_null" "pio_thread os"] sp
    by (auto simp: group_ok_def)
  have "q = p\<lparr>pt_epoll := ep, pt_shutdown := False, pt_number_of_threads := threads, pt_threads := ts,
      pt_running_threads := running\<rparr>" and "running \<noteq> 0"
    using assms ep sp by (auto simp: PollingThread_Init_def Let_def split: if_splits)
  moreover have "n \<le> nat threads" using n by (simp add: group_ok_def)
  ultimately show "\<not> pt_shutdown q" "0 < pt_running_threads q"
    "group_ok {kAlive} (nat (pt_running_threads q)) (pt_threads q)"
    "pt_running_threads q \<le> pt_number_of_threads q"
    using n by auto
qed

text \<open>A running group whose threads are in one of the given states.\<close>

definition poll_ok :: "thread_state set \<Rightarrow> PollingThread \<Rightarrow> bool" where
  "poll_ok S p \<longleftrightarrow> \<not> pt_shutdown p \<and> group_ok S (nat (pt_running_threads p)) (pt_threads p)"

lemma PollingThread_Init_poll_ok:
  assumes "PollingThread_Init os n PollingThread_new = (RAPTOR_ERROR_NONE, p)"
  shows "poll_ok {kAlive} (PollingThread_EnableTimeoutCheck b p)"
  using PollingThread_Init_ok [OF _ _ assms]
  by (auto simp: poll_ok_def PollingThread_new_def PollingThread_EnableTimeoutCheck_def group_ok_def)

lemma start_group:
  assumes "group_ok {kAlive} n ts"
  shows "\<exists>us. start_loop n 0 ts = Some us \<and> group_ok {kActive} n us"
  using assms start_loop_ok [of 0 n ts] by (auto simp: group_ok_def)

lemma join_group:
  assumes "group_ok {kAlive, kActive} n ts"
  shows "\<exists>us. join_loop n 0 ts = Some us"
  using assms join_loop_ok [of 0 n ts] by (auto simp: group_ok_def)

lemma poll_Start_ok:
  assumes "poll_ok {kAlive} p"
  shows "\<exists>p'. PollingThread_Start p = Some (RAPTOR_ERROR_NONE, p') \<and> poll_ok {kActive} p'"
proof -
  from assms start_group obtain us where "start_loop (nat (pt_running_threads p)) 0 (pt_threads p) = Some us"
    "group_ok {kActive} (nat (pt_running_threads p)) us" unfolding poll_ok_def by blast
  with assms show ?thesis by (simp add: PollingThread_Start_def poll_ok_def)
qed

lemma poll_Shutdown_ok:
  assumes "poll_ok {kAlive, kActive} p"
  shows "\<exists>acts p'. PollingThread_Shutdown p = Some (acts, p') \<and> pt_shutdown p'"
proof -
  from assms join_group obtain us where "join_loop (nat (pt_running_threads p)) 0 (pt_threads p) = Some us"
    unfolding poll_ok_def by blast
  with assms show ?thesis by (auto simp: PollingThread_Shutdown_def poll_ok_def Let_def case_prod_beta)
qed

text \<open>A polling thread and the descriptor it owns: whatever became of \<open>Init\<close>, destroying the object
  joins its threads and closes the descriptor, if one was opened.\<close>

definition poll_own :: "PollingThread \<Rightarrow> bool" where
  "poll_own p \<longleftrightarrow> (pt_shutdown p \<or> poll_ok {kAlive, kActive} p) \<and> - 1 \<le> ep_fd (pt_epoll p)"

definition poll_fds :: "PollingThread \<Rightarrow> int list" where
  "poll_fds p = (if ep_fd (pt_epoll p) < 0 then [] else [ep_fd (pt_epoll p)])"

definition PollingThread_dtor :: "PollingThread \<Rightarrow> sys_act list option" where
  "PollingThread_dtor p = do { (acts, p) \<leftarrow> PollingThread_Shutdown p; Some (acts @ Epoll_dtor (pt_epoll p)) }"

lemma poll_Shutdown_own:
  assumes "poll_ok {kAlive, kActive} p" and "poll_own p"
  shows "\<exists>p'. PollingThread_Shutdown p = Some (map SysClose (poll_fds p), p') \<and> poll_own p' \<and> pt_shutdown p' \<and> poll_fds p' = []"
proof -
  from assms join_group obtain us where "join_loop (nat (pt_running_threads p)) 0 (pt_threads p) = Some us"
    unfolding poll_ok_def by blast
  with assms show ?thesis
    by (auto simp: PollingThread_Shutdown_def poll_ok_def poll_own_def poll_fds_def Epoll_shutdown_def)
qed

lemma poll_dtor_own: "poll_own p \<Longrightarrow> PollingThread_dtor p = Some (map SysClose (poll_fds p))"
proof (cases "pt_shutdown p")
  case True
  assume "poll_own p"
  with True show ?thesis
    by (auto simp: PollingThread_dtor_def PollingThread_Shutdown_def Epoll_dtor_def poll_fds_def poll_own_def)
next
  case False
  assume own: "poll_own p"
  with False have "poll_ok {kAlive, kActive} p" by (simp add: poll_own_def)
  from poll_Shutdown_own [OF this own] obtain p' where p': "PollingThread_Shutdown p = Some (map SysClose (poll_fds p), p')"
    "poll_own p'" "poll_fds p' = []" by blast
  then have "ep_fd (pt_epoll p') = - 1" by (auto simp: poll_own_def poll_fds_def split: if_splits)
  with p' show ?thesis unfolding PollingThread_dtor_def p'(1) by (simp add: Epoll_dtor_def)
qed

lemma PollingThread_Init_own:
  assumes "PollingThread_Init os n PollingThread_new = (e, p)" and "- 1 \<le> pio_epoll_create os"
  shows "poll_own p" and "e = RAPTOR_ERROR_NONE \<Longrightarrow> poll_ok {kAlive} p"
proof -
  obtain ts running where sp: "spawn_loop (nat n) 0 (pio_thread os) (replicate (nat n) Thread_null) 0 = (ts, running)" by fastforce
  obtain k where k: "running = int k" "group_ok {kAlive} k ts"
    using spawn_loop_ok [of 0 "nat n" "replicate (nat n) Thread_null" "pio_thread os"] sp by (auto simp: group_ok_def)
  have g: "group_ok {kAlive, kActive} k ts" using k(2) by (auto simp: group_ok_def)
  show "poll_own p" "e = RAPTOR_ERROR_NONE \<Longrightarrow> poll_ok {kAlive} p"
    using assms sp k g
    by (auto simp: PollingThread_Init_def PollingThread_new_def Epoll_create_def Epoll_new_def Let_def poll_own_def
        poll_ok_def simp del: not_None_eq split: if_splits)
qed

lemma start_loop_keeps:
  "start_loop k i ts = Some us \<Longrightarrow> group_ok {kAlive, kActive} n ts \<Longrightarrow> group_ok {kAlive, kActive} n us"
proof (induction k arbitrary: i ts)
  case (Suc k)
  then obtain u where u: "i < length ts" "Thread_Start (ts ! i) = Some u" "start_loop k (Suc i) (ts[i := u]) = Some us"
    by (auto simp: vec_at_def split: if_splits)
  have "thread_ok (ts ! i) \<and> t_state (ts ! i) \<in> {kAlive, kActive} \<Longrightarrow> thread_ok u \<and> t_state u \<in> {kAlive, kActive}"
    using u(2) by (auto simp: Thread_Start_def thread_ok_def InternalThreadImpl_Start_def split: option.splits if_splits)
  then have "group_ok {kAlive, kActive} n (ts[i := u])" using Suc.prems(2) u(1) by (auto simp: group_ok_def nth_list_update)
  with Suc.IH u(3) show ?case by blast
qed simp

lemma poll_Start_keeps:
  assumes "PollingThread_Start p = Some (e, q)" and "poll_own p"
  shows "poll_own q \<and> poll_fds q = poll_fds p \<and> pt_epoll q = pt_epoll p \<and> (poll_ok {kAlive, kActive} p \<longrightarrow> poll_ok {kAlive, kActive} q)"
  using assms start_loop_keeps
  by (auto simp: PollingThread_Start_def poll_own_def poll_ok_def poll_fds_def split: if_splits)

section \<open>Several threads on one Epoll\<close>

text \<open>
  \<open>PollingThread::Init\<close> may start several threads, and they all poll the same \<open>_epoll\<close> object, whose
  array \<open>_events\<close> they share. One step is one \<open>epoll_wait\<close> of a thread, or one event handled.
  \<open>ms_pos t\<close> is thread \<open>t\<close>'s loop variable and bound, \<open>None\<close> while it is about to wait.
\<close>

record multi_poll =
  ms_epoll :: Epoll
  ms_pos :: "nat \<Rightarrow> (nat \<times> nat) option"
  ms_reported :: "epoll_event list"
  ms_handled :: "epoll_event list"

definition multi_init :: multi_poll where
  "multi_init = \<lparr>ms_epoll = Epoll_new, ms_pos = (\<lambda>_. None), ms_reported = [], ms_handled = []\<rparr>"

inductive multi_step :: "nat \<Rightarrow> multi_poll \<Rightarrow> multi_poll \<Rightarrow> bool" for threads where
  wait: "t < threads \<Longrightarrow> ms_pos s t = None \<Longrightarrow> evs \<noteq> [] \<Longrightarrow> length evs \<le> MAX_EPOLL_EVENTS \<Longrightarrow>
     multi_step threads s (s\<lparr>ms_epoll := snd (Epoll_polling evs (ms_epoll s)),
        ms_pos := (ms_pos s)(t \<mapsto> (0, length evs)), ms_reported := ms_reported s @ evs\<rparr>)"
| handle: "t < threads \<Longrightarrow> ms_pos s t = Some (i, n) \<Longrightarrow> i < n \<Longrightarrow> Epoll_get_event (ms_epoll s) i = Some ev \<Longrightarrow>
     multi_step threads s (s\<lparr>ms_pos := (ms_pos s)(t := (if Suc i < n then Some (Suc i, n) else None)),
        ms_handled := ms_handled s @ [ev]\<rparr>)"

definition single_inv :: "multi_poll \<Rightarrow> bool" where
  "single_inv s \<longleftrightarrow> length (ep_events (ms_epoll s)) = MAX_EPOLL_EVENTS \<and>
     (case ms_pos s 0 of
        None \<Rightarrow> ms_handled s = ms_reported s
      | Some (i, n) \<Rightarrow> i < n \<and> n \<le> MAX_EPOLL_EVENTS
          \<and> ms_reported s = ms_handled s @ drop i (take n (ep_events (ms_epoll s))))"

lemma single_step_inv: "multi_step 1 s t \<Longrightarrow> single_inv s \<Longrightarrow> single_inv t"
proof (induction rule: multi_step.induct)
  case (wait t s evs)
  then show ?case by (auto simp: single_inv_def Epoll_polling_def)
next
  case (handle t s i n ev)
  then have t: "t = 0" and ev: "ev = ep_events (ms_epoll s) ! i"
    and inv: "i < n" "n \<le> MAX_EPOLL_EVENTS" "length (ep_events (ms_epoll s)) = MAX_EPOLL_EVENTS"
    "ms_reported s = ms_handled s @ drop i (take n (ep_events (ms_epoll s)))"
    by (auto simp: single_inv_def Epoll_get_event_def)
  have "drop i (take n (ep_events (ms_epoll s))) = ev # drop (Suc i) (take n (ep_events (ms_epoll s)))"
    using inv ev by (subst Cons_nth_drop_Suc [symmetric]) auto
  with t inv show ?case by (auto simp: single_inv_def)
qed

lemma single_reach_inv: "(multi_step 1)\<^sup>*\<^sup>* multi_init s \<Longrightarrow> single_inv s"
proof (induction rule: rtranclp_induct)
  case base
  show ?case by (simp add: single_inv_def multi_init_def Epoll_new_def)
next
  case (step s t)
  then show ?case using single_step_inv by blast
qed

section \<open>Properties\<close>



text \<open>
  With one thread per \<open>Epoll\<close>, at every moment the events handled so far are a prefix of the events
  reported so far, and when the thread is about to wait again they are all of them.
\<close>

theorem single_poller_handles_all:
  assumes "(multi_step 1)\<^sup>*\<^sup>* multi_init s"
  shows "(\<exists>rest. ms_reported s = ms_handled s @ rest) \<and> (ms_pos s 0 = None \<longrightarrow> ms_handled s = ms_reported s)"
  using single_reach_inv [OF assms] by (auto simp: single_inv_def split: option.splits)

theorem single_poller_handles_all_witness:
  "\<exists>s. (multi_step 1)\<^sup>*\<^sup>* multi_init s \<and> ms_reported s = [(1, 42)] \<and> (\<exists>rest. ms_reported s = ms_handled s @ rest)"
proof -
  let ?s = "multi_init\<lparr>ms_epoll := snd (Epoll_polling [(1, 42)] (ms_epoll multi_init)),
        ms_pos := (ms_pos multi_init)(0 \<mapsto> (0, length [(1 :: u32, 42 :: u64)])),
        ms_reported := ms_reported multi_init @ [(1, 42)]\<rparr>"
  have "multi_step 1 multi_init ?s"
    by (rule wait) (simp_all add: multi_init_def MAX_EPOLL_EVENTS_def)
  then have r: "(multi_step 1)\<^sup>*\<^sup>* multi_init ?s" by (rule r_into_rtranclp)
  from single_poller_handles_all [OF r] have "\<exists>rest. ms_reported ?s = ms_handled ?s @ rest" by (rule conjunct1)
  with r show ?thesis by (intro exI [of _ ?s]) (simp add: multi_init_def)
qed

text \<open>
  With two threads the array is overwritten under the other thread's loop: there is a run after
  which both threads wait again, one event was handled twice and another one, reported by
  \<open>epoll_wait\<close>, was never handed to the receiver. The sockets are registered edge-triggered, so it is
  not reported again.
\<close>

theorem shared_event_array_loses_event:
  "\<exists>s. (multi_step 2)\<^sup>*\<^sup>* multi_init s \<and> ms_pos s 0 = None \<and> ms_pos s 1 = None
     \<and> ms_reported s = [(EPOLLIN, 1), (EPOLLIN, 2)] \<and> ms_handled s = [(EPOLLIN, 2), (EPOLLIN, 2)]"
proof -
  define s1 where "s1 = multi_init\<lparr>ms_epoll := snd (Epoll_polling [(EPOLLIN, 1)] (ms_epoll multi_init)),
     ms_pos := (ms_pos multi_init)(0 \<mapsto> (0, length [(EPOLLIN, 1 :: u64)])),
     ms_reported := ms_reported multi_init @ [(EPOLLIN, 1)]\<rparr>"
  define s2 where "s2 = s1\<lparr>ms_epoll := snd (Epoll_polling [(EPOLLIN, 2)] (ms_epoll s1)),
     ms_pos := (ms_pos s1)(1 \<mapsto> (0, length [(EPOLLIN, 2 :: u64)])),
     ms_reported := ms_reported s1 @ [(EPOLLIN, 2)]\<rparr>"
  define s3 where "s3 = s2\<lparr>ms_pos := (ms_pos s2)(0 := (if Suc 0 < 1 then Some (Suc 0, 1) else None)),
     ms_handled := ms_handled s2 @ [(EPOLLIN, 2)]\<rparr>"
  define s4 where "s4 = s3\<lparr>ms_pos := (ms_pos s3)(1 := (if Suc 0 < 1 then Some (Suc 0, 1) else None)),
     ms_handled := ms_handled s3 @ [(EPOLLIN, 2)]\<rparr>"
  note defs = s1_def s2_def s3_def s4_def multi_init_def Epoll_polling_def Epoll_get_event_def
    Epoll_new_def MAX_EPOLL_EVENTS_def
  have "multi_step 2 multi_init s1" unfolding s1_def
    by (rule wait) (simp_all add: multi_init_def MAX_EPOLL_EVENTS_def)
  moreover have "multi_step 2 s1 s2" unfolding s2_def
    by (rule wait) (simp_all add: s1_def multi_init_def MAX_EPOLL_EVENTS_def)
  moreover have "multi_step 2 s2 s3" unfolding s3_def by (rule handle) (simp_all add: defs)
  moreover have "multi_step 2 s3 s4" unfolding s4_def by (rule handle) (simp_all add: defs)
  ultimately have "(multi_step 2)\<^sup>*\<^sup>* multi_init s4"
    by (iprover intro: converse_rtranclp_into_rtranclp rtranclp.rtrancl_refl)
  then show ?thesis by (intro exI [of _ s4]) (simp add: defs)
qed

text \<open>
  The life of a polling thread group: after a successful \<open>Init\<close> of a fresh object, \<open>Start\<close> returns
  no error, \<open>Shutdown\<close> then joins every thread and closes the epoll descriptor exactly once, and a
  second \<open>Shutdown\<close> does nothing.
\<close>

theorem polling_thread_life_cycle:
  assumes "PollingThread_Init os threads PollingThread_new = (RAPTOR_ERROR_NONE, p)"
  shows "\<exists>p1 p2. PollingThread_Start p = Some (RAPTOR_ERROR_NONE, p1)
     \<and> PollingThread_Shutdown p1 = Some ([SysClose (pio_epoll_create os)], p2)
     \<and> PollingThread_Shutdown p2 = Some ([], p2)"
proof -
  note ok = PollingThread_Init_ok [OF _ _ assms]
  have ok': "\<not> pt_shutdown p" "0 < pt_running_threads p"
    "group_ok {kAlive} (nat (pt_running_threads p)) (pt_threads p)"
    using ok by (simp_all add: PollingThread_new_def)
  have fd: "ep_fd (pt_epoll p) = pio_epoll_create os" "0 \<le> pio_epoll_create os"
    using assms by (auto simp: PollingThread_Init_def PollingThread_new_def Epoll_create_def Epoll_new_def
        Let_def split: if_splits prod.splits)
  from ok'(3) obtain ts where ts: "start_loop (nat (pt_running_threads p)) 0 (pt_threads p) = Some ts"
    "group_ok {kActive} (nat (pt_running_threads p)) ts"
    using start_loop_ok [of 0 "nat (pt_running_threads p)" "pt_threads p"] by (auto simp: group_ok_def)
  from ts(2) obtain us where us: "join_loop (nat (pt_running_threads p)) 0 ts = Some us"
    using join_loop_ok [of 0 "nat (pt_running_threads p)" ts] by (auto simp: group_ok_def)
  from ts us ok' fd show ?thesis
    by (simp add: PollingThread_Start_def PollingThread_Shutdown_def Epoll_shutdown_def)
qed

theorem polling_thread_life_cycle_witness:
  "\<exists>p p1 p2. PollingThread_Init \<lparr>pio_err = \<lparr>os_errno = 0, os_strerror = (\<lambda>_. [])\<rparr>, pio_epoll_create = 5,
       pio_fcntl = 0, pio_thread = (\<lambda>i. i < 1)\<rparr> 2 PollingThread_new = (RAPTOR_ERROR_NONE, p)
     \<and> PollingThread_Start p = Some (RAPTOR_ERROR_NONE, p1)
     \<and> PollingThread_Shutdown p1 = Some ([SysClose 5], p2)"
proof -
  let ?os = "\<lparr>pio_err = \<lparr>os_errno = 0, os_strerror = (\<lambda>_. [])\<rparr>, pio_epoll_create = 5,
       pio_fcntl = 0, pio_thread = (\<lambda>i. i < 1)\<rparr>"
  obtain p where p: "PollingThread_Init ?os 2 PollingThread_new = (RAPTOR_ERROR_NONE, p)"
    by (simp add: PollingThread_Init_def PollingThread_new_def Epoll_create_def Epoll_new_def
        Thread_new_def InternalThreadImpl_new_def numeral_2_eq_2)
  from polling_thread_life_cycle [OF this] p show ?thesis by auto
qed

end
