(* ===== verification/HostPort.thy ===== *)
theory HostPort
  imports Text
begin

text \<open>
  \<open>StringView\<close> (src/src/utils/string_view.h) and the host:port functions of
  src/src/common/host_port.cc. The main result is that \<open>SplitHostPort\<close> inverts
  \<open>JoinHostPort\<close>, for host names, IPv4 and IPv6 addresses.
\<close>

section \<open>StringView\<close>

text \<open>
  A view is a pointer and a length. The pointer is the memory it points to, which reaches at least
  to the end of the view and, for a view made from a C string, one NUL further; \<open>None\<close> is null.
\<close>

record StringView =
  sv_ptr :: "string option"
  sv_size :: size_t

definition SV_npos :: size_t where
  "SV_npos = size_lim - 1"

definition SV_new :: "string option \<Rightarrow> size_t \<Rightarrow> StringView" where
  "SV_new ptr n = \<lparr>sv_ptr = ptr, sv_size = n\<rparr>"

definition SV_of_cstr :: "string option \<Rightarrow> StringView" where
  "SV_of_cstr ptr = SV_new (map_option (\<lambda>s. s @ [CHR 0x00]) ptr)
                           (case ptr of None \<Rightarrow> 0 | Some s \<Rightarrow> length s)"

definition SV_null :: StringView where
  "SV_null = SV_new None 0"

definition SV_empty :: "StringView \<Rightarrow> bool" where
  "SV_empty v \<longleftrightarrow> sv_size v = 0"

definition SV_substr :: "StringView \<Rightarrow> size_t \<Rightarrow> size_t \<Rightarrow> StringView" where
  "SV_substr v start n =
     SV_new (map_option (drop start) (sv_ptr v)) (min n (sz_sub (sv_size v) start))"

text \<open>\<open>operator[]\<close> reads the memory; past its end or through null it is undefined.\<close>

definition SV_at :: "StringView \<Rightarrow> size_t \<Rightarrow> char option" where
  "SV_at v i = do { mem \<leftarrow> sv_ptr v; vec_at mem i }"

definition SV_front :: "StringView \<Rightarrow> char option" where
  "SV_front v = SV_at v 0"

definition SV_back :: "StringView \<Rightarrow> char option" where
  "SV_back v = SV_at v (sz_sub (sv_size v) 1)"

definition SV_remove_prefix :: "StringView \<Rightarrow> size_t \<Rightarrow> StringView" where
  "SV_remove_prefix v n = SV_new (map_option (drop n) (sv_ptr v)) (sz_sub (sv_size v) n)"

definition SV_remove_suffix :: "StringView \<Rightarrow> size_t \<Rightarrow> StringView" where
  "SV_remove_suffix v n = v\<lparr>sv_size := sz_sub (sv_size v) n\<rparr>"

fun index_of :: "char \<Rightarrow> string \<Rightarrow> nat option" where
  "index_of c [] = None"
| "index_of c (d # ds) = (if c = d then Some 0 else map_option Suc (index_of c ds))"

definition SV_find :: "StringView \<Rightarrow> char \<Rightarrow> size_t \<Rightarrow> size_t option" where
  "SV_find v c pos =
     (if SV_empty v \<or> pos \<ge> sv_size v then Some SV_npos
      else do {
        mem \<leftarrow> sv_ptr v;
        case index_of c (take (sv_size v - pos) (drop pos mem)) of
          Some k \<Rightarrow> Some (pos + k)
        | None \<Rightarrow> Some SV_npos })"

text \<open>The characters the view shows.\<close>

definition sv_str :: "StringView \<Rightarrow> string" where
  "sv_str v = (case sv_ptr v of None \<Rightarrow> [] | Some mem \<Rightarrow> take (sv_size v) mem)"

definition SV_to_string :: "StringView \<Rightarrow> string" where
  "SV_to_string v = (case sv_ptr v of None \<Rightarrow> [] | Some mem \<Rightarrow> take (sv_size v) mem)"

definition strncmp_eq :: "string \<Rightarrow> string \<Rightarrow> nat \<Rightarrow> bool" where
  "strncmp_eq a b n \<longleftrightarrow> c_str (take n a) = c_str (take n b)"

definition SV_eq :: "StringView \<Rightarrow> StringView \<Rightarrow> bool option" where
  "SV_eq lhs rhs =
     (if sv_size lhs \<noteq> sv_size rhs then Some False
      else do { a \<leftarrow> sv_ptr lhs; b \<leftarrow> sv_ptr rhs; Some (strncmp_eq a b (sv_size lhs)) })"

definition StringViewToCString :: "StringView \<Rightarrow> string option" where
  "StringViewToCString sv =
     (if sv_size sv > 0 then do {
        mem \<leftarrow> sv_ptr sv;
        if sv_size sv \<le> length mem then Some (take (sv_size sv) mem) else None }
      else Some [])"

section \<open>Host and port\<close>

definition JoinHostPort :: "string \<Rightarrow> int \<Rightarrow> int \<times> string option" where
  "JoinHostPort host port =
     (if (case host of [] \<Rightarrow> True | c # _ \<Rightarrow> c \<noteq> CHR ''['') \<and> CHR '':'' \<in> set host
      then raptor_asprintf (Some (''['' @ host @ '']:'' @ dec_int port)) True
      else raptor_asprintf (Some (host @ '':'' @ dec_int port)) True)"

text \<open>The end of the bracketed branch, after \<open>*port\<close> and \<open>*has_port\<close> are set.\<close>

definition split_bracketed ::
  "StringView \<Rightarrow> size_t \<Rightarrow> StringView \<Rightarrow> bool \<Rightarrow> (bool \<times> StringView \<times> StringView \<times> bool) option" where
  "split_bracketed name rbracket port has_port = do {
     let host = SV_substr name 1 (sz_sub rbracket 1);
     k \<leftarrow> SV_find host (CHR '':'') 0;
     if k = SV_npos then Some (False, SV_null, port, has_port)
     else Some (True, host, port, has_port) }"

text \<open>The result of \<open>DoSplitHostPort\<close>: the return value, \<open>*host\<close>, \<open>*port\<close> and \<open>*has_port\<close>.\<close>

definition DoSplitHostPort ::
  "StringView \<Rightarrow> StringView \<Rightarrow> StringView \<Rightarrow> (bool \<times> StringView \<times> StringView \<times> bool) option" where
  "DoSplitHostPort name host port = do {
     c0 \<leftarrow> SV_at name 0;
     if c0 = CHR ''['' then do {
       rbracket \<leftarrow> SV_find name (CHR '']'') 1;
       if rbracket = SV_npos then Some (False, host, port, False)
       else do {
         next \<leftarrow> (if rbracket = sz_sub (sv_size name) 1 then Some None
                  else map_option Some (SV_at name (rbracket + 1)));
         case next of
           None \<Rightarrow> split_bracketed name rbracket SV_null False
         | Some c \<Rightarrow>
             if c = CHR '':'' then
               split_bracketed name rbracket
                 (SV_substr name (rbracket + 2) (sz_sub (sz_sub (sv_size name) rbracket) 2)) True
             else Some (False, host, port, False) } }
     else do {
       colon \<leftarrow> SV_find name (CHR '':'') 0;
       colon2 \<leftarrow> (if colon \<noteq> SV_npos then SV_find name (CHR '':'') (colon + 1) else Some 0);
       if colon \<noteq> SV_npos \<and> colon2 = SV_npos then
         Some (True, SV_substr name 0 colon,
               SV_substr name (colon + 1) (sz_sub (sz_sub (sv_size name) colon) 1), True)
       else Some (True, name, SV_null, False) } }"


definition SplitHostPort :: "StringView \<Rightarrow> (bool \<times> StringView \<times> StringView) option" where
  "SplitHostPort name = do {
     (ret, host, port, _) \<leftarrow> DoSplitHostPort name SV_null SV_null;
     Some (ret, host, port) }"

text \<open>The variant with allocated C strings; \<open>None\<close> inside the result is a null pointer.\<close>

definition SplitHostPort_alloc ::
  "StringView \<Rightarrow> string option \<Rightarrow> string option \<Rightarrow> (bool \<times> string option \<times> string option) option" where
  "SplitHostPort_alloc name host port = do {
     (ret, host_view, port_view, has_port) \<leftarrow> DoSplitHostPort name SV_null SV_null;
     if ret then do {
       h \<leftarrow> StringViewToCString host_view;
       p \<leftarrow> (if has_port then map_option Some (StringViewToCString port_view) else Some port);
       Some (ret, Some h, p) }
     else Some (ret, host, port) }"

section \<open>Searching\<close>

lemma index_of_None: "index_of c s = None \<longleftrightarrow> c \<notin> set s"
  by (induction s) auto

lemma index_of_SomeD: "index_of c s = Some k \<Longrightarrow> c \<in> set s"
  by (metis index_of_None option.distinct(1))

lemma index_of_absent [simp]: "c \<notin> set s \<Longrightarrow> index_of c s = None"
  by (simp add: index_of_None)

lemma index_of_append [simp]: "c \<notin> set s \<Longrightarrow> index_of c (s @ c # t) = Some (length s)"
  by (induction s) auto

lemma index_of_bound: "index_of c s = Some k \<Longrightarrow> k < length s"
  by (induction s arbitrary: k) (auto split: if_splits)

text \<open>A view onto \<open>s\<close>, followed in memory by \<open>t\<close>.\<close>

definition view :: "string \<Rightarrow> string \<Rightarrow> StringView" where
  "view s t = SV_new (Some (s @ t)) (length s)"

lemma SV_of_cstr_view: "SV_of_cstr (Some s) = view s [CHR 0x00]"
  by (simp add: SV_of_cstr_def view_def)

lemma sv_str_view [simp]: "sv_str (view s t) = s"
  by (simp add: sv_str_def view_def SV_new_def)

lemma StringViewToCString_view [simp]: "StringViewToCString (view s t) = Some s"
  by (simp add: StringViewToCString_def view_def SV_new_def)

lemma SV_at_view: "i < length s + length t \<Longrightarrow> SV_at (view s t) i = Some ((s @ t) ! i)"
  by (simp add: SV_at_def view_def SV_new_def)

lemma SV_substr_view:
  "length (a @ b @ c) < size_lim \<Longrightarrow> SV_substr (view (a @ b @ c) t) (length a) (length b) = view b (c @ t)"
  by (simp add: SV_substr_def view_def SV_new_def sz_simps)

lemma SV_find_view:
  assumes "pos \<le> length s"
  shows "SV_find (view s t) c pos =
    Some (case index_of c (drop pos s) of None \<Rightarrow> SV_npos | Some k \<Rightarrow> pos + k)"
  using assms by (cases "index_of c (drop pos s)")
    (auto simp: SV_find_def view_def SV_new_def SV_empty_def dest: index_of_SomeD)

lemma SV_find_present:
  assumes "c \<notin> set a"
  shows "SV_find (view (p @ a @ c # b) t) c (length p) = Some (length p + length a)"
  using SV_find_view [of "length p" "p @ a @ c # b" t c] assms by simp

lemma SV_find_absent:
  assumes "c \<notin> set a"
  shows "SV_find (view (p @ a) t) c (length p) = Some SV_npos"
  using SV_find_view [of "length p" "p @ a" t c] assms by (cases "index_of c a") (auto dest: index_of_SomeD)

section \<open>Splitting what was joined\<close>

lemma split_plain:
  assumes h: "CHR '':'' \<notin> set h" and p: "CHR '':'' \<notin> set p" and hd: "h = [] \<or> hd h \<noteq> CHR ''[''"
    and len: "length h + length p + 1 < SV_npos"
  shows "DoSplitHostPort (view (h @ '':'' @ p) t) ho po
     = Some (True, view h ('':'' @ p @ t), view p t, True)"
proof -
  let ?n = "view (h @ '':'' @ p) t"
  have at0: "SV_at ?n 0 = Some ((h @ '':'' @ p) ! 0)" by (subst SV_at_view) (auto simp: nth_append)
  have c0: "(h @ '':'' @ p) ! 0 \<noteq> CHR ''[''" using hd by (cases h) auto
  have f1: "SV_find ?n (CHR '':'') 0 = Some (length h)"
    using SV_find_present [OF h, of "[]" p t] by simp
  have f2: "SV_find ?n (CHR '':'') (length h + 1) = Some SV_npos"
    using SV_find_absent [OF p, of "h @ '':''" t] by simp
  have s1: "SV_substr ?n 0 (length h) = view h ('':'' @ p @ t)"
    using SV_substr_view [of "[]" h "'':'' @ p" t] len by (simp add: SV_npos_def)
  have s2: "SV_substr ?n (length h + 1) (length p) = view p t"
    using SV_substr_view [of "h @ '':''" p "[]" t] len by (simp add: SV_npos_def)
  have z: "sz_sub (sz_sub (sv_size ?n) (length h)) 1 = length p"
    using len by (simp add: view_def SV_new_def sz_simps SV_npos_def)
  show ?thesis
    using len unfolding DoSplitHostPort_def at0 f1 
    by (simp add: c0 [simplified] f2 [simplified] s1 [simplified] s2 [simplified] z [simplified])
qed

text \<open>The bracketed branch up to the check of the host, with a port behind the bracket.\<close>

lemma split_bracket_port:
  assumes b: "CHR '']'' \<notin> set h" and len: "length h + length p + 3 < SV_npos"
  shows "DoSplitHostPort (view (''['' @ h @ '']:'' @ p) t) ho po
     = (if CHR '':'' \<in> set h then Some (True, view h ('']:'' @ p @ t), view p t, True)
        else Some (False, SV_null, view p t, True))"
proof -
  let ?n = "view (''['' @ h @ '']:'' @ p) t"
  have at0: "SV_at ?n 0 = Some (CHR ''['')" by (subst SV_at_view) auto
  have rb: "SV_find ?n (CHR '']'') 1 = Some (length h + 1)"
    using SV_find_present [OF b, of "''[''" "'':'' @ p" t] by simp
  have at1: "SV_at ?n (length h + 2) = Some (CHR '':'')"
    by (subst SV_at_view) (simp_all add: nth_append)
  have s1: "SV_substr ?n 1 (length h) = view h ('']:'' @ p @ t)"
    using SV_substr_view [of "''[''" h "'']:'' @ p" t] len by (simp add: SV_npos_def)
  have s2: "SV_substr ?n (Suc (Suc (Suc (length h)))) (length p) = view p t"
    using SV_substr_view [of "''['' @ h @ '']:''" p "[]" t] len by (simp add: SV_npos_def)
  have z: "sz_sub (sz_sub (sv_size ?n) (length h + 1)) 2 = length p"
    "sz_sub (length h + 1) 1 = length h" "sz_sub (sv_size ?n) 1 = length h + length p + 2"
    using len by (simp_all add: view_def SV_new_def sz_simps SV_npos_def)
  obtain k where k: "SV_find (view h ('']:'' @ p @ t)) (CHR '':'') 0 = Some k"
    "k \<noteq> SV_npos \<longleftrightarrow> CHR '':'' \<in> set h"
    using SV_find_view [of 0 h "'']:'' @ p @ t" "CHR '':''"] len
    by (cases "index_of (CHR '':'') h") (fastforce simp: index_of_None dest: index_of_SomeD index_of_bound)+
  show ?thesis
    using len k(2) unfolding DoSplitHostPort_def at0 rb
    by (auto simp: z [simplified] at1 [simplified] s2 [simplified] s1 [simplified] k(1) [simplified]
        split_bracketed_def)
qed

lemma dec_int_no_colon: "CHR '':'' \<notin> set (dec_int i)"
  by (auto simp: dec_int_def is_digit_def dest!: bspec [OF dec_nat_digits])

lemma dec_int_length: "0 \<le> i \<Longrightarrow> i < 65536 \<Longrightarrow> length (dec_int i) \<le> 5"
  using dec_nat_length [of "nat i" 5] by (simp add: dec_int_def)

lemma SV_find_total: "sv_ptr v = Some mem \<Longrightarrow> \<exists>j. SV_find v c pos = Some j"
  by (auto simp: SV_find_def split: option.splits)

lemma split_bracketed_total: "split_bracketed (view s t) k p b \<noteq> None"
proof -
  obtain j where "SV_find (SV_substr (view s t) 1 (sz_sub k 1)) (CHR '':'') 0 = Some j"
    using SV_find_total [of "SV_substr (view s t) 1 (sz_sub k 1)"]
    by (force simp: SV_substr_def view_def SV_new_def)
  then show ?thesis by (cases "j = SV_npos") (simp_all add: split_bracketed_def)
qed

lemma DoSplitHostPort_total: "\<exists>r. DoSplitHostPort (SV_of_cstr (Some s)) SV_null SV_null = Some r"
proof -
  let ?n = "view s [CHR 0x00]"
  obtain c0 where at0: "SV_at ?n 0 = Some c0" by (simp add: SV_at_view)
  obtain k where k: "SV_find ?n (CHR '']'') 1 = Some k" "k \<noteq> SV_npos \<Longrightarrow> k < length s"
    using SV_find_view [of 1 s "[CHR 0x00]" "CHR '']''"]
    by (cases s; cases "index_of (CHR '']'') (drop 1 s)")
      (auto simp: SV_find_def view_def SV_new_def SV_empty_def dest: index_of_bound)
  obtain c where c: "k \<noteq> SV_npos \<Longrightarrow> SV_at ?n (k + 1) = Some c" using k(2) by (simp add: SV_at_view)
  have f: "\<exists>j. SV_find ?n ch pos = Some j" for ch pos
    by (rule SV_find_total [of _ "s @ [CHR 0x00]"]) (simp add: view_def SV_new_def)
  have "DoSplitHostPort ?n SV_null SV_null \<noteq> None"
  proof (cases "c0 = CHR ''[''")
    case True
    show ?thesis
    proof (cases "k = SV_npos")
      case False
      with True k c split_bracketed_total show ?thesis
        by (cases "c = CHR '':''") (auto simp: DoSplitHostPort_def at0)
    qed (use k(1) True in \<open>auto simp: DoSplitHostPort_def at0\<close>)
  next
    case False
    from f obtain j where j: "SV_find ?n (CHR '':'') 0 = Some j" by blast
    from f obtain j2 where "SV_find ?n (CHR '':'') (j + 1) = Some j2" by blast
    with False j show ?thesis by (auto simp: DoSplitHostPort_def at0)
  qed
  then show ?thesis by (simp add: SV_of_cstr_view)
qed

text \<open>The views a split returns lie within the memory of the name, so they can be copied.\<close>

definition sv_in_bounds :: "StringView \<Rightarrow> bool" where
  "sv_in_bounds v \<longleftrightarrow> (case sv_ptr v of None \<Rightarrow> sv_size v = 0 | Some mem \<Rightarrow> sv_size v \<le> length mem)"

lemma in_bounds_null [simp]: "sv_in_bounds SV_null"
  by (simp add: sv_in_bounds_def SV_null_def SV_new_def)

lemma in_bounds_substr:
  "start \<le> length s \<Longrightarrow> length s < size_lim \<Longrightarrow> sv_in_bounds (SV_substr (view s t) start n)"
  by (auto simp: sv_in_bounds_def SV_substr_def view_def SV_new_def sz_simps)

lemma in_bounds_copy: "sv_in_bounds v \<Longrightarrow> \<exists>s. StringViewToCString v = Some s"
  by (auto simp: sv_in_bounds_def StringViewToCString_def split: option.splits)

lemma SV_find_bound: "SV_find (view s t) c pos = Some k \<Longrightarrow> k = SV_npos \<or> k < length s"
  by (auto simp: SV_find_def view_def SV_new_def dest: index_of_bound split: option.splits if_splits)

lemma DoSplitHostPort_in_bounds:
  assumes "DoSplitHostPort (SV_of_cstr (Some s)) SV_null SV_null = Some (ret, h, p, b)" and "length s < SV_npos"
  shows "sv_in_bounds h \<and> sv_in_bounds p"
proof -
  have l: "length s < size_lim" using assms(2) by (simp add: SV_npos_def)
  have v: "sv_in_bounds (view s t)" for t by (simp add: sv_in_bounds_def view_def SV_new_def)
  note ib = in_bounds_substr [OF _ l, of _ "[CHR 0x00]"]
  let ?n = "view s [CHR 0x00]"
  obtain c0 where at0: "SV_at ?n 0 = Some c0" by (simp add: SV_at_view)
  have f: "\<exists>j. SV_find ?n ch pos = Some j" for ch pos
    by (rule SV_find_total [of _ "s @ [CHR 0x00]"]) (simp add: view_def SV_new_def)
  obtain k where k: "SV_find ?n (CHR '']'') 1 = Some k" using f by blast
  obtain j where j: "SV_find ?n (CHR '':'') 0 = Some j" using f by blast
  have sz: "sv_size ?n = length s" by (simp add: view_def SV_new_def)
  show ?thesis
  proof (cases "c0 = CHR ''[''")
    case True
    show ?thesis
    proof (cases "k = SV_npos")
      case False
      then have k': "k < length s" using SV_find_bound [OF k] by simp
      have host: "sv_in_bounds h \<and> p = q" if "split_bracketed ?n k q b' = Some (ret, h, p, b)" for q b'
        using that k' ib [of 1 "sz_sub k 1"] by (auto simp: split_bracketed_def Let_def split: if_splits)
      show ?thesis
      proof (cases "k = sz_sub (length s) 1")
        case True
        with assms(1) \<open>c0 = _\<close> False have "split_bracketed ?n k SV_null False = Some (ret, h, p, b)"
          unfolding DoSplitHostPort_def SV_of_cstr_view at0 k sz by simp
        from host [OF this] show ?thesis by simp
      next
        case ne: False
        with k' l have k2: "k + 2 \<le> length s" by (cases "length s") (simp_all add: sz_simps)
        define q where "q = SV_substr ?n (k + 2) (sz_sub (sz_sub (length s) k) 2)"
        have qb: "sv_in_bounds q" unfolding q_def by (rule ib [OF k2])
        obtain c1 where "SV_at ?n (k + 1) = Some c1" using k' by (simp add: SV_at_view)
        with assms(1) \<open>c0 = _\<close> False ne
        have "split_bracketed ?n k q True = Some (ret, h, p, b) \<or> h = SV_null \<and> p = SV_null"
          unfolding DoSplitHostPort_def SV_of_cstr_view at0 k sz by (auto simp: q_def split: if_splits)
        with host qb show ?thesis by auto
      qed
    qed (use assms(1) True k in \<open>auto simp: DoSplitHostPort_def SV_of_cstr_view at0\<close>)
  next
    case False
    have "j \<noteq> SV_npos \<Longrightarrow> j + 1 \<le> length s" using SV_find_bound [OF j] by auto
    then have "j \<noteq> SV_npos \<Longrightarrow> sv_in_bounds (SV_substr ?n (j + 1) m)" for m by (intro ib)
    with assms(1) False j ib [of 0] v show ?thesis
      unfolding DoSplitHostPort_def SV_of_cstr_view at0 by (auto simp: sz split: if_splits)
  qed
qed

lemma join_then_split:
  assumes "host = [] \<or> hd host \<noteq> CHR ''[''" and "CHR '':'' \<in> set host \<longrightarrow> CHR '']'' \<notin> set host"
    and "0 \<le> port" and "port < 65536" and "length host < 2 ^ 63"
  shows "\<exists>text h p. JoinHostPort host port = (int (length text), Some (text @ [CHR 0x00]))
     \<and> SplitHostPort_alloc (SV_of_cstr (Some text)) None None = Some (True, Some host, Some (dec_int port))
     \<and> SplitHostPort (SV_of_cstr (Some text)) = Some (True, h, p)
     \<and> sv_str h = host \<and> sv_str p = dec_int port"
proof (cases "CHR '':'' \<in> set host")
  case False
  have l: "length host + length (dec_int port) + 1 < SV_npos"
    using assms(5) dec_int_length [OF assms(3,4)] by (simp add: SV_npos_def)
  note sp = split_plain [OF False dec_int_no_colon assms(1) l, of "[CHR 0x00]"]
  have j: "JoinHostPort host port = raptor_asprintf (Some (host @ '':'' @ dec_int port)) True"
    using False by (simp add: JoinHostPort_def)
  show ?thesis
    by (rule exI [of _ "host @ '':'' @ dec_int port"])
      (simp add: j raptor_asprintf_whole SplitHostPort_def SplitHostPort_alloc_def SV_of_cstr_view sp [simplified])
next
  case True
  with assms have b: "CHR '']'' \<notin> set host" by simp
  have l: "length host + length (dec_int port) + 3 < SV_npos"
    using assms(5) dec_int_length [OF assms(3,4)] by (simp add: SV_npos_def)
  note sp = split_bracket_port [OF b l, of "[CHR 0x00]"]
  have j: "JoinHostPort host port = raptor_asprintf (Some (''['' @ host @ '']:'' @ dec_int port)) True"
    using True assms(1) by (cases host) (simp_all add: JoinHostPort_def)
  show ?thesis
    by (rule exI [of _ "''['' @ host @ '']:'' @ dec_int port"])
      (simp add: True j raptor_asprintf_whole SplitHostPort_def SplitHostPort_alloc_def SV_of_cstr_view sp [simplified])
qed

section \<open>Properties\<close>





text \<open>
  A bracketed host without a colon is refused, but contrary to the header's promise that host and
  port are cleared on failure, the port that follows the bracket stays in \<open>*port\<close>.
\<close>

theorem split_failure_keeps_port:
  assumes "CHR '']'' \<notin> set h" and "CHR '':'' \<notin> set h" and "length h + length p + 3 < SV_npos"
  shows "\<exists>pv. SplitHostPort (SV_of_cstr (Some (''['' @ h @ '']:'' @ p))) = Some (False, SV_null, pv)
           \<and> sv_str pv = p"
  using split_bracket_port [OF assms(1,3)] assms(2) by (simp add: SplitHostPort_def SV_of_cstr_view)

theorem split_failure_keeps_port_witness:
  "\<exists>pv. SplitHostPort (SV_of_cstr (Some ''[ab]:80'')) = Some (False, SV_null, pv) \<and> sv_str pv = ''80''"
  using split_failure_keeps_port [of "''ab''" "''80''"] by (simp add: SV_npos_def)

end
