(* ===== verification/SockAddr.thy ===== *)
theory SockAddr
  imports HostPort
begin

text \<open>
  Socket addresses (src/src/common/socket_util.cc). A \<open>raptor_resolved_address\<close> is 128 bytes that
  hold a \<open>sockaddr_in\<close> or a \<open>sockaddr_in6\<close> in the layout of Linux on a little-endian machine:
  the family in bytes 0 and 1 (host order), the port in bytes 2 and 3 (network order), the IPv4
  address in bytes 4 to 7, the IPv6 address in bytes 8 to 23 and the scope in bytes 24 to 27.
  \<open>inet_ntop\<close> and \<open>inet_pton\<close> belong to the C library and are arguments.
\<close>

section \<open>Layout\<close>

record resolved_address =
  ra_addr :: "byte list"
  ra_len :: size_t

definition ra_zero :: resolved_address where
  "ra_zero = \<lparr>ra_addr = replicate 128 0, ra_len = 0\<rparr>"

definition ra_ok :: "resolved_address \<Rightarrow> bool" where
  "ra_ok a \<longleftrightarrow> length (ra_addr a) = 128"

definition AF_UNIX :: int where "AF_UNIX = 1"
definition AF_INET :: int where "AF_INET = 2"
definition AF_INET6 :: int where "AF_INET6 = 10"

definition bytes_at :: "nat \<Rightarrow> nat \<Rightarrow> byte list \<Rightarrow> byte list" where
  "bytes_at pos n bs = take n (drop pos bs)"

definition put_bytes :: "nat \<Rightarrow> byte list \<Rightarrow> byte list \<Rightarrow> byte list" where
  "put_bytes pos src dst = take pos dst @ src @ drop (pos + length src) dst"

definition ra_put :: "nat \<Rightarrow> byte list \<Rightarrow> resolved_address \<Rightarrow> resolved_address" where
  "ra_put pos src a = a\<lparr>ra_addr := put_bytes pos src (ra_addr a)\<rparr>"

definition le16 :: "nat \<Rightarrow> byte list" where
  "le16 n = [of_nat (n mod 256), of_nat (n div 256)]"

definition be16 :: "nat \<Rightarrow> byte list" where
  "be16 n = [of_nat (n div 256), of_nat (n mod 256)]"

definition of_le :: "byte list \<Rightarrow> nat" where
  "of_le bs = foldr (\<lambda>b n. unat b + 256 * n) bs 0"

definition sa_family :: "resolved_address \<Rightarrow> int" where
  "sa_family a = int (of_le (bytes_at 0 2 (ra_addr a)))"

definition set_family :: "int \<Rightarrow> resolved_address \<Rightarrow> resolved_address" where
  "set_family f a = ra_put 0 (le16 (nat f)) a"

text \<open>\<open>ntohs\<close> and \<open>htons\<close> swap the bytes of a port.\<close>

definition ntohs_port :: "byte list \<Rightarrow> int" where
  "ntohs_port p = int (of_le (rev p))"

abbreviation sin_port_bytes :: "resolved_address \<Rightarrow> byte list" where
  "sin_port_bytes a \<equiv> bytes_at 2 2 (ra_addr a)"

abbreviation sin_addr :: "resolved_address \<Rightarrow> byte list" where
  "sin_addr a \<equiv> bytes_at 4 4 (ra_addr a)"

abbreviation sin6_addr :: "resolved_address \<Rightarrow> byte list" where
  "sin6_addr a \<equiv> bytes_at 8 16 (ra_addr a)"

definition sin6_scope_id :: "resolved_address \<Rightarrow> nat" where
  "sin6_scope_id a = of_le (bytes_at 24 4 (ra_addr a))"

definition kV4MappedPrefix :: "byte list" where
  "kV4MappedPrefix = [0, 0, 0, 0, 0, 0, 0, 0, 0, 0, 0xff, 0xff]"

section \<open>Operations\<close>

text \<open>The second component is what is stored to \<open>*resolved_addr4_out\<close>, if anything.\<close>

definition raptor_sockaddr_is_v4mapped :: "resolved_address \<Rightarrow> bool \<times> resolved_address option" where
  "raptor_sockaddr_is_v4mapped a =
     (if sa_family a = AF_INET6 \<and> take 12 (sin6_addr a) = kV4MappedPrefix then
        let out = ra_zero;
            out = set_family AF_INET out;
            out = ra_put 4 (bytes_at 12 4 (sin6_addr a)) out;
            out = ra_put 2 (sin_port_bytes a) out
        in (True, Some (out\<lparr>ra_len := 16\<rparr>))
      else (False, None))"

definition raptor_sockaddr_to_v4mapped :: "resolved_address \<Rightarrow> bool \<times> resolved_address option" where
  "raptor_sockaddr_to_v4mapped a =
     (if sa_family a = AF_INET then
        let out = ra_zero;
            out = set_family AF_INET6 out;
            out = ra_put 8 kV4MappedPrefix out;
            out = ra_put 20 (sin_addr a) out;
            out = ra_put 2 (sin_port_bytes a) out
        in (True, Some (out\<lparr>ra_len := 28\<rparr>))
      else (False, None))"

definition normalized :: "resolved_address \<Rightarrow> resolved_address" where
  "normalized a = (case raptor_sockaddr_is_v4mapped a of (True, Some b) \<Rightarrow> b | _ \<Rightarrow> a)"

definition raptor_sockaddr_is_wildcard :: "resolved_address \<Rightarrow> bool \<times> int option" where
  "raptor_sockaddr_is_wildcard a0 =
     (let a = normalized a0 in
      if sa_family a = AF_INET then
        if of_le (sin_addr a) \<noteq> 0 then (False, None) else (True, Some (ntohs_port (sin_port_bytes a)))
      else if sa_family a = AF_INET6 then
        if list_ex (\<lambda>b. b \<noteq> 0) (sin6_addr a) then (False, None)
        else (True, Some (ntohs_port (sin_port_bytes a)))
      else (False, None))"

definition raptor_sockaddr_make_wildcard4 :: "int \<Rightarrow> resolved_address option" where
  "raptor_sockaddr_make_wildcard4 port =
     (if 0 \<le> port \<and> port < 65536
      then Some ((ra_put 2 (be16 (nat port)) (set_family AF_INET ra_zero))\<lparr>ra_len := 16\<rparr>) else None)"

definition raptor_sockaddr_make_wildcard6 :: "int \<Rightarrow> resolved_address option" where
  "raptor_sockaddr_make_wildcard6 port =
     (if 0 \<le> port \<and> port < 65536
      then Some ((ra_put 2 (be16 (nat port)) (set_family AF_INET6 ra_zero))\<lparr>ra_len := 28\<rparr>) else None)"

definition sockaddr_make_wildcards :: "int \<Rightarrow> (resolved_address \<times> resolved_address) option" where
  "sockaddr_make_wildcards port = do {
     w4 \<leftarrow> raptor_sockaddr_make_wildcard4 port;
     w6 \<leftarrow> raptor_sockaddr_make_wildcard6 port;
     Some (w4, w6) }"

definition raptor_sockaddr_get_family :: "resolved_address \<Rightarrow> int" where
  "raptor_sockaddr_get_family a = sa_family a"

definition raptor_sockaddr_get_port :: "resolved_address \<Rightarrow> int" where
  "raptor_sockaddr_get_port a =
     (if sa_family a = AF_INET then ntohs_port (sin_port_bytes a)
      else if sa_family a = AF_INET6 then ntohs_port (sin_port_bytes a)
      else if sa_family a = AF_UNIX then 1
      else 0)"

definition raptor_sockaddr_set_port :: "resolved_address \<Rightarrow> int \<Rightarrow> bool \<times> resolved_address" where
  "raptor_sockaddr_set_port a port =
     (if \<not> (0 \<le> port \<and> port < 65536) then (False, a)
      else if sa_family a = AF_INET then (True, ra_put 2 (be16 (nat port)) a)
      else if sa_family a = AF_INET6 then (True, ra_put 2 (be16 (nat port)) a)
      else (False, a))"

text \<open>\<open>inet_ntop\<close> gives the text of an address of a family, \<open>inet_pton\<close> its bytes.\<close>

definition host_with_scope :: "(int \<Rightarrow> byte list \<Rightarrow> string option) \<Rightarrow> resolved_address \<Rightarrow> (string \<times> bool) option" where
  "host_with_scope inet_ntop a =
     (let fam = sa_family a;
          ip = (if fam = AF_INET then Some (sin_addr a)
                else if fam = AF_INET6 then Some (sin6_addr a) else None);
          scope = (if fam = AF_INET6 then sin6_scope_id a else 0)
      in case ip of
           None \<Rightarrow> None
         | Some bs \<Rightarrow>
             (case inet_ntop fam bs of
                None \<Rightarrow> None
              | Some host \<Rightarrow>
                  if scope \<noteq> 0 then Some (host @ ''%25'' @ dec_nat scope, True) else Some (host, False)))"

definition raptor_sockaddr_to_string ::
  "(int \<Rightarrow> byte list \<Rightarrow> string option) \<Rightarrow> resolved_address \<Rightarrow> bool \<Rightarrow> int \<times> string option" where
  "raptor_sockaddr_to_string inet_ntop a0 norm =
     (let a = (if norm then normalized a0 else a0) in
      case host_with_scope inet_ntop a of
        Some (host, _) \<Rightarrow> JoinHostPort host (ntohs_port (sin_port_bytes a))
      | None \<Rightarrow> raptor_asprintf (Some (''(sockaddr family='' @ dec_int (sa_family a) @ '')'')) True)"

definition raptor_string_to_sockaddr ::
  "(int \<Rightarrow> string \<Rightarrow> byte list option) \<Rightarrow> string \<Rightarrow> int \<Rightarrow> resolved_address option" where
  "raptor_string_to_sockaddr inet_pton addr port =
     (let out = ra_zero in
      do {
        a \<leftarrow> (case inet_pton AF_INET6 addr of
                Some bs \<Rightarrow> Some ((set_family AF_INET6 (ra_put 8 bs out))\<lparr>ra_len := 28\<rparr>)
              | None \<Rightarrow>
                  (case inet_pton AF_INET addr of
                     Some bs \<Rightarrow> Some ((set_family AF_INET (ra_put 4 bs out))\<lparr>ra_len := 16\<rparr>)
                   | None \<Rightarrow> None));
        Some (snd (raptor_sockaddr_set_port a port)) })"

text \<open>
  \<open>raptor_sockaddr_get_ip\<close> returns the number of bytes written and the bytes. Without a scope the
  copy is not limited to \<open>size\<close>: a text that does not fit overflows \<open>dst\<close>.
\<close>

definition raptor_sockaddr_get_ip ::
  "(int \<Rightarrow> byte list \<Rightarrow> string option) \<Rightarrow> resolved_address \<Rightarrow> size_t \<Rightarrow> (int \<times> string) option" where
  "raptor_sockaddr_get_ip inet_ntop a0 dst_size =
     (case host_with_scope inet_ntop (normalized a0) of
        Some (host, scoped) \<Rightarrow>
          if scoped then
            if length host > dst_size then Some (int dst_size, take dst_size host)
            else if length host > 0 then Some (int (length host), host)
            else Some (0, [])
          else if length host \<le> dst_size then Some (int (length host), host)
          else None
      | None \<Rightarrow> Some (0, []))"

section \<open>Reading what was written\<close>

lemma length_put_bytes [simp]:
  "pos + length src \<le> length dst \<Longrightarrow> length (put_bytes pos src dst) = length dst"
  by (simp add: put_bytes_def)

lemma bytes_at_put_same [simp]:
  "pos + length src \<le> length dst \<Longrightarrow> n = length src \<Longrightarrow> bytes_at pos n (put_bytes pos src dst) = src"
  by (simp add: bytes_at_def put_bytes_def)

lemma bytes_at_put_before [simp]:
  assumes "p + n \<le> pos" and "pos + length src \<le> length dst"
  shows "bytes_at p n (put_bytes pos src dst) = bytes_at p n dst"
  using assms by (simp add: bytes_at_def put_bytes_def drop_take)

lemma bytes_at_put_after [simp]:
  assumes "pos + length src \<le> p" and "pos + length src \<le> length dst"
  shows "bytes_at p n (put_bytes pos src dst) = bytes_at p n dst"
proof -
  have "drop p (take pos dst @ src @ drop (pos + length src) dst) = drop p dst"
    using assms by (simp add: min_absorb2)
  then show ?thesis by (simp add: bytes_at_def put_bytes_def)
qed

lemma length_bytes_at [simp]: "pos + n \<le> length bs \<Longrightarrow> length (bytes_at pos n bs) = n"
  by (simp add: bytes_at_def)

lemma ra_put_simps [simp]:
  "ra_addr (ra_put pos src a) = put_bytes pos src (ra_addr a)"
  "ra_len (ra_put pos src a) = ra_len a"
  by (simp_all add: ra_put_def)

lemma length_le16_be16 [simp]: "length (le16 n) = 2" "length (be16 n) = 2"
  by (simp_all add: le16_def be16_def)

lemma of_le_le16 [simp]: "n < 65536 \<Longrightarrow> of_le (le16 n) = n"
  by (simp add: of_le_def le16_def unat_of_nat)

lemma ntohs_be16 [simp]: "n < 65536 \<Longrightarrow> ntohs_port (be16 n) = int n"
  by (simp add: of_le_def be16_def unat_of_nat ntohs_port_def)

lemma ra_zero_addr [simp]: "length (ra_addr ra_zero) = 128"
  by (simp add: ra_zero_def)

lemma bytes_at_zero [simp]: "p + n \<le> 128 \<Longrightarrow> bytes_at p n (ra_addr ra_zero) = replicate n 0"
  by (simp add: ra_zero_def bytes_at_def)

lemma set_family_simps [simp]:
  "ra_addr (set_family f a) = put_bytes 0 (le16 (nat f)) (ra_addr a)"
  "ra_len (set_family f a) = ra_len a"
  by (simp_all add: set_family_def)

lemmas af_defs = AF_INET_def AF_INET6_def AF_UNIX_def

lemma ra_len_upd_addr [simp]: "ra_addr (a\<lparr>ra_len := n\<rparr>) = ra_addr a"
  by simp


section \<open>Properties\<close>

text \<open>
  IPv4 addresses survive the IPv6 form: mapping an IPv4 address to \<open>::ffff:a.b.c.d\<close> and
  normalising it gives an IPv4 address with the same four bytes and the same port, and a mapped
  address is never taken for another kind.
\<close>

theorem v4mapped_roundtrip:
  assumes "ra_ok a" and "sa_family a = AF_INET"
  shows "\<exists>b c. raptor_sockaddr_to_v4mapped a = (True, Some b) \<and> sa_family b = AF_INET6 \<and> ra_len b = 28
     \<and> raptor_sockaddr_is_v4mapped b = (True, Some c) \<and> sa_family c = AF_INET \<and> ra_len c = 16
     \<and> sin_addr c = sin_addr a \<and> raptor_sockaddr_get_port b = raptor_sockaddr_get_port a
     \<and> raptor_sockaddr_get_port c = raptor_sockaddr_get_port a"
proof -
  define b where "b = (ra_put 2 (sin_port_bytes a) (ra_put 20 (sin_addr a) (ra_put 8 kV4MappedPrefix
     (set_family AF_INET6 ra_zero))))\<lparr>ra_len := 28\<rparr>"
  have la: "length (ra_addr a) = 128" using assms(1) by (simp add: ra_ok_def)
  have pre: "length kV4MappedPrefix = 12" by (simp add: kV4MappedPrefix_def)
  have fb: "sa_family b = AF_INET6" using la pre by (simp add: b_def sa_family_def af_defs)
  have pb: "sin_port_bytes b = sin_port_bytes a" using la pre by (simp add: b_def)
  have hi: "bytes_at 8 12 (ra_addr b) = kV4MappedPrefix" and lo: "bytes_at 20 4 (ra_addr b) = sin_addr a"
    using la pre by (simp_all add: b_def)
  have "take 12 (sin6_addr b) = bytes_at 8 12 (ra_addr b)" and
    low: "bytes_at 12 4 (sin6_addr b) = bytes_at 20 4 (ra_addr b)"
    by (simp_all add: bytes_at_def min_def drop_take)
  with hi have mapped: "take 12 (sin6_addr b) = kV4MappedPrefix" by simp
  define c where "c = (ra_put 2 (sin_port_bytes b) (ra_put 4 (bytes_at 12 4 (sin6_addr b))
     (set_family AF_INET ra_zero)))\<lparr>ra_len := 16\<rparr>"
  have lb: "length (ra_addr b) = 128" using la pre by (simp add: b_def)
  have "raptor_sockaddr_to_v4mapped a = (True, Some b)"
    using assms(2) by (simp add: raptor_sockaddr_to_v4mapped_def b_def Let_def)
  moreover have "raptor_sockaddr_is_v4mapped b = (True, Some c)"
    using fb mapped by (simp add: raptor_sockaddr_is_v4mapped_def c_def Let_def)
  moreover have fc: "sa_family c = AF_INET" and "sin_addr c = sin_addr a" and
    "sin_port_bytes c = sin_port_bytes a"
    using lb la low lo pb by (simp_all add: c_def sa_family_def af_defs)
  moreover have "ra_len b = 28" "ra_len c = 16" by (simp_all add: b_def c_def)
  ultimately show ?thesis
    using fb pb assms(2) by (simp add: raptor_sockaddr_get_port_def)
qed

definition example_v4 :: resolved_address where
  "example_v4 = (ra_put 4 [127, 0, 0, 1] (ra_put 2 (be16 8080) (set_family AF_INET ra_zero)))\<lparr>ra_len := 16\<rparr>"

lemma example_v4_facts: "ra_ok example_v4" "sa_family example_v4 = AF_INET"
  by (simp_all add: example_v4_def ra_ok_def sa_family_def af_defs)

theorem v4mapped_roundtrip_witness:
  "\<exists>b c. raptor_sockaddr_to_v4mapped example_v4 = (True, Some b)
     \<and> raptor_sockaddr_is_v4mapped b = (True, Some c) \<and> sin_addr c = sin_addr example_v4"
  using v4mapped_roundtrip [OF example_v4_facts] by blast

text \<open>
  Ports: setting a port between 0 and 65535 on an internet address makes \<open>get_port\<close> return it and
  changes neither the family nor the address bytes; any other port, or any other family, is refused
  and the address kept. The wildcard constructors give addresses recognised as wildcards with their
  port.
\<close>

theorem sockaddr_port_roundtrip:
  assumes "ra_ok a"
  shows "(sa_family a \<in> {AF_INET, AF_INET6} \<and> 0 \<le> port \<and> port < 65536 \<longrightarrow>
        (\<exists>b. raptor_sockaddr_set_port a port = (True, b) \<and> raptor_sockaddr_get_port b = port
           \<and> sa_family b = sa_family a \<and> sin_addr b = sin_addr a \<and> sin6_addr b = sin6_addr a
           \<and> sin6_scope_id b = sin6_scope_id a))
    \<and> (\<not> (sa_family a \<in> {AF_INET, AF_INET6} \<and> 0 \<le> port \<and> port < 65536) \<longrightarrow>
        raptor_sockaddr_set_port a port = (False, a))"
proof -
  have la: "length (ra_addr a) = 128" using assms by (simp add: ra_ok_def)
  let ?b = "ra_put 2 (be16 (nat port)) a"
  have keep: "bytes_at 0 2 (ra_addr ?b) = bytes_at 0 2 (ra_addr a)" "sin_addr ?b = sin_addr a"
    "sin6_addr ?b = sin6_addr a" "bytes_at 24 4 (ra_addr ?b) = bytes_at 24 4 (ra_addr a)"
    "sin_port_bytes ?b = be16 (nat port)"
    using la by simp_all
  then show ?thesis
    by (auto simp: raptor_sockaddr_set_port_def raptor_sockaddr_get_port_def sa_family_def
        sin6_scope_id_def)
qed

theorem sockaddr_port_roundtrip_witness:
  "\<exists>b. raptor_sockaddr_set_port example_v4 443 = (True, b) \<and> raptor_sockaddr_get_port b = 443
     \<and> sin_addr b = sin_addr example_v4"
  using sockaddr_port_roundtrip [OF example_v4_facts(1), of 443] example_v4_facts(2) by auto

text \<open>
  For every port number the wildcard constructors succeed and their addresses are recognised as
  wildcards carrying that port; outside the port range they abort.
\<close>

theorem sockaddr_wildcards_recognised:
  "if 0 \<le> port \<and> port < 65536 then
     \<exists>w4 w6. sockaddr_make_wildcards port = Some (w4, w6)
       \<and> raptor_sockaddr_is_wildcard w4 = (True, Some port)
       \<and> raptor_sockaddr_is_wildcard w6 = (True, Some port)
   else sockaddr_make_wildcards port = None"
proof (cases "0 \<le> port \<and> port < 65536")
  case True
  let ?w4 = "(ra_put 2 (be16 (nat port)) (set_family AF_INET ra_zero))\<lparr>ra_len := 16\<rparr>"
  let ?w6 = "(ra_put 2 (be16 (nat port)) (set_family AF_INET6 ra_zero))\<lparr>ra_len := 28\<rparr>"
  have f: "sa_family ?w4 = AF_INET" "sa_family ?w6 = AF_INET6"
    by (simp_all add: sa_family_def af_defs)
  have a6: "sin6_addr ?w6 = replicate 16 0" and a4: "sin_addr ?w4 = replicate 4 0"
    and p: "sin_port_bytes ?w4 = be16 (nat port)" "sin_port_bytes ?w6 = be16 (nat port)" by simp_all
  have ne: "take 12 (replicate 16 0) \<noteq> kV4MappedPrefix"
  proof
    assume "take 12 (replicate 16 0) = kV4MappedPrefix"
    then have "take 12 (replicate 16 0) ! 10 = kV4MappedPrefix ! 10" by simp
    then show False by (simp add: kV4MappedPrefix_def)
  qed
  have n: "normalized ?w4 = ?w4" "normalized ?w6 = ?w6"
    unfolding normalized_def raptor_sockaddr_is_v4mapped_def f a6
    by (simp_all only: ne) (simp_all add: af_defs)
  have z: "of_le (replicate n 0) = 0" for n by (induction n) (simp_all add: of_le_def)
  have w: "raptor_sockaddr_is_wildcard ?w4 = (True, Some port)"
    "raptor_sockaddr_is_wildcard ?w6 = (True, Some port)"
    unfolding raptor_sockaddr_is_wildcard_def n Let_def f a4 a6 p
    using True z ntohs_be16 [of "nat port"] by (simp_all add: af_defs list_ex_iff nat_less_iff)
  from True show ?thesis
    by (simp add: sockaddr_make_wildcards_def raptor_sockaddr_make_wildcard4_def
        raptor_sockaddr_make_wildcard6_def w)
next
  case False
  then show ?thesis
    by (auto simp: sockaddr_make_wildcards_def raptor_sockaddr_make_wildcard4_def)
qed

end
