(* ===== verification/Cid.thy ===== *)
theory Cid
  imports Prelude
begin

text \<open>
  Connection ids (src/src/common/cid.h): a 64-bit word made of a 16-bit magic number, the 16-bit
  listening port and a 32-bit slot index. The words are kept at their widths; the lemmas show that
  the three parts come back, and which ids are equal to the reserved \<open>InvalidConnectionId\<close>.
\<close>

unbundle bit_operations_syntax

type_synonym ConnectionId = u64

definition InvalidConnectionId :: ConnectionId where
  "InvalidConnectionId = NOT 0"

definition BuildConnectionId :: "u16 \<Rightarrow> u16 \<Rightarrow> u32 \<Rightarrow> ConnectionId" where
  "BuildConnectionId magic listen_port uid =
     (let n = push_bit 16 (ucast magic :: u32) OR (ucast listen_port :: u32);
          r = push_bit 32 (ucast n :: u64) OR (ucast uid :: u64)
      in r)"

definition VerifyConnectionId :: "ConnectionId \<Rightarrow> u16 \<Rightarrow> bool" where
  "VerifyConnectionId cid magic =
     (if cid = InvalidConnectionId then False
      else let n = (ucast (drop_bit 32 cid) :: u32); r = (ucast (drop_bit 16 n) :: u16)
           in magic = r)"

definition GetMagicNumber :: "ConnectionId \<Rightarrow> u16" where
  "GetMagicNumber cid = (let n = (ucast (drop_bit 32 cid) :: u32) in ucast (drop_bit 16 n))"

definition GetListenPort :: "ConnectionId \<Rightarrow> u16" where
  "GetListenPort cid = (let n = (ucast (drop_bit 32 cid) :: u32) in ucast (n AND 0xffff))"

definition GetUserId :: "ConnectionId \<Rightarrow> u32" where
  "GetUserId cid = ucast (cid AND 0xffffffff)"

section \<open>The parts of an id\<close>

lemma mask_16: "(0xffff :: 'a::len word) = mask 16"
  by (simp add: mask_eq_exp_minus_1)

lemma mask_32: "(0xffffffff :: 'a::len word) = mask 32"
  by (simp add: mask_eq_exp_minus_1)

lemma GetMagicNumber_Build [simp]: "GetMagicNumber (BuildConnectionId m p u) = m"
  by (rule bit_word_eqI)
    (auto simp: GetMagicNumber_def BuildConnectionId_def Let_def bit_simps dest: bit_imp_le_length)

lemma GetListenPort_Build [simp]: "GetListenPort (BuildConnectionId m p u) = p"
  by (rule bit_word_eqI)
    (auto simp: GetListenPort_def BuildConnectionId_def Let_def mask_16 bit_simps
      dest: bit_imp_le_length)

lemma GetUserId_Build [simp]: "GetUserId (BuildConnectionId m p u) = u"
  by (rule bit_word_eqI)
    (auto simp: GetUserId_def BuildConnectionId_def Let_def mask_32 bit_simps)

lemma Build_parts [simp]:
  "BuildConnectionId (GetMagicNumber cid) (GetListenPort cid) (GetUserId cid) = cid"
proof (rule bit_word_eqI)
  fix n assume "n < LENGTH(64)"
  then consider "n < 32" | "32 \<le> n" "n < 48" | "48 \<le> n" "n < 64" by fastforce
  then show "bit (BuildConnectionId (GetMagicNumber cid) (GetListenPort cid) (GetUserId cid)) n = bit cid n"
    by cases (auto simp: GetMagicNumber_def GetListenPort_def GetUserId_def BuildConnectionId_def
        Let_def mask_16 mask_32 bit_simps dest: bit_imp_le_length)
qed

lemma Build_inject [simp]:
  "BuildConnectionId m p u = BuildConnectionId m' p' u' \<longleftrightarrow> m = m' \<and> p = p' \<and> u = u'"
  by (metis GetMagicNumber_Build GetListenPort_Build GetUserId_Build)

lemma Invalid_parts:
  "InvalidConnectionId = BuildConnectionId (NOT 0) (NOT 0) (NOT 0)"
  by (rule bit_word_eqI) (auto simp: InvalidConnectionId_def BuildConnectionId_def bit_simps)

lemma Build_Invalid_iff:
  "BuildConnectionId m p u = InvalidConnectionId \<longleftrightarrow> m = NOT 0 \<and> p = NOT 0 \<and> u = NOT 0"
  by (simp add: Invalid_parts)

lemma Verify_iff: "VerifyConnectionId cid m = (cid \<noteq> InvalidConnectionId \<and> GetMagicNumber cid = m)"
  by (auto simp: VerifyConnectionId_def GetMagicNumber_def)

section \<open>Properties\<close>

text \<open>Building an id and taking it apart are inverse to each other in both directions, so an id
  determines magic number, port and slot and is determined by them.\<close>

theorem connection_id_roundtrip:
  "GetMagicNumber (BuildConnectionId m p u) = m \<and> GetListenPort (BuildConnectionId m p u) = p
   \<and> GetUserId (BuildConnectionId m p u) = u
   \<and> BuildConnectionId (GetMagicNumber cid) (GetListenPort cid) (GetUserId cid) = cid
   \<and> VerifyConnectionId cid m = (cid \<noteq> InvalidConnectionId \<and> GetMagicNumber cid = m)"
  by (simp add: Verify_iff)

end
