(* ===== verification/EndpointM.thy ===== *)
theory EndpointM
  imports Polling SockAddr Cid
begin

text \<open>
  \<open>EndpointImpl\<close> (src/src/common/endpoint_impl.cc) and its handle \<open>Endpoint\<close>
  (src/src/surface/endpoint.cc): a socket, its addresses and the connection id the container gave
  it. The object is shared by every handle to it, so it lives in a store (theory \<open>Conn\<close>) and is
  named by its address. The calls that go on to a container are in theory \<open>Container\<close>.
\<close>

record EndpointImpl =
  ei_fd :: u64
  ei_connection_id :: u64
  ei_container :: "addr option"
  ei_listen_port :: u16
  ei_ext_info :: u64
  ei_local_addr :: resolved_address
  ei_remote_addr :: resolved_address

definition EndpointImpl_new :: "u64 \<Rightarrow> resolved_address \<Rightarrow> resolved_address \<Rightarrow> EndpointImpl" where
  "EndpointImpl_new fd loc rem =
     \<lparr>ei_fd = fd, ei_connection_id = InvalidConnectionId, ei_container = None, ei_listen_port = 0,
      ei_ext_info = 0, ei_local_addr = loc, ei_remote_addr = rem\<rparr>"

definition EndpointImpl_SetConnection :: "u64 \<Rightarrow> EndpointImpl \<Rightarrow> EndpointImpl" where
  "EndpointImpl_SetConnection cid e = e\<lparr>ei_connection_id := cid\<rparr>"

definition EndpointImpl_SetContainer :: "addr option \<Rightarrow> EndpointImpl \<Rightarrow> EndpointImpl" where
  "EndpointImpl_SetContainer c e = e\<lparr>ei_container := c\<rparr>"

definition EndpointImpl_SetListenPort :: "u16 \<Rightarrow> EndpointImpl \<Rightarrow> EndpointImpl" where
  "EndpointImpl_SetListenPort port e = e\<lparr>ei_listen_port := port\<rparr>"

definition EndpointImpl_ConnectionId :: "EndpointImpl \<Rightarrow> u64" where
  "EndpointImpl_ConnectionId e = ei_connection_id e"

definition EndpointImpl_SocketFd :: "EndpointImpl \<Rightarrow> u64" where
  "EndpointImpl_SocketFd e = ei_fd e"

definition EndpointImpl_GetListenPort :: "EndpointImpl \<Rightarrow> u16" where
  "EndpointImpl_GetListenPort e = ei_listen_port e"

definition EndpointImpl_IsOnline :: "EndpointImpl \<Rightarrow> bool" where
  "EndpointImpl_IsOnline e \<longleftrightarrow> ei_fd e \<noteq> NOT 0 \<and> ei_fd e > 0"

definition EndpointImpl_SetExtInfo :: "u64 \<Rightarrow> EndpointImpl \<Rightarrow> EndpointImpl" where
  "EndpointImpl_SetExtInfo info e = e\<lparr>ei_ext_info := info\<rparr>"

definition EndpointImpl_GetExtInfo :: "EndpointImpl \<Rightarrow> u64" where
  "EndpointImpl_GetExtInfo e = ei_ext_info e"

text \<open>\<open>std::string(ptr, ret)\<close> reads \<open>ret\<close> characters.\<close>

definition EndpointImpl_PeerString :: "(int \<Rightarrow> byte list \<Rightarrow> string option) \<Rightarrow> EndpointImpl \<Rightarrow> string option" where
  "EndpointImpl_PeerString inet_ntop e =
     (let (ret, ptr) = raptor_sockaddr_to_string inet_ntop (ei_remote_addr e) True
      in case ptr of
           None \<Rightarrow> Some []
         | Some s \<Rightarrow> if 0 \<le> ret \<and> nat ret \<le> length s then Some (take (nat ret) s) else None)"

definition EndpointImpl_LocalIp :: "(int \<Rightarrow> byte list \<Rightarrow> string option) \<Rightarrow> EndpointImpl \<Rightarrow> string option" where
  "EndpointImpl_LocalIp inet_ntop e = do {
     (ret, ip) \<leftarrow> raptor_sockaddr_get_ip inet_ntop (ei_local_addr e) 128;
     Some (take (nat ret) ip) }"

definition EndpointImpl_LocalPort :: "EndpointImpl \<Rightarrow> u16" where
  "EndpointImpl_LocalPort e = of_int (raptor_sockaddr_get_port (ei_local_addr e))"

definition EndpointImpl_RemoteIp :: "(int \<Rightarrow> byte list \<Rightarrow> string option) \<Rightarrow> EndpointImpl \<Rightarrow> string option" where
  "EndpointImpl_RemoteIp inet_ntop e = do {
     (ret, ip) \<leftarrow> raptor_sockaddr_get_ip inet_ntop (ei_remote_addr e) 128;
     Some (take (nat ret) ip) }"

definition EndpointImpl_RemotePort :: "EndpointImpl \<Rightarrow> u16" where
  "EndpointImpl_RemotePort e = of_int (raptor_sockaddr_get_port (ei_remote_addr e))"

text \<open>\<open>(int)_fd\<close>.\<close>

definition fd_int :: "u64 \<Rightarrow> int" where
  "fd_int fd = to_i32 (uint fd)"

text \<open>\<open>raptor_set_socket_shutdown\<close> (src/src/linux/socket_setting.cc).\<close>

definition raptor_set_socket_shutdown :: "int \<Rightarrow> sys_act list" where
  "raptor_set_socket_shutdown fd = (if fd < 0 then [] else [SysShutdown fd, SysClose fd])"

text \<open>The blocking calls; \<open>send\<close> and \<open>recv\<close> are the system calls on a descriptor.\<close>

definition EndpointImpl_SyncSend :: "(int \<Rightarrow> byte list \<Rightarrow> int) \<Rightarrow> EndpointImpl \<Rightarrow> byte list \<Rightarrow> int" where
  "EndpointImpl_SyncSend send e data = send (fd_int (ei_fd e)) data"

definition EndpointImpl_SyncRecv :: "(int \<Rightarrow> size_t \<Rightarrow> int \<times> byte list) \<Rightarrow> EndpointImpl \<Rightarrow> size_t \<Rightarrow> int \<times> byte list" where
  "EndpointImpl_SyncRecv recv e len = recv (fd_int (ei_fd e)) len"

definition Endpoint_SyncSend :: "(int \<Rightarrow> byte list \<Rightarrow> int) \<Rightarrow> EndpointImpl \<Rightarrow> byte list option \<Rightarrow> int" where
  "Endpoint_SyncSend send e data =
     (case data of None \<Rightarrow> 0 | Some bs \<Rightarrow> if length bs = 0 then 0 else EndpointImpl_SyncSend send e bs)"

definition Endpoint_SyncRecv ::
  "(int \<Rightarrow> size_t \<Rightarrow> int \<times> byte list) \<Rightarrow> EndpointImpl \<Rightarrow> bool \<Rightarrow> size_t \<Rightarrow> int \<times> byte list" where
  "Endpoint_SyncRecv recv e have_data len =
     (if \<not> have_data \<or> len = 0 then (0, []) else EndpointImpl_SyncRecv recv e len)"

text \<open>A peer string is the joined host and port of the normalised remote address.\<close>

lemma PeerString_total: "\<exists>s. EndpointImpl_PeerString inet_ntop e = Some s"
proof -
  have "\<exists>t. raptor_sockaddr_to_string inet_ntop a n = (int (length t), Some (t @ [CHR 0x00]))" for a n
    by (auto simp: raptor_sockaddr_to_string_def JoinHostPort_def raptor_asprintf_whole Let_def
        split: option.splits)
  then obtain t where "raptor_sockaddr_to_string inet_ntop (ei_remote_addr e) True
      = (int (length t), Some (t @ [CHR 0x00]))" by blast
  then show ?thesis by (simp add: EndpointImpl_PeerString_def)
qed

text \<open>
  The textual addresses are well defined and in bounds: \<open>PeerString\<close> always succeeds, and as long
  as \<open>inet_ntop\<close> returns at most 127 characters the address getters stay within their 128-byte
  buffer and return at most that many characters.
\<close>

theorem endpoint_addresses_in_bounds:
  assumes "\<forall>fam bs t. inet_ntop fam bs = Some t \<longrightarrow> length t < 128"
  shows "\<exists>peer loc rem. EndpointImpl_PeerString inet_ntop e = Some peer
    \<and> EndpointImpl_LocalIp inet_ntop e = Some loc \<and> length loc \<le> 128
    \<and> EndpointImpl_RemoteIp inet_ntop e = Some rem \<and> length rem \<le> 128"
proof -
  have ip: "\<exists>r t. raptor_sockaddr_get_ip inet_ntop a 128 = Some (r, t) \<and> length (take (nat r) t) \<le> 128" for a
  proof (cases "host_with_scope inet_ntop (normalized a)")
    case (Some x)
    obtain host scoped where x: "x = (host, scoped)" by fastforce
    have "\<not> scoped \<Longrightarrow> length host < 128"
      using Some x assms by (auto simp: host_with_scope_def Let_def split: option.splits if_splits)
    with Some x show ?thesis by (cases scoped) (auto simp: raptor_sockaddr_get_ip_def)
  qed (simp add: raptor_sockaddr_get_ip_def)
  obtain peer where "EndpointImpl_PeerString inet_ntop e = Some peer" using PeerString_total by blast
  moreover obtain r1 t1 where "raptor_sockaddr_get_ip inet_ntop (ei_local_addr e) 128 = Some (r1, t1)"
    "length (take (nat r1) t1) \<le> 128" using ip by blast
  moreover obtain r2 t2 where "raptor_sockaddr_get_ip inet_ntop (ei_remote_addr e) 128 = Some (r2, t2)"
    "length (take (nat r2) t2) \<le> 128" using ip by blast
  ultimately show ?thesis by (simp add: EndpointImpl_LocalIp_def EndpointImpl_RemoteIp_def)
qed

theorem endpoint_addresses_in_bounds_witness:
  "\<exists>loc. EndpointImpl_LocalIp (\<lambda>_ _. Some ''127.0.0.1'') (EndpointImpl_new 7 example_v4 example_v4) = Some loc
     \<and> length loc \<le> 128"
  using endpoint_addresses_in_bounds [of "\<lambda>_ _. Some ''127.0.0.1''" "EndpointImpl_new 7 example_v4 example_v4"]
  by auto

end
