(* ===== verification/Slice.thy ===== *)
theory Slice
  imports Prelude "HOL-Library.Multiset"
begin

text \<open>
  \<open>Slice\<close> (src/src/utils/slice.cc, include/raptor-lite/utils/slice.h): an immutable byte string
  that is either stored inside the object (up to 23 bytes) or in a heap block shared by all the
  copies of the slice and kept alive by an \<open>AtomicInt32\<close> counter in front of its bytes.

  The heap is explicit: a map from addresses to blocks, so that a freed block is a hole and
  touching it is \<open>None\<close>. The main results are that the counter of every block is the number of
  live \<open>Slice\<close> objects that refer to it, so that no sequence of operations touches a freed
  block, frees twice or leaks, and that each operation computes the expected byte string.
\<close>

unbundle bit_operations_syntax

section \<open>Data\<close>

definition SLICE_INLINED_SIZE :: nat where
  "SLICE_INLINED_SIZE = 23"

text \<open>A heap block: the counter of \<open>SliceRefCount\<close> followed by the bytes.\<close>

record block =
  refs :: "32 word"
  payload :: "byte list"

text \<open>\<open>junk\<close> is what uninitialised storage holds; no theorem constrains it.\<close>

record heap =
  blocks :: "addr \<Rightarrow> block option"
  brk :: addr
  junk :: "nat \<Rightarrow> byte"

text \<open>
  The union of \<open>slice.h\<close>, discriminated by \<open>_refs\<close>: a null \<open>_refs\<close> is \<open>Inlined length bytes\<close>;
  otherwise \<open>Refcounted refs length offset\<close>, where \<open>bytes\<close> points \<open>offset\<close> bytes into the block.
\<close>

datatype slice =
    Inlined byte "byte list"
  | Refcounted addr size_t size_t

section \<open>Memory primitives\<close>

definition uninit :: "nat \<Rightarrow> heap \<Rightarrow> byte list" where
  "uninit n h = map (junk h) [0..<n]"

text \<open>\<open>malloc(sizeof(SliceRefCount) + len)\<close> followed by placement-new of the counter.\<close>

definition new_block :: "size_t \<Rightarrow> heap \<Rightarrow> addr \<times> heap" where
  "new_block len h =
     (brk h, h\<lparr>blocks := (blocks h)(brk h \<mapsto> \<lparr>refs = 1, payload = uninit len h\<rparr>),
               brk := Suc (brk h)\<rparr>)"

text \<open>\<open>memcpy(dst + pos, src, length src)\<close>.\<close>

definition mem_write :: "byte list \<Rightarrow> nat \<Rightarrow> byte list \<Rightarrow> byte list option" where
  "mem_write dst pos src =
     (if pos + length src \<le> length dst
      then Some (take pos dst @ src @ drop (pos + length src) dst) else None)"

text \<open>\<open>if (ptr) memcpy(dst, ptr, len)\<close>, with \<open>None\<close> for a null \<open>ptr\<close>.\<close>

definition copy_if_ptr :: "byte list option \<Rightarrow> size_t \<Rightarrow> byte list \<Rightarrow> byte list option" where
  "copy_if_ptr ptr len dst =
     (case ptr of
        None \<Rightarrow> Some dst
      | Some src \<Rightarrow> if len \<le> length src then mem_write dst 0 (take len src) else None)"

section \<open>The reference counter\<close>

definition SliceRefCount_AddRef :: "addr \<Rightarrow> heap \<Rightarrow> heap option" where
  "SliceRefCount_AddRef a h = do {
     b \<leftarrow> blocks h a;
     Some (h\<lparr>blocks := (blocks h)(a \<mapsto> b\<lparr>refs := refs b + 1\<rparr>)\<rparr>) }"

definition SliceRefCount_DecRef :: "addr \<Rightarrow> heap \<Rightarrow> heap option" where
  "SliceRefCount_DecRef a h = do {
     b \<leftarrow> blocks h a;
     let n = refs b;
     if n = 1 then Some (h\<lparr>blocks := (blocks h)(a := None)\<rparr>)
     else Some (h\<lparr>blocks := (blocks h)(a \<mapsto> b\<lparr>refs := n - 1\<rparr>)\<rparr>) }"

section \<open>Operations of Slice\<close>

definition Slice_default :: slice where
  "Slice_default = Inlined 0 (replicate SLICE_INLINED_SIZE 0)"

definition Slice_ctor :: "byte list option \<Rightarrow> size_t \<Rightarrow> heap \<Rightarrow> (slice \<times> heap) option" where
  "Slice_ctor ptr len h =
     (if len = 0 then Some (Slice_default, h)
      else if len \<le> SLICE_INLINED_SIZE then do {
        bs \<leftarrow> copy_if_ptr ptr len (uninit SLICE_INLINED_SIZE h);
        Some (Inlined (of_nat len) bs, h) }
      else do {
        let (a, h1) = new_block len h;
        b \<leftarrow> blocks h1 a;
        bs \<leftarrow> copy_if_ptr ptr len (payload b);
        Some (Refcounted a len 0, h1\<lparr>blocks := (blocks h1)(a \<mapsto> b\<lparr>payload := bs\<rparr>)\<rparr>) })"

definition Slice_of_string :: "byte list \<Rightarrow> heap \<Rightarrow> (slice \<times> heap) option" where
  "Slice_of_string str h = Slice_ctor (Some str) (length str) h"

definition Slice_dtor :: "slice \<Rightarrow> heap \<Rightarrow> heap option" where
  "Slice_dtor self h =
     (case self of
        Inlined _ _ \<Rightarrow> Some h
      | Refcounted a _ _ \<Rightarrow> SliceRefCount_DecRef a h)"

definition Slice_copy :: "slice \<Rightarrow> heap \<Rightarrow> (slice \<times> heap) option" where
  "Slice_copy oth h =
     (case oth of
        Inlined _ _ \<Rightarrow> Some (oth, h)
      | Refcounted a _ _ \<Rightarrow> do { h1 \<leftarrow> SliceRefCount_AddRef a h; Some (oth, h1) })"

text \<open>\<open>operator=(const Slice &)\<close>: the target's block is released before the source's is
  taken. \<open>same\<close> is \<open>this == &oth\<close>.\<close>

definition Slice_assign :: "bool \<Rightarrow> slice \<Rightarrow> slice \<Rightarrow> heap \<Rightarrow> (slice \<times> heap) option" where
  "Slice_assign same self oth h =
     (if same then Some (self, h)
      else do {
        h1 \<leftarrow> (case self of Inlined _ _ \<Rightarrow> Some h | Refcounted a _ _ \<Rightarrow> SliceRefCount_DecRef a h);
        h2 \<leftarrow> (case oth of Inlined _ _ \<Rightarrow> Some h1 | Refcounted a _ _ \<Rightarrow> SliceRefCount_AddRef a h1);
        Some (oth, h2) })"

text \<open>The move constructor copies the pointer and takes a reference of its own; the source
  keeps its own (\<open>std::move\<close> of a raw pointer copies it).\<close>

definition Slice_move :: "slice \<Rightarrow> heap \<Rightarrow> (slice \<times> heap) option" where
  "Slice_move oth h =
     (case oth of
        Inlined _ _ \<Rightarrow> Some (oth, h)
      | Refcounted a _ _ \<Rightarrow> do { h1 \<leftarrow> SliceRefCount_AddRef a h; Some (oth, h1) })"

text \<open>\<open>operator=(Slice &&)\<close>: here the source's block is taken first.\<close>

definition Slice_move_assign :: "bool \<Rightarrow> slice \<Rightarrow> slice \<Rightarrow> heap \<Rightarrow> (slice \<times> heap) option" where
  "Slice_move_assign same self oth h =
     (if same then Some (self, h)
      else do {
        h1 \<leftarrow> (case oth of Inlined _ _ \<Rightarrow> Some h | Refcounted a _ _ \<Rightarrow> SliceRefCount_AddRef a h);
        h2 \<leftarrow> (case self of Inlined _ _ \<Rightarrow> Some h1 | Refcounted a _ _ \<Rightarrow> SliceRefCount_DecRef a h1);
        Some (oth, h2) })"

definition Slice_size :: "slice \<Rightarrow> size_t" where
  "Slice_size self = (case self of Inlined n _ \<Rightarrow> unat n | Refcounted _ n _ \<Rightarrow> n)"

definition Slice_Empty :: "slice \<Rightarrow> bool" where
  "Slice_Empty self \<longleftrightarrow> Slice_size self = 0"

text \<open>The \<open>n\<close> bytes that start at \<open>begin()\<close>.\<close>

definition Slice_begin :: "slice \<Rightarrow> nat \<Rightarrow> heap \<Rightarrow> byte list option" where
  "Slice_begin self n h =
     (case self of
        Inlined _ bs \<Rightarrow> if n \<le> length bs then Some (take n bs) else None
      | Refcounted a _ off \<Rightarrow> do {
          b \<leftarrow> blocks h a;
          if off + n \<le> length (payload b) then Some (take n (drop off (payload b))) else None })"

text \<open>\<open>memcpy(Buffer() + pos, src, \<dots>)\<close>; inline bytes live in the object itself.\<close>

definition Slice_write :: "slice \<Rightarrow> nat \<Rightarrow> byte list \<Rightarrow> heap \<Rightarrow> (slice \<times> heap) option" where
  "Slice_write self pos src h =
     (case self of
        Inlined n bs \<Rightarrow> do { bs' \<leftarrow> mem_write bs pos src; Some (Inlined n bs', h) }
      | Refcounted a n off \<Rightarrow> do {
          b \<leftarrow> blocks h a;
          bs' \<leftarrow> mem_write (payload b) (off + pos) src;
          Some (self, h\<lparr>blocks := (blocks h)(a \<mapsto> b\<lparr>payload := bs'\<rparr>)\<rparr>) })"

text \<open>\<open>Assign\<close>: a temporary is built, assigned and destroyed.\<close>

definition Slice_Assign :: "slice \<Rightarrow> byte list \<Rightarrow> heap \<Rightarrow> (slice \<times> heap) option" where
  "Slice_Assign self s h = do {
     (obj, h1) \<leftarrow> Slice_of_string s h;
     (self', h2) \<leftarrow> Slice_assign False self obj h1;
     h3 \<leftarrow> Slice_dtor obj h2;
     Some (self', h3) }"

definition Slice_Compare :: "slice \<Rightarrow> byte list \<Rightarrow> heap \<Rightarrow> bool option" where
  "Slice_Compare self s h =
     (if s = [] \<and> Slice_Empty self then Some True
      else if length s \<noteq> Slice_size self then Some False
      else do { bs \<leftarrow> Slice_begin self (Slice_size self) h; Some (bs = s) })"

definition Slice_eq :: "slice \<Rightarrow> slice \<Rightarrow> heap \<Rightarrow> bool option" where
  "Slice_eq self s h =
     (if Slice_Empty s \<and> Slice_Empty self then Some True
      else if Slice_size s \<noteq> Slice_size self then Some False
      else do {
        bs \<leftarrow> Slice_begin self (Slice_size self) h;
        cs \<leftarrow> Slice_begin s (Slice_size self) h;
        Some (bs = cs) })"

definition Slice_PopBack :: "slice \<Rightarrow> size_t \<Rightarrow> slice" where
  "Slice_PopBack self remove_size =
     (if remove_size = 0 then self
      else let r = (if remove_size > Slice_size self then Slice_size self else remove_size)
           in case self of
                Refcounted a n off \<Rightarrow> Refcounted a (sz_sub n r) off
              | Inlined n bs \<Rightarrow> Inlined (n - of_nat r) bs)"

text \<open>For an inline slice \<open>memmove\<close> shifts the remaining bytes to the front.\<close>

definition Slice_PopFront :: "slice \<Rightarrow> size_t \<Rightarrow> slice" where
  "Slice_PopFront self remove_size =
     (if remove_size = 0 then self
      else let r = (if remove_size > Slice_size self then Slice_size self else remove_size)
           in case self of
                Refcounted a n off \<Rightarrow> Refcounted a (sz_sub n r) (off + r)
              | Inlined n bs \<Rightarrow>
                  let n' = n - of_nat r
                  in Inlined n' (take (unat n') (drop r bs) @ drop (unat n') bs))"

definition Slice_ToString :: "slice \<Rightarrow> heap \<Rightarrow> byte list option" where
  "Slice_ToString self h = Slice_begin self (Slice_size self) h"

section \<open>Free functions\<close>

definition MakeSliceByLength :: "size_t \<Rightarrow> heap \<Rightarrow> slice \<times> heap" where
  "MakeSliceByLength len h =
     (if len \<le> SLICE_INLINED_SIZE
      then (Inlined (of_nat len) (replicate SLICE_INLINED_SIZE 0), h)
      else let (a, h1) = new_block len h in (Refcounted a len 0, h1))"

text \<open>\<open>sizeof(SliceRefCount)\<close> is the size of its \<open>AtomicInt32\<close>, 4 bytes.\<close>

definition MakeSliceByDefaultSize :: "heap \<Rightarrow> slice \<times> heap" where
  "MakeSliceByDefaultSize h = MakeSliceByLength (4096 - 4) h"

text \<open>The body of \<open>operator+\<close> on its by-value parameters \<open>s1\<close> and \<open>s2\<close>.\<close>

definition Slice_plus_body :: "slice \<Rightarrow> slice \<Rightarrow> heap \<Rightarrow> (slice \<times> heap) option" where
  "Slice_plus_body s1 s2 h =
     (if Slice_Empty s1 \<and> Slice_Empty s2 then Some (Slice_default, h)
      else do {
        let len = sz_add (Slice_size s1) (Slice_size s2);
        let (s, g0) = MakeSliceByLength len h;
        (s, g1) \<leftarrow> (if \<not> Slice_Empty s1
                   then do { bs \<leftarrow> Slice_begin s1 (Slice_size s1) g0; Slice_write s 0 bs g0 }
                   else Some (s, g0));
        let buff = (if \<not> Slice_Empty s1 then Slice_size s1 else 0);
        (if \<not> Slice_Empty s2
         then do { bs \<leftarrow> Slice_begin s2 (Slice_size s2) g1; Slice_write s buff bs g1 }
         else Some (s, g1)) })"

text \<open>\<open>operator+\<close>: the operands are copied in, and both copies are destroyed on return.\<close>

definition Slice_plus :: "slice \<Rightarrow> slice \<Rightarrow> heap \<Rightarrow> (slice \<times> heap) option" where
  "Slice_plus o1 o2 h = do {
     (s1, h1) \<leftarrow> Slice_copy o1 h;
     (s2, h2) \<leftarrow> Slice_copy o2 h1;
     (r, h3) \<leftarrow> Slice_plus_body s1 s2 h2;
     h4 \<leftarrow> Slice_dtor s2 h3;
     h5 \<leftarrow> Slice_dtor s1 h4;
     Some (r, h5) }"

section \<open>The ownership invariant\<close>

fun refers :: "addr \<Rightarrow> slice \<Rightarrow> bool" where
  "refers a (Inlined _ _) = False"
| "refers a (Refcounted b _ _) = (a = b)"

definition handles :: "addr \<Rightarrow> slice list \<Rightarrow> nat" where
  "handles a L = length (filter (refers a) L)"

fun slice_wf :: "heap \<Rightarrow> slice \<Rightarrow> bool" where
  "slice_wf h (Inlined n bs) \<longleftrightarrow> length bs = SLICE_INLINED_SIZE \<and> unat n \<le> SLICE_INLINED_SIZE"
| "slice_wf h (Refcounted a n off) \<longleftrightarrow>
     (case blocks h a of None \<Rightarrow> False | Some b \<Rightarrow> off + n \<le> length (payload b) \<and> n < size_lim)"

text \<open>\<open>rc_ok h c\<close>: block \<open>a\<close> exists iff \<open>c a > 0\<close>, and its counter is then \<open>c a\<close>.\<close>

definition rc_ok :: "heap \<Rightarrow> (addr \<Rightarrow> nat) \<Rightarrow> bool" where
  "rc_ok h c \<longleftrightarrow> (\<forall>a. case blocks h a of
      None \<Rightarrow> c a = 0
    | Some b \<Rightarrow> 0 < c a \<and> refs b = of_nat (c a))"

definition slice_heap_ok :: "heap \<Rightarrow> slice list \<Rightarrow> bool" where
  "slice_heap_ok h L \<longleftrightarrow> rc_ok h (\<lambda>a. handles a L) \<and> (\<forall>a \<ge> brk h. blocks h a = None)
     \<and> (\<forall>s \<in> set L. slice_wf h s) \<and> length L < 2147483648"

text \<open>The byte string a slice stands for.\<close>

definition slice_val :: "heap \<Rightarrow> slice \<Rightarrow> byte list" where
  "slice_val h s = (case Slice_ToString s h of None \<Rightarrow> [] | Some bs \<Rightarrow> bs)"

lemma rc_ok_NoneD: "rc_ok h c \<Longrightarrow> blocks h a = None \<Longrightarrow> c a = 0"
  unfolding rc_ok_def by (drule spec [of _ a]) simp

lemma rc_ok_SomeD: "rc_ok h c \<Longrightarrow> blocks h a = Some b \<Longrightarrow> 0 < c a \<and> refs b = of_nat (c a)"
  unfolding rc_ok_def by (drule spec [of _ a]) simp

lemma rc_ok_upd:
  "rc_ok h c \<Longrightarrow> blocks h a = Some b \<Longrightarrow> refs b' = refs b \<Longrightarrow>
     rc_ok (h\<lparr>blocks := (blocks h)(a \<mapsto> b')\<rparr>) c"
  using rc_ok_SomeD [of h c a b] by (auto simp: rc_ok_def)

lemma handles_simps [simp]:
  "handles a [] = 0"
  "handles a (s # L) = (if refers a s then Suc (handles a L) else handles a L)"
  "handles a (L @ M) = handles a L + handles a M"
  by (simp_all add: handles_def)

lemma handles_le: "handles a L \<le> length L"
  by (simp add: handles_def)

lemma handles_mset: "mset L = mset M \<Longrightarrow> handles a L = handles a M"
  unfolding handles_def by (metis mset_filter size_mset)

lemma slice_heap_ok_mset:
  assumes "mset L = mset M"
  shows "slice_heap_ok h L = slice_heap_ok h M"
proof -
  have "set L = set M" and "length L = length M"
    using assms by (metis set_mset_mset, metis size_mset)
  then show ?thesis by (simp add: slice_heap_ok_def handles_mset [OF assms])
qed

lemma rc_of_nat_inj:
  assumes "of_nat m = (of_nat n :: 32 word)" and "m < 4294967296" and "n < 4294967296"
  shows "m = n"
proof -
  have "unat (of_nat m :: 32 word) = m" using assms(2) by (simp add: unat_of_nat)
  moreover have "unat (of_nat n :: 32 word) = n" using assms(3) by (simp add: unat_of_nat)
  ultimately show ?thesis using assms(1) by metis
qed

lemma slice_heap_ok_wf: "slice_heap_ok h L \<Longrightarrow> s \<in> set L \<Longrightarrow> slice_wf h s"
  by (simp add: slice_heap_ok_def)

lemma slice_wf_read:
  "slice_wf h s \<Longrightarrow> Slice_ToString s h = Some (slice_val h s)"
  by (cases s) (auto simp: slice_val_def Slice_ToString_def Slice_begin_def Slice_size_def
      SLICE_INLINED_SIZE_def split: option.splits)

lemma slice_wf_size:
  "slice_wf h s \<Longrightarrow> length (slice_val h s) = Slice_size s"
  by (cases s) (auto simp: slice_val_def Slice_ToString_def Slice_begin_def Slice_size_def
      SLICE_INLINED_SIZE_def split: option.splits)

lemma slice_wf_size_bound: "slice_wf h s \<Longrightarrow> Slice_size s < size_lim"
  by (cases s) (auto simp: Slice_size_def SLICE_INLINED_SIZE_def split: option.splits)

text \<open>Frame: an update that keeps the payloads of the other live blocks keeps their values.\<close>

definition same_bytes :: "heap \<Rightarrow> heap \<Rightarrow> slice list \<Rightarrow> bool" where
  "same_bytes h h' L \<longleftrightarrow> (\<forall>s \<in> set L. slice_wf h' s \<and> slice_val h' s = slice_val h s)"

lemma same_bytes_refl: "slice_heap_ok h L \<Longrightarrow> same_bytes h h L"
  by (simp add: same_bytes_def slice_heap_ok_def)

lemma same_bytes_trans:
  "same_bytes h h' L \<Longrightarrow> same_bytes h' h'' L \<Longrightarrow> same_bytes h h'' L"
  by (simp add: same_bytes_def)

lemma same_bytesI:
  assumes "\<And>a b. handles a L > 0 \<Longrightarrow> blocks h a = Some b \<Longrightarrow>
      \<exists>b'. blocks h' a = Some b' \<and> payload b' = payload b"
    and "\<forall>s \<in> set L. slice_wf h s"
  shows "same_bytes h h' L"
  unfolding same_bytes_def
proof
  fix s assume s: "s \<in> set L"
  with assms(2) have wf: "slice_wf h s" by simp
  show "slice_wf h' s \<and> slice_val h' s = slice_val h s"
  proof (cases s)
    case (Inlined n bs)
    with wf show ?thesis
      by (simp add: slice_val_def Slice_ToString_def Slice_begin_def)
  next
    case (Refcounted a n off)
    with wf obtain b where b: "blocks h a = Some b" "off + n \<le> length (payload b)" "n < size_lim"
      by (auto split: option.splits)
    have "handles a L > 0"
      unfolding handles_def by (rule filter_pos_if_mem [OF s]) (simp add: Refcounted)
    from assms(1) [OF this b(1)] obtain b' where "blocks h' a = Some b'" "payload b' = payload b"
      by blast
    with b Refcounted show ?thesis
      by (simp add: slice_val_def Slice_ToString_def Slice_begin_def)
  qed
qed

section \<open>Every operation keeps the invariant\<close>

lemma AddRef_ok:
  assumes ok: "slice_heap_ok h L" and b: "blocks h a = Some b"
    and wf: "off + n \<le> length (payload b)" "n < size_lim" and len: "Suc (length L) < 2147483648"
  shows "\<exists>h'. SliceRefCount_AddRef a h = Some h' \<and> slice_heap_ok h' (Refcounted a n off # L)
           \<and> same_bytes h h' L \<and> slice_val h' (Refcounted a n off) = slice_val h (Refcounted a n off)"
proof -
  define h' where "h' = h\<lparr>blocks := (blocks h)(a \<mapsto> b\<lparr>refs := refs b + 1\<rparr>)\<rparr>"
  have rc: "rc_ok h' (\<lambda>x. handles x (Refcounted a n off # L))"
    using ok b by (auto simp: slice_heap_ok_def rc_ok_def h'_def split: option.splits)
  have sb: "same_bytes h h' L"
    by (rule same_bytesI) (use ok b in \<open>auto simp: h'_def slice_heap_ok_def\<close>)
  have "a < brk h"
    using ok b unfolding slice_heap_ok_def by (metis leI option.simps(3))
  then have fresh: "\<forall>x \<ge> brk h'. blocks h' x = None"
    using ok by (auto simp: h'_def slice_heap_ok_def)
  have "slice_heap_ok h' (Refcounted a n off # L)"
    using rc sb fresh len wf b
    by (auto simp: slice_heap_ok_def same_bytes_def) (simp_all add: h'_def)
  moreover have "slice_val h' (Refcounted a n off) = slice_val h (Refcounted a n off)"
    using b by (simp add: slice_val_def Slice_ToString_def Slice_begin_def Slice_size_def h'_def)
  ultimately show ?thesis
    using sb b by (auto simp: SliceRefCount_AddRef_def h'_def)
qed

lemma DecRef_ok:
  assumes ok: "slice_heap_ok h (Refcounted a n off # L)"
  shows "\<exists>h'. SliceRefCount_DecRef a h = Some h' \<and> slice_heap_ok h' L \<and> same_bytes h h' L"
proof -
  from ok obtain b where b: "blocks h a = Some b" and refs: "refs b = of_nat (Suc (handles a L))"
    by (fastforce simp: slice_heap_ok_def rc_ok_def split: option.splits)
  define h' where "h' = (if refs b = 1 then h\<lparr>blocks := (blocks h)(a := None)\<rparr>
     else h\<lparr>blocks := (blocks h)(a \<mapsto> b\<lparr>refs := refs b - 1\<rparr>)\<rparr>)"
  have lenL: "Suc (length L) < 2147483648" using ok by (simp add: slice_heap_ok_def)
  have iff: "refs b = 1 \<longleftrightarrow> handles a L = 0"
  proof
    assume "refs b = 1"
    then have "of_nat (Suc (handles a L)) = (of_nat 1 :: 32 word)" using refs by simp
    then have "Suc (handles a L) = 1"
      by (rule rc_of_nat_inj) (use handles_le [of a L] lenL in auto)
    then show "handles a L = 0" by simp
  qed (simp add: refs)
  have rcL: "rc_ok h (\<lambda>x. handles x (Refcounted a n off # L))"
    using ok by (simp add: slice_heap_ok_def)
  have rc: "rc_ok h' (\<lambda>x. handles x L)"
    unfolding rc_ok_def
  proof
    fix x
    from rcL have "case blocks h x of None \<Rightarrow> handles x (Refcounted a n off # L) = 0
      | Some c \<Rightarrow> 0 < handles x (Refcounted a n off # L)
          \<and> refs c = of_nat (handles x (Refcounted a n off # L))"
      unfolding rc_ok_def by blast
    then show "case blocks h' x of None \<Rightarrow> handles x L = 0
        | Some c \<Rightarrow> 0 < handles x L \<and> refs c = of_nat (handles x L)"
      using b iff refs by (auto simp: h'_def split: option.splits if_splits)
  qed
  have sb: "same_bytes h h' L"
    by (rule same_bytesI) (use ok b iff in \<open>auto simp: h'_def slice_heap_ok_def\<close>)
  have "a < brk h"
    using ok b unfolding slice_heap_ok_def by (metis leI option.simps(3))
  then have "\<forall>x \<ge> brk h'. blocks h' x = None"
    using ok by (auto simp: h'_def slice_heap_ok_def)
  with rc sb lenL have "slice_heap_ok h' L"
    by (simp add: slice_heap_ok_def same_bytes_def)
  moreover have "SliceRefCount_DecRef a h = Some h'"
    using b by (simp add: SliceRefCount_DecRef_def h'_def Let_def)
  ultimately show ?thesis using sb by blast
qed

lemma Slice_dtor_ok:
  assumes "slice_heap_ok h (s # L)"
  shows "\<exists>h'. Slice_dtor s h = Some h' \<and> slice_heap_ok h' L \<and> same_bytes h h' L"
proof (cases s)
  case (Inlined n bs)
  with assms have "slice_heap_ok h L" by (simp add: slice_heap_ok_def)
  with Inlined show ?thesis by (simp add: Slice_dtor_def same_bytes_refl)
next
  case (Refcounted a n off)
  with DecRef_ok [of h a n off L] assms show ?thesis by (simp add: Slice_dtor_def)
qed

lemma Slice_copy_ok:
  assumes ok: "slice_heap_ok h L" and s: "slice_wf h s" and len: "Suc (length L) < 2147483648"
  shows "\<exists>h'. Slice_copy s h = Some (s, h') \<and> slice_heap_ok h' (s # L) \<and> same_bytes h h' L
           \<and> slice_val h' s = slice_val h s"
proof (cases s)
  case (Inlined n bs)
  with assms show ?thesis by (simp add: Slice_copy_def slice_heap_ok_def same_bytes_def)
next
  case (Refcounted a n off)
  with s obtain b where "blocks h a = Some b" "off + n \<le> length (payload b)" "n < size_lim"
    by (auto split: option.splits)
  from AddRef_ok [OF ok this len] Refcounted show ?thesis by (auto simp: Slice_copy_def)
qed

lemma Slice_move_eq_copy: "Slice_move = Slice_copy"
  by (simp add: fun_eq_iff Slice_move_def Slice_copy_def)

text \<open>Assignment is destruction of the old value followed by a copy of the new one.\<close>

lemma Slice_assign_alt:
  "Slice_assign False self oth h = do { h1 \<leftarrow> Slice_dtor self h; Slice_copy oth h1 }"
  by (auto simp: Slice_assign_def Slice_dtor_def Slice_copy_def split: slice.splits)

lemma Slice_move_assign_alt:
  "Slice_move_assign False self oth h =
     do { (s, h1) \<leftarrow> Slice_copy oth h; h2 \<leftarrow> Slice_dtor self h1; Some (s, h2) }"
  by (auto simp: Slice_move_assign_def Slice_dtor_def Slice_copy_def split: slice.splits)

lemma Slice_assign_ok:
  assumes ok: "slice_heap_ok h (self # L)" and oth: "oth \<in> set L"
  shows "\<exists>h'. Slice_assign False self oth h = Some (oth, h') \<and> slice_heap_ok h' (oth # L)
           \<and> same_bytes h h' L"
proof -
  have len: "Suc (length L) < 2147483648" using ok by (simp add: slice_heap_ok_def)
  from Slice_dtor_ok [OF ok] obtain h1 where
    h1: "Slice_dtor self h = Some h1" "slice_heap_ok h1 L" "same_bytes h h1 L" by blast
  have "slice_wf h1 oth" using h1(2) oth by (rule slice_heap_ok_wf)
  from Slice_copy_ok [OF h1(2) this len] obtain h2 where
    "Slice_copy oth h1 = Some (oth, h2)" "slice_heap_ok h2 (oth # L)" "same_bytes h1 h2 L" by blast
  with h1 show ?thesis by (auto simp: Slice_assign_alt intro: same_bytes_trans)
qed

lemma Slice_move_assign_ok:
  assumes ok: "slice_heap_ok h (self # L)" and oth: "oth \<in> set L"
    and len: "Suc (Suc (length L)) < 2147483648"
  shows "\<exists>h'. Slice_move_assign False self oth h = Some (oth, h') \<and> slice_heap_ok h' (oth # L)
           \<and> same_bytes h h' L"
proof -
  have "slice_wf h oth" using ok oth by (simp add: slice_heap_ok_wf)
  from Slice_copy_ok [OF ok this] len obtain h1 where
    h1: "Slice_copy oth h = Some (oth, h1)" "slice_heap_ok h1 (oth # self # L)"
        "same_bytes h h1 (self # L)" by auto
  have "slice_heap_ok h1 (self # oth # L)"
    using h1(2) by (simp add: slice_heap_ok_mset [of "self # oth # L" "oth # self # L"])
  from Slice_dtor_ok [OF this] obtain h2 where
    h2: "Slice_dtor self h1 = Some h2" "slice_heap_ok h2 (oth # L)" "same_bytes h1 h2 (oth # L)"
    by blast
  have "same_bytes h h2 L" using h1(3) h2(3) unfolding same_bytes_def by simp
  moreover have "Slice_move_assign False self oth h = Some (oth, h2)"
    by (simp add: Slice_move_assign_alt h1(1) h2(1))
  ultimately show ?thesis using h2(2) by blast
qed

section \<open>Allocation\<close>

text \<open>A fresh block is owned by exactly one slice, and no other slice sees it.\<close>

lemma new_block_ok:
  assumes ok: "slice_heap_ok h L" and n: "n < size_lim" and len: "Suc (length L) < 2147483648"
    and bs: "length bs = n"
  defines "h' \<equiv> h\<lparr>blocks := (blocks h)(brk h \<mapsto> \<lparr>refs = 1, payload = bs\<rparr>), brk := Suc (brk h)\<rparr>"
  shows "slice_heap_ok h' (Refcounted (brk h) n 0 # L)" and "same_bytes h h' L"
    and "slice_val h' (Refcounted (brk h) n 0) = bs"
proof -
  have free: "blocks h (brk h) = None" using ok by (simp add: slice_heap_ok_def)
  have rc0: "rc_ok h (\<lambda>x. handles x L)" using ok by (simp add: slice_heap_ok_def)
  then have zero: "handles (brk h) L = 0" using free by (rule rc_ok_NoneD)
  have rc: "rc_ok h' (\<lambda>x. handles x (Refcounted (brk h) n 0 # L))"
    using rc0 zero by (auto simp: rc_ok_def h'_def split: option.splits)
  show sb: "same_bytes h h' L"
    by (rule same_bytesI) (use ok zero in \<open>auto simp: h'_def slice_heap_ok_def\<close>)
  have fresh: "\<forall>x \<ge> brk h'. blocks h' x = None"
    using ok by (auto simp: h'_def slice_heap_ok_def)
  have wf: "slice_wf h' (Refcounted (brk h) n 0)"
    using bs n by (simp add: h'_def)
  show "slice_heap_ok h' (Refcounted (brk h) n 0 # L)"
    using rc sb fresh wf len by (simp add: slice_heap_ok_def same_bytes_def)
  show "slice_val h' (Refcounted (brk h) n 0) = bs"
    using bs by (simp add: h'_def slice_val_def Slice_ToString_def Slice_begin_def Slice_size_def)
qed

lemma mem_write_prefix: "length src \<le> length dst \<Longrightarrow> mem_write dst 0 src = Some (src @ drop (length src) dst)"
  by (simp add: mem_write_def)

lemma Slice_ctor_ok:
  assumes ok: "slice_heap_ok h L" and str: "length str < size_lim"
    and len: "Suc (length L) < 2147483648"
  shows "\<exists>s h'. Slice_of_string str h = Some (s, h') \<and> slice_heap_ok h' (s # L)
           \<and> same_bytes h h' L \<and> slice_val h' s = str"
proof -
  consider "str = []" | "str \<noteq> []" "length str \<le> 23" | "23 < length str"
    by fastforce
  then show ?thesis
  proof cases
    case 1
    with ok len show ?thesis
      by (auto simp: Slice_of_string_def Slice_ctor_def Slice_default_def slice_heap_ok_def
          same_bytes_def SLICE_INLINED_SIZE_def slice_val_def Slice_ToString_def Slice_begin_def
          Slice_size_def)
  next
    case 2
    let ?s = "Inlined (of_nat (length str)) (str @ drop (length str) (uninit 23 h))"
    have n: "unat (of_nat (length str) :: byte) = length str"
      using 2 by (simp add: unat_of_nat)
    have "Slice_of_string str h = Some (?s, h)"
      using 2 by (simp add: Slice_of_string_def Slice_ctor_def copy_if_ptr_def SLICE_INLINED_SIZE_def
          mem_write_prefix uninit_def)
    moreover have "slice_heap_ok h (?s # L)"
      using ok len n 2 by (simp add: slice_heap_ok_def SLICE_INLINED_SIZE_def uninit_def)
    moreover have "slice_val h ?s = str"
      using n 2 by (simp add: slice_val_def Slice_ToString_def Slice_begin_def Slice_size_def uninit_def)
    ultimately show ?thesis using ok by (blast intro: same_bytes_refl)
  next
    case 3
    let ?h' = "h\<lparr>blocks := (blocks h)(brk h \<mapsto> \<lparr>refs = 1, payload = str\<rparr>), brk := Suc (brk h)\<rparr>"
    have "Slice_of_string str h = Some (Refcounted (brk h) (length str) 0, ?h')"
      using 3 by (auto simp: Slice_of_string_def Slice_ctor_def copy_if_ptr_def SLICE_INLINED_SIZE_def
          new_block_def mem_write_prefix uninit_def)
    with new_block_ok [OF ok str len refl] show ?thesis by blast
  qed
qed

section \<open>Trimming\<close>

text \<open>Trimming changes only the handle; the block and the other handles stay as they are.\<close>

lemma slice_val_Refcounted:
  "blocks h a = Some b \<Longrightarrow> off + n \<le> length (payload b) \<Longrightarrow>
     slice_val h (Refcounted a n off) = take n (drop off (payload b))"
  by (simp add: slice_val_def Slice_ToString_def Slice_begin_def Slice_size_def)

lemma slice_val_Inlined:
  "unat n \<le> length bs \<Longrightarrow> slice_val h (Inlined n bs) = take (unat n) bs"
  by (simp add: slice_val_def Slice_ToString_def Slice_begin_def Slice_size_def)

lemma unat_sub_of_nat_byte:
  assumes "r \<le> unat (n :: byte)"
  shows "unat (n - of_nat r) = unat n - r"
proof -
  have r: "unat (of_nat r :: byte) = r"
    using assms unsigned_less [of n, where 'a = nat] by (simp add: unat_of_nat)
  with assms have "of_nat r \<le> n" by (simp add: word_le_nat_alt)
  with r show ?thesis by (simp add: unat_sub)
qed

lemma Slice_PopFront_refines:
  assumes wf: "slice_wf h s"
  shows "slice_val h (Slice_PopFront s k) = drop k (slice_val h s)"
    and "slice_wf h (Slice_PopFront s k)" and "refers a (Slice_PopFront s k) = refers a s"
proof -
  have "slice_val h (Slice_PopFront s k) = drop k (slice_val h s) \<and> slice_wf h (Slice_PopFront s k)
    \<and> refers a (Slice_PopFront s k) = refers a s"
  proof (cases s)
    case (Inlined n bs)
    let ?r = "if k > unat n then unat n else k"
    have r: "unat (n - of_nat ?r) = unat n - ?r" by (rule unat_sub_of_nat_byte) simp
    have bs: "length bs = 23" "unat n \<le> 23" using wf Inlined by (simp_all add: SLICE_INLINED_SIZE_def)
    have "slice_val h (Inlined (n - of_nat ?r)
        (take (unat n - ?r) (drop ?r bs) @ drop (unat n - ?r) bs)) = take (unat n - ?r) (drop ?r bs)"
      using bs r by (subst slice_val_Inlined) auto
    then show ?thesis
      using bs r Inlined wf
      by (auto simp: Slice_PopFront_def Slice_size_def Let_def slice_val_Inlined drop_take
          SLICE_INLINED_SIZE_def)
  next
    case (Refcounted b n off)
    with wf obtain bl where "blocks h b = Some bl" "off + n \<le> length (payload bl)" "n < size_lim"
      by (auto split: option.splits)
    with Refcounted show ?thesis
      by (auto simp: Slice_PopFront_def Slice_size_def Let_def slice_val_Refcounted drop_take
          sz_simps add.commute)
  qed
  then show "slice_val h (Slice_PopFront s k) = drop k (slice_val h s)"
    and "slice_wf h (Slice_PopFront s k)" and "refers a (Slice_PopFront s k) = refers a s"
    by simp_all
qed

lemma Slice_PopBack_refines:
  assumes wf: "slice_wf h s"
  shows "slice_val h (Slice_PopBack s k) = take (length (slice_val h s) - k) (slice_val h s)"
    and "slice_wf h (Slice_PopBack s k)" and "refers a (Slice_PopBack s k) = refers a s"
proof -
  have "slice_val h (Slice_PopBack s k) = take (length (slice_val h s) - k) (slice_val h s)
    \<and> slice_wf h (Slice_PopBack s k) \<and> refers a (Slice_PopBack s k) = refers a s"
  proof (cases s)
    case (Inlined n bs)
    let ?r = "if k > unat n then unat n else k"
    have r: "unat (n - of_nat ?r) = unat n - ?r" by (rule unat_sub_of_nat_byte) simp
    have bs: "length bs = 23" "unat n \<le> 23" using wf Inlined by (simp_all add: SLICE_INLINED_SIZE_def)
    show ?thesis
      using bs r Inlined wf
      by (auto simp: Slice_PopBack_def Slice_size_def Let_def slice_val_Inlined
          SLICE_INLINED_SIZE_def)
  next
    case (Refcounted b n off)
    with wf obtain bl where "blocks h b = Some bl" "off + n \<le> length (payload bl)" "n < size_lim"
      by (auto split: option.splits)
    with Refcounted show ?thesis
      by (auto simp: Slice_PopBack_def Slice_size_def Let_def slice_val_Refcounted sz_simps)
  qed
  then show "slice_val h (Slice_PopBack s k) = take (length (slice_val h s) - k) (slice_val h s)"
    and "slice_wf h (Slice_PopBack s k)" and "refers a (Slice_PopBack s k) = refers a s"
    by simp_all
qed

section \<open>Concatenation\<close>

text \<open>A slice whose block no other live slice shares may be written through \<open>Buffer()\<close>.\<close>

definition exclusive :: "slice \<Rightarrow> slice list \<Rightarrow> bool" where
  "exclusive s L \<longleftrightarrow> (case s of Inlined _ _ \<Rightarrow> True | Refcounted a _ _ \<Rightarrow> handles a L = 0)"

lemma MakeSliceByLength_ok:
  assumes ok: "slice_heap_ok h L" and n: "n < size_lim" and len: "Suc (length L) < 2147483648"
  shows "\<exists>s h'. MakeSliceByLength n h = (s, h') \<and> slice_heap_ok h' (s # L) \<and> same_bytes h h' L
           \<and> Slice_size s = n \<and> exclusive s L"
proof (cases "n \<le> 23")
  case True
  then have "unat (of_nat n :: byte) = n" by (simp add: unat_of_nat)
  with True ok len show ?thesis
    by (auto simp: MakeSliceByLength_def SLICE_INLINED_SIZE_def slice_heap_ok_def same_bytes_def
        Slice_size_def exclusive_def)
next
  case False
  have "rc_ok h (\<lambda>x. handles x L)" and "blocks h (brk h) = None"
    using ok by (simp_all add: slice_heap_ok_def)
  then have "handles (brk h) L = 0" by (rule rc_ok_NoneD)
  moreover have "length (uninit n h) = n" by (simp add: uninit_def)
  ultimately show ?thesis
    using new_block_ok [OF ok n len, of "uninit n h"] False
    by (simp add: MakeSliceByLength_def SLICE_INLINED_SIZE_def new_block_def Slice_size_def
        exclusive_def)
qed

lemma mem_write_take:
  assumes "mem_write dst pos src = Some dst'" and "pos + length src \<le> n" and "n \<le> length dst"
  shows "take n dst' = take pos (take n dst) @ src @ drop (pos + length src) (take n dst)"
proof -
  have fit: "pos + length src \<le> length dst"
    and d: "dst' = take pos dst @ src @ drop (pos + length src) dst"
    using assms(1) by (auto simp: mem_write_def split: if_splits)
  have "take n dst' = take pos dst @ src @ take (n - (pos + length src)) (drop (pos + length src) dst)"
    using assms(2) fit by (simp add: d)
  also have "\<dots> = take pos (take n dst) @ src @ drop (pos + length src) (take n dst)"
    using assms(2) by (simp add: drop_take min_def)
  finally show ?thesis .
qed

lemma mem_write_length: "mem_write dst pos src = Some dst' \<Longrightarrow> length dst' = length dst"
  by (auto simp: mem_write_def split: if_splits)

lemma mem_write_drop:
  "mem_write dst (off + pos) src = Some dst' \<Longrightarrow> mem_write (drop off dst) pos src = Some (drop off dst')"
  by (auto simp: mem_write_def drop_take add.commute add.left_commute min_def split: if_splits)

lemma Slice_write_ok:
  assumes ok: "slice_heap_ok h (s # L)" and ex: "exclusive s L"
    and fit: "pos + length src \<le> Slice_size s"
  shows "\<exists>s' h'. Slice_write s pos src h = Some (s', h') \<and> slice_heap_ok h' (s' # L)
      \<and> same_bytes h h' L \<and> Slice_size s' = Slice_size s \<and> exclusive s' L
      \<and> slice_val h' s' = take pos (slice_val h s) @ src @ drop (pos + length src) (slice_val h s)"
proof (cases s)
  case (Inlined n bs)
  from ok Inlined have wf: "length bs = 23" "unat n \<le> 23"
    by (simp_all add: slice_heap_ok_def SLICE_INLINED_SIZE_def)
  from fit Inlined wf obtain bs' where bs': "mem_write bs pos src = Some bs'"
    by (auto simp: mem_write_def Slice_size_def)
  with Inlined ok wf fit mem_write_take [OF bs', of "unat n"] mem_write_length [OF bs'] show ?thesis
    by (auto simp: Slice_write_def slice_heap_ok_def same_bytes_def Slice_size_def exclusive_def
        slice_val_Inlined SLICE_INLINED_SIZE_def)
next
  case (Refcounted a n off)
  from ok have wf: "slice_wf h s" by (simp add: slice_heap_ok_def)
  with Refcounted obtain b where b: "blocks h a = Some b" "off + n \<le> length (payload b)" "n < size_lim"
    by (auto split: option.splits)
  from fit Refcounted b obtain bs' where bs': "mem_write (payload b) (off + pos) src = Some bs'"
    by (auto simp: mem_write_def Slice_size_def)
  define h' where "h' = h\<lparr>blocks := (blocks h)(a \<mapsto> b\<lparr>payload := bs'\<rparr>)\<rparr>"
  have len': "length bs' = length (payload b)" using bs' by (rule mem_write_length)
  have zero: "handles a L = 0" using ex Refcounted by (simp add: exclusive_def)
  have "rc_ok h' (\<lambda>x. handles x (s # L))"
    unfolding h'_def by (rule rc_ok_upd [OF _ b(1)]) (use ok in \<open>simp_all add: slice_heap_ok_def\<close>)
  moreover have sb: "same_bytes h h' L"
    by (rule same_bytesI) (use ok zero in \<open>auto simp: h'_def slice_heap_ok_def\<close>)
  moreover have "a < brk h"
    using ok b unfolding slice_heap_ok_def by (metis leI option.simps(3))
  then have "\<forall>x \<ge> brk h'. blocks h' x = None" using ok by (auto simp: h'_def slice_heap_ok_def)
  moreover have "slice_wf h' s" using Refcounted b len' by (simp add: h'_def)
  ultimately have ok': "slice_heap_ok h' (s # L)"
    using ok by (simp add: slice_heap_ok_def same_bytes_def)
  have "slice_val h' s = take n (drop off bs')"
    using Refcounted b len' by (simp add: h'_def slice_val_Refcounted)
  also have "\<dots> = take pos (slice_val h s) @ src @ drop (pos + length src) (slice_val h s)"
    using mem_write_take [OF mem_write_drop [OF bs'], of n] fit b Refcounted
    by (simp add: Slice_size_def slice_val_Refcounted)
  finally show ?thesis
    using Refcounted b bs' ok' sb ex by (auto simp: Slice_write_def h'_def [symmetric])
qed

text \<open>Writing the bytes of a live slice \<open>t\<close> into a fresh one.\<close>

lemma Slice_append_part:
  assumes ok: "slice_heap_ok h (r # L)" and ex: "exclusive r L" and t: "t \<in> set L"
    and fit: "pos + Slice_size t \<le> Slice_size r"
  shows "\<exists>r' h'. (if \<not> Slice_Empty t
             then do { bs \<leftarrow> Slice_begin t (Slice_size t) h; Slice_write r pos bs h }
             else Some (r, h)) = Some (r', h')
      \<and> slice_heap_ok h' (r' # L) \<and> same_bytes h h' L \<and> Slice_size r' = Slice_size r \<and> exclusive r' L
      \<and> slice_val h' r' = take pos (slice_val h r) @ slice_val h t
          @ drop (pos + Slice_size t) (slice_val h r)"
proof -
  have wf: "slice_wf h t" using ok t by (simp add: slice_heap_ok_wf)
  then have rd: "Slice_begin t (Slice_size t) h = Some (slice_val h t)"
    using slice_wf_read by (simp add: Slice_ToString_def)
  note sz = slice_wf_size [OF wf]
  show ?thesis
  proof (cases "Slice_Empty t")
    case True
    then have "slice_val h t = []" using sz by (simp add: Slice_Empty_def)
    moreover have "same_bytes h h L" using ok by (simp add: slice_heap_ok_def same_bytes_def)
    ultimately show ?thesis using True ok ex by (simp add: Slice_Empty_def)
  next
    case False
    with Slice_write_ok [OF ok ex, of pos "slice_val h t"] fit sz rd show ?thesis by simp
  qed
qed

lemma Slice_plus_body_ok:
  assumes ok: "slice_heap_ok h M" and o12: "o1 \<in> set M" "o2 \<in> set M"
    and small: "Slice_size o1 + Slice_size o2 < size_lim" and len: "Suc (length M) < 2147483648"
  shows "\<exists>r h'. Slice_plus_body o1 o2 h = Some (r, h') \<and> slice_heap_ok h' (r # M)
      \<and> same_bytes h h' M \<and> slice_val h' r = slice_val h o1 @ slice_val h o2"
proof (cases "Slice_Empty o1 \<and> Slice_Empty o2")
  case True
  have sz: "length (slice_val h o1) = Slice_size o1" "length (slice_val h o2) = Slice_size o2"
    using slice_wf_size ok o12 by (simp_all add: slice_heap_ok_wf)
  with True have "slice_val h o1 = []" "slice_val h o2 = []" by (simp_all add: Slice_Empty_def)
  moreover have "slice_heap_ok h (Slice_default # M)"
    using ok len by (simp add: slice_heap_ok_def Slice_default_def SLICE_INLINED_SIZE_def)
  moreover have "slice_val h Slice_default = []"
    by (simp add: Slice_default_def slice_val_Inlined)
  ultimately show ?thesis using True same_bytes_refl [OF ok] by (simp add: Slice_plus_body_def)
next
  case False
  have sz: "length (slice_val h o1) = Slice_size o1" "length (slice_val h o2) = Slice_size o2"
    using slice_wf_size ok o12 by (simp_all add: slice_heap_ok_wf)
  from MakeSliceByLength_ok [OF ok small len] obtain s g0 where
    g0: "MakeSliceByLength (Slice_size o1 + Slice_size o2) h = (s, g0)"
      "slice_heap_ok g0 (s # M)" "same_bytes h g0 M"
      "Slice_size s = Slice_size o1 + Slice_size o2" "exclusive s M" by blast
  from Slice_append_part [OF g0(2,5) o12(1), of 0] g0(4) obtain s1 g1 where
    g1: "(if \<not> Slice_Empty o1
           then do { bs \<leftarrow> Slice_begin o1 (Slice_size o1) g0; Slice_write s 0 bs g0 }
           else Some (s, g0)) = Some (s1, g1)"
      "slice_heap_ok g1 (s1 # M)" "same_bytes g0 g1 M" "Slice_size s1 = Slice_size s"
      "exclusive s1 M"
      "slice_val g1 s1 = slice_val g0 o1 @ drop (Slice_size o1) (slice_val g0 s)" by auto
  from Slice_append_part [OF g1(2,5) o12(2), of "Slice_size o1"] g0(4) g1(4) obtain s2 g2 where
    g2: "(if \<not> Slice_Empty o2
           then do { bs \<leftarrow> Slice_begin o2 (Slice_size o2) g1; Slice_write s1 (Slice_size o1) bs g1 }
           else Some (s1, g1)) = Some (s2, g2)"
      "slice_heap_ok g2 (s2 # M)" "same_bytes g1 g2 M"
      "slice_val g2 s2 = take (Slice_size o1) (slice_val g1 s1) @ slice_val g1 o2
          @ drop (Slice_size o1 + Slice_size o2) (slice_val g1 s1)" by auto
  have vals: "slice_val g0 o1 = slice_val h o1" "slice_val g1 o2 = slice_val h o2"
    using g0(3) g1(3) o12 by (simp_all add: same_bytes_def)
  have "length (slice_val g1 s1) = Slice_size o1 + Slice_size o2"
    using slice_wf_size [OF slice_heap_ok_wf [OF g1(2)], of s1] g1(4) g0(4) by simp
  then have "slice_val g2 s2 = slice_val h o1 @ slice_val h o2"
    using g2(4) g1(6) vals sz by simp
  moreover have "same_bytes h g2 M"
    using g0(3) g1(3) g2(3) by (blast intro: same_bytes_trans)
  moreover have buff: "(if \<not> Slice_Empty o1 then Slice_size o1 else 0) = Slice_size o1"
    by (simp add: Slice_Empty_def)
  have "Slice_plus_body o1 o2 h = Some (s2, g2)"
    unfolding Slice_plus_body_def if_not_P [OF False] Let_def buff sz_add_exact [OF small]
      g0(1) case_prod_conv g1(1) bind.bind_lunit g2(1) ..
  ultimately show ?thesis using g2(2) by blast
qed

lemma Slice_plus_ok:
  assumes ok: "slice_heap_ok h L" and o12: "o1 \<in> set L" "o2 \<in> set L"
    and small: "Slice_size o1 + Slice_size o2 < size_lim" and len: "length L + 3 < 2147483648"
  shows "\<exists>r h'. Slice_plus o1 o2 h = Some (r, h') \<and> slice_heap_ok h' (r # L) \<and> same_bytes h h' L
           \<and> slice_val h' r = slice_val h o1 @ slice_val h o2"
proof -
  have wf1: "slice_wf h o1" using ok o12(1) by (rule slice_heap_ok_wf)
  from Slice_copy_ok [OF ok wf1] len obtain h1 where h1: "Slice_copy o1 h = Some (o1, h1)"
    "slice_heap_ok h1 (o1 # L)" "same_bytes h h1 L" by auto
  have wf2: "slice_wf h1 o2" using h1(3) o12(2) by (simp add: same_bytes_def)
  from Slice_copy_ok [OF h1(2) wf2] len obtain h2 where h2: "Slice_copy o2 h1 = Some (o2, h2)"
    "slice_heap_ok h2 (o2 # o1 # L)" "same_bytes h1 h2 (o1 # L)" by auto
  have v12: "slice_val h2 o1 = slice_val h o1" "slice_val h2 o2 = slice_val h o2"
    using h1(3) h2(3) o12 by (simp_all add: same_bytes_def)
  from Slice_plus_body_ok [OF h2(2), of o1 o2] small len v12 obtain r h3 where
    h3: "Slice_plus_body o1 o2 h2 = Some (r, h3)" "slice_heap_ok h3 (r # o2 # o1 # L)"
      "same_bytes h2 h3 (o2 # o1 # L)" "slice_val h3 r = slice_val h o1 @ slice_val h o2" by auto
  have "slice_heap_ok h3 (o2 # r # o1 # L)"
    using h3(2) by (simp add: slice_heap_ok_mset [of "o2 # r # o1 # L" "r # o2 # o1 # L"])
  from Slice_dtor_ok [OF this] obtain h4 where h4: "Slice_dtor o2 h3 = Some h4"
    "slice_heap_ok h4 (r # o1 # L)" "same_bytes h3 h4 (r # o1 # L)" by blast
  have "slice_heap_ok h4 (o1 # r # L)"
    using h4(2) by (simp add: slice_heap_ok_mset [of "o1 # r # L" "r # o1 # L"])
  from Slice_dtor_ok [OF this] obtain h5 where h5: "Slice_dtor o1 h4 = Some h5"
    "slice_heap_ok h5 (r # L)" "same_bytes h4 h5 (r # L)" by blast
  have "Slice_plus o1 o2 h = Some (r, h5)"
    by (simp add: Slice_plus_def h1(1) h2(1) h3(1) h4(1) h5(1))
  moreover have "same_bytes h h5 L"
    using h1(3) h2(3) h3(3) h4(3) h5(3) by (simp add: same_bytes_def)
  moreover have "slice_val h5 r = slice_val h o1 @ slice_val h o2"
    using h3(4) h4(3) h5(3) by (simp add: same_bytes_def)
  ultimately show ?thesis using h5(2) by blast
qed

lemma Slice_Assign_ok:
  assumes ok: "slice_heap_ok h (self # L)" and str: "length str < size_lim"
    and len: "length L + 2 < 2147483648"
  shows "\<exists>s h'. Slice_Assign self str h = Some (s, h') \<and> slice_heap_ok h' (s # L)
           \<and> same_bytes h h' L \<and> slice_val h' s = str"
proof -
  from Slice_ctor_ok [OF ok str] len obtain obj h1 where h1: "Slice_of_string str h = Some (obj, h1)"
    "slice_heap_ok h1 (obj # self # L)" "same_bytes h h1 (self # L)" "slice_val h1 obj = str" by auto
  have "slice_heap_ok h1 (self # obj # L)"
    using h1(2) by (simp add: slice_heap_ok_mset [of "self # obj # L" "obj # self # L"])
  from Slice_assign_ok [OF this, of obj] obtain h2 where
    h2: "Slice_assign False self obj h1 = Some (obj, h2)" "slice_heap_ok h2 (obj # obj # L)"
      "same_bytes h1 h2 (obj # L)" by auto
  from Slice_dtor_ok [OF h2(2)] obtain h3 where h3: "Slice_dtor obj h2 = Some h3"
    "slice_heap_ok h3 (obj # L)" "same_bytes h2 h3 (obj # L)" by blast
  have "Slice_Assign self str h = Some (obj, h3)"
    by (simp add: Slice_Assign_def h1(1) h2(1) h3(1))
  moreover have "same_bytes h h3 L \<and> slice_val h3 obj = str"
    using h1(3,4) h2(3) h3(3) by (simp add: same_bytes_def)
  ultimately show ?thesis using h3(2) by blast
qed

lemma Slice_Compare_iff:
  assumes wf: "slice_wf h s"
  shows "Slice_Compare s str h = Some (slice_val h s = str)"
  using slice_wf_read [OF wf] slice_wf_size [OF wf]
  by (auto simp: Slice_Compare_def Slice_ToString_def Slice_Empty_def)

lemma Slice_eq_iff:
  assumes "slice_wf h s" and "slice_wf h t"
  shows "Slice_eq s t h = Some (slice_val h s = slice_val h t)"
  using assms [THEN slice_wf_read] assms [THEN slice_wf_size]
  by (auto simp: Slice_eq_def Slice_ToString_def Slice_Empty_def)

section \<open>Programs over slices\<close>

text \<open>
  A program holds a list of live \<open>Slice\<close> objects and applies operations to them by position.
  \<open>slice_reach\<close> is every configuration any such program can get to.
\<close>

datatype slice_op =
    OpNew "byte list" | OpMake size_t | OpCopy nat | OpMove nat | OpAssign nat nat
  | OpMoveAssign nat nat | OpAssignStr nat "byte list" | OpDestroy nat
  | OpPopFront nat size_t | OpPopBack nat size_t | OpPlus nat nat

definition others :: "nat \<Rightarrow> 'a list \<Rightarrow> 'a list" where
  "others i L = take i L @ drop (Suc i) L"

fun op_enabled :: "slice_op \<Rightarrow> slice list \<Rightarrow> bool" where
  "op_enabled (OpNew str) L = (length str < size_lim)"
| "op_enabled (OpMake n) L = (n < size_lim)"
| "op_enabled (OpCopy i) L = (i < length L)"
| "op_enabled (OpMove i) L = (i < length L)"
| "op_enabled (OpAssign i j) L = (i < length L \<and> j < length L)"
| "op_enabled (OpMoveAssign i j) L = (i < length L \<and> j < length L)"
| "op_enabled (OpAssignStr i str) L = (i < length L \<and> length str < size_lim)"
| "op_enabled (OpDestroy i) L = (i < length L)"
| "op_enabled (OpPopFront i n) L = (i < length L)"
| "op_enabled (OpPopBack i n) L = (i < length L)"
| "op_enabled (OpPlus i j) L =
     (i < length L \<and> j < length L \<and> Slice_size (L ! i) + Slice_size (L ! j) < size_lim)"

fun slice_exec :: "slice_op \<Rightarrow> heap \<Rightarrow> slice list \<Rightarrow> (heap \<times> slice list) option" where
  "slice_exec (OpNew str) h L = do { (s, h') \<leftarrow> Slice_of_string str h; Some (h', s # L) }"
| "slice_exec (OpMake n) h L = (let (s, h') = MakeSliceByLength n h in Some (h', s # L))"
| "slice_exec (OpCopy i) h L = do { (s, h') \<leftarrow> Slice_copy (L ! i) h; Some (h', s # L) }"
| "slice_exec (OpMove i) h L = do { (s, h') \<leftarrow> Slice_move (L ! i) h; Some (h', s # L) }"
| "slice_exec (OpAssign i j) h L =
     do { (s, h') \<leftarrow> Slice_assign (i = j) (L ! i) (L ! j) h; Some (h', L[i := s]) }"
| "slice_exec (OpMoveAssign i j) h L =
     do { (s, h') \<leftarrow> Slice_move_assign (i = j) (L ! i) (L ! j) h; Some (h', L[i := s]) }"
| "slice_exec (OpAssignStr i str) h L =
     do { (s, h') \<leftarrow> Slice_Assign (L ! i) str h; Some (h', L[i := s]) }"
| "slice_exec (OpDestroy i) h L = do { h' \<leftarrow> Slice_dtor (L ! i) h; Some (h', others i L) }"
| "slice_exec (OpPopFront i n) h L = Some (h, L[i := Slice_PopFront (L ! i) n])"
| "slice_exec (OpPopBack i n) h L = Some (h, L[i := Slice_PopBack (L ! i) n])"
| "slice_exec (OpPlus i j) h L = do { (s, h') \<leftarrow> Slice_plus (L ! i) (L ! j) h; Some (h', s # L) }"

definition empty_heap :: "(nat \<Rightarrow> byte) \<Rightarrow> heap" where
  "empty_heap g = \<lparr>blocks = Map.empty, brk = 0, junk = g\<rparr>"

inductive slice_reach :: "heap \<Rightarrow> slice list \<Rightarrow> bool" where
  slice_start: "slice_reach (empty_heap g) []"
| slice_step: "slice_reach h L \<Longrightarrow> op_enabled op L \<Longrightarrow> length L + 4 < 2147483648 \<Longrightarrow>
     slice_exec op h L = Some (h', L') \<Longrightarrow> slice_reach h' L'"

lemma mset_nth_others: "i < length L \<Longrightarrow> mset L = mset (L ! i # others i L)"
  by (metis others_def id_take_nth_drop mset_append mset.simps(2) union_mset_add_mset_right)

lemma mset_update_others: "i < length L \<Longrightarrow> mset (L[i := x]) = mset (x # others i L)"
  by (simp add: others_def upd_conv_take_nth_drop)

lemma ok_nth:
  "i < length L \<Longrightarrow> slice_heap_ok h L \<Longrightarrow> slice_heap_ok h (L ! i # others i L)"
  using slice_heap_ok_mset [OF mset_nth_others] by blast

lemma ok_update:
  "i < length L \<Longrightarrow> slice_heap_ok h (x # others i L) \<Longrightarrow> slice_heap_ok h (L[i := x])"
  using slice_heap_ok_mset [OF mset_update_others] by blast

lemma nth_in_others: "i < length L \<Longrightarrow> j < length L \<Longrightarrow> i \<noteq> j \<Longrightarrow> L ! j \<in> set (others i L)"
proof -
  assume a: "i < length L" "j < length L" "i \<noteq> j"
  then consider "j < i" | "i < j" by linarith
  then show ?thesis
  proof cases
    case 1
    then have "L ! j = take i L ! j" "j < length (take i L)" using a by simp_all
    then show ?thesis unfolding others_def by (metis Un_iff nth_mem set_append)
  next
    case 2
    then have "L ! j = drop (Suc i) L ! (j - Suc i)" "j - Suc i < length (drop (Suc i) L)"
      using a by simp_all
    then show ?thesis unfolding others_def by (metis Un_iff nth_mem set_append)
  qed
qed

lemma length_others: "i < length L \<Longrightarrow> Suc (length (others i L)) = length L"
  by (simp add: others_def min_def)

lemma ok_same_refs:
  assumes "slice_heap_ok h (s # L)" and "slice_wf h s'" and "\<And>a. refers a s' = refers a s"
  shows "slice_heap_ok h (s' # L)"
  using assms by (simp add: slice_heap_ok_def)

text \<open>Every enabled operation returns normally and keeps the invariant.\<close>

lemma slice_exec_ok:
  assumes ok: "slice_heap_ok h L" and en: "op_enabled op L" and len: "length L + 4 < 2147483648"
  shows "\<exists>h' L'. slice_exec op h L = Some (h', L') \<and> slice_heap_ok h' L'"
proof (cases op)
  case (OpNew str)
  with Slice_ctor_ok [OF ok, of str] en len show ?thesis by auto
next
  case (OpMake n)
  with MakeSliceByLength_ok [OF ok, of n] en len show ?thesis by auto
next
  case (OpCopy i)
  with Slice_copy_ok [OF ok, of "L ! i"] en len slice_heap_ok_wf [OF ok] show ?thesis by auto
next
  case (OpMove i)
  with Slice_copy_ok [OF ok, of "L ! i"] en len slice_heap_ok_wf [OF ok] show ?thesis
    by (auto simp: Slice_move_eq_copy)
next
  case (OpAssign i j)
  show ?thesis
  proof (cases "i = j")
    case True
    with OpAssign ok en show ?thesis by (simp add: Slice_assign_def)
  next
    case False
    with OpAssign en have "slice_heap_ok h (L ! i # others i L)" "L ! j \<in> set (others i L)"
      using ok by (simp_all add: ok_nth nth_in_others)
    from Slice_assign_ok [OF this] False OpAssign en show ?thesis by (auto intro: ok_update)
  qed
next
  case (OpMoveAssign i j)
  show ?thesis
  proof (cases "i = j")
    case True
    with OpMoveAssign ok en show ?thesis by (simp add: Slice_move_assign_def)
  next
    case False
    with OpMoveAssign en have "slice_heap_ok h (L ! i # others i L)" "L ! j \<in> set (others i L)"
      using ok by (simp_all add: ok_nth nth_in_others)
    from Slice_move_assign_ok [OF this] False OpMoveAssign en len length_others [of i L]
    show ?thesis by (auto intro: ok_update)
  qed
next
  case (OpAssignStr i str)
  with Slice_Assign_ok [OF ok_nth [OF _ ok], of i str] en len length_others [of i L]
  show ?thesis by (auto intro: ok_update)
next
  case (OpDestroy i)
  with Slice_dtor_ok [OF ok_nth [OF _ ok], of i] en show ?thesis by auto
next
  case (OpPopFront i n)
  with en have i: "i < length L" by simp
  then have wf: "slice_wf h (L ! i)" using ok by (simp add: slice_heap_ok_wf)
  have "slice_heap_ok h (Slice_PopFront (L ! i) n # others i L)"
    by (rule ok_same_refs [OF ok_nth [OF i ok]]) (simp_all add: Slice_PopFront_refines [OF wf])
  with OpPopFront i show ?thesis by (simp add: ok_update)
next
  case (OpPopBack i n)
  with en have i: "i < length L" by simp
  then have wf: "slice_wf h (L ! i)" using ok by (simp add: slice_heap_ok_wf)
  have "slice_heap_ok h (Slice_PopBack (L ! i) n # others i L)"
    by (rule ok_same_refs [OF ok_nth [OF i ok]]) (simp_all add: Slice_PopBack_refines [OF wf])
  with OpPopBack i show ?thesis by (simp add: ok_update)
next
  case (OpPlus i j)
  with Slice_plus_ok [OF ok, of "L ! i" "L ! j"] en len show ?thesis by auto
qed

lemma slice_reach_ok: "slice_reach h L \<Longrightarrow> slice_heap_ok h L"
proof (induction rule: slice_reach.induct)
  case (slice_start g)
  show ?case by (simp add: slice_heap_ok_def rc_ok_def empty_heap_def)
next
  case (slice_step h L op h' L')
  from slice_exec_ok [OF slice_step.IH slice_step.hyps(2,3)] slice_step.hyps(4) show ?case by auto
qed

lemma no_handles_no_blocks: "slice_heap_ok h [] \<Longrightarrow> blocks h a = None"
  using rc_ok_SomeD [of h "\<lambda>a. handles a []" a]
  by (cases "blocks h a") (simp_all add: slice_heap_ok_def)

section \<open>Properties\<close>

text \<open>C11. No program over slices ever touches a freed block: in every reachable configuration
  each enabled operation returns normally, every live block's counter is the number of slices that
  refer to it, and once no slice is left no block is left either.\<close>

theorem slice_programs_memory_safe:
  assumes "slice_reach h L"
  shows "(op_enabled op L \<and> length L + 4 < 2147483648 \<longrightarrow> slice_exec op h L \<noteq> None)
    \<and> (\<forall>a b. blocks h a = Some b \<longrightarrow> 0 < handles a L \<and> refs b = of_nat (handles a L))
    \<and> (L = [] \<longrightarrow> (\<forall>a. blocks h a = None))"
proof (intro conjI allI impI)
  note ok = slice_reach_ok [OF assms]
  show "slice_exec op h L \<noteq> None" if "op_enabled op L \<and> length L + 4 < 2147483648"
    using slice_exec_ok [OF ok] that by fastforce
  show "0 < handles a L" "refs b = of_nat (handles a L)" if "blocks h a = Some b" for a b
    using ok that rc_ok_SomeD [of h "\<lambda>a. handles a L" a b] by (simp_all add: slice_heap_ok_def)
  show "blocks h a = None" if "L = []" for a
    using ok that no_handles_no_blocks by simp
qed

lemma slice_reach_example:
  "slice_reach (empty_heap (\<lambda>_. 0)\<lparr>blocks := [0 \<mapsto> \<lparr>refs = 1, payload = replicate 24 7\<rparr>], brk := 1\<rparr>)
     [Refcounted 0 24 0]"
proof (rule slice_step [OF slice_start [of "\<lambda>_. 0"], of "OpNew (replicate 24 7)"])
  show "slice_exec (OpNew (replicate 24 7)) (empty_heap (\<lambda>_. 0)) [] =
    Some (empty_heap (\<lambda>_. 0)\<lparr>blocks := [0 \<mapsto> \<lparr>refs = 1, payload = replicate 24 7\<rparr>], brk := 1\<rparr>,
      [Refcounted 0 24 0])"
    by (simp add: Slice_of_string_def Slice_ctor_def new_block_def copy_if_ptr_def
        SLICE_INLINED_SIZE_def mem_write_def empty_heap_def uninit_def)
qed simp_all

theorem slice_programs_memory_safe_witness:
  "slice_exec (OpDestroy 0)
     (empty_heap (\<lambda>_. 0)\<lparr>blocks := [0 \<mapsto> \<lparr>refs = 1, payload = replicate 24 7\<rparr>], brk := 1\<rparr>)
     [Refcounted 0 24 0] \<noteq> None"
  using slice_programs_memory_safe [OF slice_reach_example, of "OpDestroy 0"] by simp

text \<open>C12. The operations of a live slice compute on its byte string: \<open>ToString\<close> and \<open>size\<close> give
  it, \<open>PopFront\<close> and \<open>PopBack\<close> drop bytes at either end (at most all of them), \<open>Compare\<close> decides
  equality with a string, and \<open>operator+\<close> is concatenation that leaves every other slice alone.\<close>

theorem slice_ops_refine_bytes:
  assumes ok: "slice_heap_ok h L" and s: "s \<in> set L" and t: "t \<in> set L"
    and small: "Slice_size s + Slice_size t < size_lim" and len: "length L + 3 < 2147483648"
  shows "Slice_ToString s h = Some (slice_val h s) \<and> Slice_size s = length (slice_val h s)
    \<and> slice_val h (Slice_PopFront s k) = drop k (slice_val h s)
    \<and> slice_val h (Slice_PopBack s k) = take (length (slice_val h s) - k) (slice_val h s)
    \<and> Slice_Compare s str h = Some (slice_val h s = str)
    \<and> Slice_eq s t h = Some (slice_val h s = slice_val h t)
    \<and> (\<exists>r h'. Slice_plus s t h = Some (r, h') \<and> slice_val h' r = slice_val h s @ slice_val h t
         \<and> (\<forall>u \<in> set L. slice_val h' u = slice_val h u))"
proof -
  have wf: "slice_wf h s" "slice_wf h t" using ok s t by (simp_all add: slice_heap_ok_wf)
  obtain r h' where "Slice_plus s t h = Some (r, h')" "same_bytes h h' L"
    "slice_val h' r = slice_val h s @ slice_val h t"
    using Slice_plus_ok [OF ok s t small len] by blast
  then show ?thesis
    using wf by (auto simp: slice_wf_read slice_wf_size Slice_PopFront_refines
        Slice_PopBack_refines Slice_Compare_iff Slice_eq_iff same_bytes_def)
qed

theorem slice_ops_refine_bytes_witness:
  "slice_val (empty_heap (\<lambda>_. 0)) (Slice_PopFront (Inlined 2 ([1, 2] @ replicate 21 0)) 1) = [2]"
  using slice_ops_refine_bytes [of "empty_heap (\<lambda>_. 0)" "[Inlined 2 ([1, 2] @ replicate 21 0)]"
      "Inlined 2 ([1, 2] @ replicate 21 0)" "Inlined 2 ([1, 2] @ replicate 21 0)" 1]
  by (simp add: slice_heap_ok_def rc_ok_def empty_heap_def SLICE_INLINED_SIZE_def Slice_size_def
      slice_val_Inlined)

text \<open>A slice built from a string gives the same string back, whichever of the two
  representations it uses, and all other slices keep their bytes.\<close>

theorem slice_string_roundtrip:
  assumes "slice_heap_ok h L" and "length str < size_lim" and "Suc (length L) < 2147483648"
  shows "\<exists>s h'. Slice_of_string str h = Some (s, h') \<and> Slice_ToString s h' = Some str
    \<and> slice_heap_ok h' (s # L) \<and> (\<forall>t \<in> set L. slice_val h' t = slice_val h t)"
proof -
  obtain s h' where *: "Slice_of_string str h = Some (s, h')" "slice_heap_ok h' (s # L)"
    "same_bytes h h' L" "slice_val h' s = str"
    using Slice_ctor_ok [OF assms] by blast
  moreover have "Slice_ToString s h' = Some str"
    using slice_wf_read [OF slice_heap_ok_wf [OF *(2)], of s] *(4) by simp
  ultimately show ?thesis by (auto simp: same_bytes_def)
qed

theorem slice_string_roundtrip_witness:
  "\<exists>s h'. Slice_of_string (replicate 30 9) (empty_heap (\<lambda>_. 0)) = Some (s, h')
     \<and> Slice_ToString s h' = Some (replicate 30 9)"
  using slice_string_roundtrip [of "empty_heap (\<lambda>_. 0)" "[]" "replicate 30 9"]
  by (auto simp: slice_heap_ok_def rc_ok_def empty_heap_def)

end
