(* ===== verification/SliceBuf.thy ===== *)
theory SliceBuf
  imports Slice
begin

text \<open>
  \<open>SliceBuffer\<close> (src/src/utils/slice_buffer.cc): a queue of slices with a running total of their
  lengths, used as the receive and the send buffer of a connection. A slice is represented by its
  byte string: theory Slice shows that this is what the operations of \<open>Slice\<close> compute on, and that
  no operation changes the bytes of another slice. Storage \<open>MakeSliceByLength\<close> returns reads as
  zeros here; under the invariant every byte of it is overwritten.

  The interface the receive path relies on is the locale \<open>byte_queue\<close>, interpreted on
  \<open>SliceBuffer\<close> below.
\<close>

record SliceBuffer =
  sb_vs :: "byte list list"
  sb_length :: size_t

section \<open>Operations\<close>

definition SliceBuffer_new :: SliceBuffer where
  "SliceBuffer_new = \<lparr>sb_vs = [], sb_length = 0\<rparr>"

definition SliceBuffer_SliceCount :: "SliceBuffer \<Rightarrow> size_t" where
  "SliceBuffer_SliceCount b = length (sb_vs b)"

definition SliceBuffer_GetBufferLength :: "SliceBuffer \<Rightarrow> size_t" where
  "SliceBuffer_GetBufferLength b = sb_length b"

text \<open>The loop of \<open>Merge\<close>: \<open>buf\<close> is at offset \<open>pos\<close> of the new slice.\<close>

fun merge_loop :: "byte list list \<Rightarrow> nat \<Rightarrow> byte list \<Rightarrow> byte list option" where
  "merge_loop [] pos buf = Some buf"
| "merge_loop (s # ss) pos buf =
     (let blk_size = length s in
      if blk_size > 0 then do {
        buf' \<leftarrow> mem_write buf pos s;
        merge_loop ss (pos + blk_size) buf' }
      else merge_loop ss pos buf)"

definition SliceBuffer_Merge :: "SliceBuffer \<Rightarrow> byte list option" where
  "SliceBuffer_Merge b =
     (if SliceBuffer_SliceCount b = 0 then Some []
      else if SliceBuffer_SliceCount b = 1 then vec_at (sb_vs b) 0
      else merge_loop (sb_vs b) 0 (replicate (SliceBuffer_GetBufferLength b) 0))"

definition SliceBuffer_AddSlice :: "SliceBuffer \<Rightarrow> byte list \<Rightarrow> SliceBuffer" where
  "SliceBuffer_AddSlice b s = \<lparr>sb_vs = sb_vs b @ [s], sb_length = sz_add (sb_length b) (length s)\<rparr>"

text \<open>The loop of \<open>CopyToBuffer\<close>; the result is the buffer and \<open>pos\<close>.\<close>

fun copy_loop :: "byte list list \<Rightarrow> size_t \<Rightarrow> size_t \<Rightarrow> byte list \<Rightarrow> (byte list \<times> size_t) option" where
  "copy_loop [] left pos buf = Some (buf, pos)"
| "copy_loop (s # ss) left pos buf =
     (if left = 0 then Some (buf, pos)
      else let len = (if left < length s then left else length s) in do {
        buf' \<leftarrow> mem_write buf pos (take len s);
        copy_loop ss (left - len) (pos + len) buf' })"

definition SliceBuffer_CopyToBuffer ::
  "SliceBuffer \<Rightarrow> byte list \<Rightarrow> size_t \<Rightarrow> (byte list \<times> size_t) option" where
  "SliceBuffer_CopyToBuffer b buffer len =
     (if len \<le> SliceBuffer_GetBufferLength b then copy_loop (sb_vs b) len 0 buffer else None)"

definition SliceBuffer_GetHeader :: "SliceBuffer \<Rightarrow> size_t \<Rightarrow> byte list option" where
  "SliceBuffer_GetHeader b len =
     (if len = 0 \<or> SliceBuffer_GetBufferLength b < len then Some []
      else do {
        (s, _) \<leftarrow> SliceBuffer_CopyToBuffer b (replicate len 0) len;
        Some s })"

text \<open>\<open>_vs.begin()\<close> of an empty vector is not dereferenceable.\<close>

function SliceBuffer_MoveHeader :: "SliceBuffer \<Rightarrow> size_t \<Rightarrow> (bool \<times> SliceBuffer) option" where
  "SliceBuffer_MoveHeader b len =
     (if SliceBuffer_GetBufferLength b < len then Some (False, b)
      else if len = 0 then Some (True, b)
      else case sb_vs b of
        [] \<Rightarrow> None
      | it # rest \<Rightarrow>
          let left = length it in
          if left > len then
            Some (True, b\<lparr>sb_vs := drop len it # rest, sb_length := sz_sub (sb_length b) len\<rparr>)
          else if left = len then
            Some (True, b\<lparr>sb_vs := rest, sb_length := sz_sub (sb_length b) len\<rparr>)
          else
            SliceBuffer_MoveHeader
              (b\<lparr>sb_vs := rest, sb_length := sz_sub (sb_length b) left\<rparr>) (len - left))"
  by pat_completeness auto
termination
  by (relation "measure (\<lambda>(b, _). length (sb_vs b))") auto

declare SliceBuffer_MoveHeader.simps [simp del]

definition SliceBuffer_ClearBuffer :: "SliceBuffer \<Rightarrow> SliceBuffer" where
  "SliceBuffer_ClearBuffer b = b\<lparr>sb_vs := [], sb_length := 0\<rparr>"

definition SliceBuffer_Empty :: "SliceBuffer \<Rightarrow> bool" where
  "SliceBuffer_Empty b \<longleftrightarrow> sb_vs b = []"

definition SliceBuffer_Front :: "SliceBuffer \<Rightarrow> byte list option" where
  "SliceBuffer_Front b =
     (let n = length (sb_vs b) in if n > 0 then vec_at (sb_vs b) 0 else None)"

definition SliceBuffer_Back :: "SliceBuffer \<Rightarrow> byte list option" where
  "SliceBuffer_Back b =
     (let n = length (sb_vs b) in if n > 0 then vec_at (sb_vs b) (n - 1) else None)"

definition SliceBuffer_PopFront :: "SliceBuffer \<Rightarrow> SliceBuffer" where
  "SliceBuffer_PopFront b =
     (case sb_vs b of
        [] \<Rightarrow> b
      | it # rest \<Rightarrow> b\<lparr>sb_vs := rest, sb_length := sz_sub (sb_length b) (length it)\<rparr>)"

definition SliceBuffer_PopBack :: "SliceBuffer \<Rightarrow> SliceBuffer" where
  "SliceBuffer_PopBack b =
     (let c = length (sb_vs b) in
      if c \<noteq> 0 then b\<lparr>sb_vs := take (c - 1) (sb_vs b),
                      sb_length := sz_sub (sb_length b) (length (sb_vs b ! (c - 1)))\<rparr>
      else b)"

text \<open>\<open>ForEachSlice\<close>: the callback carries a state and returns false to stop the loop.\<close>

fun for_each_loop :: "('s \<Rightarrow> byte list \<Rightarrow> bool \<times> 's) \<Rightarrow> byte list list \<Rightarrow> 's \<Rightarrow> 's" where
  "for_each_loop callback [] st = st"
| "for_each_loop callback (s # ss) st =
     (let (go, st') = callback st s in if \<not> go then st' else for_each_loop callback ss st')"

definition SliceBuffer_ForEachSlice ::
  "SliceBuffer \<Rightarrow> ('s \<Rightarrow> byte list \<Rightarrow> bool \<times> 's) \<Rightarrow> 's \<Rightarrow> 's" where
  "SliceBuffer_ForEachSlice b callback st = for_each_loop callback (sb_vs b) st"

definition SliceBuffer_at :: "SliceBuffer \<Rightarrow> size_t \<Rightarrow> byte list option" where
  "SliceBuffer_at b n = vec_at (sb_vs b) n"

section \<open>Invariant and abstraction\<close>

definition sb_ok :: "SliceBuffer \<Rightarrow> bool" where
  "sb_ok b \<longleftrightarrow> sb_length b = sum_list (map length (sb_vs b)) \<and> sb_length b < size_lim"

definition sb_bytes :: "SliceBuffer \<Rightarrow> byte list" where
  "sb_bytes b = concat (sb_vs b)"

lemma sb_ok_length: "sb_ok b \<Longrightarrow> sb_length b = length (sb_bytes b)"
  by (simp add: sb_ok_def sb_bytes_def byte_simps)

lemma sb_ok_new [simp]: "sb_ok SliceBuffer_new" "sb_bytes SliceBuffer_new = []"
  by (simp_all add: sb_ok_def SliceBuffer_new_def sb_bytes_def)

lemma sb_ok_Clear [simp]:
  "sb_ok (SliceBuffer_ClearBuffer b)" "sb_bytes (SliceBuffer_ClearBuffer b) = []"
  "SliceBuffer_Empty (SliceBuffer_ClearBuffer b)"
  by (simp_all add: sb_ok_def SliceBuffer_ClearBuffer_def sb_bytes_def SliceBuffer_Empty_def)

lemma AddSlice_ok:
  assumes "sb_ok b" and "length (sb_bytes b) + length s < size_lim"
  shows "sb_ok (SliceBuffer_AddSlice b s)" and "sb_bytes (SliceBuffer_AddSlice b s) = sb_bytes b @ s"
  using assms sb_ok_length [OF assms(1)]
  by (simp_all add: SliceBuffer_AddSlice_def sb_ok_def sb_bytes_def sz_simps)

lemma merge_loop_prefix:
  "length pre = pos \<Longrightarrow> length rest = length (concat ss) \<Longrightarrow>
     merge_loop ss pos (pre @ rest) = Some (pre @ concat ss)"
proof (induction ss arbitrary: pos pre rest)
  case (Cons s ss)
  show ?case
  proof (cases "length s > 0")
    case True
    have "mem_write (pre @ rest) pos s = Some ((pre @ s) @ drop (length s) rest)"
      using Cons.prems by (simp add: mem_write_def)
    moreover have "merge_loop ss (pos + length s) ((pre @ s) @ drop (length s) rest)
        = Some ((pre @ s) @ concat ss)"
      by (rule Cons.IH) (use Cons.prems in simp_all)
    ultimately show ?thesis using True by simp
  qed (use Cons in simp)
qed simp

lemma copy_loop_prefix:
  "length pre = pos \<Longrightarrow> left \<le> length rest \<Longrightarrow> left \<le> length (concat ss) \<Longrightarrow>
     copy_loop ss left pos (pre @ rest) =
       Some (pre @ take left (concat ss) @ drop left rest, pos + left)"
proof (induction ss arbitrary: left pos pre rest)
  case (Cons s ss)
  show ?case
  proof (cases "left = 0")
    case False
    define len where "len = (if left < length s then left else length s)"
    have "mem_write (pre @ rest) pos (take len s) = Some ((pre @ take len s) @ drop len rest)"
      using Cons.prems by (auto simp: mem_write_def len_def)
    moreover have "copy_loop ss (left - len) (pos + len) ((pre @ take len s) @ drop len rest)
        = Some ((pre @ take len s) @ take (left - len) (concat ss) @ drop (left - len) (drop len rest),
            pos + len + (left - len))"
      by (rule Cons.IH) (use Cons.prems in \<open>auto simp: len_def\<close>)
    ultimately show ?thesis using False by (simp add: Let_def len_def [symmetric]) (simp add: len_def)
  qed simp
qed simp

lemma Merge_ok: "sb_ok b \<Longrightarrow> SliceBuffer_Merge b = Some (sb_bytes b)"
  using merge_loop_prefix [of "[]" 0 "replicate (sb_length b) 0" "sb_vs b"] sb_ok_length [of b]
  by (auto simp: SliceBuffer_Merge_def SliceBuffer_SliceCount_def SliceBuffer_GetBufferLength_def
      sb_bytes_def length_Suc_conv)

lemma CopyToBuffer_ok:
  assumes "sb_ok b" and "n \<le> length (sb_bytes b)" and "n \<le> length buf"
  shows "SliceBuffer_CopyToBuffer b buf n = Some (take n (sb_bytes b) @ drop n buf, n)"
  using copy_loop_prefix [of "[]" 0 n buf "sb_vs b"] assms sb_ok_length [of b]
  by (simp add: SliceBuffer_CopyToBuffer_def SliceBuffer_GetBufferLength_def sb_bytes_def)

lemma GetHeader_ok:
  "sb_ok b \<Longrightarrow> n \<le> length (sb_bytes b) \<Longrightarrow> SliceBuffer_GetHeader b n = Some (take n (sb_bytes b))"
  using CopyToBuffer_ok [of b n "replicate n 0"] sb_ok_length [of b]
  by (auto simp: SliceBuffer_GetHeader_def SliceBuffer_GetBufferLength_def)

lemma MoveHeader_ok:
  assumes "sb_ok b" and "n \<le> length (sb_bytes b)"
  shows "\<exists>b'. SliceBuffer_MoveHeader b n = Some (True, b') \<and> sb_ok b' \<and> sb_bytes b' = drop n (sb_bytes b)"
  using assms
proof (induction b n rule: SliceBuffer_MoveHeader.induct)
  case (1 b n)
  note ok = "1.prems"(1) and n = "1.prems"(2)
  have le: "\<not> SliceBuffer_GetBufferLength b < n"
    using n sb_ok_length [OF ok] by (simp add: SliceBuffer_GetBufferLength_def)
  show ?case
  proof (cases "n = 0")
    case True
    with le ok show ?thesis by (simp add: SliceBuffer_MoveHeader.simps)
  next
    case False
    then obtain it rest where vs: "sb_vs b = it # rest"
      using n by (cases "sb_vs b") (auto simp: sb_bytes_def)
    let ?b = "b\<lparr>sb_vs := rest, sb_length := sz_sub (sb_length b) (length it)\<rparr>"
    have okb: "sb_ok ?b" "sb_bytes ?b = drop (length it) (sb_bytes b)"
      using ok vs by (simp_all add: sb_ok_def sb_bytes_def sz_simps)
    consider "length it > n" | "length it = n" | "length it < n" by linarith
    then show ?thesis
    proof cases
      case 1
      with le False vs ok show ?thesis
        by (auto simp: SliceBuffer_MoveHeader.simps [of b n] sb_ok_def sb_bytes_def sz_simps)
    next
      case 2
      with le False vs okb show ?thesis by (simp add: SliceBuffer_MoveHeader.simps [of b n])
    next
      case 3
      have "n - length it \<le> length (sb_bytes ?b)" using n by (simp add: okb(2))
      with "1.IH" [OF le False vs refl] 3 okb show ?thesis
        using le False vs by (simp add: SliceBuffer_MoveHeader.simps [of b n] Let_def)
    qed
  qed
qed

lemma MoveHeader_short:
  "sb_ok b \<Longrightarrow> length (sb_bytes b) < n \<Longrightarrow> SliceBuffer_MoveHeader b n = Some (False, b)"
  using sb_ok_length [of b] by (simp add: SliceBuffer_MoveHeader.simps SliceBuffer_GetBufferLength_def)

lemma PopFront_ok:
  "sb_ok b \<Longrightarrow> sb_ok (SliceBuffer_PopFront b) \<and> sb_vs (SliceBuffer_PopFront b) = tl (sb_vs b)"
  by (auto simp: SliceBuffer_PopFront_def sb_ok_def sz_simps split: list.splits)

lemma PopBack_ok:
  assumes "sb_ok b"
  shows "sb_ok (SliceBuffer_PopBack b) \<and> sb_vs (SliceBuffer_PopBack b) = butlast (sb_vs b)"
proof (cases "sb_vs b" rule: rev_cases)
  case Nil
  with assms show ?thesis by (simp add: SliceBuffer_PopBack_def)
next
  case (snoc ys y)
  with assms show ?thesis by (auto simp: SliceBuffer_PopBack_def sb_ok_def sz_simps)
qed

section \<open>The interface of a receive buffer\<close>

locale byte_queue =
  fixes invar :: "'b \<Rightarrow> bool"
    and bytes :: "'b \<Rightarrow> byte list"
    and buflen :: "'b \<Rightarrow> size_t"
    and add :: "'b \<Rightarrow> byte list \<Rightarrow> 'b"
    and header :: "'b \<Rightarrow> size_t \<Rightarrow> byte list option"
    and move :: "'b \<Rightarrow> size_t \<Rightarrow> (bool \<times> 'b) option"
    and merge :: "'b \<Rightarrow> byte list option"
  assumes buflen_spec: "invar b \<Longrightarrow> buflen b = length (bytes b)"
    and bytes_bound: "invar b \<Longrightarrow> length (bytes b) < size_lim"
    and add_spec: "invar b \<Longrightarrow> length (bytes b) + length s < size_lim \<Longrightarrow>
           invar (add b s) \<and> bytes (add b s) = bytes b @ s"
    and header_spec: "invar b \<Longrightarrow> n \<le> length (bytes b) \<Longrightarrow> header b n = Some (take n (bytes b))"
    and move_spec: "invar b \<Longrightarrow> n \<le> length (bytes b) \<Longrightarrow>
           \<exists>b'. move b n = Some (True, b') \<and> invar b' \<and> bytes b' = drop n (bytes b)"
    and merge_spec: "invar b \<Longrightarrow> merge b = Some (bytes b)"
begin

text \<open>Peeking: all bytes when there are at most \<open>n\<close>, otherwise the first \<open>n\<close>.\<close>

lemma peek:
  "invar b \<Longrightarrow> (if n \<ge> buflen b then merge b else header b n) = Some (take n (bytes b))"
  by (simp add: buflen_spec merge_spec header_spec)

text \<open>Consuming what was peeked splits the stream without losing or reordering a byte.\<close>

lemma consume:
  assumes "invar b" and "n \<le> length (bytes b)"
  shows "\<exists>b'. header b n = Some (take n (bytes b)) \<and> move b n = Some (True, b') \<and> invar b'
           \<and> take n (bytes b) @ bytes b' = bytes b \<and> buflen b' = buflen b - n"
proof -
  obtain b' where "move b n = Some (True, b')" "invar b'" "bytes b' = drop n (bytes b)"
    using move_spec [OF assms] by blast
  then show ?thesis using assms by (simp add: header_spec buflen_spec)
qed

end

interpretation rcv: byte_queue sb_ok sb_bytes SliceBuffer_GetBufferLength SliceBuffer_AddSlice
  SliceBuffer_GetHeader SliceBuffer_MoveHeader SliceBuffer_Merge
  by unfold_locales
    (simp_all add: SliceBuffer_GetBufferLength_def sb_ok_length AddSlice_ok GetHeader_ok
      MoveHeader_ok Merge_ok, simp add: sb_ok_length [symmetric] sb_ok_def)

section \<open>Properties\<close>

text \<open>C13. The buffer is a byte stream: appending a slice appends its bytes, \<open>GetHeader\<close> returns
  the first \<open>n\<close> bytes, \<open>MoveHeader\<close> removes exactly them whatever the slice boundaries are,
  \<open>Merge\<close> returns everything, and the recorded length always is the number of bytes held.\<close>

theorem slice_buffer_is_byte_stream:
  assumes "sb_ok b" and "n \<le> length (sb_bytes b)" and "length (sb_bytes b) + length s < size_lim"
  shows "sb_ok (SliceBuffer_AddSlice b s) \<and> sb_bytes (SliceBuffer_AddSlice b s) = sb_bytes b @ s
    \<and> SliceBuffer_GetBufferLength b = length (sb_bytes b)
    \<and> SliceBuffer_Merge b = Some (sb_bytes b)
    \<and> SliceBuffer_GetHeader b n = Some (take n (sb_bytes b))
    \<and> (\<exists>b'. SliceBuffer_MoveHeader b n = Some (True, b') \<and> sb_ok b'
         \<and> sb_bytes b' = drop n (sb_bytes b) \<and> SliceBuffer_GetBufferLength b' = length (sb_bytes b) - n)"
proof -
  obtain b' where "SliceBuffer_MoveHeader b n = Some (True, b')" "sb_ok b'"
    "sb_bytes b' = drop n (sb_bytes b)" using MoveHeader_ok [OF assms(1,2)] by blast
  then show ?thesis
    using assms rcv.buflen_spec [of b] rcv.buflen_spec [of b']
    by (simp add: AddSlice_ok Merge_ok GetHeader_ok)
qed

theorem slice_buffer_is_byte_stream_witness:
  "\<exists>b'. SliceBuffer_MoveHeader \<lparr>sb_vs = [[1, 2], [], [3, 4]], sb_length = 4\<rparr> 3 = Some (True, b')
     \<and> sb_bytes b' = [4]"
  using slice_buffer_is_byte_stream [of "\<lparr>sb_vs = [[1, 2], [], [3, 4]], sb_length = 4\<rparr>" 3 "[]"]
  by (auto simp: sb_ok_def sb_bytes_def)

text \<open>A request for more bytes than the buffer holds is refused without any effect:
  \<open>MoveHeader\<close> returns false and keeps the buffer, \<open>GetHeader\<close> returns an empty slice.\<close>

theorem slice_buffer_short_requests:
  assumes "sb_ok b" and "length (sb_bytes b) < n"
  shows "SliceBuffer_MoveHeader b n = Some (False, b) \<and> SliceBuffer_GetHeader b n = Some []"
  using assms sb_ok_length [OF assms(1)]
  by (simp add: MoveHeader_short SliceBuffer_GetHeader_def SliceBuffer_GetBufferLength_def)

theorem slice_buffer_short_requests_witness:
  "SliceBuffer_MoveHeader \<lparr>sb_vs = [[1, 2]], sb_length = 2\<rparr> 3
     = Some (False, \<lparr>sb_vs = [[1, 2]], sb_length = 2\<rparr>)"
  using slice_buffer_short_requests [of "\<lparr>sb_vs = [[1, 2]], sb_length = 2\<rparr>" 3]
  by (simp add: sb_ok_def sb_bytes_def)

end
