(* ===== verification/Conn.thy ===== *)
theory Conn
  imports EndpointM SliceBuf
begin

text \<open>
  \<open>Connection\<close> (src/src/linux/connection.cc): receiving, cutting the byte stream into packages with
  the application's protocol handler, sending, and closing.

  The connection shares its endpoint object, the two polling threads and the notification service
  with the container; they are the record \<open>net\<close>. Calls to the service are recorded in order in
  \<open>n_notes\<close>, system calls in \<open>n_sys\<close>, and the bytes the kernel accepted in \<open>n_sent\<close>. The results of
  \<open>::recv\<close> and \<open>::send\<close> are scripts; after a script the socket would block.

  The main results: the packages delivered are a function of the byte stream alone, whatever
  segments it arrives in; a parse returns exactly when the handler decides within 1024 bytes, and
  otherwise runs for ever; bytes are sent in order without loss; closing is done once.
\<close>

section \<open>State\<close>

text \<open>A call of \<open>NotificationTransferService\<close>, with the endpoint's address.\<close>

datatype notification =
    DataReceived addr "byte list"
  | Closed addr Event

datatype poll_ref = RecvThread | SendThread

record net =
  n_eps :: "addr \<Rightarrow> EndpointImpl option"
  n_threads :: "poll_ref \<Rightarrow> PollingThread"
  n_sys :: "sys_act list"
  n_notes :: "notification list"
  n_sent :: "byte list"
  n_counter :: u32

text \<open>
  The result of \<open>OnCheckPackageLength\<close> on an endpoint and the bytes received: negative for an
  error, 0 for more data needed, otherwise the length of the package. It is an \<open>int\<close>.
\<close>

type_synonym protocol = "addr \<Rightarrow> byte list \<Rightarrow> int"

record Connection =
  c_service :: bool
  c_proto :: "protocol option"
  c_recv_thread :: "poll_ref option"
  c_send_thread :: "poll_ref option"
  c_rcv_buffer :: SliceBuffer
  c_snd_buffer :: SliceBuffer
  c_endpoint :: addr
  c_handle_id :: u32

definition net_sys :: "sys_act list \<Rightarrow> net \<Rightarrow> net" where
  "net_sys acts w = w\<lparr>n_sys := n_sys w @ acts\<rparr>"

definition net_note :: "notification list \<Rightarrow> net \<Rightarrow> net" where
  "net_note ns w = w\<lparr>n_notes := n_notes w @ ns\<rparr>"

definition net_set_ep :: "addr \<Rightarrow> EndpointImpl \<Rightarrow> net \<Rightarrow> net" where
  "net_set_ep a e w = w\<lparr>n_eps := (n_eps w)(a \<mapsto> e)\<rparr>"

lemma net_simps [simp]:
  "n_eps (net_sys acts w) = n_eps w" "n_notes (net_sys acts w) = n_notes w"
  "n_threads (net_sys acts w) = n_threads w" "n_sent (net_sys acts w) = n_sent w"
  "n_sys (net_sys acts w) = n_sys w @ acts" "n_counter (net_sys acts w) = n_counter w"
  "n_eps (net_note ns w) = n_eps w" "n_notes (net_note ns w) = n_notes w @ ns"
  "n_threads (net_note ns w) = n_threads w" "n_sent (net_note ns w) = n_sent w"
  "n_sys (net_note ns w) = n_sys w" "n_counter (net_note ns w) = n_counter w"
  "n_eps (net_set_ep a e w) = (n_eps w)(a \<mapsto> e)" "n_notes (net_set_ep a e w) = n_notes w"
  "n_threads (net_set_ep a e w) = n_threads w" "n_sent (net_set_ep a e w) = n_sent w"
  "n_sys (net_set_ep a e w) = n_sys w" "n_counter (net_set_ep a e w) = n_counter w"
  by (simp_all add: net_sys_def net_note_def net_set_ep_def)

section \<open>Construction, sending a message, closing\<close>

definition Connection_new :: "addr \<Rightarrow> net \<Rightarrow> Connection \<times> net" where
  "Connection_new obj w =
     (\<lparr>c_service = False, c_proto = None, c_recv_thread = None, c_send_thread = None,
       c_rcv_buffer = SliceBuffer_new, c_snd_buffer = SliceBuffer_new, c_endpoint = obj,
       c_handle_id = n_counter w\<rparr>,
      w\<lparr>n_counter := n_counter w + 1\<rparr>)"

definition Connection_Init :: "poll_ref \<Rightarrow> poll_ref \<Rightarrow> Connection \<Rightarrow> net \<Rightarrow> (Connection \<times> net) option" where
  "Connection_Init t back c w = do {
     let c = c\<lparr>c_service := True, c_recv_thread := Some t, c_send_thread := Some back\<rparr>;
     e \<leftarrow> n_eps w (c_endpoint c);
     let w = net_sys [PollingThread_Add (n_threads w t) (fd_int (ei_fd e)) (ei_connection_id e) (EPOLLIN OR EPOLLET)] w;
     let w = net_sys [PollingThread_Add (n_threads w back) (fd_int (ei_fd e)) (ei_connection_id e) (EPOLLOUT OR EPOLLET)] w;
     Some (c, w) }"

definition Connection_SetProtocol :: "protocol option \<Rightarrow> Connection \<Rightarrow> Connection" where
  "Connection_SetProtocol p c = c\<lparr>c_proto := p\<rparr>"

definition Connection_IsOnline :: "Connection \<Rightarrow> net \<Rightarrow> bool option" where
  "Connection_IsOnline c w = do { e \<leftarrow> n_eps w (c_endpoint c); Some (EndpointImpl_IsOnline e) }"

definition Connection_SendMsg :: "byte list \<Rightarrow> Connection \<Rightarrow> net \<Rightarrow> (bool \<times> Connection \<times> net) option" where
  "Connection_SendMsg s c w = do {
     e \<leftarrow> n_eps w (c_endpoint c);
     if \<not> EndpointImpl_IsOnline e then Some (False, c, w)
     else do {
       let c = c\<lparr>c_snd_buffer := SliceBuffer_AddSlice (c_snd_buffer c) s\<rparr>;
       t \<leftarrow> c_send_thread c;
       Some (True, c, net_sys [PollingThread_Modify (n_threads w t) (fd_int (ei_fd e))
                                (ei_connection_id e) (EPOLLOUT OR EPOLLET)] w) } }"

definition Connection_Shutdown :: "bool \<Rightarrow> Event \<Rightarrow> Connection \<Rightarrow> net \<Rightarrow> (Connection \<times> net) option" where
  "Connection_Shutdown notify ev c w = do {
     e \<leftarrow> n_eps w (c_endpoint c);
     if \<not> EndpointImpl_IsOnline e then Some (c, w)
     else do {
       tr \<leftarrow> c_recv_thread c;
       let w = net_sys [PollingThread_Delete (n_threads w tr) (fd_int (ei_fd e)) (EPOLLIN OR EPOLLET)] w;
       ts \<leftarrow> c_send_thread c;
       let w = net_sys [PollingThread_Delete (n_threads w ts) (fd_int (ei_fd e)) (EPOLLOUT OR EPOLLET)] w;
       let w = net_sys (raptor_set_socket_shutdown (fd_int (ei_fd e))) w;
       let w = net_set_ep (c_endpoint c) (e\<lparr>ei_fd := NOT 0\<rparr>) w;
       w \<leftarrow> (if notify then (if c_service c then Some (net_note [Closed (c_endpoint c) ev] w) else None)
             else Some w);
       Some (c\<lparr>c_rcv_buffer := SliceBuffer_ClearBuffer (c_rcv_buffer c),
               c_snd_buffer := SliceBuffer_ClearBuffer (c_snd_buffer c)\<rparr>, w) } }"

definition Connection_dtor :: "Connection \<Rightarrow> net \<Rightarrow> net option" where
  "Connection_dtor c w = map_option snd (Connection_Shutdown False Event_default c w)"

definition Connection_SetExtendInfo :: "u64 \<Rightarrow> Connection \<Rightarrow> net \<Rightarrow> net option" where
  "Connection_SetExtendInfo data c w = do {
     e \<leftarrow> n_eps w (c_endpoint c);
     Some (net_set_ep (c_endpoint c) (EndpointImpl_SetExtInfo data e) w) }"

definition Connection_GetExtendInfo :: "Connection \<Rightarrow> net \<Rightarrow> u64 option" where
  "Connection_GetExtendInfo c w = do { e \<leftarrow> n_eps w (c_endpoint c); Some (EndpointImpl_GetExtInfo e) }"

section \<open>Parsing the receive buffer\<close>

definition ReadSliceFromRecvBuffer :: "SliceBuffer \<Rightarrow> size_t \<Rightarrow> (bool \<times> byte list) option" where
  "ReadSliceFromRecvBuffer b read_size = do {
     let cache_size = SliceBuffer_GetBufferLength b;
     if read_size \<ge> cache_size then do { s \<leftarrow> SliceBuffer_Merge b; Some (True, s) }
     else do { s \<leftarrow> SliceBuffer_GetHeader b read_size; Some (False, s) } }"

text \<open>
  One round of the loop of \<open>ParsingProtocol\<close>. The inner \<open>do \<dots> while (false)\<close> runs once: the
  \<open>continue\<close> after \<open>read_size *= 2\<close> jumps to its condition, which is false, and so leaves it with
  \<open>pack_len == 0\<close>, like the \<open>break\<close> leaves it with the length of a complete package.
\<close>

datatype parse_round = PErr | PDone | PPackage "byte list" SliceBuffer

definition ParsingProtocol_round :: "(byte list \<Rightarrow> int) \<Rightarrow> SliceBuffer \<Rightarrow> size_t \<Rightarrow> parse_round option" where
  "ParsingProtocol_round check b cache_size = do {
     (reach_tail, package) \<leftarrow> ReadSliceFromRecvBuffer b 1024;
     let pack_len = to_i32 (check package);
     if pack_len < 0 then Some PErr
     else if pack_len = 0 \<and> reach_tail then Some PDone
     else if pack_len \<noteq> 0 \<and> \<not> cache_size \<ge> to_u64 pack_len then Some PDone
     else do {
       package \<leftarrow> (if length package < to_u64 pack_len then SliceBuffer_GetHeader b (to_u64 pack_len)
                  else let n = length package - to_u64 pack_len in Some (take (length package - n) package));
       (_, b1) \<leftarrow> SliceBuffer_MoveHeader b (to_u64 pack_len);
       Some (PPackage package b1) } }"

text \<open>The result is the return value, the buffer and the packages handed to the service.\<close>

partial_function (option) ParsingProtocol_loop ::
  "(byte list \<Rightarrow> int) \<Rightarrow> SliceBuffer \<Rightarrow> size_t \<Rightarrow> int \<Rightarrow> byte list list \<Rightarrow> (int \<times> SliceBuffer \<times> byte list list) option" where
  "ParsingProtocol_loop check b cache_size package_counter out =
     (if \<not> cache_size > 0 then Some (package_counter, b, out)
      else do {
        r \<leftarrow> ParsingProtocol_round check b cache_size;
        (case r of
           PErr \<Rightarrow> Some (- 1, b, out)
         | PDone \<Rightarrow> Some (package_counter, b, out)
         | PPackage package b1 \<Rightarrow>
             ParsingProtocol_loop check b1 (SliceBuffer_GetBufferLength b1)
               (to_i32 (package_counter + 1)) (out @ [package])) })"

definition ParsingProtocol :: "(byte list \<Rightarrow> int) \<Rightarrow> SliceBuffer \<Rightarrow> (int \<times> SliceBuffer \<times> byte list list) option" where
  "ParsingProtocol check b = ParsingProtocol_loop check b (SliceBuffer_GetBufferLength b) 0 []"

section \<open>Events\<close>

abbreviation "EINTR \<equiv> (4 :: int)"
abbreviation "EAGAIN \<equiv> (11 :: int)"
abbreviation "EWOULDBLOCK \<equiv> (11 :: int)"

datatype recv_result = RecvData "byte list" | RecvErr int

text \<open>\<open>sizeof(buffer)\<close>, and the bytes a \<open>recv\<close> into a buffer of that size returns.\<close>

definition unused_space :: nat where
  "unused_space = 8192"

definition recv_bytes :: "byte list \<Rightarrow> byte list" where
  "recv_bytes data = take unused_space data"

text \<open>Adding received bytes: to the service directly, or to the buffer and through the parser.\<close>

definition Connection_on_bytes :: "byte list \<Rightarrow> Connection \<Rightarrow> net \<Rightarrow> (int \<times> Connection \<times> net) option" where
  "Connection_on_bytes bs c w =
     (if \<not> c_service c then None
      else case c_proto c of
        None \<Rightarrow> Some (0, c, net_note [DataReceived (c_endpoint c) bs] w)
      | Some proto \<Rightarrow> do {
          let rcv = SliceBuffer_AddSlice (c_rcv_buffer c) bs;
          (ret, rcv1, packages) \<leftarrow> ParsingProtocol (proto (c_endpoint c)) rcv;
          Some (ret, c\<lparr>c_rcv_buffer := rcv1\<rparr>,
                net_note (map (DataReceived (c_endpoint c)) packages) w) })"

fun Connection_OnRecv :: "recv_result list \<Rightarrow> Connection \<Rightarrow> net \<Rightarrow> (int \<times> Connection \<times> net) option" where
  "Connection_OnRecv [] c w = Some (0, c, w)"
| "Connection_OnRecv (RecvErr errno # rs) c w =
     (if errno = EINTR \<or> errno = EWOULDBLOCK \<or> errno = EAGAIN then Some (0, c, w) else Some (- 1, c, w))"
| "Connection_OnRecv (RecvData data # rs) c w =
     (if length (recv_bytes data) = 0 then Some (- 1, c, w)
      else do {
        (ret, c1, w1) \<leftarrow> Connection_on_bytes (recv_bytes data) c w;
        if ret = - 1 then Some (- 1, c1, w1)
        else if length (recv_bytes data) = unused_space then Connection_OnRecv rs c1 w1
        else Some (0, c1, w1) })"

datatype send_result = SendOk nat | SendErr int

text \<open>The loop of \<open>OnSend\<close>; \<open>SendOk n\<close> accepts at most the bytes offered.\<close>

fun OnSend_loop :: "send_result list \<Rightarrow> SliceBuffer \<Rightarrow> net \<Rightarrow> (int \<times> SliceBuffer \<times> net) option" where
  "OnSend_loop [] b w = do { _ \<leftarrow> SliceBuffer_Front b; Some (- 1, b, w) }"
| "OnSend_loop (r # rs) b w = do {
     slice \<leftarrow> SliceBuffer_Front b;
     (case r of
        SendErr errno \<Rightarrow>
          if errno = EINTR \<or> errno = EWOULDBLOCK \<or> errno = EAGAIN then Some (- 1, b, w) else Some (0, b, w)
      | SendOk n \<Rightarrow>
          let slen = min n (length slice); w1 = w\<lparr>n_sent := n_sent w @ take slen slice\<rparr> in
          if slen = 0 then Some (0, b, w1)
          else do {
            (_, b1) \<leftarrow> SliceBuffer_MoveHeader b slen;
            if SliceBuffer_SliceCount b1 > 0 then OnSend_loop rs b1 w1 else Some (0, b1, w1) }) }"

definition Connection_OnSend :: "send_result list \<Rightarrow> Connection \<Rightarrow> net \<Rightarrow> (int \<times> Connection \<times> net) option" where
  "Connection_OnSend rs c w =
     (if SliceBuffer_Empty (c_snd_buffer c) then Some (0, c, w)
      else do {
        (ret, b, w1) \<leftarrow> OnSend_loop rs (c_snd_buffer c) w;
        Some (ret, c\<lparr>c_snd_buffer := b\<rparr>, w1) })"

definition Connection_DoRecvEvent ::
  "os_error \<Rightarrow> recv_result list \<Rightarrow> Connection \<Rightarrow> net \<Rightarrow> (raptor_error \<times> Connection \<times> net) option" where
  "Connection_DoRecvEvent os rs c w = do {
     (result, c1, w1) \<leftarrow> Connection_OnRecv rs c w;
     if result = 0 then do {
       t \<leftarrow> c_recv_thread c1;
       e \<leftarrow> n_eps w1 (c_endpoint c1);
       Some (RAPTOR_ERROR_NONE, c1, net_sys [PollingThread_Modify (n_threads w1 t) (fd_int (ei_fd e))
              (ei_connection_id e) (EPOLLIN OR EPOLLET)] w1) }
     else Some (RAPTOR_POSIX_ERROR os ''Connection:OnRecv'', c1, w1) }"

definition Connection_DoSendEvent ::
  "send_result list \<Rightarrow> Connection \<Rightarrow> net \<Rightarrow> (raptor_error \<times> Connection \<times> net) option" where
  "Connection_DoSendEvent rs c w = do {
     (result, c1, w1) \<leftarrow> Connection_OnSend rs c w;
     if result = - 1 then do {
       t \<leftarrow> c_send_thread c1;
       e \<leftarrow> n_eps w1 (c_endpoint c1);
       Some (RAPTOR_ERROR_NONE, c1, net_sys [PollingThread_Modify (n_threads w1 t) (fd_int (ei_fd e))
              (ei_connection_id e) (EPOLLOUT OR EPOLLET)] w1) }
     else Some (RAPTOR_ERROR_NONE, c1, w1) }"

section \<open>What parsing means\<close>

text \<open>
  The packages at the front of a byte stream, the bytes left, and why parsing stops there: the next
  package is incomplete, the handler reports an error, or the handler has not decided although it
  has been shown 1024 bytes and there are more.
\<close>

datatype frame_end = NeedMore | BadFrame | Undecided

function frames :: "(byte list \<Rightarrow> int) \<Rightarrow> byte list \<Rightarrow> byte list list \<times> byte list \<times> frame_end" where
  "frames check bs =
     (if bs = [] then ([], [], NeedMore)
      else let n = to_i32 (check (take 1024 bs)) in
        if n < 0 then ([], bs, BadFrame)
        else if n = 0 then ([], bs, if length bs \<le> 1024 then NeedMore else Undecided)
        else if length bs < nat n then ([], bs, NeedMore)
        else let (ps, r, e) = frames check (drop (nat n) bs) in (take (nat n) bs # ps, r, e))"
  by pat_completeness auto
termination
  by (relation "measure (\<lambda>(_, bs). length bs)") auto

declare frames.simps [simp del]

text \<open>No byte is lost, added or moved.\<close>

lemma frames_bytes: "frames check bs = (ps, r, e) \<Longrightarrow> concat ps @ r = bs"
proof (induction check bs arbitrary: ps rule: frames.induct)
  case (1 check bs)
  let ?n = "nat (to_i32 (check (take 1024 bs)))"
  note fr = "1.prems" [unfolded frames.simps [of check bs] Let_def]
  show ?case
  proof (cases "bs = [] \<or> to_i32 (check (take 1024 bs)) \<le> 0 \<or> length bs < ?n")
    case True
    with fr show ?thesis by (auto split: if_splits)
  next
    case False
    with fr obtain qs where "frames check (drop ?n bs) = (qs, r, e)" "ps = take ?n bs # qs"
      by (auto split: prod.splits)
    with "1.IH" [OF _ refl] False show ?thesis by auto
  qed
qed

lemma to_u64_i32 [simp]: "0 \<le> to_i32 x \<Longrightarrow> to_u64 (to_i32 x) = nat (to_i32 x)"
proof -
  assume a: "0 \<le> to_i32 x"
  have "nat (to_i32 x) < size_lim" using to_i32_range [of x] by linarith
  with a to_u64_of_nat [of "nat (to_i32 x)"] show ?thesis by simp
qed

lemma ReadSlice_ok:
  "sb_ok b \<Longrightarrow> ReadSliceFromRecvBuffer b n = Some (length (sb_bytes b) \<le> n, take n (sb_bytes b))"
  using rcv.peek [of b n] rcv.buflen_spec [of b]
  by (auto simp: ReadSliceFromRecvBuffer_def Let_def split: if_splits)

lemma parse_round_stop:
  assumes "sb_ok b" and "n = to_i32 (check (take 1024 (sb_bytes b)))"
  shows "n < 0 \<Longrightarrow> ParsingProtocol_round check b m = Some PErr"
    and "n = 0 \<Longrightarrow> length (sb_bytes b) \<le> 1024 \<Longrightarrow> ParsingProtocol_round check b m = Some PDone"
    and "0 < n \<Longrightarrow> m < nat n \<Longrightarrow> ParsingProtocol_round check b m = Some PDone"
  using assms by (auto simp: ParsingProtocol_round_def ReadSlice_ok)

lemma parse_round_package:
  assumes ok: "sb_ok b" and n: "n = to_i32 (check (take 1024 (sb_bytes b)))" and pos: "0 \<le> n"
    and len: "nat n \<le> length (sb_bytes b)" and m: "m = length (sb_bytes b)"
    and undecided: "n = 0 \<Longrightarrow> 1024 < length (sb_bytes b)"
  shows "\<exists>b1. ParsingProtocol_round check b m = Some (PPackage (take (nat n) (sb_bytes b)) b1)
           \<and> sb_ok b1 \<and> sb_bytes b1 = drop (nat n) (sb_bytes b)"
proof -
  obtain b1 where b1: "SliceBuffer_MoveHeader b (nat n) = Some (True, b1)" "sb_ok b1"
    "sb_bytes b1 = drop (nat n) (sb_bytes b)" using MoveHeader_ok [OF ok len] by blast
  let ?p = "take 1024 (sb_bytes b)"
  have pkg: "(if length ?p < nat n then SliceBuffer_GetHeader b (nat n)
      else let k = length ?p - nat n in Some (take (length ?p - k) ?p)) = Some (take (nat n) (sb_bytes b))"
  proof (cases "length ?p < nat n")
    case True
    then show ?thesis using GetHeader_ok [OF ok len] by simp
  next
    case False
    then have le: "nat n \<le> length ?p" by (simp only: not_less)
    then have "length ?p - (length ?p - nat n) = nat n" "min (nat n) 1024 = nat n" by auto
    then show ?thesis using False by (simp only: Let_def if_False take_take)
  qed
  have cond: "(n < 0) = False" "(n = 0 \<and> length (sb_bytes b) \<le> 1024) = False"
    "(n \<noteq> 0 \<and> \<not> m \<ge> nat n) = False"
    using pos len m undecided by auto
  have u: "to_u64 n = nat n" using n pos by simp
  have "ParsingProtocol_round check b m = Some (PPackage (take (nat n) (sb_bytes b)) b1)"
    unfolding ParsingProtocol_round_def ReadSlice_ok [OF ok] Option.bind.simps prod.case Let_def
      n [symmetric] u
    by (simp only: cond pkg [unfolded Let_def] b1(1) if_False Option.bind.simps prod.case)
  with b1 show ?thesis by blast
qed

text \<open>
  Parsing returns, with the packages of the stream and the rest of it in the buffer, when the
  handler decides.
\<close>

lemma ParsingProtocol_loop_frames:
  assumes "sb_ok b" and "frames check (sb_bytes b) = (ps, r, e)" and "e \<noteq> Undecided"
    and "0 \<le> k" and "k + int (length (sb_bytes b)) < 2147483648"
  shows "\<exists>b'. ParsingProtocol_loop check b (length (sb_bytes b)) k out
      = Some (if e = BadFrame then - 1 else k + int (length ps), b', out @ ps)
    \<and> sb_ok b' \<and> sb_bytes b' = r"
  using assms
proof (induction check "sb_bytes b" arbitrary: b ps k out rule: frames.induct)
  case (1 check)
  let ?bs = "sb_bytes b" and ?n = "to_i32 (check (take 1024 (sb_bytes b)))"
  note ok = "1.prems"(1) and fr = "1.prems"(2)
  note fr' = fr [unfolded frames.simps [of check ?bs] Let_def]
  show ?case
  proof (cases "?bs = []")
    case True
    with "1.prems" show ?thesis
      by (subst ParsingProtocol_loop.simps) (auto simp: frames.simps)
  next
    case False
    note stop = parse_round_stop [OF ok refl, where check = check and m = "length ?bs"]
    consider "?n < 0" | "?n = 0" | "0 < ?n" "length ?bs < nat ?n" | "0 < ?n" "nat ?n \<le> length ?bs"
      by linarith
    then show ?thesis
    proof cases
      case 1
      with fr' False have "ps = []" "r = ?bs" "e = BadFrame" by auto
      with 1 False stop(1) ok show ?thesis by (subst ParsingProtocol_loop.simps) simp
    next
      case 2
      with fr' False "1.prems"(3) have "ps = []" "r = ?bs" "e = NeedMore" "length ?bs \<le> 1024"
        by (auto split: if_splits)
      with 2 False stop(2) ok show ?thesis by (subst ParsingProtocol_loop.simps) simp
    next
      case 3
      with fr' False have "ps = []" "r = ?bs" "e = NeedMore" by auto
      with 3 False stop(3) ok show ?thesis by (subst ParsingProtocol_loop.simps) simp
    next
      case 4
      obtain b1 where b1: "ParsingProtocol_round check b (length ?bs) = Some (PPackage (take (nat ?n) ?bs) b1)"
        "sb_ok b1" "sb_bytes b1 = drop (nat ?n) ?bs"
        using parse_round_package [OF ok refl, of check "length ?bs"] 4 by auto
      obtain qs where qs: "frames check (drop (nat ?n) ?bs) = (qs, r, e)" "ps = take (nat ?n) ?bs # qs"
        using fr' False 4 by (auto split: prod.splits)
      have len: "length (sb_bytes b1) + nat ?n = length ?bs" using 4 b1(3) by simp
      have k1: "to_i32 (k + 1) = k + 1" using "1.prems"(4,5) False 4 by (intro to_i32_id) (use len in linarith)+
      have bl: "SliceBuffer_GetBufferLength b1 = length (sb_bytes b1)" using rcv.buflen_spec [OF b1(2)] .
      obtain b' where "ParsingProtocol_loop check b1 (length (sb_bytes b1)) (k + 1) (out @ [take (nat ?n) ?bs])
          = Some (if e = BadFrame then - 1 else k + 1 + int (length qs), b', out @ [take (nat ?n) ?bs] @ qs)"
        "sb_ok b'" "sb_bytes b' = r"
        using "1.hyps" [OF False refl _ _ _ b1(3) [symmetric] b1(2), of qs "k + 1" "out @ [take (nat ?n) ?bs]"]
          4 qs b1(3) "1.prems"(3-5) len by auto
      with b1(1) bl k1 False qs(2) show ?thesis
        by (subst ParsingProtocol_loop.simps) simp
    qed
  qed
qed

section \<open>When parsing does not return\<close>

text \<open>
  \<open>stuck check bs\<close>: the first 1024 of more than 1024 bytes do not let the handler decide. The round
  then hands over an empty package and consumes nothing.
\<close>

definition stuck :: "(byte list \<Rightarrow> int) \<Rightarrow> byte list \<Rightarrow> bool" where
  "stuck check bs \<longleftrightarrow> 1024 < length bs \<and> to_i32 (check (take 1024 bs)) = 0"

lemma stuck_round:
  assumes "sb_ok b" and "stuck check (sb_bytes b)"
  shows "\<exists>b1. ParsingProtocol_round check b (length (sb_bytes b)) = Some (PPackage [] b1)
           \<and> sb_ok b1 \<and> sb_bytes b1 = sb_bytes b"
  using parse_round_package [OF assms(1) refl, of check] assms(2) by (simp add: stuck_def)

lemma stuck_diverges:
  assumes "ParsingProtocol_loop check b m k out = Some y" and "sb_ok b" and "m = length (sb_bytes b)"
  shows "\<not> stuck check (sb_bytes b)"
proof -
  from assms(1) have "sb_ok b \<longrightarrow> m = length (sb_bytes b) \<longrightarrow> \<not> stuck check (sb_bytes b)"
  proof (rule ParsingProtocol_loop.raw_induct [rotated], intro impI notI)
    fix loop check b m k out y
    assume IH: "\<And>check b m k out y. loop check b m k out = Some y \<Longrightarrow>
        sb_ok b \<longrightarrow> m = length (sb_bytes b) \<longrightarrow> \<not> stuck check (sb_bytes b)"
      and body: "(if \<not> 0 < m then Some (k, b, out)
        else ParsingProtocol_round check b m \<bind>
          (\<lambda>r. case r of PErr \<Rightarrow> Some (- 1, b, out) | PDone \<Rightarrow> Some (k, b, out)
             | PPackage package b1 \<Rightarrow> loop check b1 (SliceBuffer_GetBufferLength b1) (to_i32 (k + 1))
                 (out @ [package]))) = Some y"
      and ok: "sb_ok b" and m: "m = length (sb_bytes b)" and st: "stuck check (sb_bytes b)"
    obtain b1 where b1: "ParsingProtocol_round check b m = Some (PPackage [] b1)"
      "sb_ok b1" "sb_bytes b1 = sb_bytes b" using stuck_round [OF ok st] m by blast
    have "0 < m" using st m by (auto simp: stuck_def)
    with body b1(1)
    have "loop check b1 (SliceBuffer_GetBufferLength b1) (to_i32 (k + 1)) (out @ [[]]) = Some y" by simp
    from IH [OF this] b1(2,3) rcv.buflen_spec [OF b1(2)] st show False by simp
  qed
  with assms show ?thesis by simp
qed

lemma frames_Undecided:
  "frames check bs = (ps, r, Undecided) \<Longrightarrow> stuck check r"
proof (induction check bs arbitrary: ps rule: frames.induct)
  case (1 check bs)
  from "1.prems" show ?case
    using "1.IH" by (subst (asm) frames.simps)
      (auto simp: Let_def stuck_def split: if_splits prod.splits)
qed

lemma ParsingProtocol_loop_undecided:
  assumes "sb_ok b" and "frames check (sb_bytes b) = (ps, r, Undecided)"
  shows "ParsingProtocol_loop check b (length (sb_bytes b)) k out = None"
  using assms
proof (induction check "sb_bytes b" arbitrary: b ps k out rule: frames.induct)
  case (1 check)
  let ?bs = "sb_bytes b" and ?n = "to_i32 (check (take 1024 (sb_bytes b)))"
  note ok = "1.prems"(1)
  note fr = "1.prems"(2) [unfolded frames.simps [of check ?bs] Let_def]
  show ?case
  proof (cases "stuck check ?bs")
    case True
    with ok stuck_diverges show ?thesis by (metis not_None_eq)
  next
    case False
    with fr have n: "?bs \<noteq> []" "0 < ?n" "nat ?n \<le> length ?bs"
      by (auto simp: stuck_def split: if_splits)
    obtain qs where qs: "frames check (drop (nat ?n) ?bs) = (qs, r, Undecided)"
      using fr n by (auto split: prod.splits)
    obtain b1 where b1: "ParsingProtocol_round check b (length ?bs) = Some (PPackage (take (nat ?n) ?bs) b1)"
      "sb_ok b1" "sb_bytes b1 = drop (nat ?n) ?bs"
      using parse_round_package [OF ok refl, of check "length ?bs"] n by auto
    have "ParsingProtocol_loop check b1 (length (sb_bytes b1)) k' out' = None" for k' out'
      using "1.hyps" [OF n(1) refl _ _ _ b1(3) [symmetric] b1(2)] n qs b1(3) by auto
    with b1 n rcv.buflen_spec [OF b1(2)] show ?thesis
      by (subst ParsingProtocol_loop.simps) simp
  qed
qed

section \<open>Packages are a function of the stream\<close>

text \<open>
  The contract a protocol handler has to keep: a header of at most 1024 bytes decides, more bytes
  do not change the decision, and the length fits an \<open>int\<close>.
\<close>

locale framing_protocol =
  fixes check :: "byte list \<Rightarrow> int" and hdr :: nat
  assumes hdr_le: "hdr \<le> 1024"
    and short: "length bs < hdr \<Longrightarrow> check bs = 0"
    and stable: "hdr \<le> length bs \<Longrightarrow> check (bs @ cs) = check bs"
    and range: "to_i32 (check bs) = check bs"
begin

lemma check_prefix: "to_i32 (check (take 1024 bs)) = check bs"
proof (cases "length bs \<le> 1024")
  case False
  then have "check (take 1024 bs @ drop 1024 bs) = check (take 1024 bs)"
    using hdr_le by (intro stable) simp
  then show ?thesis by (simp add: range)
qed (simp add: range)

lemma check_extend: "check bs \<noteq> 0 \<Longrightarrow> check (bs @ cs) = check bs"
  using short stable by (meson not_le)

lemma frames_step:
  "bs \<noteq> [] \<Longrightarrow> 0 < check bs \<Longrightarrow> nat (check bs) \<le> length bs \<Longrightarrow>
     frames check bs = (let (ps, r, e) = frames check (drop (nat (check bs)) bs)
                        in (take (nat (check bs)) bs # ps, r, e))"
  by (subst frames.simps) (simp add: Let_def check_prefix)

text \<open>Parsing in two parts is parsing at once.\<close>

lemma frames_append:
  "frames check bs = (ps, r, NeedMore) \<Longrightarrow>
     frames check (bs @ cs) = (let (qs, r', e) = frames check (r @ cs) in (ps @ qs, r', e))"
proof (induction "length bs" arbitrary: bs ps rule: less_induct)
  case less
  note fr = less.prems [unfolded frames.simps [of check bs] Let_def check_prefix]
  show ?case
  proof (cases "bs \<noteq> [] \<and> 0 < check bs \<and> nat (check bs) \<le> length bs")
    case False
    with fr have "ps = []" "r = bs" by (auto split: if_splits prod.splits)
    then show ?thesis by (simp add: split_beta)
  next
    case True
    obtain qs where qs: "frames check (drop (nat (check bs)) bs) = (qs, r, NeedMore)"
      "ps = take (nat (check bs)) bs # qs" using fr True by (auto split: prod.splits)
    have ext: "check (bs @ cs) = check bs" using True by (intro check_extend) auto
    have "length (drop (nat (check bs)) bs) < length bs" using True by auto
    from less.hyps [OF this qs(1)] True ext qs(2) show ?thesis
      by (subst frames_step) (simp_all add: Let_def split_beta)
  qed
qed

text \<open>A sequence of well-formed packages is cut into these packages.\<close>

lemma frames_concat:
  "\<forall>p \<in> set ps. p \<noteq> [] \<and> check p = int (length p) \<Longrightarrow> frames check (concat ps) = (ps, [], NeedMore)"
proof (induction ps)
  case (Cons p ps)
  then have p: "p \<noteq> []" "check p = int (length p)" by auto
  then have "check (p @ concat ps) = int (length p)" using check_extend [of p "concat ps"] by simp
  with p Cons show ?case using frames_step [of "p @ concat ps"] by simp
qed (simp add: frames.simps)

text \<open>A stream that ends in the middle of a package had no error before.\<close>

lemma frames_prefix:
  "frames check (bs @ cs) = (ps, r, NeedMore) \<Longrightarrow> \<exists>qs r'. frames check bs = (qs, r', NeedMore)"
proof (induction "length bs" arbitrary: bs ps rule: less_induct)
  case less
  note fr = less.prems [unfolded frames.simps [of check "bs @ cs"] Let_def check_prefix]
  show ?case
  proof (cases "bs = [] \<or> check bs = 0 \<and> length bs \<le> 1024 \<or> 0 < check bs \<and> length bs < nat (check bs)")
    case True
    then show ?thesis by (subst frames.simps) (auto simp: Let_def check_prefix)
  next
    case False
    have ext: "check (bs @ cs) = check bs"
      using False hdr_le check_extend stable [of bs cs] by (cases "check bs = 0") auto
    with fr False have pos: "0 < check bs" "nat (check bs) \<le> length bs"
      by (auto split: if_splits)
    have "frames check (drop (nat (check bs)) bs @ cs) = (tl ps, r, NeedMore)"
      using fr ext pos False by (auto split: prod.splits)
    from less.hyps [OF _ this] pos False obtain qs r' where
      "frames check (drop (nat (check bs)) bs) = (qs, r', NeedMore)" by auto
    with pos False show ?thesis using frames_step [of bs] by auto
  qed
qed

lemma frames_rest: "frames check bs = (ps, r, NeedMore) \<Longrightarrow> frames check r = ([], r, NeedMore)"
proof (induction "length bs" arbitrary: bs ps rule: less_induct)
  case less
  note fr = less.prems [unfolded frames.simps [of check bs] Let_def check_prefix]
  show ?case
  proof (cases "bs \<noteq> [] \<and> 0 < check bs \<and> nat (check bs) \<le> length bs")
    case True
    then obtain qs where "frames check (drop (nat (check bs)) bs) = (qs, r, NeedMore)"
      using fr by (auto split: prod.splits)
    moreover have "length (drop (nat (check bs)) bs) < length bs" using True by auto
    ultimately show ?thesis using less.hyps by blast
  next
    case False
    with fr have "ps = []" "r = bs" by (auto split: if_splits prod.splits)
    with less.prems show ?thesis by simp
  qed
qed

end

section \<open>Receiving\<close>

text \<open>The bytes a call of \<open>OnRecv\<close> reads from the socket, and how it ends.\<close>

fun recv_data :: "recv_result list \<Rightarrow> byte list" where
  "recv_data [] = []"
| "recv_data (RecvErr errno # rs) = []"
| "recv_data (RecvData data # rs) =
     recv_bytes data @ (if length (recv_bytes data) = unused_space then recv_data rs else [])"

fun recv_status :: "recv_result list \<Rightarrow> int" where
  "recv_status [] = 0"
| "recv_status (RecvErr errno # rs) =
     (if errno = EINTR \<or> errno = EWOULDBLOCK \<or> errno = EAGAIN then 0 else - 1)"
| "recv_status (RecvData data # rs) =
     (if recv_bytes data = [] then - 1
      else if length (recv_bytes data) = unused_space then recv_status rs else 0)"

fun recv_calls :: "recv_result list list \<Rightarrow> Connection \<Rightarrow> net \<Rightarrow> (Connection \<times> net) option" where
  "recv_calls [] c w = Some (c, w)"
| "recv_calls (rs # calls) c w = do {
     (ret, c1, w1) \<leftarrow> Connection_OnRecv rs c w;
     if ret = 0 then recv_calls calls c1 w1 else Some (c1, w1) }"

lemma ParsingProtocol_frames:
  assumes "sb_ok b" and "frames check (sb_bytes b) = (ps, r, e)" and "e \<noteq> Undecided"
    and "length (sb_bytes b) < 2147483648"
  shows "\<exists>b'. ParsingProtocol check b = Some (if e = BadFrame then - 1 else int (length ps), b', ps)
    \<and> sb_ok b' \<and> sb_bytes b' = r"
  using ParsingProtocol_loop_frames [OF assms(1-3), of 0 "[]"] assms(4) rcv.buflen_spec [OF assms(1)]
  by (cases "e = BadFrame") (simp_all add: ParsingProtocol_def)

context framing_protocol
begin

lemma OnRecv_frames:
  assumes "c_service c" and "c_proto c = Some proto" and "proto (c_endpoint c) = check"
    and "sb_ok (c_rcv_buffer c)"
    and "frames check (sb_bytes (c_rcv_buffer c)) = ([], sb_bytes (c_rcv_buffer c), NeedMore)"
    and "frames check (sb_bytes (c_rcv_buffer c) @ recv_data rs) = (ps, r, NeedMore)"
    and "length (sb_bytes (c_rcv_buffer c)) + length (recv_data rs) < 2147483648"
  shows "\<exists>b'. Connection_OnRecv rs c w
      = Some (recv_status rs, c\<lparr>c_rcv_buffer := b'\<rparr>, net_note (map (DataReceived (c_endpoint c)) ps) w)
    \<and> sb_ok b' \<and> sb_bytes b' = r"
  using assms
proof (induction rs arbitrary: c w ps rule: recv_data.induct)
  case 1
  then show ?case
    by (intro exI [of _ "c_rcv_buffer c"]) (simp add: net_note_def)
next
  case (2 errno rs)
  then show ?case
    by (intro exI [of _ "c_rcv_buffer c"]) (simp add: net_note_def)
next
  case (3 data rs)
  let ?b = "c_rcv_buffer c" and ?bs = "recv_bytes data"
  show ?case
  proof (cases "?bs = []")
    case True
    with "3.prems" show ?thesis
      by (intro exI [of _ ?b]) (simp add: net_note_def unused_space_def)
  next
    case False
    let ?a = "SliceBuffer_AddSlice ?b ?bs"
    have a: "sb_ok ?a" "sb_bytes ?a = sb_bytes ?b @ ?bs"
      using AddSlice_ok [OF "3.prems"(4), of ?bs] "3.prems"(7) by auto
    define cs where "cs = (if length ?bs = unused_space then recv_data rs else [])"
    have tot: "frames check ((sb_bytes ?b @ ?bs) @ cs) = (ps, r, NeedMore)"
      using "3.prems"(6) by (simp add: cs_def)
    from frames_prefix [OF tot] obtain qs r1 where
      q: "frames check (sb_bytes ?b @ ?bs) = (qs, r1, NeedMore)" by blast
    obtain ps2 where ps2: "frames check (r1 @ cs) = (ps2, r, NeedMore)" "ps = qs @ ps2"
      using frames_append [OF q, of cs] tot by (auto split: prod.splits)
    obtain b1 where b1: "ParsingProtocol check ?a = Some (int (length qs), b1, qs)" "sb_ok b1" "sb_bytes b1 = r1"
      using ParsingProtocol_frames [OF a(1), of check qs r1 NeedMore] a(2) q "3.prems"(7) by auto
    let ?c1 = "c\<lparr>c_rcv_buffer := b1\<rparr>" and ?w1 = "net_note (map (DataReceived (c_endpoint c)) qs) w"
    have on: "Connection_on_bytes ?bs c w = Some (int (length qs), ?c1, ?w1)"
      using "3.prems"(1-3) b1(1) by (simp add: Connection_on_bytes_def)
    show ?thesis
    proof (cases "length ?bs = unused_space")
      case True
      then have cs: "cs = recv_data rs" by (simp add: cs_def)
      have len: "length (concat qs @ r1) = length (sb_bytes ?b @ ?bs)"
        using frames_bytes [OF q] by (rule arg_cong)
      have "\<exists>b'. Connection_OnRecv rs ?c1 ?w1 = Some (recv_status rs, ?c1\<lparr>c_rcv_buffer := b'\<rparr>,
          net_note (map (DataReceived (c_endpoint ?c1)) ps2) ?w1) \<and> sb_ok b' \<and> sb_bytes b' = r"
        using "3.prems"(1-3,7) b1 frames_rest [OF q] ps2(1) cs len True by (intro "3.IH") auto
      then show ?thesis using True False on ps2(2) by (auto simp: net_note_def)
    next
      case nfull: False
      then have "ps2 = []" "r = r1" using ps2(1) frames_rest [OF q] by (auto simp: cs_def)
      with nfull False on ps2(2) b1(2,3) show ?thesis by auto
    qed
  qed
qed

text \<open>The same over any number of calls that all end in order.\<close>

lemma recv_calls_frames:
  assumes "c_service c" and "c_proto c = Some proto" and "proto (c_endpoint c) = check"
    and "sb_ok (c_rcv_buffer c)"
    and "frames check (sb_bytes (c_rcv_buffer c)) = ([], sb_bytes (c_rcv_buffer c), NeedMore)"
    and "frames check (sb_bytes (c_rcv_buffer c) @ concat (map recv_data calls)) = (ps, r, NeedMore)"
    and "length (sb_bytes (c_rcv_buffer c)) + length (concat (map recv_data calls)) < 2147483648"
    and "\<forall>rs \<in> set calls. recv_status rs = 0"
  shows "\<exists>b'. recv_calls calls c w
      = Some (c\<lparr>c_rcv_buffer := b'\<rparr>, net_note (map (DataReceived (c_endpoint c)) ps) w)
    \<and> sb_ok b' \<and> sb_bytes b' = r"
  using assms
proof (induction calls arbitrary: c w ps)
  case Nil
  then show ?case by (intro exI [of _ "c_rcv_buffer c"]) (simp add: net_note_def)
next
  case (Cons rs calls)
  let ?b = "c_rcv_buffer c" and ?cs = "concat (map recv_data calls)"
  have tot: "frames check ((sb_bytes ?b @ recv_data rs) @ ?cs) = (ps, r, NeedMore)" using Cons.prems(6) by simp
  from frames_prefix [OF tot] obtain qs r1 where
    q: "frames check (sb_bytes ?b @ recv_data rs) = (qs, r1, NeedMore)" by blast
  obtain ps2 where ps2: "frames check (r1 @ ?cs) = (ps2, r, NeedMore)" "ps = qs @ ps2"
    using frames_append [OF q, of ?cs] tot by (auto split: prod.splits)
  obtain b1 where b1: "Connection_OnRecv rs c w
      = Some (recv_status rs, c\<lparr>c_rcv_buffer := b1\<rparr>, net_note (map (DataReceived (c_endpoint c)) qs) w)"
    "sb_ok b1" "sb_bytes b1 = r1"
    using OnRecv_frames [OF Cons.prems(1-5) q] Cons.prems(7) by auto
  let ?c1 = "c\<lparr>c_rcv_buffer := b1\<rparr>" and ?w1 = "net_note (map (DataReceived (c_endpoint c)) qs) w"
  have len: "length (concat qs @ r1) = length (sb_bytes ?b @ recv_data rs)"
    using frames_bytes [OF q] by (rule arg_cong)
  have "\<exists>b'. recv_calls calls ?c1 ?w1 = Some (?c1\<lparr>c_rcv_buffer := b'\<rparr>,
      net_note (map (DataReceived (c_endpoint ?c1)) ps2) ?w1) \<and> sb_ok b' \<and> sb_bytes b' = r"
    using Cons.prems(1-3,7,8) b1(2,3) frames_rest [OF q] ps2(1) len by (intro Cons.IH) auto
  then show ?case using b1(1) Cons.prems(8) ps2(2) by (auto simp: net_note_def)
qed

end

text \<open>
  The handler of the echo server (src/example/echo_server.cc): an 8-byte header whose first four
  bytes are the length of the payload, little-endian.
\<close>

definition echo_OnCheckPackageLength :: "byte list \<Rightarrow> int" where
  "echo_OnCheckPackageLength data =
     (if length data < 8 then 0 else to_i32 (int (8 + of_le (take 4 data))))"

lemma to_i32_idem [simp]: "to_i32 (to_i32 x) = to_i32 x"
  using to_i32_range [of x] by (intro to_i32_id) auto

interpretation echo: framing_protocol echo_OnCheckPackageLength 8
  by unfold_locales (auto simp: echo_OnCheckPackageLength_def)

section \<open>Sending\<close>

text \<open>What is sent and what is left is what was queued, in order.\<close>

lemma OnSend_loop_stream:
  assumes "sb_ok b" and "sb_vs b \<noteq> []"
  shows "\<exists>ret b' w' bs. OnSend_loop rs b w = Some (ret, b', w') \<and> sb_ok b'
    \<and> w' = w\<lparr>n_sent := n_sent w @ bs\<rparr> \<and> bs @ sb_bytes b' = sb_bytes b \<and> ret \<in> {0, - 1}"
  using assms
proof (induction rs arbitrary: b w)
  case Nil
  then obtain x xs where "sb_vs b = x # xs" by (cases "sb_vs b") auto
  with Nil show ?case by (auto simp: SliceBuffer_Front_def intro!: exI [of _ "[]"])
next
  case (Cons r rs)
  then obtain x xs where x: "sb_vs b = x # xs" by (cases "sb_vs b") auto
  then have fr: "SliceBuffer_Front b = Some x" by (simp add: SliceBuffer_Front_def)
  show ?case
  proof (cases r)
    case (SendErr errno)
    with Cons.prems fr show ?thesis by (auto intro!: exI [of _ "[]"])
  next
    case (SendOk n)
    define k where "k = min n (length x)"
    let ?w1 = "w\<lparr>n_sent := n_sent w @ take k x\<rparr>"
    have le: "k \<le> length (sb_bytes b)" and tk: "take k (sb_bytes b) = take k x"
      using x by (simp_all add: sb_bytes_def k_def)
    obtain b1 where b1: "SliceBuffer_MoveHeader b k = Some (True, b1)" "sb_ok b1"
      "sb_bytes b1 = drop k (sb_bytes b)" using MoveHeader_ok [OF Cons.prems(1) le] by blast
    have split: "take k x @ sb_bytes b1 = sb_bytes b"
      using b1(3) tk by (metis append_take_drop_id)
    have step: "OnSend_loop (r # rs) b w = (if k = 0 then Some (0, b, ?w1)
        else if sb_vs b1 \<noteq> [] then OnSend_loop rs b1 ?w1 else Some (0, b1, ?w1))"
      using SendOk fr b1(1) unfolding k_def [symmetric]
      by (simp add: k_def [symmetric] Let_def SliceBuffer_SliceCount_def)
    show ?thesis
    proof (cases "k \<noteq> 0 \<and> sb_vs b1 \<noteq> []")
      case True
      from Cons.IH [OF b1(2), of ?w1] True obtain ret b' w' bs where
        "OnSend_loop rs b1 ?w1 = Some (ret, b', w')" "sb_ok b'"
        "w' = ?w1\<lparr>n_sent := n_sent ?w1 @ bs\<rparr>" "bs @ sb_bytes b' = sb_bytes b1" "ret \<in> {0, - 1}" by blast
      with True split show ?thesis unfolding step
        by (intro exI [of _ ret] exI [of _ b'] exI [of _ w'] exI [of _ "take k x @ bs"]) auto
    next
      case False
      show ?thesis
      proof (cases "k = 0")
        case True
        with Cons.prems show ?thesis unfolding step by (auto intro!: exI [of _ "[]"])
      next
        case k: False
        with False b1 split show ?thesis unfolding step by (auto intro!: exI [of _ "take k x"])
      qed
    qed
  qed
qed

section \<open>Closing\<close>

definition conn_ready :: "Connection \<Rightarrow> bool" where
  "conn_ready c \<longleftrightarrow> c_service c \<and> c_recv_thread c \<noteq> None \<and> c_send_thread c \<noteq> None"

lemma offline_after_shutdown [simp]:
  "\<not> EndpointImpl_IsOnline (e\<lparr>ei_fd := NOT 0\<rparr>)" "\<not> EndpointImpl_IsOnline (e\<lparr>ei_fd := - 1\<rparr>)"
  by (simp_all add: EndpointImpl_IsOnline_def)

lemma Connection_Shutdown_offline:
  "n_eps w (c_endpoint c) = Some e \<Longrightarrow> \<not> EndpointImpl_IsOnline e \<Longrightarrow>
     Connection_Shutdown notify ev c w = Some (c, w)"
  by (simp add: Connection_Shutdown_def)

lemma Connection_Shutdown_online:
  assumes "conn_ready c" and "n_eps w (c_endpoint c) = Some e" and "EndpointImpl_IsOnline e"
  shows "Connection_Shutdown notify ev c w =
    Some (c\<lparr>c_rcv_buffer := SliceBuffer_ClearBuffer (c_rcv_buffer c),
            c_snd_buffer := SliceBuffer_ClearBuffer (c_snd_buffer c)\<rparr>,
          net_note (if notify then [Closed (c_endpoint c) ev] else [])
            (net_set_ep (c_endpoint c) (e\<lparr>ei_fd := NOT 0\<rparr>)
              (net_sys ([PollingThread_Delete (n_threads w (the (c_recv_thread c))) (fd_int (ei_fd e)) (EPOLLIN OR EPOLLET),
                         PollingThread_Delete (n_threads w (the (c_send_thread c))) (fd_int (ei_fd e)) (EPOLLOUT OR EPOLLET)]
                        @ raptor_set_socket_shutdown (fd_int (ei_fd e))) w)))"
  using assms by (auto simp: Connection_Shutdown_def conn_ready_def net_sys_def net_note_def net_set_ep_def)

lemma Connection_Shutdown_total:
  "conn_ready c \<Longrightarrow> n_eps w (c_endpoint c) = Some e \<Longrightarrow> \<exists>c' w'. Connection_Shutdown notify ev c w = Some (c', w')"
  by (cases "EndpointImpl_IsOnline e")
    (simp_all add: Connection_Shutdown_online Connection_Shutdown_offline)

section \<open>Properties\<close>

text \<open>
  C8. Parsing is exact, for every protocol handler whatsoever: \<open>ParsingProtocol\<close> returns if and only if
  it never meets more than 1024 buffered bytes whose first 1024 do not let the handler decide. When
  it returns, it has handed over exactly the packages at the front of the buffer, kept exactly the
  rest, and returns their number, or -1 when the handler reported an error.
\<close>

theorem parsing_protocol_exact:
  assumes "sb_ok b" and "length (sb_bytes b) < 2147483648"
    and "frames check (sb_bytes b) = (ps, r, e)"
  shows "(ParsingProtocol check b = None \<longleftrightarrow> e = Undecided) \<and> concat ps @ r = sb_bytes b
    \<and> (e \<noteq> Undecided \<longrightarrow> (\<exists>b'. sb_ok b' \<and> sb_bytes b' = r
         \<and> ParsingProtocol check b = Some (if e = BadFrame then - 1 else int (length ps), b', ps)))"
proof (cases "e = Undecided")
  case True
  with ParsingProtocol_loop_undecided [OF assms(1)] assms(3) rcv.buflen_spec [OF assms(1)]
  have "ParsingProtocol check b = None" by (simp add: ParsingProtocol_def)
  with True frames_bytes [OF assms(3)] show ?thesis by simp
next
  case False
  with ParsingProtocol_frames [OF assms(1,3) False assms(2)] frames_bytes [OF assms(3)] show ?thesis by auto
qed

theorem parsing_protocol_exact_witness:
  "\<exists>b'. sb_ok b' \<and> sb_bytes b' = [9]
     \<and> ParsingProtocol (\<lambda>bs. 2) \<lparr>sb_vs = [[1], [2, 3], [4, 9]], sb_length = 5\<rparr> = Some (2, b', [[1, 2], [3, 4]])"
proof -
  let ?b = "\<lparr>sb_vs = [[1], [2, 3], [4, 9]], sb_length = 5\<rparr> :: SliceBuffer"
  have "frames (\<lambda>bs. 2) (sb_bytes ?b) = ([[1, 2], [3, 4]], [9], NeedMore)"
    by (simp add: sb_bytes_def frames.simps)
  with parsing_protocol_exact [of ?b "\<lambda>bs. 2" "[[1, 2], [3, 4]]" "[9]" NeedMore] show ?thesis
    by (simp add: sb_ok_def sb_bytes_def)
qed

text \<open>
  C9. TCP segmentation does not matter: however the bytes of a stream are divided into \<open>recv\<close> results
  and into \<open>OnRecv\<close> calls, and whatever was buffered before, the packages a connection hands to its
  service are the packages of the stream, in order, and the rest of the stream stays buffered. The
  handler has to decide on a header of at most 1024 bytes (\<open>framing_protocol\<close>).
\<close>

theorem packages_independent_of_segmentation:
  assumes "framing_protocol (proto (c_endpoint c)) hdr"
    and "c_service c" and "c_proto c = Some proto" and "sb_ok (c_rcv_buffer c)"
    and "frames (proto (c_endpoint c)) (sb_bytes (c_rcv_buffer c)) = ([], sb_bytes (c_rcv_buffer c), NeedMore)"
    and "frames (proto (c_endpoint c)) (sb_bytes (c_rcv_buffer c) @ concat (map recv_data calls)) = (ps, r, NeedMore)"
    and "length (sb_bytes (c_rcv_buffer c)) + length (concat (map recv_data calls)) < 2147483648"
    and "\<forall>rs \<in> set calls. recv_status rs = 0"
  shows "\<exists>c' w'. recv_calls calls c w = Some (c', w')
    \<and> n_notes w' = n_notes w @ map (DataReceived (c_endpoint c)) ps
    \<and> sb_ok (c_rcv_buffer c') \<and> sb_bytes (c_rcv_buffer c') = r"
proof -
  obtain b' where "recv_calls calls c w
      = Some (c\<lparr>c_rcv_buffer := b'\<rparr>, net_note (map (DataReceived (c_endpoint c)) ps) w)" "sb_ok b'" "sb_bytes b' = r"
    using framing_protocol.recv_calls_frames [OF assms(1-3) refl assms(4-8)] by blast
  then show ?thesis by simp
qed

text \<open>A connection for the examples, and two calls that split an echo package and its header.\<close>

definition example_net :: net where
  "example_net = \<lparr>n_eps = [0 \<mapsto> EndpointImpl_new 7 ra_zero ra_zero], n_threads = (\<lambda>_. PollingThread_new),
     n_sys = [], n_notes = [], n_sent = [], n_counter = 0\<rparr>"

definition example_conn :: Connection where
  "example_conn = \<lparr>c_service = True, c_proto = Some (\<lambda>_. echo_OnCheckPackageLength), c_recv_thread = Some RecvThread,
     c_send_thread = Some SendThread, c_rcv_buffer = SliceBuffer_new, c_snd_buffer = SliceBuffer_new,
     c_endpoint = 0, c_handle_id = 0\<rparr>"

lemma example_simps:
  "c_service example_conn" "c_proto example_conn = Some (\<lambda>_. echo_OnCheckPackageLength)"
  "c_rcv_buffer example_conn = SliceBuffer_new" "c_endpoint example_conn = 0" "n_notes example_net = []"
  by (simp_all add: example_conn_def example_net_def)

lemma example_frames:
  "frames echo_OnCheckPackageLength [2, 0, 0, 0, 5, 0, 0, 0, 7, 8] = ([[2, 0, 0, 0, 5, 0, 0, 0, 7, 8]], [], NeedMore)"
  "frames echo_OnCheckPackageLength [] = ([], [], NeedMore)"
  by (simp_all add: frames.simps echo_OnCheckPackageLength_def of_le_def)

theorem packages_independent_of_segmentation_witness:
  "\<exists>c' w'. recv_calls [[RecvData [2, 0, 0]], [RecvData [0, 5, 0, 0, 0, 7, 8]]] example_conn example_net = Some (c', w')
     \<and> n_notes w' = [DataReceived 0 [2, 0, 0, 0, 5, 0, 0, 0, 7, 8]] \<and> sb_bytes (c_rcv_buffer c') = []"
  using packages_independent_of_segmentation [of "\<lambda>_. echo_OnCheckPackageLength" example_conn 8
      "[[RecvData [2, 0, 0]], [RecvData [0, 5, 0, 0, 0, 7, 8]]]" "[[2, 0, 0, 0, 5, 0, 0, 0, 7, 8]]" "[]" example_net]
  by (auto simp: example_simps echo.framing_protocol_axioms example_frames recv_bytes_def unused_space_def
      simp del: recv_calls.simps)

text \<open>
  C10. Round trip: when the peer sends a sequence of well-formed packages, the service receives exactly
  these packages, in order, and nothing is left in the buffer, for every segmentation.
\<close>

theorem sent_packages_are_received:
  assumes "framing_protocol (proto (c_endpoint c)) hdr"
    and "c_service c" and "c_proto c = Some proto" and "c_rcv_buffer c = SliceBuffer_new"
    and "\<forall>p \<in> set ps. p \<noteq> [] \<and> proto (c_endpoint c) p = int (length p)"
    and "concat (map recv_data calls) = concat ps" and "length (concat ps) < 2147483648"
    and "\<forall>rs \<in> set calls. recv_status rs = 0"
  shows "\<exists>c' w'. recv_calls calls c w = Some (c', w')
    \<and> n_notes w' = n_notes w @ map (DataReceived (c_endpoint c)) ps \<and> sb_bytes (c_rcv_buffer c') = []"
proof -
  have f: "frames (proto (c_endpoint c)) (concat ps) = (ps, [], NeedMore)"
    using framing_protocol.frames_concat [OF assms(1,5)] .
  have e: "frames (proto (c_endpoint c)) [] = ([], [], NeedMore)" by (simp add: frames.simps)
  from framing_protocol.recv_calls_frames [OF assms(1-3) refl, of calls ps "[]" w] f e assms(4,6-8)
  obtain b' where "recv_calls calls c w
      = Some (c\<lparr>c_rcv_buffer := b'\<rparr>, net_note (map (DataReceived (c_endpoint c)) ps) w)" "sb_bytes b' = []"
    by auto
  then show ?thesis by simp
qed

theorem sent_packages_are_received_witness:
  "\<exists>c' w'. recv_calls [[RecvData [1, 0, 0, 0, 5, 0, 0, 0, 7, 0, 0]], [RecvData [0, 0, 6, 0, 0, 0]]] example_conn example_net = Some (c', w')
     \<and> n_notes w' = map (DataReceived 0) [[1, 0, 0, 0, 5, 0, 0, 0, 7], [0, 0, 0, 0, 6, 0, 0, 0]]
     \<and> sb_bytes (c_rcv_buffer c') = []"
  using sent_packages_are_received [of "\<lambda>_. echo_OnCheckPackageLength" example_conn 8
      "[[1, 0, 0, 0, 5, 0, 0, 0, 7], [0, 0, 0, 0, 6, 0, 0, 0]]"
      "[[RecvData [1, 0, 0, 0, 5, 0, 0, 0, 7, 0, 0]], [RecvData [0, 0, 6, 0, 0, 0]]]" example_net]
  by (auto simp: example_simps echo.framing_protocol_axioms recv_bytes_def
      unused_space_def echo_OnCheckPackageLength_def of_le_def simp del: recv_calls.simps)

text \<open>
  C38. The \<open>continue\<close> in \<open>ParsingProtocol\<close> does not read a longer prefix: with more than 1024 bytes
  buffered and a handler that needs more than 1024 of them to decide, the loop never ends. Every
  round hands an empty package to the service and leaves the buffer as it was.
\<close>

theorem parsing_long_header_never_returns:
  assumes "sb_ok b" and "1024 < length (sb_bytes b)" and "check (take 1024 (sb_bytes b)) = 0"
  shows "ParsingProtocol check b = None
    \<and> (\<exists>b1. ParsingProtocol_round check b (length (sb_bytes b)) = Some (PPackage [] b1)
         \<and> sb_ok b1 \<and> sb_bytes b1 = sb_bytes b)"
proof -
  have st: "stuck check (sb_bytes b)" using assms by (simp add: stuck_def)
  then have "ParsingProtocol_loop check b (length (sb_bytes b)) 0 [] = None"
    using stuck_diverges [of check b] assms(1) by (metis not_None_eq)
  with stuck_round [OF assms(1) st] rcv.buflen_spec [OF assms(1)] show ?thesis
    by (simp add: ParsingProtocol_def)
qed

text \<open>Any handler that answers only for complete packages of 2000 bytes is such a handler.\<close>

theorem parsing_long_header_never_returns_witness:
  "ParsingProtocol (\<lambda>bs. if length bs < 2000 then 0 else 2000) \<lparr>sb_vs = [replicate 2000 0], sb_length = 2000\<rparr> = None"
  using parsing_long_header_never_returns [of "\<lparr>sb_vs = [replicate 2000 0], sb_length = 2000\<rparr>"
      "\<lambda>bs. if length bs < 2000 then 0 else 2000"]
  by (simp add: sb_ok_def sb_bytes_def)

text \<open>
  C16. Sending loses nothing: for every sequence of \<open>send\<close> results, a send event ends without error, and
  the bytes the kernel accepted followed by the bytes still queued are exactly the bytes queued
  before.
\<close>

theorem send_event_preserves_stream:
  assumes "sb_ok (c_snd_buffer c)" and "c_send_thread c \<noteq> None" and "n_eps w (c_endpoint c) \<noteq> None"
  shows "\<exists>c' w' bs. Connection_DoSendEvent rs c w = Some (RAPTOR_ERROR_NONE, c', w') \<and> sb_ok (c_snd_buffer c')
    \<and> n_sent w' = n_sent w @ bs \<and> bs @ sb_bytes (c_snd_buffer c') = sb_bytes (c_snd_buffer c)"
proof -
  have "\<exists>ret c1 w1 bs. Connection_OnSend rs c w = Some (ret, c1, w1) \<and> sb_ok (c_snd_buffer c1)
      \<and> n_sent w1 = n_sent w @ bs \<and> bs @ sb_bytes (c_snd_buffer c1) = sb_bytes (c_snd_buffer c)
      \<and> c_send_thread c1 = c_send_thread c \<and> n_eps w1 (c_endpoint c1) = n_eps w (c_endpoint c)"
  proof (cases "SliceBuffer_Empty (c_snd_buffer c)")
    case True
    with assms show ?thesis by (simp add: Connection_OnSend_def)
  next
    case False
    then have "sb_vs (c_snd_buffer c) \<noteq> []" by (simp add: SliceBuffer_Empty_def)
    from OnSend_loop_stream [OF assms(1) this, of rs w] False show ?thesis
      by (auto simp: Connection_OnSend_def)
  qed
  then obtain ret c1 w1 bs where 1: "Connection_OnSend rs c w = Some (ret, c1, w1)" "sb_ok (c_snd_buffer c1)"
      "n_sent w1 = n_sent w @ bs" "bs @ sb_bytes (c_snd_buffer c1) = sb_bytes (c_snd_buffer c)"
      "c_send_thread c1 = c_send_thread c" "n_eps w1 (c_endpoint c1) = n_eps w (c_endpoint c)" by blast
  with assms(2,3) show ?thesis by (cases "ret = - 1") (auto simp: Connection_DoSendEvent_def)
qed

theorem send_event_preserves_stream_witness:
  "\<exists>c' w' bs. Connection_DoSendEvent [SendOk 2, SendErr 11]
       (example_conn\<lparr>c_snd_buffer := \<lparr>sb_vs = [[1, 2, 3], [4]], sb_length = 4\<rparr>\<rparr>) example_net
     = Some (RAPTOR_ERROR_NONE, c', w') \<and> n_sent w' = bs \<and> bs @ sb_bytes (c_snd_buffer c') = [1, 2, 3, 4]"
  using send_event_preserves_stream [of "example_conn\<lparr>c_snd_buffer := \<lparr>sb_vs = [[1, 2, 3], [4]], sb_length = 4\<rparr>\<rparr>"
      example_net "[SendOk 2, SendErr 11]"]
  by (force simp: example_conn_def example_net_def sb_ok_def sb_bytes_def)

text \<open>
  Closing happens once. The first \<open>Shutdown\<close> of an open connection removes the socket from both
  polling threads, closes it, marks the endpoint offline, empties both buffers and notifies the
  service exactly when asked to; every later \<open>Shutdown\<close> changes nothing and every later \<open>SendMsg\<close> is
  refused.
\<close>

theorem connection_shutdown_once:
  assumes "conn_ready c" and "n_eps w (c_endpoint c) = Some e" and "EndpointImpl_IsOnline e"
  shows "\<exists>c' w'. Connection_Shutdown notify ev c w = Some (c', w')
    \<and> n_sys w' = n_sys w
        @ [PollingThread_Delete (n_threads w (the (c_recv_thread c))) (fd_int (ei_fd e)) (EPOLLIN OR EPOLLET),
           PollingThread_Delete (n_threads w (the (c_send_thread c))) (fd_int (ei_fd e)) (EPOLLOUT OR EPOLLET)]
        @ raptor_set_socket_shutdown (fd_int (ei_fd e))
    \<and> n_notes w' = n_notes w @ (if notify then [Closed (c_endpoint c) ev] else [])
    \<and> Connection_IsOnline c' w' = Some False
    \<and> SliceBuffer_Empty (c_rcv_buffer c') \<and> SliceBuffer_Empty (c_snd_buffer c')
    \<and> Connection_Shutdown notify2 ev2 c' w' = Some (c', w')
    \<and> Connection_SendMsg s c' w' = Some (False, c', w')"
  unfolding Connection_Shutdown_online [OF assms]
  by (simp add: Connection_IsOnline_def Connection_SendMsg_def Connection_Shutdown_offline)

theorem connection_shutdown_once_witness:
  "\<exists>c' w'. Connection_Shutdown True Event_default example_conn example_net = Some (c', w')
     \<and> n_notes w' = [Closed 0 Event_default] \<and> Connection_IsOnline c' w' = Some False
     \<and> Connection_SendMsg [1] c' w' = Some (False, c', w')"
  using connection_shutdown_once [of example_conn example_net "EndpointImpl_new 7 ra_zero ra_zero" True Event_default
      True Event_default "[1]"]
  by (auto simp: example_conn_def example_net_def conn_ready_def EndpointImpl_IsOnline_def EndpointImpl_new_def)

end
