(* ===== verification/Mpscq.thy ===== *)
theory Mpscq
  imports Prelude
begin

text \<open>
  \<open>MultiProducerSingleConsumerQueue\<close> (src/src/utils/mpscq.cc): an intrusive lock-free queue. Any
  number of threads push; one thread at a time pops. The queue is a linked list from \<open>_oldest\<close>
  to \<open>_newest\<close> through the nodes' \<open>next\<close> fields, with a stub node that keeps it non-empty.

  First the operations are modelled as they run undisturbed, and shown to be a FIFO queue; the
  locale \<open>fifo_queue\<close> states that contract and proves the drain loop the shutdown functions use.
  Then every shared access becomes a step of its own, so that producers interleave with each
  other and with the consumer, and the same contract is proved for all interleavings.
\<close>

section \<open>State and sequential operations\<close>

text \<open>Nodes are addresses; \<open>None\<close> is a null pointer; the stub node has address 0.\<close>

abbreviation stub :: addr where
  "stub \<equiv> 0"

record mpscq =
  nxt :: "addr \<Rightarrow> addr option"
  newest :: addr
  oldest :: addr

definition Mpscq_new :: mpscq where
  "Mpscq_new = \<lparr>nxt = (\<lambda>_. None), newest = stub, oldest = stub\<rparr>"

text \<open>The destructor asserts that the queue has been emptied.\<close>

definition Mpscq_dtor :: "mpscq \<Rightarrow> unit option" where
  "Mpscq_dtor q = (if newest q = stub \<and> oldest q = stub then Some () else None)"

definition Mpscq_push :: "mpscq \<Rightarrow> addr \<Rightarrow> bool \<times> mpscq" where
  "Mpscq_push q node =
     (let q1 = q\<lparr>nxt := (nxt q)(node := None)\<rparr>;
          prev = newest q1;
          q2 = q1\<lparr>newest := node\<rparr>;
          q3 = q2\<lparr>nxt := (nxt q2)(prev \<mapsto> node)\<rparr>
      in (prev = stub, q3))"

text \<open>The result is the node (or null), the value stored to \<open>*empty\<close>, and the queue.\<close>

definition Mpscq_pop_tail :: "mpscq \<Rightarrow> addr \<Rightarrow> addr option \<Rightarrow> addr option \<times> bool \<times> mpscq" where
  "Mpscq_pop_tail q tail obj =
     (case obj of
        Some ob \<Rightarrow> (Some tail, False, q\<lparr>oldest := ob\<rparr>)
      | None \<Rightarrow>
          let head = newest q in
          if tail \<noteq> head then (None, False, q)
          else let q1 = snd (Mpscq_push q stub) in
               case nxt q1 tail of
                 Some ob \<Rightarrow> (Some tail, False, q1\<lparr>oldest := ob\<rparr>)
               | None \<Rightarrow> (None, False, q1))"

definition Mpscq_PopAndCheckEnd :: "mpscq \<Rightarrow> addr option \<times> bool \<times> mpscq" where
  "Mpscq_PopAndCheckEnd q =
     (let tail = oldest q; obj = nxt q (oldest q) in
      if tail = stub then
        (case obj of
           None \<Rightarrow> (None, True, q)
         | Some ob \<Rightarrow>
             let q1 = q\<lparr>oldest := ob\<rparr>; tail1 = ob; obj1 = nxt q1 tail1
             in Mpscq_pop_tail q1 tail1 obj1)
      else Mpscq_pop_tail q tail obj)"

definition Mpscq_pop :: "mpscq \<Rightarrow> addr option \<times> mpscq" where
  "Mpscq_pop q = (let (n, empty, q') = Mpscq_PopAndCheckEnd q in (n, q'))"

section \<open>Linked lists with missing links\<close>

text \<open>
  \<open>linked n P ns\<close>: following \<open>n\<close> from the head of \<open>ns\<close> visits \<open>ns\<close>, except that the pairs in \<open>P\<close>
  are not linked yet.
\<close>

fun linked :: "(addr \<Rightarrow> addr option) \<Rightarrow> (addr \<times> addr) set \<Rightarrow> addr list \<Rightarrow> bool" where
  "linked n P [] \<longleftrightarrow> True"
| "linked n P [a] \<longleftrightarrow> n a = None"
| "linked n P (a # b # r) \<longleftrightarrow>
     n a = (if (a, b) \<in> P then None else Some b) \<and> linked n P (b # r)"

definition pairs :: "addr list \<Rightarrow> (addr \<times> addr) set" where
  "pairs ns = set (zip ns (tl ns))"

lemma pairs_simps [simp]:
  "pairs [] = {}" "pairs [a] = {}" "pairs (a # b # r) = insert (a, b) (pairs (b # r))"
  by (simp_all add: pairs_def)

lemma pairs_snoc: "ns \<noteq> [] \<Longrightarrow> pairs (ns @ [x]) = insert (last ns, x) (pairs ns)"
  by (induction ns rule: induct_list012) auto

lemma pairs_mem: "(a, b) \<in> pairs ns \<Longrightarrow> a \<in> set ns \<and> b \<in> set ns"
  unfolding pairs_def by (metis in_set_zipE list.set_sel(2) list.sel(2) tl_Nil)

lemma linked_cong:
  "(\<And>a. a \<in> set ns \<Longrightarrow> n a = n' a) \<Longrightarrow>
   (\<And>a b. (a, b) \<in> pairs ns \<Longrightarrow> ((a, b) \<in> P) = ((a, b) \<in> P')) \<Longrightarrow> linked n P ns = linked n' P' ns"
  by (induction ns rule: induct_list012) auto

lemma linked_last: "linked n P ns \<Longrightarrow> ns \<noteq> [] \<Longrightarrow> n (last ns) = None"
  by (induction ns rule: induct_list012) auto

lemma linked_snoc_aux:
  "linked n P ns \<Longrightarrow> ns \<noteq> [] \<Longrightarrow> distinct (ns @ [x]) \<Longrightarrow>
     linked (n(x := None)) (insert (last ns, x) P) (ns @ [x])"
proof (induction ns rule: induct_list012)
  case (3 a b r)
  have "last (b # r) \<in> set (b # r)" by simp
  then have "a \<noteq> last (b # r)" using "3.prems"(3) by auto
  with 3 show ?case by auto
qed auto

text \<open>Appending a node without linking it, and linking a pair later.\<close>

lemma linked_append:
  assumes "linked n P ns" and "ns \<noteq> []" and "distinct ns" and "x \<notin> set ns"
  shows "linked (n(x := None)) (insert (last ns, x) P) (ns @ [x])"
  using linked_snoc_aux [of n P ns x] assms by simp

lemma linked_link:
  assumes "linked n P ns" and "distinct ns" and "(a, b) \<in> pairs ns" and "(a, b) \<in> P"
  shows "linked (n(a \<mapsto> b)) (P - {(a, b)}) ns"
  using assms
proof (induction ns rule: induct_list012)
  case (3 c d r)
  show ?case
  proof (cases "(a, b) = (c, d)")
    case True
    have "linked (n(a \<mapsto> b)) (P - {(a, b)}) (d # r) = linked n P (d # r)"
      using "3.prems"(2) True by (intro linked_cong) (auto dest: pairs_mem)
    moreover have "linked n P (d # r)" using "3.prems"(1) by simp
    ultimately have L: "linked (n(a \<mapsto> b)) (P - {(a, b)}) (d # r)" by blast
    have "(n(a \<mapsto> b)) c = (if (c, d) \<in> P - {(a, b)} then None else Some d)" using True by simp
    with L show ?thesis by (simp only: linked.simps)
  next
    case False
    with "3.prems" have ab: "(a, b) \<in> pairs (d # r)" by auto
    then have "a \<in> set (d # r)" by (rule pairs_mem [THEN conjunct1])
    with "3.prems"(2) have "a \<noteq> c" by auto
    with 3 ab False show ?thesis by auto
  qed
qed auto

section \<open>The sequential queue is first in, first out\<close>

text \<open>
  \<open>chain q ns\<close>: \<open>ns\<close> is the fully linked list from \<open>_oldest\<close> to \<open>_newest\<close>. The stub can only be
  its first node; the queued elements are the other nodes.
\<close>

definition chain :: "mpscq \<Rightarrow> addr list \<Rightarrow> bool" where
  "chain q ns \<longleftrightarrow> ns \<noteq> [] \<and> hd ns = oldest q \<and> last ns = newest q \<and> distinct ns
     \<and> linked (nxt q) {} ns"

definition mpscq_rep :: "mpscq \<Rightarrow> addr list \<Rightarrow> bool" where
  "mpscq_rep q xs \<longleftrightarrow> stub \<notin> set xs \<and> (chain q (stub # xs) \<or> xs \<noteq> [] \<and> chain q xs)"

lemma mpscq_rep_new: "mpscq_rep Mpscq_new []"
  by (simp add: mpscq_rep_def chain_def Mpscq_new_def)

lemma chain_push:
  assumes "chain q ns" and "x \<notin> set ns"
  shows "chain (snd (Mpscq_push q x)) (ns @ [x])"
proof -
  from assms have ns: "ns \<noteq> []" "last ns = newest q" "distinct ns" "linked (nxt q) {} ns"
    by (simp_all add: chain_def)
  have "linked ((nxt q)(x := None)) {(newest q, x)} (ns @ [x])"
    using linked_append [OF ns(4,1,3) assms(2)] ns(2) by simp
  then have "linked (((nxt q)(x := None))(newest q \<mapsto> x)) ({(newest q, x)} - {(newest q, x)}) (ns @ [x])"
    by (rule linked_link) (use ns assms in \<open>simp_all add: pairs_snoc\<close>)
  with assms ns show ?thesis by (simp add: chain_def Mpscq_push_def Let_def)
qed

lemma push_rep:
  assumes "mpscq_rep q xs" and "x \<notin> set xs" and "x \<noteq> stub"
  shows "mpscq_rep (snd (Mpscq_push q x)) (xs @ [x])" and "fst (Mpscq_push q x) = (xs = [])"
proof -
  from assms(1) consider "chain q (stub # xs)" "stub \<notin> set xs"
    | "xs \<noteq> []" "chain q xs" "stub \<notin> set xs" by (auto simp: mpscq_rep_def)
  then have "mpscq_rep (snd (Mpscq_push q x)) (xs @ [x]) \<and> fst (Mpscq_push q x) = (xs = [])"
  proof cases
    case 1
    then have "newest q = last (stub # xs)" by (simp add: chain_def)
    with 1 have "newest q = stub \<longleftrightarrow> xs = []" by (metis last.simps last_in_set)
    with chain_push [OF 1(1), of x] 1 assms show ?thesis
      by (simp add: mpscq_rep_def Mpscq_push_def Let_def)
  next
    case 2
    then have "newest q \<noteq> stub" unfolding chain_def by (metis last_in_set)
    with chain_push [OF 2(2), of x] 2 assms show ?thesis
      by (simp add: mpscq_rep_def Mpscq_push_def Let_def)
  qed
  then show "mpscq_rep (snd (Mpscq_push q x)) (xs @ [x])" and "fst (Mpscq_push q x) = (xs = [])"
    by simp_all
qed

lemma pop_tail_chain:
  assumes "chain q (x # xs)" and "stub \<notin> set (x # xs)"
  shows "\<exists>q'. Mpscq_pop_tail q x (nxt q x) = (Some x, False, q') \<and> mpscq_rep q' xs"
proof (cases xs)
  case (Cons y ys)
  with assms have "nxt q x = Some y" and "chain (q\<lparr>oldest := y\<rparr>) xs"
    by (auto simp: chain_def)
  with Cons assms show ?thesis by (auto simp: Mpscq_pop_tail_def mpscq_rep_def)
next
  case Nil
  with assms have x: "nxt q x = None" "newest q = x" "x \<noteq> stub" by (auto simp: chain_def)
  have "chain (snd (Mpscq_push q stub)) ([x] @ [stub])"
    by (rule chain_push) (use assms Nil in auto)
  with x Nil show ?thesis
    by (auto simp: Mpscq_pop_tail_def mpscq_rep_def chain_def Let_def)
qed

lemma pop_rep_Cons:
  assumes "mpscq_rep q (x # xs)"
  shows "\<exists>q'. Mpscq_PopAndCheckEnd q = (Some x, False, q') \<and> mpscq_rep q' xs"
proof -
  from assms have st: "stub \<notin> set (x # xs)" by (simp add: mpscq_rep_def)
  from assms consider "chain q (stub # x # xs)" | "chain q (x # xs)" by (auto simp: mpscq_rep_def)
  then show ?thesis
  proof cases
    case 1
    then have "chain (q\<lparr>oldest := x\<rparr>) (x # xs)" and "nxt q stub = Some x" "oldest q = stub"
      by (simp_all add: chain_def)
    with pop_tail_chain [OF this(1) st] show ?thesis
      by (simp add: Mpscq_PopAndCheckEnd_def Let_def)
  next
    case 2
    then have "oldest q = x" by (simp add: chain_def)
    with pop_tail_chain [OF 2 st] st show ?thesis
      by (auto simp: Mpscq_PopAndCheckEnd_def Let_def)
  qed
qed

lemma pop_rep_Nil:
  assumes "mpscq_rep q []"
  shows "Mpscq_PopAndCheckEnd q = (None, True, q)" and "Mpscq_dtor q = Some ()"
  using assms by (simp_all add: mpscq_rep_def chain_def Mpscq_PopAndCheckEnd_def Mpscq_dtor_def)

section \<open>The contract of a message queue\<close>

text \<open>
  The loop that empties a queue (\<open>ContainerImpl::Shutdown\<close>, \<open>Timer::Shutdown\<close>, \<open>LogCleanup\<close>):
  \<open>do { n = q.PopAndCheckEnd(&empty); if (n) \<dots> } while (!empty);\<close> with the popped nodes
  collected in order. Running out of fuel is \<open>None\<close>.
\<close>

fun drain :: "nat \<Rightarrow> ('q \<Rightarrow> 'a option \<times> bool \<times> 'q) \<Rightarrow> 'q \<Rightarrow> ('a list \<times> 'q) option" where
  "drain 0 pop q = None"
| "drain (Suc fuel) pop q =
     (let (n, empty, q') = pop q;
          front = (case n of None \<Rightarrow> [] | Some x \<Rightarrow> [x])
      in if empty then Some (front, q')
         else do { (xs, q'') \<leftarrow> drain fuel pop q'; Some (front @ xs, q'') })"

locale fifo_queue =
  fixes rep :: "'q \<Rightarrow> 'a list \<Rightarrow> bool"
    and push :: "'q \<Rightarrow> 'a \<Rightarrow> bool \<times> 'q"
    and pop :: "'q \<Rightarrow> 'a option \<times> bool \<times> 'q"
    and admissible :: "'a \<Rightarrow> bool"
  assumes push_spec: "rep q xs \<Longrightarrow> x \<notin> set xs \<Longrightarrow> admissible x \<Longrightarrow>
      rep (snd (push q x)) (xs @ [x]) \<and> fst (push q x) = (xs = [])"
    and pop_spec: "rep q (x # xs) \<Longrightarrow> \<exists>q'. pop q = (Some x, False, q') \<and> rep q' xs"
    and pop_empty_spec: "rep q [] \<Longrightarrow> pop q = (None, True, q)"
begin

text \<open>The drain loop stops after one round per element and one more, and returns them all.\<close>

lemma drain_all:
  "rep q xs \<Longrightarrow> length xs < fuel \<Longrightarrow> \<exists>q'. drain fuel pop q = Some (xs, q') \<and> rep q' []"
proof (induction xs arbitrary: q fuel)
  case Nil
  then show ?case by (cases fuel) (simp_all add: pop_empty_spec)
next
  case (Cons x xs)
  then obtain f where f: "fuel = Suc f" by (cases fuel) auto
  from pop_spec [OF Cons.prems(1)] obtain q1 where q1: "pop q = (Some x, False, q1)" "rep q1 xs"
    by blast
  from Cons.IH [OF q1(2), of f] Cons.prems(2) f obtain q' where
    "drain f pop q1 = Some (xs, q')" "rep q' []" by auto
  with q1 f show ?case by simp
qed

text \<open>Pushing a list of nodes and draining gives the list back.\<close>

lemma push_all_rep:
  "rep q xs \<Longrightarrow> distinct (xs @ ys) \<Longrightarrow> \<forall>y \<in> set ys. admissible y \<Longrightarrow>
     rep (fold (\<lambda>y q. snd (push q y)) ys q) (xs @ ys)"
proof (induction ys arbitrary: q xs)
  case (Cons y ys)
  then have "rep (snd (push q y)) (xs @ [y])" using push_spec [of q xs y] by simp
  from Cons.IH [OF this] Cons.prems show ?case by simp
qed simp

end

interpretation mq: fifo_queue mpscq_rep Mpscq_push Mpscq_PopAndCheckEnd "\<lambda>x. x \<noteq> stub"
  by unfold_locales (simp_all add: push_rep pop_rep_Cons pop_rep_Nil)

section \<open>Interleavings\<close>

text \<open>
  Now one step per access to shared memory. A producer first exchanges \<open>_newest\<close> (its node is
  private until then, so clearing \<open>next\<close> is part of that step) and later links its predecessor;
  between the two it is \<open>(prev, node)\<close> in \<open>pend\<close>. The consumer's position in
  \<open>PopAndCheckEnd\<close> is \<open>cpc\<close>, with its local variables:
  \<^item> \<open>CIdle\<close>: before the first load of \<open>_oldest->next\<close>;
  \<^item> \<open>CSkip tail\<close>: the stub has been skipped, before the load of \<open>tail->next\<close>;
  \<^item> \<open>CNewest tail\<close>: before the load of \<open>_newest\<close>;
  \<^item> \<open>CStub tail\<close>, \<open>CXchg tail\<close>, \<open>CLink tail prev\<close>: before the three accesses of \<open>push(&_stub)\<close>;
  \<^item> \<open>CReread tail\<close>: before the last load of \<open>tail->next\<close>.

  Three fields only record history: \<open>order\<close> is the chain of nodes in the order of their exchanges,
  \<open>pushed\<close> the nodes exchanged in, and \<open>rets\<close> the results \<open>PopAndCheckEnd\<close> returned.
\<close>

datatype consumer_pc =
    CIdle | CSkip addr | CNewest addr | CStub addr | CXchg addr | CLink addr addr | CReread addr

record mq_state = mpscq +
  pend :: "(addr \<times> addr) set"
  cpc :: consumer_pc
  order :: "addr list"
  pushed :: "addr list"
  rets :: "(addr option \<times> bool) list"

definition mq_init :: mq_state where
  "mq_init = \<lparr>nxt = (\<lambda>_. None), newest = stub, oldest = stub, pend = {}, cpc = CIdle,
     order = [stub], pushed = [], rets = []\<rparr>"

text \<open>\<open>_oldest = obj; return tail;\<close>\<close>

definition mq_take :: "mq_state \<Rightarrow> addr \<Rightarrow> addr \<Rightarrow> mq_state" where
  "mq_take s tail ob = s\<lparr>oldest := ob, cpc := CIdle, order := tl (order s),
     rets := rets s @ [(Some tail, False)]\<rparr>"

definition mq_return :: "mq_state \<Rightarrow> bool \<Rightarrow> mq_state" where
  "mq_return s e = s\<lparr>cpc := CIdle, rets := rets s @ [(None, e)]\<rparr>"

inductive mq_step :: "mq_state \<Rightarrow> mq_state \<Rightarrow> bool" where
  p_exchange: "node \<noteq> stub \<Longrightarrow> node \<notin> set (order s) \<Longrightarrow>
     mq_step s (s\<lparr>nxt := (nxt s)(node := None), newest := node, pend := insert (newest s, node) (pend s),
        order := order s @ [node], pushed := pushed s @ [node]\<rparr>)"
| p_link: "(prev, node) \<in> pend s \<Longrightarrow>
     mq_step s (s\<lparr>nxt := (nxt s)(prev \<mapsto> node), pend := pend s - {(prev, node)}\<rparr>)"
| c_empty: "cpc s = CIdle \<Longrightarrow> oldest s = stub \<Longrightarrow> nxt s stub = None \<Longrightarrow> mq_step s (mq_return s True)"
| c_skip: "cpc s = CIdle \<Longrightarrow> oldest s = stub \<Longrightarrow> nxt s stub = Some ob \<Longrightarrow>
     mq_step s (s\<lparr>oldest := ob, cpc := CSkip ob, order := tl (order s)\<rparr>)"
| c_first: "cpc s = CIdle \<Longrightarrow> oldest s = tail \<Longrightarrow> tail \<noteq> stub \<Longrightarrow> nxt s tail = Some ob \<Longrightarrow>
     mq_step s (mq_take s tail ob)"
| c_first_end: "cpc s = CIdle \<Longrightarrow> oldest s = tail \<Longrightarrow> tail \<noteq> stub \<Longrightarrow> nxt s tail = None \<Longrightarrow>
     mq_step s (s\<lparr>cpc := CNewest tail\<rparr>)"
| c_second: "cpc s = CSkip tail \<Longrightarrow> nxt s tail = Some ob \<Longrightarrow> mq_step s (mq_take s tail ob)"
| c_second_end: "cpc s = CSkip tail \<Longrightarrow> nxt s tail = None \<Longrightarrow> mq_step s (s\<lparr>cpc := CNewest tail\<rparr>)"
| c_busy: "cpc s = CNewest tail \<Longrightarrow> newest s \<noteq> tail \<Longrightarrow> mq_step s (mq_return s False)"
| c_last: "cpc s = CNewest tail \<Longrightarrow> newest s = tail \<Longrightarrow> mq_step s (s\<lparr>cpc := CStub tail\<rparr>)"
| c_stub: "cpc s = CStub tail \<Longrightarrow>
     mq_step s (s\<lparr>nxt := (nxt s)(stub := None), cpc := CXchg tail\<rparr>)"
| c_xchg: "cpc s = CXchg tail \<Longrightarrow>
     mq_step s (s\<lparr>newest := stub, cpc := CLink tail (newest s), order := order s @ [stub]\<rparr>)"
| c_link: "cpc s = CLink tail prev \<Longrightarrow>
     mq_step s (s\<lparr>nxt := (nxt s)(prev \<mapsto> stub), cpc := CReread tail\<rparr>)"
| c_reread: "cpc s = CReread tail \<Longrightarrow> nxt s tail = Some ob \<Longrightarrow> mq_step s (mq_take s tail ob)"
| c_reread_busy: "cpc s = CReread tail \<Longrightarrow> nxt s tail = None \<Longrightarrow> mq_step s (mq_return s False)"

inductive mq_reach :: "mq_state \<Rightarrow> bool" where
  mq_start: "mq_reach mq_init"
| mq_next: "mq_reach s \<Longrightarrow> mq_step s t \<Longrightarrow> mq_reach t"

definition popped :: "mq_state \<Rightarrow> addr list" where
  "popped s = List.map_filter fst (rets s)"

definition waiting :: "mq_state \<Rightarrow> addr list" where
  "waiting s = filter (\<lambda>a. a \<noteq> stub) (order s)"

text \<open>The links that are still missing: the producers' and the consumer's own.\<close>

definition all_pend :: "mq_state \<Rightarrow> (addr \<times> addr) set" where
  "all_pend s = pend s \<union> (case cpc s of CLink _ prev \<Rightarrow> {(prev, stub)} | _ \<Rightarrow> {})"

definition pc_inv :: "mq_state \<Rightarrow> bool" where
  "pc_inv s \<longleftrightarrow> (case cpc s of
      CIdle \<Rightarrow> True
    | CSkip t \<Rightarrow> t = oldest s \<and> t \<noteq> stub
    | CNewest t \<Rightarrow> t = oldest s \<and> t \<noteq> stub
    | CStub t \<Rightarrow> t = oldest s \<and> t \<noteq> stub \<and> stub \<notin> set (order s)
    | CXchg t \<Rightarrow> t = oldest s \<and> t \<noteq> stub \<and> stub \<notin> set (order s) \<and> nxt s stub = None
    | CLink t _ \<Rightarrow> t = oldest s \<and> t \<noteq> stub
    | CReread t \<Rightarrow> t = oldest s \<and> t \<noteq> stub)"

definition chain_inv :: "mq_state \<Rightarrow> bool" where
  "chain_inv s \<longleftrightarrow> order s \<noteq> [] \<and> hd (order s) = oldest s \<and> last (order s) = newest s
     \<and> distinct (order s) \<and> linked (nxt s) (all_pend s) (order s)
     \<and> all_pend s \<subseteq> pairs (order s) \<and> (\<forall>a. (a, stub) \<notin> pend s)"

definition mq_inv :: "mq_state \<Rightarrow> bool" where
  "mq_inv s \<longleftrightarrow> chain_inv s \<and> pc_inv s \<and> pushed s = popped s @ waiting s"

lemma map_filter_snoc [simp]:
  "List.map_filter f (xs @ [x]) = List.map_filter f xs @ (case f x of None \<Rightarrow> [] | Some y \<Rightarrow> [y])"
  by (induction xs) (auto simp: List.map_filter_simps split: option.splits)

lemma linked_headD:
  "linked n P (a # r) \<Longrightarrow> n a = Some ob \<Longrightarrow> \<exists>r'. r = ob # r' \<and> (a, ob) \<notin> P \<and> linked n P r"
  by (cases r) (auto split: if_splits)

text \<open>Moving \<open>_oldest\<close> forward along an existing link.\<close>

lemma advance_chain:
  assumes inv: "chain_inv s" and nxt: "nxt s (oldest s) = Some ob"
  shows "\<exists>r. order s = oldest s # ob # r \<and> linked (nxt s) (all_pend s) (ob # r)
           \<and> all_pend s \<subseteq> pairs (ob # r)"
proof -
  from inv obtain r where r: "order s = oldest s # r" by (cases "order s") (auto simp: chain_inv_def)
  with inv have "linked (nxt s) (all_pend s) (oldest s # r)" by (simp add: chain_inv_def)
  from linked_headD [OF this nxt] obtain r' where
    r': "r = ob # r'" "(oldest s, ob) \<notin> all_pend s" "linked (nxt s) (all_pend s) r" by blast
  with inv r show ?thesis by (auto simp: chain_inv_def)
qed

lemma mq_take_inv:
  assumes inv: "mq_inv s" and pc: "cpc s \<in> {CIdle, CSkip (oldest s), CReread (oldest s)}"
    and t: "oldest s \<noteq> stub" and nxt: "nxt s (oldest s) = Some ob"
  shows "mq_inv (mq_take s (oldest s) ob)"
proof -
  from advance_chain [OF _ nxt] inv obtain r where
    r: "order s = oldest s # ob # r" "linked (nxt s) (all_pend s) (ob # r)"
       "all_pend s \<subseteq> pairs (ob # r)" by (auto simp: mq_inv_def)
  have "all_pend s = pend s" and "all_pend (mq_take s (oldest s) ob) = pend s"
    using pc by (auto simp: all_pend_def mq_take_def)
  with inv r t show ?thesis
    by (auto simp: mq_inv_def chain_inv_def pc_inv_def mq_take_def popped_def waiting_def)
qed

lemma mq_step_inv_exchange:
  assumes inv: "mq_inv s" and node: "node \<noteq> stub" "node \<notin> set (order s)"
  shows "mq_inv (s\<lparr>nxt := (nxt s)(node := None), newest := node, pend := insert (newest s, node) (pend s),
        order := order s @ [node], pushed := pushed s @ [node]\<rparr>)" (is "mq_inv ?t")
proof -
  from inv have cin: "chain_inv s" by (simp add: mq_inv_def)
  from inv have ch: "order s \<noteq> []" "last (order s) = newest s" "distinct (order s)"
    "linked (nxt s) (all_pend s) (order s)" "all_pend s \<subseteq> pairs (order s)"
    by (simp_all add: mq_inv_def chain_inv_def)
  have ap: "all_pend ?t = insert (newest s, node) (all_pend s)"
    by (simp add: all_pend_def split: consumer_pc.splits)
  have "linked ((nxt s)(node := None)) (insert (newest s, node) (all_pend s)) (order s @ [node])"
    using linked_append [OF ch(4,1,3) node(2)] ch(2) by simp
  moreover have "insert (newest s, node) (all_pend s) \<subseteq> pairs (order s @ [node])"
    using ch by (auto simp: pairs_snoc)
  ultimately have "chain_inv ?t"
    using cin node ch(1) by (auto simp: chain_inv_def ap)
  moreover have "pc_inv ?t"
    using inv node by (auto simp: mq_inv_def pc_inv_def split: consumer_pc.splits)
  ultimately show ?thesis
    using inv node by (simp add: mq_inv_def popped_def waiting_def)
qed

lemma mq_step_inv_link:
  assumes inv: "mq_inv s" and p: "(prev, node) \<in> pend s"
  shows "mq_inv (s\<lparr>nxt := (nxt s)(prev \<mapsto> node), pend := pend s - {(prev, node)}\<rparr>)" (is "mq_inv ?t")
proof -
  have node: "node \<noteq> stub"
    using inv p by (cases "node = stub") (auto simp: mq_inv_def chain_inv_def)
  have ap: "all_pend ?t = all_pend s - {(prev, node)}"
    using node by (auto simp: all_pend_def split: consumer_pc.splits)
  from inv p have pr: "(prev, node) \<in> pairs (order s)" "(prev, node) \<in> all_pend s"
    by (auto simp: mq_inv_def chain_inv_def all_pend_def)
  have "linked ((nxt s)(prev \<mapsto> node)) (all_pend s - {(prev, node)}) (order s)"
    by (rule linked_link [OF _ _ pr]) (use inv in \<open>simp_all add: mq_inv_def chain_inv_def\<close>)
  with inv [unfolded mq_inv_def, THEN conjunct1] have "chain_inv ?t" by (auto simp: chain_inv_def ap)
  moreover have "stub \<in> set (order s) \<or> 0 < prev"
    using pairs_mem [OF pr(1)] by (cases "prev = stub") auto
  with inv have "pc_inv ?t" by (auto simp: mq_inv_def pc_inv_def split: consumer_pc.splits)
  ultimately show ?thesis using inv by (simp add: mq_inv_def popped_def waiting_def)
qed

lemma mq_step_inv_xchg:
  assumes inv: "mq_inv s" and pc: "cpc s = CXchg t"
  shows "mq_inv (s\<lparr>newest := stub, cpc := CLink t (newest s), order := order s @ [stub]\<rparr>)"
    (is "mq_inv ?t")
proof -
  from inv pc have ch: "order s \<noteq> []" "last (order s) = newest s" "distinct (order s)"
    "linked (nxt s) (pend s) (order s)" "pend s \<subseteq> pairs (order s)" "stub \<notin> set (order s)"
    "nxt s stub = None"
    by (simp_all add: mq_inv_def chain_inv_def all_pend_def pc_inv_def)
  have ap: "all_pend ?t = insert (newest s, stub) (pend s)" by (simp add: all_pend_def)
  have "linked ((nxt s)(stub := None)) (insert (newest s, stub) (pend s)) (order s @ [stub])"
    using linked_append [OF ch(4,1,3,6)] ch(2) by simp
  moreover have "(nxt s)(stub := None) = nxt s" using ch(7) by auto
  moreover have "insert (newest s, stub) (pend s) \<subseteq> pairs (order s @ [stub])"
    using ch by (auto simp: pairs_snoc)
  ultimately have "chain_inv ?t"
    using inv [unfolded mq_inv_def, THEN conjunct1] ch by (auto simp: chain_inv_def ap)
  then show ?thesis
    using inv pc by (simp add: mq_inv_def pc_inv_def popped_def waiting_def)
qed

lemma mq_step_inv_clink:
  assumes inv: "mq_inv s" and pc: "cpc s = CLink t prev"
  shows "mq_inv (s\<lparr>nxt := (nxt s)(prev \<mapsto> stub), cpc := CReread t\<rparr>)" (is "mq_inv ?t")
proof -
  have ap: "all_pend ?t = all_pend s - {(prev, stub)}" and pr: "(prev, stub) \<in> all_pend s"
    using pc inv by (auto simp: all_pend_def mq_inv_def chain_inv_def)
  have "linked ((nxt s)(prev \<mapsto> stub)) (all_pend s - {(prev, stub)}) (order s)"
    by (rule linked_link) (use inv pr in \<open>auto simp: mq_inv_def chain_inv_def\<close>)
  then have "chain_inv ?t"
    using inv [unfolded mq_inv_def, THEN conjunct1] by (auto simp: chain_inv_def ap)
  then show ?thesis
    using inv pc by (simp add: mq_inv_def pc_inv_def popped_def waiting_def)
qed

lemma mq_step_inv_stub:
  assumes inv: "mq_inv s" and pc: "cpc s = CStub t"
  shows "mq_inv (s\<lparr>nxt := (nxt s)(stub := None), cpc := CXchg t\<rparr>)"
proof -
  have "linked ((nxt s)(stub := None)) (all_pend s) (order s) = linked (nxt s) (all_pend s) (order s)"
    by (rule linked_cong) (use inv pc in \<open>auto simp: mq_inv_def pc_inv_def\<close>)
  with inv pc show ?thesis
    by (auto simp: mq_inv_def chain_inv_def pc_inv_def all_pend_def popped_def waiting_def)
qed

lemma mq_step_inv_last:
  assumes inv: "mq_inv s" and pc: "cpc s = CNewest t" and last: "newest s = t"
  shows "mq_inv (s\<lparr>cpc := CStub t\<rparr>)"
proof -
  from inv pc last have ch: "order s \<noteq> []" "hd (order s) = t" "last (order s) = t"
    "distinct (order s)" "t \<noteq> stub" by (auto simp: mq_inv_def chain_inv_def pc_inv_def)
  then have "order s = [t]" by (cases "order s") (auto split: if_splits)
  with inv pc ch show ?thesis
    by (auto simp: mq_inv_def chain_inv_def pc_inv_def all_pend_def popped_def waiting_def)
qed

lemma mq_step_inv_skip:
  assumes inv: "mq_inv s" and pc: "cpc s = CIdle" and st: "oldest s = stub" "nxt s stub = Some ob"
  shows "mq_inv (s\<lparr>oldest := ob, cpc := CSkip ob, order := tl (order s)\<rparr>)"
proof -
  from advance_chain [of s ob] inv st obtain r where
    r: "order s = stub # ob # r" "linked (nxt s) (all_pend s) (ob # r)"
       "all_pend s \<subseteq> pairs (ob # r)" by (auto simp: mq_inv_def)
  with inv pc show ?thesis
    by (auto simp: mq_inv_def chain_inv_def pc_inv_def all_pend_def popped_def waiting_def)
qed

lemma mq_step_inv_pc:
  assumes "mq_inv s" and "cpc s = CIdle \<and> oldest s = t \<and> t \<noteq> stub \<or> cpc s = CSkip t"
  shows "mq_inv (s\<lparr>cpc := CNewest t\<rparr>)"
  using assms by (auto simp: mq_inv_def chain_inv_def pc_inv_def all_pend_def popped_def waiting_def)

lemma mq_step_inv_return:
  assumes "mq_inv s" and "\<And>t p. cpc s \<noteq> CLink t p"
  shows "mq_inv (mq_return s e)"
  using assms by (auto simp: mq_inv_def chain_inv_def pc_inv_def all_pend_def popped_def waiting_def
      mq_return_def split: consumer_pc.splits)

lemmas mq_step_inv_rules = mq_step_inv_exchange mq_step_inv_link mq_step_inv_xchg mq_step_inv_clink
  mq_step_inv_stub mq_step_inv_last mq_step_inv_skip mq_step_inv_pc mq_step_inv_return

lemma mq_pc_oldest:
  "mq_inv s \<Longrightarrow> cpc s = CSkip t \<or> cpc s = CReread t \<Longrightarrow> t = oldest s \<and> oldest s \<noteq> stub"
  by (auto simp: mq_inv_def pc_inv_def)

theorem mq_step_inv: "mq_step s t \<Longrightarrow> mq_inv s \<Longrightarrow> mq_inv t"
proof (induction rule: mq_step.induct)
  case (c_second s tail ob)
  with mq_pc_oldest [of s tail] show ?case by (auto intro!: mq_take_inv)
next
  case (c_reread s tail ob)
  with mq_pc_oldest [of s tail] show ?case by (auto intro!: mq_take_inv)
next
  case (c_first s tail ob)
  then show ?case by (auto intro!: mq_take_inv)
qed (auto intro!: mq_step_inv_rules)

lemma mq_inv_init: "mq_inv mq_init"
  by (simp add: mq_inv_def chain_inv_def pc_inv_def all_pend_def popped_def waiting_def mq_init_def
      List.map_filter_simps)

lemma mq_reach_inv: "mq_reach s \<Longrightarrow> mq_inv s"
  by (induction rule: mq_reach.induct) (auto intro: mq_inv_init mq_step_inv)


text \<open>An answer \<open>*empty = true\<close> is the step \<open>c_empty\<close>.\<close>

lemma mq_step_answers_empty:
  "mq_step s t \<Longrightarrow> rets t = rets s @ [(None, True)] \<Longrightarrow>
     cpc s = CIdle \<and> oldest s = stub \<and> nxt s stub = None"
  by (induction rule: mq_step.induct) (auto simp: mq_take_def mq_return_def)

section \<open>Undisturbed runs of the consumer\<close>

text \<open>From the load of \<open>_newest\<close> on, when the queue has one node.\<close>

lemma run_last:
  assumes pc: "cpc s = CNewest a" and a: "newest s = a" "a \<noteq> stub"
  shows "\<exists>t. mq_step\<^sup>*\<^sup>* s t \<and> rets t = rets s @ [(Some a, False)] \<and> pushed t = pushed s \<and> cpc t = CIdle
           \<and> mpscq.truncate t = \<lparr>nxt = (nxt s)(stub := None, a \<mapsto> stub), newest = stub, oldest = stub\<rparr>"
proof -
  define s1 where "s1 = s\<lparr>cpc := CStub a\<rparr>"
  define s2 where "s2 = s1\<lparr>nxt := (nxt s1)(stub := None), cpc := CXchg a\<rparr>"
  define s3 where "s3 = s2\<lparr>newest := stub, cpc := CLink a (newest s2), order := order s2 @ [stub]\<rparr>"
  define s4 where "s4 = s3\<lparr>nxt := (nxt s3)(a \<mapsto> stub), cpc := CReread a\<rparr>"
  note defs = s1_def s2_def s3_def s4_def
  have "mq_step s s1" unfolding s1_def by (rule c_last) (use assms in auto)
  moreover have "mq_step s1 s2" unfolding s2_def by (rule c_stub) (simp add: s1_def)
  moreover have "mq_step s2 s3" unfolding s3_def by (rule c_xchg) (simp add: s2_def)
  moreover have "mq_step s3 s4" unfolding s4_def by (rule c_link) (use a in \<open>simp add: defs\<close>)
  moreover have "mq_step s4 (mq_take s4 a stub)" by (rule c_reread) (use a in \<open>simp_all add: defs\<close>)
  ultimately have "mq_step\<^sup>*\<^sup>* s (mq_take s4 a stub)"
    by (iprover intro: converse_rtranclp_into_rtranclp rtranclp.rtrancl_refl)
  then show ?thesis
    by (intro exI [of _ "mq_take s4 a stub"]) (use a in \<open>simp add: defs mq_take_def mpscq.defs\<close>)
qed

text \<open>From the point where \<open>tail\<close> and \<open>obj\<close> are known, as in \<open>Mpscq_pop_tail\<close>.\<close>

lemma run_tail:
  assumes pc: "cpc s = CIdle \<and> oldest s \<noteq> stub \<or> cpc s = CSkip (oldest s)" and t: "tail = oldest s"
    and st: "tail \<noteq> stub"
    and q: "Mpscq_pop_tail (mpscq.truncate s) tail (nxt s tail) = (r, e, q')"
  shows "\<exists>t. mq_step\<^sup>*\<^sup>* s t \<and> rets t = rets s @ [(r, e)] \<and> pushed t = pushed s \<and> cpc t = CIdle
           \<and> mpscq.truncate t = q'"
proof (cases "nxt s tail")
  case (Some ob)
  with pc t st have "mq_step s (mq_take s tail ob)" by (auto intro: c_first c_second)
  with Some q show ?thesis
    by (intro exI [of _ "mq_take s tail ob"])
      (auto simp: Mpscq_pop_tail_def mq_take_def mpscq.defs)
next
  case None
  define s1 where "s1 = s\<lparr>cpc := CNewest tail\<rparr>"
  have 1: "mq_step s s1" unfolding s1_def using pc t st None by (auto intro: c_first_end c_second_end)
  show ?thesis
  proof (cases "newest s = tail")
    case False
    then have "mq_step s1 (mq_return s1 False)" by (intro c_busy) (simp_all add: s1_def)
    with 1 have "mq_step\<^sup>*\<^sup>* s (mq_return s1 False)"
      by (iprover intro: converse_rtranclp_into_rtranclp rtranclp.rtrancl_refl)
    with False None q show ?thesis
      by (intro exI [of _ "mq_return s1 False"])
        (auto simp: Mpscq_pop_tail_def mq_return_def mpscq.defs s1_def)
  next
    case True
    from run_last [of s1 tail] True st obtain t where
      "mq_step\<^sup>*\<^sup>* s1 t" "rets t = rets s @ [(Some tail, False)]" "pushed t = pushed s" "cpc t = CIdle"
      "mpscq.truncate t = \<lparr>nxt = (nxt s)(stub := None, tail \<mapsto> stub), newest = stub, oldest = stub\<rparr>"
      by (auto simp: s1_def)
    with 1 True None q st show ?thesis
      by (intro exI [of _ t])
        (auto simp: Mpscq_pop_tail_def Mpscq_push_def Let_def mpscq.defs
          intro: converse_rtranclp_into_rtranclp)
  qed
qed

text \<open>Without interference the steps compute what \<open>Mpscq_PopAndCheckEnd\<close> computes.\<close>

lemma run_pop:
  assumes pc: "cpc s = CIdle" and q: "Mpscq_PopAndCheckEnd (mpscq.truncate s) = (r, e, q')"
    and loop: "nxt s stub \<noteq> Some stub"
  shows "\<exists>t. mq_step\<^sup>*\<^sup>* s t \<and> rets t = rets s @ [(r, e)] \<and> pushed t = pushed s \<and> cpc t = CIdle
           \<and> mpscq.truncate t = q'"
proof (cases "oldest s = stub")
  case False
  with q have "Mpscq_pop_tail (mpscq.truncate s) (oldest s) (nxt s (oldest s)) = (r, e, q')"
    by (simp add: Mpscq_PopAndCheckEnd_def mpscq.defs Let_def)
  with False pc show ?thesis by (intro run_tail) auto
next
  case True
  show ?thesis
  proof (cases "nxt s stub")
    case None
    have "mq_step s (mq_return s True)" by (rule c_empty) (use pc True None in auto)
    with True None q show ?thesis
      by (intro exI [of _ "mq_return s True"])
        (auto simp: Mpscq_PopAndCheckEnd_def mq_return_def mpscq.defs)
  next
    case (Some ob)
    define s1 where "s1 = s\<lparr>oldest := ob, cpc := CSkip ob, order := tl (order s)\<rparr>"
    have 1: "mq_step s s1" unfolding s1_def by (rule c_skip) (use pc True Some in auto)
    from True Some q have tl: "Mpscq_pop_tail (mpscq.truncate s1) ob (nxt s1 ob) = (r, e, q')"
      by (simp add: Mpscq_PopAndCheckEnd_def mpscq.defs s1_def Let_def)
    have pc1: "cpc s1 = CSkip (oldest s1)" "ob = oldest s1" "ob \<noteq> stub"
      using loop Some by (simp_all add: s1_def)
    from run_tail [OF disjI2 [OF pc1(1)] pc1(2,3) tl] obtain t where t: "mq_step\<^sup>*\<^sup>* s1 t" "rets t = rets s1 @ [(r, e)]"
      "pushed t = pushed s1" "cpc t = CIdle" "mpscq.truncate t = q'"
      by blast
    from 1 t(1) have "mq_step\<^sup>*\<^sup>* s t" by (rule converse_rtranclp_into_rtranclp)
    with t show ?thesis by (intro exI [of _ t]) (simp add: s1_def)
  qed
qed

lemma pop_chain_Cons:
  assumes ch: "chain q ns" and w: "filter (\<lambda>a. a \<noteq> stub) ns = x # xs"
  shows "\<exists>q'. Mpscq_PopAndCheckEnd q = (Some x, False, q')"
proof -
  have tail: "\<exists>q'. Mpscq_pop_tail q a (nxt q a) = (Some a, False, q')"
    if "chain q (a # r)" "a \<noteq> stub" for q a r
    using that by (cases r) (auto simp: Mpscq_pop_tail_def Mpscq_push_def chain_def Let_def)
  from ch obtain a r where ns: "ns = a # r" "oldest q = a" by (cases ns) (auto simp: chain_def)
  show ?thesis
  proof (cases "a = stub")
    case False
    with tail [of q a r] ch ns w show ?thesis by (auto simp: Mpscq_PopAndCheckEnd_def Let_def)
  next
    case True
    with ns w obtain b r' where r: "r = b # r'" by (cases r) auto
    with True ns w ch have b: "b \<noteq> stub" "b = x" "nxt q stub = Some b" by (auto simp: chain_def)
    from ch ns r have "chain (q\<lparr>oldest := b\<rparr>) (b # r')" by (simp add: chain_def)
    from tail [OF this b(1)] True ns b show ?thesis
      by (simp add: Mpscq_PopAndCheckEnd_def Let_def)
  qed
qed

lemma mq_inv_chain:
  "mq_inv s \<Longrightarrow> cpc s = CIdle \<Longrightarrow> pend s = {} \<Longrightarrow> chain (mpscq.truncate s) (order s)"
  by (simp add: mq_inv_def chain_inv_def all_pend_def chain_def mpscq.defs)

lemma mq_reach_steps: "mq_step\<^sup>*\<^sup>* s t \<Longrightarrow> mq_reach s \<Longrightarrow> mq_reach t"
  by (induction rule: rtranclp_induct) (auto intro: mq_next)

lemma linked_no_loop: "linked n P ns \<Longrightarrow> distinct ns \<Longrightarrow> a \<in> set ns \<Longrightarrow> n a \<noteq> Some a"
  by (induction ns rule: induct_list012) (auto split: if_splits)

text \<open>A concrete run for the examples: one push, before and after it links its node.\<close>

definition mq_example1 :: mq_state where
  "mq_example1 = mq_init\<lparr>nxt := (nxt mq_init)(7 := None), newest := 7,
     pend := insert (newest mq_init, 7) (pend mq_init), order := order mq_init @ [7],
     pushed := pushed mq_init @ [7]\<rparr>"

definition mq_example2 :: mq_state where
  "mq_example2 = mq_example1\<lparr>nxt := (nxt mq_example1)(stub \<mapsto> 7),
     pend := pend mq_example1 - {(stub, 7)}\<rparr>"

lemma mq_example_reach: "mq_reach mq_example1" "mq_reach mq_example2"
proof -
  have "mq_step mq_init mq_example1"
    unfolding mq_example1_def by (rule p_exchange) (simp_all add: mq_init_def)
  with mq_start show 1: "mq_reach mq_example1" by (rule mq_next)
  have "mq_step mq_example1 mq_example2"
    unfolding mq_example2_def by (rule p_link) (simp add: mq_example1_def mq_init_def)
  with 1 show "mq_reach mq_example2" by (rule mq_next)
qed

section \<open>Properties of the queue\<close>

text \<open>
  Sequential use: any number of distinct nodes pushed into a new queue come out of the
  shutdown drain loop in the order they were pushed, the loop stops by itself after one round per
  node plus one, and the queue it leaves passes the destructor's assertions.
\<close>

theorem mpscq_drain_returns_pushed:
  assumes "distinct xs" and "stub \<notin> set xs" and "length xs < fuel"
  shows "\<exists>q'. drain fuel Mpscq_PopAndCheckEnd (fold (\<lambda>x q. snd (Mpscq_push q x)) xs Mpscq_new)
               = Some (xs, q') \<and> Mpscq_dtor q' = Some ()"
proof -
  have "\<forall>x \<in> set xs. x \<noteq> stub" using assms(2) by metis
  with mq.push_all_rep [OF mpscq_rep_new, of xs] assms(1)
  have "mpscq_rep (fold (\<lambda>x q. snd (Mpscq_push q x)) xs Mpscq_new) xs" by simp
  from mq.drain_all [OF this assms(3)] show ?thesis using pop_rep_Nil by blast
qed

theorem mpscq_drain_returns_pushed_witness:
  "\<exists>q'. drain 4 Mpscq_PopAndCheckEnd (fold (\<lambda>x q. snd (Mpscq_push q x)) [7, 5, 9] Mpscq_new)
          = Some ([7, 5, 9], q') \<and> Mpscq_dtor q' = Some ()"
  by (rule mpscq_drain_returns_pushed) simp_all

text \<open>
  C14. Concurrent use: in every interleaving of any number of producers with the consumer, the nodes
  the consumer has received followed by those still in the queue are exactly the nodes pushed, in
  the order in which the producers exchanged \<open>_newest\<close>. No node is lost, duplicated or reordered,
  and no node is in the queue twice.
\<close>

theorem mpscq_concurrent_fifo:
  assumes "mq_reach s"
  shows "pushed s = popped s @ waiting s \<and> distinct (waiting s)"
  using mq_reach_inv [OF assms] by (simp add: mq_inv_def waiting_def chain_inv_def)

theorem mpscq_concurrent_fifo_witness:
  "pend mq_example1 \<noteq> {} \<and> pushed mq_example1 = popped mq_example1 @ waiting mq_example1
     \<and> distinct (waiting mq_example1)"
  using mpscq_concurrent_fifo [OF mq_example_reach(1)] by (simp add: mq_example1_def)

text \<open>
  The answer \<open>*empty = true\<close> can be trusted: when \<open>PopAndCheckEnd\<close> gives it while no push is
  between its exchange and its link, every node pushed has been received. The shutdown loops
  rely on it.
\<close>

theorem mpscq_empty_answer:
  assumes "mq_reach s" and "mq_step s t" and "rets t = rets s @ [(None, True)]" and "pend s = {}"
  shows "waiting s = [] \<and> pushed s = popped s"
proof -
  from mq_step_answers_empty [OF assms(2,3)]
  have c: "cpc s = CIdle" "oldest s = stub" "nxt s stub = None" by auto
  from mq_reach_inv [OF assms(1)] have inv: "mq_inv s" .
  from mq_inv_chain [OF inv c(1) assms(4)] have ch: "chain (mpscq.truncate s) (order s)" .
  have "waiting s = []"
  proof (rule ccontr)
    assume "waiting s \<noteq> []"
    then obtain x xs where "waiting s = x # xs" by (cases "waiting s") auto
    from pop_chain_Cons [OF ch, of x xs] this c show False
      by (auto simp: waiting_def Mpscq_PopAndCheckEnd_def mpscq.defs)
  qed
  with inv show ?thesis by (simp add: mq_inv_def)
qed

theorem mpscq_empty_answer_witness:
  "mq_step mq_init (mq_return mq_init True) \<and> waiting mq_init = [] \<and> pushed mq_init = popped mq_init"
proof -
  have "mq_step mq_init (mq_return mq_init True)" by (rule c_empty) (simp_all add: mq_init_def)
  moreover from mpscq_empty_answer [OF mq_start this]
  have "waiting mq_init = [] \<and> pushed mq_init = popped mq_init"
    by (simp add: mq_return_def mq_init_def)
  ultimately show ?thesis by simp
qed

text \<open>
  C15. The consumer makes progress: from any reachable state in which no push is half done and a node
  waits, running \<open>PopAndCheckEnd\<close> alone returns the oldest waiting node and keeps the rest.
\<close>

theorem mpscq_progress:
  assumes "mq_reach s" and "cpc s = CIdle" and "pend s = {}" and "waiting s = x # xs"
  shows "\<exists>t. mq_step\<^sup>*\<^sup>* s t \<and> cpc t = CIdle \<and> rets t = rets s @ [(Some x, False)] \<and> waiting t = xs"
proof -
  from mq_reach_inv [OF assms(1)] have inv: "mq_inv s" .
  from mq_inv_chain [OF inv assms(2,3)] have ch: "chain (mpscq.truncate s) (order s)" .
  from pop_chain_Cons [OF ch] assms(4) obtain q' where
    q': "Mpscq_PopAndCheckEnd (mpscq.truncate s) = (Some x, False, q')" by (auto simp: waiting_def)
  obtain t where t: "mq_step\<^sup>*\<^sup>* s t" "rets t = rets s @ [(Some x, False)]" "pushed t = pushed s"
      "cpc t = CIdle"
  proof (cases "nxt s stub = Some stub")
    case False
    from run_pop [OF assms(2) q' False] that show ?thesis by blast
  next
    case True
    with ch linked_no_loop [of "nxt s" "{}" "order s" stub]
    have st: "stub \<notin> set (order s)" by (auto simp: chain_def mpscq.defs)
    have "oldest s \<in> set (order s)"
      using ch hd_in_set [of "order s"] by (simp add: chain_def mpscq.defs)
    with st have o: "oldest s \<noteq> stub" by metis
    with q' have "Mpscq_pop_tail (mpscq.truncate s) (oldest s) (nxt s (oldest s)) = (Some x, False, q')"
      by (simp add: Mpscq_PopAndCheckEnd_def mpscq.defs Let_def)
    from run_tail [OF _ _ _ this] o assms(2) that show ?thesis by blast
  qed
  have "pushed t = popped t @ waiting t"
    using mq_reach_inv [OF mq_reach_steps [OF t(1) assms(1)]] by (simp add: mq_inv_def)
  moreover have "popped t = popped s @ [x]" using t(2) by (simp add: popped_def)
  moreover have "pushed s = popped s @ x # xs" using inv assms(4) by (simp add: mq_inv_def)
  ultimately have "waiting t = xs" using t(3) by simp
  with t show ?thesis by blast
qed

theorem mpscq_progress_witness:
  "\<exists>t. mq_step\<^sup>*\<^sup>* mq_example2 t \<and> cpc t = CIdle \<and> rets t = [(Some 7, False)] \<and> waiting t = []"
  using mpscq_progress [OF mq_example_reach(2), of 7 "[]"]
  by (simp add: mq_example2_def mq_example1_def mq_init_def waiting_def)

end
