(* ===== verification/MsgQueue.thy ===== *)
theory MsgQueue
  imports Mpscq
begin

text \<open>
  A queue of heap-allocated messages over the intrusive queue: the message's first member is the
  queue node, so the node's address is the message's. \<open>ContainerImpl\<close> (\<open>TcpMessageNode\<close>) and \<open>Timer\<close>
  (\<open>TimerNode\<close>) allocate a message and push its node, and pop a node, use the message and delete it.
  The contract is a plain FIFO list of messages.
\<close>

section \<open>Operations\<close>

record 'm mqueue =
  mq_q :: mpscq
  mq_nodes :: "addr \<Rightarrow> 'm option"
  mq_brk :: addr

definition mqueue_new :: "'m mqueue" where
  "mqueue_new = \<lparr>mq_q = Mpscq_new, mq_nodes = (\<lambda>_. None), mq_brk = 1\<rparr>"

text \<open>\<open>auto n = new Node; \<dots>; _mq.push(&n->node);\<close>\<close>

definition mqueue_push :: "'m \<Rightarrow> 'm mqueue \<Rightarrow> 'm mqueue" where
  "mqueue_push m mq =
     (let node = mq_brk mq
      in mq\<lparr>mq_brk := Suc node, mq_nodes := (mq_nodes mq)(node \<mapsto> m),
            mq_q := snd (Mpscq_push (mq_q mq) node)\<rparr>)"

text \<open>\<open>auto n = _mq.pop(); \<dots>; delete n;\<close> with the message used in between as the result.\<close>

definition mqueue_pop :: "'m mqueue \<Rightarrow> ('m option \<times> 'm mqueue) option" where
  "mqueue_pop mq =
     (let (n, q) = Mpscq_pop (mq_q mq); mq1 = mq\<lparr>mq_q := q\<rparr> in
      case n of
        None \<Rightarrow> Some (None, mq1)
      | Some a \<Rightarrow> do { m \<leftarrow> mq_nodes mq1 a; Some (Some m, mq1\<lparr>mq_nodes := (mq_nodes mq1)(a := None)\<rparr>) })"

text \<open>The shutdown loop \<open>do { n = PopAndCheckEnd(&empty); if (n) delete n; } while (!empty);\<close>, and the
  number of nodes it deleted. Addresses are handed out from 1 on, so \<open>mq_brk\<close> rounds are enough.\<close>

definition mqueue_drain :: "'m mqueue \<Rightarrow> (nat \<times> 'm mqueue) option" where
  "mqueue_drain mq = do {
     (ns, q) \<leftarrow> drain (mq_brk mq) Mpscq_PopAndCheckEnd (mq_q mq);
     Some (length ns, mq\<lparr>mq_q := q, mq_nodes := (\<lambda>a. if a \<in> set ns then None else mq_nodes mq a)\<rparr>) }"

section \<open>The abstract queue\<close>

definition mqueue_ok :: "'m mqueue \<Rightarrow> 'm list \<Rightarrow> bool" where
  "mqueue_ok mq ms \<longleftrightarrow> 0 < mq_brk mq \<and> (\<exists>xs. mpscq_rep (mq_q mq) xs \<and> distinct xs
     \<and> (\<forall>x \<in> set xs. 0 < x \<and> x < mq_brk mq) \<and> map (mq_nodes mq) xs = map Some ms
     \<and> (\<forall>a. a \<notin> set xs \<longrightarrow> mq_nodes mq a = None))"

lemma mqueue_new_ok: "mqueue_ok mqueue_new []"
  by (simp add: mqueue_ok_def mqueue_new_def mpscq_rep_new exI [of _ "[]"])

lemma mqueue_push_ok:
  assumes "mqueue_ok mq ms"
  shows "mqueue_ok (mqueue_push m mq) (ms @ [m])"
proof -
  let ?n = "mq_brk mq"
  from assms obtain xs where xs: "mpscq_rep (mq_q mq) xs" "distinct xs" "\<forall>x \<in> set xs. 0 < x \<and> x < ?n"
    "map (mq_nodes mq) xs = map Some ms" "\<forall>a. a \<notin> set xs \<longrightarrow> mq_nodes mq a = None" and n: "0 < ?n"
    by (auto simp: mqueue_ok_def)
  have fresh: "?n \<notin> set xs" using xs(3) by auto
  have "mpscq_rep (snd (Mpscq_push (mq_q mq) ?n)) (xs @ [?n])"
    using mq.push_spec [OF xs(1) fresh] n by simp
  moreover have "map ((mq_nodes mq)(?n \<mapsto> m)) (xs @ [?n]) = map Some (ms @ [m])"
    using xs(4) fresh by simp
  ultimately show ?thesis
    using xs n fresh unfolding mqueue_ok_def mqueue_push_def Let_def
    by (intro conjI exI [of _ "xs @ [?n]"]) (auto simp: less_Suc_eq)
qed

lemma mqueue_pop_Cons:
  assumes "mqueue_ok mq (m # ms)"
  shows "\<exists>mq'. mqueue_pop mq = Some (Some m, mq') \<and> mqueue_ok mq' ms"
proof -
  from assms obtain x xs where xs: "mpscq_rep (mq_q mq) (x # xs)" "distinct (x # xs)"
    "\<forall>y \<in> set (x # xs). 0 < y \<and> y < mq_brk mq" "mq_nodes mq x = Some m" "map (mq_nodes mq) xs = map Some ms"
    "\<forall>a. a \<notin> set (x # xs) \<longrightarrow> mq_nodes mq a = None" and n: "0 < mq_brk mq"
    by (auto simp: mqueue_ok_def)
  obtain q where q: "Mpscq_PopAndCheckEnd (mq_q mq) = (Some x, False, q)" "mpscq_rep q xs"
    using mq.pop_spec [OF xs(1)] by blast
  let ?mq = "mq\<lparr>mq_q := q, mq_nodes := (mq_nodes mq)(x := None)\<rparr>"
  have "mqueue_pop mq = Some (Some m, ?mq)"
    using q(1) xs(4) by (simp add: mqueue_pop_def Mpscq_pop_def)
  moreover have "map ((mq_nodes mq)(x := None)) xs = map Some ms"
    using xs(2,5) by simp
  then have "mqueue_ok ?mq ms"
    using q(2) xs n unfolding mqueue_ok_def by (intro conjI exI [of _ xs]) auto
  ultimately show ?thesis by blast
qed

lemma mqueue_pop_Nil: "mqueue_ok mq [] \<Longrightarrow> mqueue_pop mq = Some (None, mq)"
  using mq.pop_empty_spec [of "mq_q mq"]
  by (auto simp: mqueue_ok_def mqueue_pop_def Mpscq_pop_def)

lemma mqueue_drain_ok:
  assumes "mqueue_ok mq ms"
  shows "\<exists>mq'. mqueue_drain mq = Some (length ms, mq') \<and> mqueue_ok mq' [] \<and> Mpscq_dtor (mq_q mq') = Some ()
           \<and> (\<forall>a. mq_nodes mq' a = None)"
proof -
  from assms obtain xs where xs: "mpscq_rep (mq_q mq) xs" "distinct xs"
    "\<forall>x \<in> set xs. 0 < x \<and> x < mq_brk mq" "map (mq_nodes mq) xs = map Some ms"
    "\<forall>a. a \<notin> set xs \<longrightarrow> mq_nodes mq a = None" and n: "0 < mq_brk mq"
    by (auto simp: mqueue_ok_def)
  have "length xs = card (set xs)" using xs(2) by (simp add: distinct_card)
  also have "\<dots> \<le> card {0<..<mq_brk mq}" using xs(3) by (intro card_mono) auto
  also have "\<dots> < mq_brk mq" using n by simp
  finally have len: "length xs < mq_brk mq" .
  obtain q where q: "drain (mq_brk mq) Mpscq_PopAndCheckEnd (mq_q mq) = Some (xs, q)" "mpscq_rep q []"
    using mq.drain_all [OF xs(1) len] by blast
  have "length xs = length ms" using xs(4) by (metis length_map)
  with q n xs(5) show ?thesis
    unfolding mqueue_drain_def by (auto simp: mqueue_ok_def pop_rep_Nil intro!: exI [of _ "[]"])
qed

section \<open>The interface\<close>

locale message_queue =
  fixes ok :: "'q \<Rightarrow> 'm list \<Rightarrow> bool"
    and new :: 'q
    and push :: "'m \<Rightarrow> 'q \<Rightarrow> 'q"
    and pop :: "'q \<Rightarrow> ('m option \<times> 'q) option"
    and drain_q :: "'q \<Rightarrow> (nat \<times> 'q) option"
  assumes new_spec: "ok new []"
    and push_spec: "ok q ms \<Longrightarrow> ok (push m q) (ms @ [m])"
    and pop_spec: "ok q (m # ms) \<Longrightarrow> \<exists>q'. pop q = Some (Some m, q') \<and> ok q' ms"
    and pop_empty_spec: "ok q [] \<Longrightarrow> pop q = Some (None, q)"
    and drain_spec: "ok q ms \<Longrightarrow> \<exists>q'. drain_q q = Some (length ms, q') \<and> ok q' []"
begin

text \<open>Any number of messages pushed at once is appended in order.\<close>

lemma push_many: "ok q ms \<Longrightarrow> ok (fold push xs q) (ms @ xs)"
proof (induction xs arbitrary: q ms)
  case (Cons x xs)
  from Cons.IH [OF push_spec [OF Cons.prems, of x]] show ?case by simp
qed simp

text \<open>A pop returns the oldest message, or null exactly when there is none.\<close>

lemma pop_total: "ok q ms \<Longrightarrow> \<exists>r q'. pop q = Some (r, q') \<and> ok q' (tl ms) \<and> (r = None \<longleftrightarrow> ms = [])
    \<and> (\<forall>m. r = Some m \<longrightarrow> m = hd ms)"
  using pop_spec pop_empty_spec by (cases ms) fastforce+

end

interpretation mqueue: message_queue mqueue_ok mqueue_new mqueue_push mqueue_pop mqueue_drain
  by unfold_locales
    (auto simp: mqueue_new_ok mqueue_push_ok mqueue_pop_Nil dest: mqueue_pop_Cons mqueue_drain_ok)

end
