(* ===== verification/Multimap.thy ===== *)
theory Multimap
  imports Prelude
begin

text \<open>
  \<open>std::multimap\<close> with its iterators, as \<open>ContainerImpl::_timeout_records\<close> and \<open>Timer::_tbls\<close> use
  it. A map is the list of its nodes in iteration order; a node has an identity, so that an iterator
  stays valid until its own node is erased. The end iterator is \<open>None\<close>. Dereferencing, advancing or
  erasing an iterator whose node is gone is undefined behaviour.

  The locale \<open>deadline_map\<close> is what the clients rely on.
\<close>

section \<open>The container\<close>

type_synonym iter = "nat option"
type_synonym 'v mm_node = "nat \<times> int \<times> 'v"

record 'v mmap =
  mm_nodes :: "'v mm_node list"
  mm_next :: nat

definition mm_empty :: "'v mmap" where
  "mm_empty = \<lparr>mm_nodes = [], mm_next = 0\<rparr>"

definition node_key :: "'v mm_node \<Rightarrow> int" where
  "node_key n = fst (snd n)"

definition first_iter :: "'v mm_node list \<Rightarrow> iter" where
  "first_iter ns = (case ns of [] \<Rightarrow> None | n # _ \<Rightarrow> Some (fst n))"

definition mm_begin :: "'v mmap \<Rightarrow> iter" where
  "mm_begin m = first_iter (mm_nodes m)"

text \<open>Insertion goes behind the nodes with the same key.\<close>

definition mm_insert :: "int \<Rightarrow> 'v \<Rightarrow> 'v mmap \<Rightarrow> iter \<times> 'v mmap" where
  "mm_insert k v m =
     (let lo = takeWhile (\<lambda>n. node_key n \<le> k) (mm_nodes m);
          hi = dropWhile (\<lambda>n. node_key n \<le> k) (mm_nodes m)
      in (Some (mm_next m), m\<lparr>mm_nodes := lo @ (mm_next m, k, v) # hi, mm_next := Suc (mm_next m)\<rparr>))"

definition mm_at :: "iter \<Rightarrow> 'v mmap \<Rightarrow> (int \<times> 'v) option" where
  "mm_at it m = do { i \<leftarrow> it; n \<leftarrow> find (\<lambda>n. fst n = i) (mm_nodes m); Some (snd n) }"

definition mm_succ :: "iter \<Rightarrow> 'v mmap \<Rightarrow> iter option" where
  "mm_succ it m = do {
     i \<leftarrow> it;
     case dropWhile (\<lambda>n. fst n \<noteq> i) (mm_nodes m) of [] \<Rightarrow> None | _ # r \<Rightarrow> Some (first_iter r) }"

text \<open>\<open>erase(it)\<close> returns the iterator behind the erased node.\<close>

definition mm_erase :: "iter \<Rightarrow> 'v mmap \<Rightarrow> (iter \<times> 'v mmap) option" where
  "mm_erase it m = do {
     i \<leftarrow> it;
     nxt \<leftarrow> mm_succ it m;
     Some (nxt, m\<lparr>mm_nodes := filter (\<lambda>n. fst n \<noteq> i) (mm_nodes m)\<rparr>) }"

section \<open>Invariant\<close>

definition mm_ok :: "'v mmap \<Rightarrow> bool" where
  "mm_ok m \<longleftrightarrow> distinct (map fst (mm_nodes m)) \<and> (\<forall>n \<in> set (mm_nodes m). fst n < mm_next m)
     \<and> sorted (map node_key (mm_nodes m))"

definition mm_set :: "'v mmap \<Rightarrow> 'v mm_node set" where
  "mm_set m = set (mm_nodes m)"

lemma mm_empty_ok [simp]: "mm_ok mm_empty" "mm_set mm_empty = {}"
  by (simp_all add: mm_ok_def mm_set_def mm_empty_def)

lemma mm_set_functional: "mm_ok m \<Longrightarrow> (i, x) \<in> mm_set m \<Longrightarrow> (i, y) \<in> mm_set m \<Longrightarrow> x = y"
  unfolding mm_ok_def mm_set_def by (metis eq_key_imp_eq_value)

lemma mm_insert_ok:
  assumes "mm_ok m" and "mm_insert k v m = (it, m')"
  shows "mm_ok m'" and "it = Some (mm_next m)" and "mm_set m' = insert (mm_next m, k, v) (mm_set m)"
    and "\<forall>x. (mm_next m, x) \<notin> mm_set m"
proof -
  define lo where "lo = takeWhile (\<lambda>n. node_key n \<le> k) (mm_nodes m)"
  define hi where "hi = dropWhile (\<lambda>n. node_key n \<le> k) (mm_nodes m)"
  have app: "mm_nodes m = lo @ hi" by (simp add: lo_def hi_def)
  have m': "m' = m\<lparr>mm_nodes := lo @ (mm_next m, k, v) # hi, mm_next := Suc (mm_next m)\<rparr>"
    and it: "it = Some (mm_next m)"
    using assms(2) by (auto simp: mm_insert_def lo_def hi_def Let_def)
  from assms(1) have srt: "sorted (map node_key lo @ map node_key hi)"
    and fresh: "\<forall>n \<in> set (lo @ hi). fst n < mm_next m" and dist: "distinct (map fst (lo @ hi))"
    by (simp_all add: mm_ok_def app)
  have le: "\<forall>n \<in> set lo. node_key n \<le> k" by (auto simp: lo_def dest: set_takeWhileD)
  have ge: "\<forall>n \<in> set hi. k \<le> node_key n"
  proof (cases hi)
    case (Cons a r)
    then have "\<not> node_key a \<le> k" unfolding hi_def by (metis hd_dropWhile list.discI list.sel(1))
    moreover have "\<forall>n \<in> set r. node_key a \<le> node_key n" using srt Cons by (auto simp: sorted_append)
    ultimately show ?thesis using Cons by auto
  qed simp
  have "sorted (map node_key (lo @ (mm_next m, k, v) # hi))"
    using srt le ge by (auto simp: sorted_append node_key_def)
  moreover have "distinct (map fst (lo @ (mm_next m, k, v) # hi))" using dist fresh by force
  moreover have "\<forall>n \<in> set (lo @ (mm_next m, k, v) # hi). fst n < Suc (mm_next m)"
    using fresh by (auto simp: less_Suc_eq)
  ultimately show "mm_ok m'" by (simp add: mm_ok_def m')
  show "it = Some (mm_next m)" by (rule it)
  show "mm_set m' = insert (mm_next m, k, v) (mm_set m)" by (auto simp: mm_set_def m' app)
  show "\<forall>x. (mm_next m, x) \<notin> mm_set m"
    using fresh unfolding mm_set_def app by (metis fst_conv less_irrefl)
qed

lemma mm_succ_total: "(i, x) \<in> mm_set m \<Longrightarrow> \<exists>nxt. mm_succ (Some i) m = Some nxt"
proof -
  assume "(i, x) \<in> mm_set m"
  then have "dropWhile (\<lambda>n. fst n \<noteq> i) (mm_nodes m) \<noteq> []"
    by (force simp: mm_set_def dropWhile_eq_Nil_conv)
  then show ?thesis by (auto simp: mm_succ_def split: list.splits)
qed

lemma mm_erase_ok:
  assumes "mm_ok m" and "(i, x) \<in> mm_set m"
  shows "\<exists>nxt m'. mm_erase (Some i) m = Some (nxt, m') \<and> mm_ok m' \<and> mm_set m' = mm_set m - {(i, x)}
           \<and> mm_nodes m' = filter (\<lambda>n. fst n \<noteq> i) (mm_nodes m)"
proof -
  obtain nxt where "mm_succ (Some i) m = Some nxt" using mm_succ_total [OF assms(2)] by blast
  moreover have "mm_ok (m\<lparr>mm_nodes := filter (\<lambda>n. fst n \<noteq> i) (mm_nodes m)\<rparr>)"
    using assms(1) by (auto simp: mm_ok_def distinct_map_filter sorted_filter)
  moreover have "n \<in> set (filter (\<lambda>n. fst n \<noteq> i) (mm_nodes m)) \<longleftrightarrow> n \<in> mm_set m - {(i, x)}" for n
    using mm_set_functional [OF assms(1,2), of "snd n"] by (cases n) (auto simp: mm_set_def)
  then have "mm_set (m\<lparr>mm_nodes := filter (\<lambda>n. fst n \<noteq> i) (mm_nodes m)\<rparr>) = mm_set m - {(i, x)}"
    by (intro set_eqI) (simp add: mm_set_def)
  ultimately show ?thesis by (simp add: mm_erase_def)
qed

text \<open>The first node has the smallest key, and erasing it makes the second one first.\<close>

lemma mm_head:
  assumes "mm_ok m" and "mm_nodes m = (i, k, v) # r"
  shows "mm_begin m = Some i" and "mm_at (Some i) m = Some (k, v)"
    and "mm_succ (Some i) m = Some (first_iter r)" and "filter (\<lambda>n. fst n \<noteq> i) (mm_nodes m) = r"
    and "\<forall>n \<in> set r. k \<le> node_key n"
proof -
  have "i \<notin> fst ` set r" using assms by (simp add: mm_ok_def)
  then have "\<forall>n \<in> set r. fst n \<noteq> i" by force
  then show "filter (\<lambda>n. fst n \<noteq> i) (mm_nodes m) = r" using assms(2) by simp
  show "\<forall>n \<in> set r. k \<le> node_key n" using assms by (simp add: mm_ok_def node_key_def)
qed (simp_all add: assms(2) mm_begin_def mm_at_def mm_succ_def first_iter_def)

section \<open>The interface\<close>

locale deadline_map =
  fixes invar :: "'m \<Rightarrow> bool"
    and nodes :: "'m \<Rightarrow> 'v mm_node set"
    and ins :: "int \<Rightarrow> 'v \<Rightarrow> 'm \<Rightarrow> iter \<times> 'm"
    and erase :: "iter \<Rightarrow> 'm \<Rightarrow> (iter \<times> 'm) option"
  assumes functional: "invar m \<Longrightarrow> (i, x) \<in> nodes m \<Longrightarrow> (i, y) \<in> nodes m \<Longrightarrow> x = y"
    and ins_spec: "invar m \<Longrightarrow> ins k v m = (it, m') \<Longrightarrow>
           invar m' \<and> (\<exists>i. it = Some i \<and> (\<forall>x. (i, x) \<notin> nodes m) \<and> nodes m' = insert (i, k, v) (nodes m))"
    and erase_spec: "invar m \<Longrightarrow> (i, x) \<in> nodes m \<Longrightarrow>
           \<exists>nxt m'. erase (Some i) m = Some (nxt, m') \<and> invar m' \<and> nodes m' = nodes m - {(i, x)}"
begin

text \<open>Rescheduling: erasing a record and inserting it with a new deadline replaces exactly that record.\<close>

lemma reschedule:
  assumes "invar m" and "(i, k, v) \<in> nodes m"
  shows "\<exists>nxt m1 j m2. erase (Some i) m = Some (nxt, m1) \<and> ins k' v m1 = (Some j, m2) \<and> invar m2
           \<and> nodes m2 = insert (j, k', v) (nodes m - {(i, k, v)})
           \<and> (\<forall>x. (j, x) \<notin> nodes m - {(i, k, v)})"
proof -
  obtain nxt m1 where m1: "erase (Some i) m = Some (nxt, m1)" "invar m1" "nodes m1 = nodes m - {(i, k, v)}"
    using erase_spec [OF assms] by blast
  obtain it m2 where m2: "ins k' v m1 = (it, m2)" by fastforce
  from ins_spec [OF m1(2) this] m1 m2 show ?thesis by auto
qed

end

interpretation mm: deadline_map mm_ok mm_set mm_insert mm_erase
  by unfold_locales
    (auto dest: mm_set_functional mm_insert_ok mm_erase_ok simp: mm_insert_ok)

end
