(* ===== verification/TimerM.thy ===== *)
theory TimerM
  imports MsgQueue Multimap Threads Status
begin

text \<open>
  \<open>Timer\<close> (src/src/utils/timer.cc): any thread registers a one-shot timer through the queue; the
  timer's own thread moves requests into a table ordered by deadline and calls the handler for those
  that are due, at most three per round. The clock and the handler are arguments.
\<close>

unbundle bit_operations_syntax

section \<open>State and operations\<close>

record TimerNode =
  tn_tid :: u64
  tn_dead_line :: int

record Timer =
  tm_shutdown :: bool
  tm_tbls :: "u64 mmap"
  tm_mq :: "TimerNode mqueue"
  tm_thd :: Thread

definition Timer_new :: Timer where
  "Timer_new = \<lparr>tm_shutdown = True, tm_tbls = mm_empty, tm_mq = mqueue_new, tm_thd = Thread_null\<rparr>"

text \<open>\<open>created\<close> is whether the operating system creates the thread.\<close>

definition Timer_Init :: "bool \<Rightarrow> Timer \<Rightarrow> raptor_error \<times> Timer" where
  "Timer_Init created t =
     (if \<not> tm_shutdown t then (MakeStatusFromStaticString ''Timer is already running'', t)
      else let t1 = t\<lparr>tm_shutdown := False\<rparr>;
               (success, thd) = Thread_new created;
               t2 = t1\<lparr>tm_thd := thd\<rparr>
           in if \<not> success then (MakeStatusFromStaticString ''Timer: Failed to create timer thread'', t2)
              else (RAPTOR_ERROR_NONE, t2))"

definition Timer_Start :: "Timer \<Rightarrow> Timer option" where
  "Timer_Start t = do { thd \<leftarrow> Thread_Start (tm_thd t); Some (t\<lparr>tm_thd := thd\<rparr>) }"

definition Timer_Shutdown :: "Timer \<Rightarrow> Timer option" where
  "Timer_Shutdown t =
     (if tm_shutdown t then Some t
      else do {
        let t = t\<lparr>tm_shutdown := True\<rparr>;
        thd \<leftarrow> Thread_Join (tm_thd t);
        (_, mq) \<leftarrow> mqueue_drain (tm_mq t);
        Some (t\<lparr>tm_thd := thd, tm_mq := mq\<rparr>) })"

definition timer_tid :: "u32 \<Rightarrow> u32 \<Rightarrow> u64" where
  "timer_tid tid1 tid2 = push_bit 32 (ucast tid1) OR ucast tid2"

definition Timer_SetTimer :: "int \<Rightarrow> u32 \<Rightarrow> u32 \<Rightarrow> u32 \<Rightarrow> Timer \<Rightarrow> Timer" where
  "Timer_SetTimer now tid1 tid2 delay_ms t =
     (if tm_shutdown t then t
      else t\<lparr>tm_mq := mqueue_push \<lparr>tn_tid = timer_tid tid1 tid2, tn_dead_line = to_i64 (now + uint delay_ms)\<rparr>
                        (tm_mq t)\<rparr>)"

text \<open>
  The first part of a round of \<open>WorkThread\<close>: at most one request moves into the table.
\<close>

definition take_request :: "Timer \<Rightarrow> Timer option" where
  "take_request t = do {
     (n, mq) \<leftarrow> mqueue_pop (tm_mq t);
     let t = t\<lparr>tm_mq := mq\<rparr>;
     case n of
       None \<Rightarrow> Some t
     | Some timer \<Rightarrow> Some (t\<lparr>tm_tbls := snd (mm_insert (tn_dead_line timer) (tn_tid timer) (tm_tbls t))\<rparr>) }"

text \<open>
  The loop over the table. \<open>clock n\<close> is the time read after the \<open>n\<close>th handler call; the table belongs
  to the timer thread alone, so the handler works on the rest of the state. The result is the
  table, \<open>timer_count\<close>, \<open>current_millseconds\<close> and that state. The first argument bounds the rounds;
  the loop leaves after three.
\<close>

fun fire_loop ::
  "nat \<Rightarrow> (u32 \<Rightarrow> u32 \<Rightarrow> 's \<Rightarrow> 's option) \<Rightarrow> int \<Rightarrow> (nat \<Rightarrow> int) \<Rightarrow> iter \<Rightarrow> nat \<Rightarrow> int \<Rightarrow> u64 mmap \<Rightarrow> 's
     \<Rightarrow> (u64 mmap \<times> nat \<times> int \<times> 's) option" where
  "fire_loop 0 on_timer begin_ms clock it timer_count current_ms tbls s = Some (tbls, timer_count, current_ms, s)"
| "fire_loop (Suc k) on_timer begin_ms clock it timer_count current_ms tbls s =
     (if it = None then Some (tbls, timer_count, current_ms, s)
      else do {
        (key, tid) \<leftarrow> mm_at it tbls;
        if key > begin_ms then Some (tbls, timer_count, current_ms, s)
        else do {
          (it', tbls') \<leftarrow> mm_erase it tbls;
          s' \<leftarrow> on_timer (ucast (drop_bit 32 tid)) (ucast (tid AND 0xffffffff)) s;
          let count' = timer_count + 1;
          let now = clock count';
          if count' \<ge> 3 \<or> now - begin_ms > 300 then Some (tbls', count', now, s')
          else fire_loop k on_timer begin_ms clock it' count' now tbls' s' } })"

definition WorkThread_fire ::
  "(u32 \<Rightarrow> u32 \<Rightarrow> 's \<Rightarrow> 's option) \<Rightarrow> int \<Rightarrow> (nat \<Rightarrow> int) \<Rightarrow> u64 mmap \<Rightarrow> 's \<Rightarrow> (u64 mmap \<times> nat \<times> int \<times> 's) option" where
  "WorkThread_fire on_timer begin_ms clock tbls s = fire_loop 3 on_timer begin_ms clock (mm_begin tbls) 0 0 tbls s"

text \<open>The sleep at the end of a round, in microseconds; \<open>None\<close> when the thread does not sleep.\<close>

definition WorkThread_sleep :: "nat \<Rightarrow> int \<Rightarrow> int \<Rightarrow> nat option" where
  "WorkThread_sleep timer_count current_ms begin_ms =
     (if timer_count < 3 then
        let interval = to_i32 (current_ms - begin_ms)
        in if interval < 300 then Some (to_u32 (to_i32 (to_i32 (300 - interval) * 1000))) else None
      else None)"

section \<open>Lemmas\<close>

lemma timer_tid_parts [simp]:
  "ucast (drop_bit 32 (timer_tid a b)) = a" "ucast (timer_tid a b AND 0xffffffff) = b"
proof -
  have m: "(0xffffffff :: u64) = mask 32" by (simp add: mask_eq_exp_minus_1)
  show "ucast (drop_bit 32 (timer_tid a b)) = a"
    by (rule bit_word_eqI) (auto simp: timer_tid_def bit_simps dest: bit_imp_le_length)
  show "ucast (timer_tid a b AND 0xffffffff) = b"
    by (rule bit_word_eqI) (auto simp: timer_tid_def m bit_simps)
qed

text \<open>
  The loop takes nodes from the front of the table while they are due. \<open>fired\<close> are the ids handed to
  a handler that records them.
\<close>

definition recorder :: "u32 \<Rightarrow> u32 \<Rightarrow> u64 list \<Rightarrow> u64 list option" where
  "recorder a b s = Some (s @ [timer_tid a b])"

lemma timer_tid_split: "timer_tid (ucast (drop_bit 32 t)) (ucast (t AND 0xffffffff)) = t"
proof -
  have m: "(0xffffffff :: u64) = mask 32" by (simp add: mask_eq_exp_minus_1)
  show ?thesis
    by (rule bit_word_eqI) (auto simp: timer_tid_def m bit_simps)
qed

lemma fire_loop_prefix:
  assumes "mm_ok tbls" and "it = mm_begin tbls" and "count + k = 3"
  shows "\<exists>j tbls' cur'. fire_loop k recorder begin_ms clock it count cur tbls s
      = Some (tbls', count + j, cur', s @ map (\<lambda>n. snd (snd n)) (take j (mm_nodes tbls)))
    \<and> mm_ok tbls' \<and> mm_nodes tbls' = drop j (mm_nodes tbls) \<and> j \<le> length (mm_nodes tbls) \<and> count + j \<le> 3
    \<and> (\<forall>n \<in> set (take j (mm_nodes tbls)). node_key n \<le> begin_ms)
    \<and> (count + j = 3 \<or> cur' - begin_ms > 300 \<and> 0 < j \<or> (\<forall>n \<in> set (drop j (mm_nodes tbls)). begin_ms < node_key n))"
  using assms
proof (induction k arbitrary: it count cur tbls s)
  case 0
  then show ?case by (intro exI [of _ 0]) auto
next
  case (Suc k)
  show ?case
  proof (cases "mm_nodes tbls")
    case Nil
    with Suc.prems have "it = None" by (simp add: mm_begin_def first_iter_def)
    with Nil Suc.prems show ?thesis by (intro exI [of _ 0]) auto
  next
    case (Cons n r)
    obtain i key tid where n: "n = (i, key, tid)" by (cases n) auto
    note head = mm_head [OF Suc.prems(1) Cons [unfolded n]]
    show ?thesis
    proof (cases "key > begin_ms")
      case True
      then have "\<forall>x \<in> set (mm_nodes tbls). begin_ms < node_key x"
        using head(5) Cons n by (auto simp: node_key_def)
      with True Suc.prems head show ?thesis by (intro exI [of _ 0]) auto
    next
      case False
      let ?t = "tbls\<lparr>mm_nodes := r\<rparr>" and ?now = "clock (count + 1)"
      have er: "mm_erase it tbls = Some (first_iter r, ?t)"
        using head Suc.prems(2) by (simp add: mm_erase_def)
      have okt: "mm_ok ?t"
        using mm_erase_ok [OF Suc.prems(1), of i "(key, tid)"] er head(1) Suc.prems(2) Cons n by (auto simp: mm_set_def)
      have s': "recorder (ucast (drop_bit 32 tid)) (ucast (tid AND 0xffffffff)) s = Some (s @ [tid])"
        by (simp add: recorder_def timer_tid_split)
      have body: "fire_loop (Suc k) recorder begin_ms clock it count cur tbls s
        = (if count + 1 \<ge> 3 \<or> ?now - begin_ms > 300 then Some (?t, count + 1, ?now, s @ [tid])
           else fire_loop k recorder begin_ms clock (first_iter r) (count + 1) ?now ?t (s @ [tid]))"
        using head(1,2) Suc.prems(2) False er s' by (simp add: Let_def)
      show ?thesis
      proof (cases "count + 1 \<ge> 3 \<or> ?now - begin_ms > 300")
        case True
        with body okt Cons n False Suc.prems(3) show ?thesis
          by (intro exI [of _ 1] exI [of _ ?t] exI [of _ ?now]) (auto simp: node_key_def)
      next
        case go: False
        obtain j tbls' cur' where IH: "fire_loop k recorder begin_ms clock (first_iter r) (count + 1) ?now ?t (s @ [tid])
            = Some (tbls', count + 1 + j, cur', (s @ [tid]) @ map (\<lambda>n. snd (snd n)) (take j r))"
          "mm_ok tbls'" "mm_nodes tbls' = drop j r" "j \<le> length r" "count + 1 + j \<le> 3"
          "\<forall>n \<in> set (take j r). node_key n \<le> begin_ms"
          "count + 1 + j = 3 \<or> cur' - begin_ms > 300 \<and> 0 < j \<or> (\<forall>n \<in> set (drop j r). begin_ms < node_key n)"
          using Suc.IH [OF okt, of "first_iter r" "count + 1" ?now "s @ [tid]"] Suc.prems(3)
          by (auto simp: mm_begin_def)
        with body go Cons n False show ?thesis
          by (intro exI [of _ "Suc j"] exI [of _ tbls'] exI [of _ cur']) (auto simp: node_key_def)
      qed
    qed
  qed
qed

section \<open>Properties\<close>



text \<open>
  A timer set on a running timer reaches the table with its own ids and deadline: the two 32-bit
  ids survive their packing into 64 bits, and after the requests queued before it have been taken,
  the next round moves it into the table.
\<close>

theorem set_timer_reaches_table:
  assumes "\<not> tm_shutdown t" and "mqueue_ok (tm_mq t) []" and "mm_ok (tm_tbls t)"
  shows "\<exists>t' i. take_request (Timer_SetTimer now tid1 tid2 delay t) = Some t'
    \<and> mqueue_ok (tm_mq t') [] \<and> mm_ok (tm_tbls t')
    \<and> mm_set (tm_tbls t') = insert (i, to_i64 (now + uint delay), timer_tid tid1 tid2) (mm_set (tm_tbls t))
    \<and> ucast (drop_bit 32 (timer_tid tid1 tid2)) = tid1 \<and> ucast (timer_tid tid1 tid2 AND 0xffffffff) = tid2"
proof -
  let ?n = "\<lparr>tn_tid = timer_tid tid1 tid2, tn_dead_line = to_i64 (now + uint delay)\<rparr>"
  have "mqueue_ok (mqueue_push ?n (tm_mq t)) [?n]" using mqueue_push_ok [OF assms(2), of ?n] by simp
  from mqueue.pop_spec [OF this] obtain mq where
    mq: "mqueue_pop (mqueue_push ?n (tm_mq t)) = Some (Some ?n, mq)" "mqueue_ok mq []" by blast
  obtain it m' where m': "mm_insert (to_i64 (now + uint delay)) (timer_tid tid1 tid2) (tm_tbls t) = (it, m')"
    by fastforce
  note ins = mm_insert_ok [OF assms(3) m']
  from mq m' ins(1,3) assms(1) show ?thesis
    by (auto simp: take_request_def Timer_SetTimer_def)
qed

theorem set_timer_reaches_table_witness:
  "\<exists>t' i. take_request (Timer_SetTimer 1000 4 9 300 (Timer_new\<lparr>tm_shutdown := False\<rparr>)) = Some t'
     \<and> mm_set (tm_tbls t') = {(i, 1300, timer_tid 4 9)}"
proof -
  have "mqueue_ok (tm_mq (Timer_new\<lparr>tm_shutdown := False\<rparr>)) []" by (simp add: Timer_new_def mqueue_new_ok)
  from set_timer_reaches_table [OF _ this, of 1000 4 9 300] show ?thesis
    by (simp add: Timer_new_def) blast
qed

lemma timer_sleep_rest:
  assumes h: "0 < count" "count < 3" "begin_ms \<le> cur" "cur - begin_ms < 300"
  shows "WorkThread_sleep count cur begin_ms = Some (nat ((300 - (cur - begin_ms)) * 1000))"
proof -
  have i: "to_i32 (cur - begin_ms) = cur - begin_ms" "to_i32 (300 - (cur - begin_ms)) = 300 - (cur - begin_ms)"
    "to_i32 ((300 - (cur - begin_ms)) * 1000) = (300 - (cur - begin_ms)) * 1000"
    using h by (auto intro!: to_i32_id)
  have "to_u32 ((300 - (cur - begin_ms)) * 1000) = nat ((300 - (cur - begin_ms)) * 1000)"
    using h by (simp add: to_u32_def)
  with i h show ?thesis by (simp add: WorkThread_sleep_def Let_def)
qed

text \<open>
  When timers fired, the thread sleeps for the rest of 300 ms. When none fired, \<open>current_millseconds\<close>
  still is 0, and the truncated difference to the clock decides: at some times of day the thread does
  not sleep at all and spins, at others it sleeps for most of an hour.
\<close>

theorem timer_idle_sleep_is_arbitrary:
  "WorkThread_sleep 1 1700000000100 1700000000000 = Some 200000
   \<and> WorkThread_sleep 0 0 1700000000000 = None
   \<and> WorkThread_sleep 0 0 1702000000000 = Some 3245143008"
proof -
  have "to_i32 (- 1700000000000) = 807049216" "to_i32 (- 1702000000000) = - 1192950784"
    "to_i32 1192951084 = 1192951084" "to_i32 1192951084000 = - 1049824288"
    "to_u32 (- 1049824288) = 3245143008" "to_i32 100 = 100" "to_i32 200 = 200" "to_i32 200000 = 200000"
    "to_u32 200000 = 200000"
    by (simp_all add: to_i32_def to_u32_def)
  then show ?thesis by (simp add: WorkThread_sleep_def Let_def)
qed

end
