(* ===== verification/Container.thy ===== *)
theory Container
  imports Conn TimerM
begin

text \<open>
  \<open>ContainerImpl\<close> (src/src/common/container_impl.cc): the table of connections, their idle
  deadlines, and the queue of messages for the application. This theory has the state and the
  operations, in the order of the source; \<open>ContainerInv\<close> has the invariant and the proofs.

  The operations run one at a time here, as \<open>_conn_mtx\<close> makes the parts that touch the table. A
  connection object is held by its slot; a copy of the pointer that a handler takes refers to the
  same object, so the handler's changes are written back to the slot, and the destructor runs when
  the slot is reset. Notifications a connection sends while it runs become messages in order.
\<close>

unbundle bit_operations_syntax

section \<open>State\<close>

datatype TcpMessageType = kRecvAMessage | kCloseEvent | kHeartbeatEvent | kEndpointNotify

record TcpMessageNode =
  mn_type :: TcpMessageType
  mn_ep :: addr
  mn_slice :: "byte list"
  mn_event :: Event

text \<open>
  \<open>ContainerImpl::Option\<close>. A handler pointer is whether it is non-null, except for the protocol
  handler, which is its function, and the heartbeat handler, which is its interval.
\<close>

record Option =
  mq_consumer_threads :: size_t
  recv_send_threads :: size_t
  default_container_size :: size_t
  max_container_size :: size_t
  connection_timeoutms :: size_t
  not_check_connection_timeout :: bool
  msg_handler :: bool
  proto_handler :: "protocol option"
  heartbeat_handler :: "size_t option"
  closed_handler :: bool
  notify_handler :: bool

text \<open>What the application is called with.\<close>

datatype app_call =
    App_OnMessage addr "byte list"
  | App_OnClosed addr Event
  | App_OnHeartbeat addr
  | App_OnNotify addr

type_synonym slot = "Connection option \<times> iter"

record container =
  ct_self :: addr
  ct_shutdown :: bool
  ct_option :: Option
  ct_mq :: "TcpMessageNode mqueue"
  ct_count :: u32
  ct_mq_threads :: "Thread list"
  ct_running_threads :: int
  ct_poll_threads :: bool
  ct_timer_thread :: "Timer option"
  ct_mgr :: "slot list"
  ct_timeout_records :: "u32 mmap"
  ct_free_index_list :: "u32 list"
  ct_magic_number :: u16
  ct_last_check_time :: int
  ct_net :: net
  ct_app :: "app_call list"

definition InvalidIndex :: u32 where
  "InvalidIndex = - 1"

definition ContainerImpl_new :: "addr \<Rightarrow> Option \<Rightarrow> net \<Rightarrow> container" where
  "ContainerImpl_new self opt w =
     \<lparr>ct_self = self, ct_shutdown = True, ct_option = opt, ct_mq = mqueue_new, ct_count = 0, ct_mq_threads = [], ct_running_threads = 0, ct_poll_threads = False,
      ct_timer_thread = None, ct_mgr = [], ct_timeout_records = mm_empty,
      ct_free_index_list = [], ct_magic_number = 0, ct_last_check_time = 0, ct_net = w, ct_app = []\<rparr>"

section \<open>The message queue\<close>

text \<open>\<open>new TcpMessageNode\<close>, \<open>push\<close>, \<open>FetchAdd\<close>.\<close>

definition push_message :: "TcpMessageNode \<Rightarrow> container \<Rightarrow> container" where
  "push_message msg ct = ct\<lparr>ct_mq := mqueue_push msg (ct_mq ct), ct_count := ct_count ct + 1\<rparr>"

definition TcpMessageNode_new :: "TcpMessageType \<Rightarrow> addr \<Rightarrow> TcpMessageNode" where
  "TcpMessageNode_new t ep = \<lparr>mn_type = t, mn_ep = ep, mn_slice = [], mn_event = Event_default\<rparr>"

definition ContainerImpl_OnNotify :: "addr \<Rightarrow> container \<Rightarrow> container" where
  "ContainerImpl_OnNotify ep ct = push_message (TcpMessageNode_new kEndpointNotify ep) ct"

definition ContainerImpl_OnDataReceived :: "addr \<Rightarrow> byte list \<Rightarrow> container \<Rightarrow> container" where
  "ContainerImpl_OnDataReceived ep s ct = push_message ((TcpMessageNode_new kRecvAMessage ep)\<lparr>mn_slice := s\<rparr>) ct"

definition ContainerImpl_OnClosed :: "addr \<Rightarrow> Event \<Rightarrow> container \<Rightarrow> container" where
  "ContainerImpl_OnClosed ep ev ct =
     (if \<not> closed_handler (ct_option ct) then ct
      else push_message ((TcpMessageNode_new kCloseEvent ep)\<lparr>mn_event := ev\<rparr>) ct)"

definition ContainerImpl_OnTimerEvent :: "addr \<Rightarrow> container \<Rightarrow> container" where
  "ContainerImpl_OnTimerEvent ep ct =
     (if heartbeat_handler (ct_option ct) = None then ct
      else push_message (TcpMessageNode_new kHeartbeatEvent ep) ct)"

definition ContainerImpl_Dispatch :: "TcpMessageNode \<Rightarrow> container \<Rightarrow> container option" where
  "ContainerImpl_Dispatch msg ct =
     (case mn_type msg of
        kRecvAMessage \<Rightarrow>
          if msg_handler (ct_option ct)
          then Some (ct\<lparr>ct_app := ct_app ct @ [App_OnMessage (mn_ep msg) (mn_slice msg)]\<rparr>) else None
      | kCloseEvent \<Rightarrow>
          if closed_handler (ct_option ct)
          then Some (ct\<lparr>ct_app := ct_app ct @ [App_OnClosed (mn_ep msg) (mn_event msg)]\<rparr>) else None
      | kHeartbeatEvent \<Rightarrow>
          if heartbeat_handler (ct_option ct) \<noteq> None
          then Some (ct\<lparr>ct_app := ct_app ct @ [App_OnHeartbeat (mn_ep msg)]\<rparr>) else None
      | kEndpointNotify \<Rightarrow>
          if notify_handler (ct_option ct)
          then Some (ct\<lparr>ct_app := ct_app ct @ [App_OnNotify (mn_ep msg)]\<rparr>) else None)"

text \<open>
  The body of \<open>MessageQueueThread\<close> once \<open>_count\<close> is positive: pop, count down, dispatch, delete.
\<close>

definition MessageQueueThread_round :: "container \<Rightarrow> container option" where
  "MessageQueueThread_round ct = do {
     (n, mq) \<leftarrow> mqueue_pop (ct_mq ct);
     let ct = ct\<lparr>ct_mq := mq\<rparr>;
     case n of
       None \<Rightarrow> Some ct
     | Some msg \<Rightarrow> ContainerImpl_Dispatch msg (ct\<lparr>ct_count := ct_count ct - 1\<rparr>) }"

text \<open>The loop, while there are messages and at most \<open>fuel\<close> of them.\<close>

fun MessageQueueThread :: "nat \<Rightarrow> container \<Rightarrow> container option" where
  "MessageQueueThread 0 ct = Some ct"
| "MessageQueueThread (Suc fuel) ct =
     (if ct_shutdown ct \<or> ct_count ct = 0 then Some ct
      else do { ct1 \<leftarrow> MessageQueueThread_round ct; MessageQueueThread fuel ct1 })"

text \<open>The service calls a connection made, in order.\<close>

fun handle_notes :: "notification list \<Rightarrow> container \<Rightarrow> container" where
  "handle_notes [] ct = ct"
| "handle_notes (DataReceived ep s # ns) ct = handle_notes ns (ContainerImpl_OnDataReceived ep s ct)"
| "handle_notes (Closed ep ev # ns) ct = handle_notes ns (ContainerImpl_OnClosed ep ev ct)"

text \<open>Runs \<open>f\<close> on the shared part; the notifications it made are handled by the container.\<close>

definition with_net :: "(net \<Rightarrow> ('a \<times> net) option) \<Rightarrow> container \<Rightarrow> ('a \<times> container) option" where
  "with_net f ct = do {
     (x, w) \<leftarrow> f (ct_net ct);
     Some (x, handle_notes (n_notes w) (ct\<lparr>ct_net := w\<lparr>n_notes := []\<rparr>\<rparr>)) }"

section \<open>The connection table\<close>

definition ContainerImpl_CheckConnectionId :: "u64 \<Rightarrow> container \<Rightarrow> u32 option" where
  "ContainerImpl_CheckConnectionId cid ct =
     (if cid = InvalidConnectionId then None
      else let magic = GetMagicNumber cid in
        if magic \<noteq> ct_magic_number ct then None
        else let idx = GetUserId cid in
          if idx = InvalidIndex \<or> unat idx \<ge> max_container_size (ct_option ct) then None
          else Some idx)"

definition ContainerImpl_GetConnection :: "u32 \<Rightarrow> container \<Rightarrow> Connection option option" where
  "ContainerImpl_GetConnection index ct = map_option fst (vec_at (ct_mgr ct) (unat index))"

text \<open>The object behind a slot's pointer is updated in place.\<close>

definition put_connection :: "u32 \<Rightarrow> Connection \<Rightarrow> container \<Rightarrow> container" where
  "put_connection index c ct =
     ct\<lparr>ct_mgr := (ct_mgr ct)[unat index := (Some c, snd (ct_mgr ct ! unat index))]\<rparr>"

text \<open>\<open>reset()\<close> of a slot's pointer destroys the connection.\<close>

definition reset_connection :: "u32 \<Rightarrow> container \<Rightarrow> container option" where
  "reset_connection index ct = do {
     (c, it) \<leftarrow> vec_at (ct_mgr ct) (unat index);
     case c of
       None \<Rightarrow> Some ct
     | Some con \<Rightarrow> do {
         (_, ct1) \<leftarrow> with_net (\<lambda>w. map_option (\<lambda>w'. ((), w')) (Connection_dtor con w)) ct;
         Some (ct1\<lparr>ct_mgr := (ct_mgr ct1)[unat index := (None, it)]\<rparr>) } }"

text \<open>\<open>reset\<close>, \<open>erase\<close>, \<open>end()\<close>, \<open>emplace_back\<close>: the four lines that free a slot.\<close>

definition free_slot :: "u32 \<Rightarrow> container \<Rightarrow> container option" where
  "free_slot index ct = do {
     ct1 \<leftarrow> reset_connection index ct;
     (c, it) \<leftarrow> vec_at (ct_mgr ct1) (unat index);
     (_, tr) \<leftarrow> mm_erase it (ct_timeout_records ct1);
     Some (ct1\<lparr>ct_timeout_records := tr, ct_mgr := (ct_mgr ct1)[unat index := (c, None)],
               ct_free_index_list := ct_free_index_list ct1 @ [index]\<rparr>) }"

definition ContainerImpl_DeleteConnection :: "u32 \<Rightarrow> container \<Rightarrow> container option" where
  "ContainerImpl_DeleteConnection index ct = do {
     (c, _) \<leftarrow> vec_at (ct_mgr ct) (unat index);
     if c = None then Some ct else free_slot index ct }"

text \<open>\<open>now\<close> is \<open>GetCurrentMilliseconds()\<close>.\<close>

definition deadline :: "int \<Rightarrow> container \<Rightarrow> int" where
  "deadline now ct = to_i64 (now + int (connection_timeoutms (ct_option ct)))"

definition ContainerImpl_RefreshTime :: "int \<Rightarrow> u32 \<Rightarrow> container \<Rightarrow> container option" where
  "ContainerImpl_RefreshTime now index ct = do {
     (c, it) \<leftarrow> vec_at (ct_mgr ct) (unat index);
     if c = None then Some ct
     else do {
       (_, tr) \<leftarrow> mm_erase it (ct_timeout_records ct);
       let (it', tr') = mm_insert (deadline now ct) index tr;
       Some (ct\<lparr>ct_timeout_records := tr', ct_mgr := (ct_mgr ct)[unat index := (c, it')]\<rparr>) } }"

section \<open>Attaching\<close>

text \<open>The loop that doubles the table, up to its limit.\<close>

definition expand_table :: "container \<Rightarrow> container" where
  "expand_table ct =
     (let count = length (ct_mgr ct);
          expand = (if count * 2 < max_container_size (ct_option ct) then count * 2
                    else max_container_size (ct_option ct))
      in ct\<lparr>ct_mgr := take expand (ct_mgr ct) @ replicate (expand - count) (None, None),
            ct_free_index_list := ct_free_index_list ct @ map of_nat [count..<expand]\<rparr>)"

definition attach_slot :: "int \<Rightarrow> addr \<Rightarrow> u32 \<Rightarrow> container \<Rightarrow> container option" where
  "attach_slot now ep index ct = do {
     obj \<leftarrow> n_eps (ct_net ct) ep;
     let cid = BuildConnectionId (ct_magic_number ct) (EndpointImpl_GetListenPort obj) index;
     let obj = EndpointImpl_SetContainer (Some (ct_self ct)) (EndpointImpl_SetConnection cid obj);
     let ct = ct\<lparr>ct_net := net_set_ep ep obj (ct_net ct)\<rparr>;
     _ \<leftarrow> vec_at (ct_mgr ct) (unat index);
     let (con, w) = Connection_new ep (ct_net ct);
     let con = Connection_SetProtocol (proto_handler (ct_option ct)) con;
     (con, w) \<leftarrow> Connection_Init RecvThread SendThread con w;
     let (it, tr) = mm_insert (deadline now ct) index (ct_timeout_records ct);
     let ct = ct\<lparr>ct_net := w, ct_timeout_records := tr,
                  ct_mgr := (ct_mgr ct)[unat index := (Some con, it)]\<rparr>;
     case heartbeat_handler (ct_option ct) of
       Some interval \<Rightarrow>
         Some (ct\<lparr>ct_timer_thread := map_option (Timer_SetTimer now index (c_handle_id con) (of_nat interval))
                                        (ct_timer_thread ct)\<rparr>)
     | None \<Rightarrow> Some ct }"

definition ContainerImpl_AttachEndpointImpl :: "int \<Rightarrow> addr \<Rightarrow> container \<Rightarrow> (raptor_error \<times> container) option" where
  "ContainerImpl_AttachEndpointImpl now ep ct =
     (if ct_free_index_list ct = [] \<and> length (ct_mgr ct) \<ge> max_container_size (ct_option ct)
      then Some (MakeStatusFromFormat (Some (''The number of connections has exceeded the limit : ''
              @ dec_nat (max_container_size (ct_option ct) mod 4294967296))) True, ct)
      else
        let ct1 = (if ct_free_index_list ct = [] then expand_table ct else ct) in
        case ct_free_index_list ct1 of
          [] \<Rightarrow> None
        | index # rest \<Rightarrow> do {
            ct2 \<leftarrow> attach_slot now ep index (ct1\<lparr>ct_free_index_list := rest\<rparr>);
            Some (RAPTOR_ERROR_NONE, ct2) })"

definition ContainerImpl_AttachEndpoint :: "int \<Rightarrow> addr \<Rightarrow> bool \<Rightarrow> container \<Rightarrow> (raptor_error \<times> container) option" where
  "ContainerImpl_AttachEndpoint now ep notify ct = do {
     (e, ct1) \<leftarrow> ContainerImpl_AttachEndpointImpl now ep ct;
     if e = RAPTOR_ERROR_NONE \<and> notify \<and> notify_handler (ct_option ct1)
     then Some (e, ContainerImpl_OnNotify ep ct1) else Some (e, ct1) }"

section \<open>Sending and closing\<close>

definition ContainerImpl_SendMsg :: "u64 \<Rightarrow> byte list \<Rightarrow> container \<Rightarrow> (bool \<times> container) option" where
  "ContainerImpl_SendMsg cid s ct =
     (case ContainerImpl_CheckConnectionId cid ct of
        None \<Rightarrow> Some (False, ct)
      | Some index \<Rightarrow> do {
          con \<leftarrow> ContainerImpl_GetConnection index ct;
          case con of
            None \<Rightarrow> Some (False, ct)
          | Some c \<Rightarrow> do {
              ((ret, c1), ct1) \<leftarrow> with_net (\<lambda>w. map_option (\<lambda>(r, c1, w1). ((r, c1), w1)) (Connection_SendMsg s c w)) ct;
              Some (ret, put_connection index c1 ct1) } })"

text \<open>\<open>con->Shutdown(notify, ev); DeleteConnection(index);\<close>\<close>

definition close_connection :: "bool \<Rightarrow> Event \<Rightarrow> u32 \<Rightarrow> Connection \<Rightarrow> container \<Rightarrow> container option" where
  "close_connection notify ev index c ct = do {
     (c1, ct1) \<leftarrow> with_net (Connection_Shutdown notify ev c) ct;
     ContainerImpl_DeleteConnection index (put_connection index c1 ct1) }"

definition ContainerImpl_CloseEndpoint :: "addr \<Rightarrow> bool \<Rightarrow> container \<Rightarrow> container option" where
  "ContainerImpl_CloseEndpoint ep event_notify ct = do {
     obj \<leftarrow> n_eps (ct_net ct) ep;
     case ContainerImpl_CheckConnectionId (EndpointImpl_ConnectionId obj) ct of
       None \<Rightarrow> Some ct
     | Some index \<Rightarrow> do {
         con \<leftarrow> ContainerImpl_GetConnection index ct;
         case con of None \<Rightarrow> Some ct | Some c \<Rightarrow> close_connection event_notify Event_default index c ct } }"

section \<open>Events\<close>

text \<open>What the sockets answer while an event is handled: \<open>errno\<close>, the \<open>recv\<close> and the \<open>send\<close> script,
  and the clock.\<close>

record event_os =
  eo_err :: os_error
  eo_recv :: "recv_result list"
  eo_send :: "send_result list"
  eo_now :: int

definition ContainerImpl_OnErrorEvent :: "u32 \<Rightarrow> EventDetail \<Rightarrow> container \<Rightarrow> container option" where
  "ContainerImpl_OnErrorEvent index ptr ct = do {
     let err = Some (Status_code_msg (ed_error_code ptr) ''ContainerImpl:OnErrorEvent'');
     con \<leftarrow> ContainerImpl_GetConnection index ct;
     case con of
       None \<Rightarrow> Some ct
     | Some c \<Rightarrow> close_connection True (Event_new kSocketError err) index c ct }"

definition ContainerImpl_OnRecvEvent :: "event_os \<Rightarrow> u32 \<Rightarrow> container \<Rightarrow> container option" where
  "ContainerImpl_OnRecvEvent os index ct = do {
     con \<leftarrow> ContainerImpl_GetConnection index ct;
     case con of
       None \<Rightarrow> Some ct
     | Some c \<Rightarrow> do {
         ((err, c1), ct1) \<leftarrow> with_net (\<lambda>w. map_option (\<lambda>(e, c1, w1). ((e, c1), w1))
                              (Connection_DoRecvEvent (eo_err os) (eo_recv os) c w)) ct;
         let ct1 = put_connection index c1 ct1;
         if err = RAPTOR_ERROR_NONE then ContainerImpl_RefreshTime (eo_now os) index ct1
         else close_connection True (Event_new kSocketError err) index c1 ct1 } }"

definition ContainerImpl_OnSendEvent :: "event_os \<Rightarrow> u32 \<Rightarrow> container \<Rightarrow> container option" where
  "ContainerImpl_OnSendEvent os index ct = do {
     con \<leftarrow> ContainerImpl_GetConnection index ct;
     case con of
       None \<Rightarrow> Some ct
     | Some c \<Rightarrow> do {
         ((err, c1), ct1) \<leftarrow> with_net (\<lambda>w. map_option (\<lambda>(e, c1, w1). ((e, c1), w1))
                              (Connection_DoSendEvent (eo_send os) c w)) ct;
         let ct1 = put_connection index c1 ct1;
         if err = RAPTOR_ERROR_NONE then ContainerImpl_RefreshTime (eo_now os) index ct1
         else close_connection True (Event_new kSocketError err) index c1 ct1 } }"

definition ContainerImpl_OnEventProcess :: "event_os \<Rightarrow> EventDetail option \<Rightarrow> container \<Rightarrow> container option" where
  "ContainerImpl_OnEventProcess os detail ct =
     (case detail of
        None \<Rightarrow> Some ct
      | Some d \<Rightarrow>
          (case ContainerImpl_CheckConnectionId (ed_ptr d) ct of
             None \<Rightarrow> Some ct
           | Some index \<Rightarrow>
               if ed_event_type d AND kErrorEvent \<noteq> 0 then ContainerImpl_OnErrorEvent index d ct
               else if ed_event_type d AND kRecvEvent \<noteq> 0 then ContainerImpl_OnRecvEvent os index ct
               else if ed_event_type d AND kSendEvent \<noteq> 0 then ContainerImpl_OnSendEvent os index ct
               else Some ct))"

section \<open>The idle check\<close>

definition timeout_event :: Event where
  "timeout_event = Event_new kConnectionTimeout (MakeStatusFromStaticString ''Connection:Heart-beat Timeout'')"

text \<open>The body of the loop for the slot of a due record.\<close>

definition timeout_slot :: "u32 \<Rightarrow> container \<Rightarrow> container option" where
  "timeout_slot index ct = do {
     (con, _) \<leftarrow> vec_at (ct_mgr ct) (unat index);
     c \<leftarrow> con;
     (c1, ct1) \<leftarrow> with_net (Connection_Shutdown True timeout_event c) ct;
     free_slot index (put_connection index c1 ct1) }"

text \<open>The loop over the records; each round erases one, so the number of records bounds it.\<close>

fun timeout_loop :: "nat \<Rightarrow> int \<Rightarrow> iter \<Rightarrow> container \<Rightarrow> container option" where
  "timeout_loop fuel now it ct =
     (if it = None then Some ct
      else case fuel of
        0 \<Rightarrow> None
      | Suc fuel' \<Rightarrow> do {
          (key, index) \<leftarrow> mm_at it (ct_timeout_records ct);
          if key > now then Some ct
          else do {
            it' \<leftarrow> mm_succ it (ct_timeout_records ct);
            ct1 \<leftarrow> timeout_slot index ct;
            timeout_loop fuel' now it' ct1 } })"

declare timeout_loop.simps [simp del]

definition ContainerImpl_OnTimeoutCheck :: "int \<Rightarrow> container \<Rightarrow> container option" where
  "ContainerImpl_OnTimeoutCheck now ct =
     (if now - ct_last_check_time ct < 3000 then Some ct
      else let ct1 = ct\<lparr>ct_last_check_time := now\<rparr>
           in timeout_loop (length (mm_nodes (ct_timeout_records ct1))) now
                (mm_begin (ct_timeout_records ct1)) ct1)"

section \<open>The heartbeat timer\<close>

definition ContainerImpl_OnTimer :: "int \<Rightarrow> u32 \<Rightarrow> u32 \<Rightarrow> container \<Rightarrow> container option" where
  "ContainerImpl_OnTimer now tid1 tid2 ct = do {
     con \<leftarrow> ContainerImpl_GetConnection tid1 ct;
     case con of
       None \<Rightarrow> Some ct
     | Some c \<Rightarrow> do {
         online \<leftarrow> (if c_handle_id c = tid2 then Connection_IsOnline c (ct_net ct) else Some False);
         if c_handle_id c = tid2 \<and> online then do {
           let ct1 = ContainerImpl_OnTimerEvent (c_endpoint c) ct;
           interval \<leftarrow> heartbeat_handler (ct_option ct1);
           t \<leftarrow> ct_timer_thread ct1;
           Some (ct1\<lparr>ct_timer_thread := Some (Timer_SetTimer now tid1 tid2 (of_nat interval) t)\<rparr>) }
         else Some ct } }"

section \<open>Life cycle\<close>

text \<open>The answers of the operating system during \<open>Init\<close>.\<close>

record container_init_os =
  cio_poll :: poll_init_os
  cio_back :: poll_init_os
  cio_timer_thread :: bool
  cio_mq_thread :: "nat \<Rightarrow> bool"
  cio_now :: int

definition set_poll :: "poll_ref \<Rightarrow> PollingThread \<Rightarrow> container \<Rightarrow> container" where
  "set_poll r p ct = ct\<lparr>ct_net := (ct_net ct)\<lparr>n_threads := (n_threads (ct_net ct))(r := p)\<rparr>\<rparr>"

definition init_table :: "int \<Rightarrow> container \<Rightarrow> container" where
  "init_table now ct =
     (let n = default_container_size (ct_option ct)
      in ct\<lparr>ct_mgr := take n (ct_mgr ct) @ replicate (n - length (ct_mgr ct)) (None, None),
            ct_free_index_list := ct_free_index_list ct @ map of_nat [0..<n],
            ct_magic_number := of_int ((now div 1000) div 65536 mod 65536),
            ct_last_check_time := now\<rparr>)"

definition ContainerImpl_Init :: "container_init_os \<Rightarrow> container \<Rightarrow> raptor_error \<times> container" where
  "ContainerImpl_Init os ct =
     (if \<not> ct_shutdown ct then (MakeStatusFromStaticString ''tcp server already running'', ct)
      else
        let real_thread = (let h = recv_send_threads (ct_option ct) div 2 in if h = 0 then 1 else h);
            (e1, p1) = PollingThread_Init (cio_poll os) (to_i32 (int real_thread)) PollingThread_new;
            ct1 = (set_poll RecvThread p1 ct)\<lparr>ct_poll_threads := True\<rparr> in
        if e1 \<noteq> RAPTOR_ERROR_NONE then (e1, ct1)
        else
          let (e2, p2) = PollingThread_Init (cio_back os) (to_i32 (int real_thread)) PollingThread_new;
              ct2 = set_poll SendThread p2 ct1 in
          if e2 \<noteq> RAPTOR_ERROR_NONE then (e2, ct2)
          else
            let ct3 = set_poll SendThread (PollingThread_EnableTimeoutCheck False p2)
                       (set_poll RecvThread
                         (PollingThread_EnableTimeoutCheck (\<not> not_check_connection_timeout (ct_option ct)) p1) ct2);
                timer = (case heartbeat_handler (ct_option ct) of None \<Rightarrow> False | Some n \<Rightarrow> n > 0);
                (e3, t) = (if timer then Timer_Init (cio_timer_thread os) Timer_new else (RAPTOR_ERROR_NONE, Timer_new));
                ct4 = (if timer then ct3\<lparr>ct_timer_thread := Some t\<rparr> else ct3) in
            if e3 \<noteq> RAPTOR_ERROR_NONE then (e3, ct4)
            else
              let n = mq_consumer_threads (ct_option ct);
                  (ts, running) = spawn_loop n 0 (cio_mq_thread os) (replicate n Thread_null) 0;
                  ct5 = ct4\<lparr>ct_shutdown := False, ct_count := 0, ct_mq_threads := ts, ct_running_threads := running\<rparr> in
              if running = 0
              then (MakeStatusFromStaticString ''ContainerImpl: Failed to create mq threads'', ct5)
              else (RAPTOR_ERROR_NONE, init_table (cio_now os) ct5))"

definition ContainerImpl_Start :: "container \<Rightarrow> (raptor_error \<times> container) option" where
  "ContainerImpl_Start ct =
     (if \<not> ct_poll_threads ct then None
      else do {
        (e1, p1) \<leftarrow> PollingThread_Start (n_threads (ct_net ct) RecvThread);
        let ct1 = set_poll RecvThread p1 ct;
        if e1 \<noteq> RAPTOR_ERROR_NONE
        then Some (MakeStatusFromStaticString ''ContainerImpl: Failed to start poll thread'', ct1)
        else do {
          (e2, p2) \<leftarrow> PollingThread_Start (n_threads (ct_net ct1) SendThread);
          let ct2 = set_poll SendThread p2 ct1;
          if e2 \<noteq> RAPTOR_ERROR_NONE
          then Some (MakeStatusFromStaticString ''ContainerImpl: Failed to start poll thread'', ct2)
          else do {
            ts \<leftarrow> start_loop (nat (ct_running_threads ct2)) 0 (ct_mq_threads ct2);
            tm \<leftarrow> (case ct_timer_thread ct2 of
                     None \<Rightarrow> Some None | Some t \<Rightarrow> map_option Some (Timer_Start t));
            Some (RAPTOR_ERROR_NONE, ct2\<lparr>ct_mq_threads := ts, ct_timer_thread := tm\<rparr>) } } })"

text \<open>\<open>for (auto &obj : _mgr) if (obj.first) { Shutdown(false); reset(); }\<close>\<close>

fun shutdown_slots :: "slot list \<Rightarrow> net \<Rightarrow> net option" where
  "shutdown_slots [] w = Some w"
| "shutdown_slots ((con, it) # sl) w =
     (case con of
        None \<Rightarrow> shutdown_slots sl w
      | Some c \<Rightarrow> do {
          (c1, w1) \<leftarrow> Connection_Shutdown False Event_default c w;
          w2 \<leftarrow> Connection_dtor c1 w1;
          shutdown_slots sl w2 })"

definition ContainerImpl_Shutdown :: "container \<Rightarrow> container option" where
  "ContainerImpl_Shutdown ct =
     (if ct_shutdown ct then Some ct
      else do {
        let ct = ct\<lparr>ct_shutdown := True\<rparr>;
        (a1, p1) \<leftarrow> PollingThread_Shutdown (n_threads (ct_net ct) RecvThread);
        let ct = set_poll RecvThread p1 ct;
        (a2, p2) \<leftarrow> PollingThread_Shutdown (n_threads (ct_net ct) SendThread);
        let ct = set_poll SendThread p2 ct;
        tm \<leftarrow> (case ct_timer_thread ct of
                 None \<Rightarrow> Some None | Some t \<Rightarrow> map_option Some (Timer_Shutdown t));
        let ct = ct\<lparr>ct_net := net_sys (a1 @ a2) (ct_net ct), ct_timer_thread := tm\<rparr>;
        ts \<leftarrow> join_loop (nat (ct_running_threads ct)) 0 (ct_mq_threads ct);
        let ct = ct\<lparr>ct_mq_threads := ts, ct_timeout_records := (ct_timeout_records ct)\<lparr>mm_nodes := []\<rparr>,
                     ct_free_index_list := []\<rparr>;
        (_, ct) \<leftarrow> with_net (\<lambda>w. map_option (\<lambda>w'. ((), w')) (shutdown_slots (ct_mgr ct) w)) ct;
        let ct = ct\<lparr>ct_mgr := []\<rparr>;
        (n, mq) \<leftarrow> mqueue_drain (ct_mq ct);
        Some (ct\<lparr>ct_mq := mq, ct_count := ct_count ct - of_nat n\<rparr>) })"

definition ContainerImpl_dtor :: "container \<Rightarrow> container option" where
  "ContainerImpl_dtor ct = ContainerImpl_Shutdown ct"

section \<open>Calls through an endpoint\<close>

text \<open>\<open>EndpointImpl\<close>'s calls into its container, and the checks of the \<open>Endpoint\<close> handle.\<close>

definition EndpointImpl_SendMsg :: "addr \<Rightarrow> byte list \<Rightarrow> container \<Rightarrow> (bool \<times> container) option" where
  "EndpointImpl_SendMsg ep s ct = do {
     e \<leftarrow> n_eps (ct_net ct) ep;
     if ei_container e \<noteq> None then ContainerImpl_SendMsg (ei_connection_id e) s ct else Some (False, ct) }"

definition EndpointImpl_BindWithContainer :: "int \<Rightarrow> addr \<Rightarrow> bool \<Rightarrow> container \<Rightarrow> container option" where
  "EndpointImpl_BindWithContainer now ep notify ct = map_option snd (ContainerImpl_AttachEndpoint now ep notify ct)"

definition EndpointImpl_Close :: "addr \<Rightarrow> bool \<Rightarrow> container \<Rightarrow> (bool \<times> container) option" where
  "EndpointImpl_Close ep notify ct = do {
     e \<leftarrow> n_eps (ct_net ct) ep;
     ct1 \<leftarrow> (if ei_container e \<noteq> None then ContainerImpl_CloseEndpoint ep notify ct
             else Some (ct\<lparr>ct_net := net_set_ep ep (e\<lparr>ei_fd := NOT 0\<rparr>)
                          (net_sys (raptor_set_socket_shutdown (fd_int (ei_fd e))) (ct_net ct))\<rparr>));
     Some (True, ct1) }"

definition Endpoint_SendMsg :: "addr \<Rightarrow> byte list \<Rightarrow> container \<Rightarrow> (bool \<times> container) option" where
  "Endpoint_SendMsg ep s ct = (if s = [] then Some (False, ct) else EndpointImpl_SendMsg ep s ct)"

end
