(* ===== verification/ContainerInv.thy ===== *)
theory ContainerInv
  imports Container
begin

text \<open>
  The invariant of the container's connection table and its preservation by every operation: a slot
  holds a connection exactly when it has one idle-deadline record and is not in the free list. It is
  split into \<open>table_shape\<close>, about slots, records and free list only, and \<open>conn_ok\<close>, about the
  connection in a slot.
\<close>

section \<open>The shape of the table\<close>

definition slot_ok :: "slot \<Rightarrow> u32 \<Rightarrow> u32 mmap \<Rightarrow> u32 list \<Rightarrow> bool" where
  "slot_ok s x tr fr \<longleftrightarrow>
     (case fst s of
        None \<Rightarrow> snd s = None \<and> x \<in> set fr
      | Some c \<Rightarrow> x \<notin> set fr \<and> (\<exists>n k. snd s = Some n \<and> (n, k, x) \<in> mm_set tr))"

definition table_shape :: "slot list \<Rightarrow> u32 mmap \<Rightarrow> u32 list \<Rightarrow> bool" where
  "table_shape mgr tr fr \<longleftrightarrow> mm_ok tr \<and> distinct fr \<and> length mgr < 4294967296
     \<and> (\<forall>x. unat x < length mgr \<longrightarrow> slot_ok (mgr ! unat x) x tr fr)
     \<and> (\<forall>x \<in> set fr. unat x < length mgr)
     \<and> (\<forall>n k x. (n, k, x) \<in> mm_set tr \<longrightarrow> unat x < length mgr \<and> snd (mgr ! unat x) = Some n)"

lemma unat_eq_iff: "unat (x :: u32) = unat y \<longleftrightarrow> x = y"
  by (rule word_unat_eq_iff [symmetric])

lemma shape_free:
  assumes sh: "table_shape mgr tr fr" and x: "unat x < length mgr" and s: "mgr ! unat x = (Some c, it)"
  shows "\<exists>nxt tr'. mm_erase it tr = Some (nxt, tr') \<and> table_shape (mgr[unat x := (None, None)]) tr' (fr @ [x])
           \<and> (\<exists>n k. it = Some n \<and> (n, k, x) \<in> mm_set tr \<and> mm_set tr' = mm_set tr - {(n, k, x)}
                \<and> mm_nodes tr' = filter (\<lambda>m. fst m \<noteq> n) (mm_nodes tr))"
proof -
  have so: "slot_ok (mgr ! unat x) x tr fr" and ok: "mm_ok tr" using sh x by (auto simp: table_shape_def)
  with s obtain n k where n: "it = Some n" "(n, k, x) \<in> mm_set tr" "x \<notin> set fr" by (auto simp: slot_ok_def)
  obtain nxt tr' where tr': "mm_erase it tr = Some (nxt, tr')" "mm_ok tr'" "mm_set tr' = mm_set tr - {(n, k, x)}"
    "mm_nodes tr' = filter (\<lambda>m. fst m \<noteq> n) (mm_nodes tr)"
    using mm_erase_ok [OF ok n(2)] n(1) by blast
  have other: "slot_ok (mgr ! unat y) y tr' (fr @ [x])" if y: "unat y < length mgr" "y \<noteq> x" for y
  proof -
    have "slot_ok (mgr ! unat y) y tr fr" using sh y by (auto simp: table_shape_def)
    then show ?thesis using y(2) tr'(3) by (auto simp: slot_ok_def split: option.splits)
  qed
  have nodes: "unat y < length mgr \<and> snd (mgr[unat x := (None, None)] ! unat y) = Some m"
    if "(m, k', y) \<in> mm_set tr'" for m k' y
  proof -
    from that have mem: "(m, k', y) \<in> mm_set tr" "(m, k', y) \<noteq> (n, k, x)" using tr'(3) by auto
    with sh have sy: "unat y < length mgr" "snd (mgr ! unat y) = Some m" by (auto simp: table_shape_def)
    have "y \<noteq> x"
    proof
      assume "y = x"
      with sy(2) s n(1) have "m = n" by simp
      with mem n(2) mm_set_functional [OF ok, of n "(k', y)" "(k, x)"] show False by auto
    qed
    with sy x show ?thesis by (simp add: unat_eq_iff)
  qed
  have "table_shape (mgr[unat x := (None, None)]) tr' (fr @ [x])"
    using sh x n(3) tr'(2) other nodes unfolding table_shape_def
    by (auto simp: nth_list_update unat_eq_iff slot_ok_def)
  with tr' n show ?thesis by blast
qed

lemma shape_set:
  assumes "table_shape mgr tr fr" and "unat x < length mgr" and "fst (mgr ! unat x) \<noteq> None"
  shows "table_shape (mgr[unat x := (Some c, snd (mgr ! unat x))]) tr fr"
  using assms unfolding table_shape_def
  by (auto simp: nth_list_update unat_eq_iff slot_ok_def)

lemma shape_refresh:
  assumes sh: "table_shape mgr tr fr" and x: "unat x < length mgr" and s: "mgr ! unat x = (Some c, it)"
  shows "\<exists>nxt tr1 it' tr2. mm_erase it tr = Some (nxt, tr1) \<and> mm_insert dl x tr1 = (it', tr2)
           \<and> table_shape (mgr[unat x := (Some c, it')]) tr2 fr
           \<and> (\<exists>n k m. it = Some n \<and> it' = Some m \<and> mm_set tr2 = insert (m, dl, x) (mm_set tr - {(n, k, x)}))"
proof -
  have so: "slot_ok (mgr ! unat x) x tr fr" and ok: "mm_ok tr" using sh x by (auto simp: table_shape_def)
  with s obtain n k where n: "it = Some n" "(n, k, x) \<in> mm_set tr" "x \<notin> set fr" by (auto simp: slot_ok_def)
  obtain nxt tr1 m tr2 where r: "mm_erase (Some n) tr = Some (nxt, tr1)" "mm_insert dl x tr1 = (Some m, tr2)"
    "mm_ok tr2" "mm_set tr2 = insert (m, dl, x) (mm_set tr - {(n, k, x)})"
    "\<forall>z. (m, z) \<notin> mm_set tr - {(n, k, x)}"
    using mm.reschedule [OF ok n(2), of dl] by blast
  have other: "slot_ok (mgr ! unat y) y tr2 fr" if y: "unat y < length mgr" "y \<noteq> x" for y
  proof -
    have "slot_ok (mgr ! unat y) y tr fr" using sh y by (auto simp: table_shape_def)
    then show ?thesis using y(2) r(4) by (auto simp: slot_ok_def split: option.splits)
  qed
  have nodes: "unat y < length mgr \<and> snd (mgr[unat x := (Some c, Some m)] ! unat y) = Some p"
    if "(p, k', y) \<in> mm_set tr2" for p k' y
  proof (cases "(p, k', y) = (m, dl, x)")
    case True
    with x show ?thesis by simp
  next
    case False
    with that r(4) have mem: "(p, k', y) \<in> mm_set tr" "(p, k', y) \<noteq> (n, k, x)" by auto
    with sh have sy: "unat y < length mgr" "snd (mgr ! unat y) = Some p" by (auto simp: table_shape_def)
    have "y \<noteq> x"
    proof
      assume "y = x"
      with sy(2) s n(1) have "p = n" by simp
      with mem n(2) mm_set_functional [OF ok, of n "(k', y)" "(k, x)"] show False by auto
    qed
    with sy x show ?thesis by (simp add: unat_eq_iff)
  qed
  have "table_shape (mgr[unat x := (Some c, Some m)]) tr2 fr"
    using sh x n(3) r(3,4) other nodes unfolding table_shape_def
    by (auto simp: nth_list_update unat_eq_iff slot_ok_def)
  with r n show ?thesis by blast
qed

lemma shape_attach:
  assumes sh: "table_shape mgr tr (x # fr)" and ins: "mm_insert dl x tr = (it, tr')"
  shows "unat x < length mgr" and "fst (mgr ! unat x) = None"
    and "table_shape (mgr[unat x := (Some c, it)]) tr' fr"
proof -
  show x: "unat x < length mgr" using sh by (simp add: table_shape_def)
  have so: "slot_ok (mgr ! unat x) x tr (x # fr)" and ok: "mm_ok tr" using sh x by (auto simp: table_shape_def)
  then show e: "fst (mgr ! unat x) = None" by (auto simp: slot_ok_def split: option.splits)
  with so have e2: "snd (mgr ! unat x) = None" by (simp add: slot_ok_def)
  note i = mm_insert_ok [OF ok ins]
  have other: "slot_ok (mgr ! unat y) y tr' fr" if y: "unat y < length mgr" "y \<noteq> x" for y
  proof -
    have "slot_ok (mgr ! unat y) y tr (x # fr)" using sh y by (auto simp: table_shape_def)
    then show ?thesis using y(2) i(3) by (auto simp: slot_ok_def split: option.splits)
  qed
  have nodes: "unat y < length mgr \<and> snd (mgr[unat x := (Some c, it)] ! unat y) = Some p"
    if "(p, k', y) \<in> mm_set tr'" for p k' y
  proof (cases "(p, k', y) = (mm_next tr, dl, x)")
    case True
    with x i(2) show ?thesis by simp
  next
    case False
    with that i(3) have "(p, k', y) \<in> mm_set tr" by auto
    with sh have sy: "unat y < length mgr" "snd (mgr ! unat y) = Some p" by (auto simp: table_shape_def)
    with e2 have "y \<noteq> x" by auto
    with sy x show ?thesis by (simp add: unat_eq_iff)
  qed
  show "table_shape (mgr[unat x := (Some c, it)]) tr' fr"
    using sh x i(1-3) other nodes unfolding table_shape_def
    by (auto simp: nth_list_update unat_eq_iff slot_ok_def)
qed

lemma unat_of_nat_u32: "n < 4294967296 \<Longrightarrow> unat (of_nat n :: u32) = n"
  by (simp add: unat_of_nat)

lemma of_nat_u32_iff: "n < 4294967296 \<Longrightarrow> (x :: u32) = of_nat n \<longleftrightarrow> unat x = n"
  using unat_of_nat_u32 [of n] unat_eq_iff [of x "of_nat n"] by simp

lemma distinct_of_nat_upt:
  assumes "n \<le> 4294967296"
  shows "distinct (map (of_nat :: nat \<Rightarrow> u32) [m..<n])"
proof -
  have "i = j" if "i < n" "j < n" "(of_nat i :: u32) = of_nat j" for i j
  proof -
    have ij: "i < 4294967296" "j < 4294967296" using that(1,2) assms by linarith+
    have "unat (of_nat i :: u32) = j" using of_nat_u32_iff [OF ij(2), of "of_nat i"] that(3) by simp
    then show ?thesis using unat_of_nat_u32 [OF ij(1)] by simp
  qed
  then have "inj_on (of_nat :: nat \<Rightarrow> u32) (set [m..<n])"
    by (intro inj_onI) (simp only: set_upt atLeastLessThan_iff)
  then show ?thesis by (simp only: distinct_map distinct_upt simp_thms)
qed

lemma mem_of_nat_upt:
  assumes "n \<le> 4294967296"
  shows "(x :: u32) \<in> set (map of_nat [m..<n]) \<longleftrightarrow> m \<le> unat x \<and> unat x < n"
proof -
  have "x = of_nat i \<longleftrightarrow> unat x = i" if "i < n" for i
    by (rule of_nat_u32_iff) (use that assms in linarith)
  then have "(\<exists>i \<in> {m..<n}. x = of_nat i) \<longleftrightarrow> (\<exists>i \<in> {m..<n}. unat x = i)"
    by (intro bex_cong) (simp_all only: atLeastLessThan_iff)
  then show ?thesis unfolding set_map image_iff set_upt by (simp only: Bex_def atLeastLessThan_iff) blast
qed

text \<open>Growing an empty free list.\<close>

lemma shape_expand:
  assumes "table_shape mgr tr []" and "length mgr \<le> n" and "n < 4294967296"
  shows "table_shape (mgr @ replicate (n - length mgr) (None, None)) tr (map of_nat [length mgr..<n])"
proof -
  let ?mgr = "mgr @ replicate (n - length mgr) (None, None)"
  have "slot_ok (?mgr ! unat x) x tr (map of_nat [length mgr..<n])" if "unat x < n" for x
  proof (cases "unat x < length mgr")
    case True
    with assms(1) have so: "slot_ok (mgr ! unat x) x tr []" by (simp add: table_shape_def)
    have "x \<notin> set (map of_nat [length mgr..<n])" using True mem_of_nat_upt [of n x "length mgr"] assms(3) by simp
    with so True show ?thesis by (auto simp: slot_ok_def nth_append split: option.splits)
  next
    case False
    have "x \<in> set (map of_nat [length mgr..<n])" using False that mem_of_nat_upt [of n x "length mgr"] assms(3) by simp
    with False that show ?thesis by (simp add: slot_ok_def nth_append del: set_map set_upt)
  qed
  moreover have "\<forall>x \<in> set (map of_nat [length mgr..<n]). unat (x :: u32) < n"
    using mem_of_nat_upt [of n _ "length mgr"] assms(3) by simp
  moreover have "distinct (map (of_nat :: nat \<Rightarrow> u32) [length mgr..<n])"
    using distinct_of_nat_upt assms(3) by simp
  moreover have "unat x < length ?mgr \<and> snd (?mgr ! unat x) = Some m" if "(m, k, x) \<in> mm_set tr" for m k x
    using assms(1,2) that by (fastforce simp: table_shape_def nth_append)
  moreover have "length ?mgr = n" using assms(2) by simp
  ultimately show ?thesis
    using assms unfolding table_shape_def by (simp del: distinct_map set_map set_upt)
qed

lemma shape_empty: "table_shape [] tr [] \<longleftrightarrow> mm_ok tr \<and> mm_set tr = {}"
  by (auto simp: table_shape_def)

section \<open>What the operations leave alone\<close>

lemma push_message_frame [simp]:
  "ct_mgr (push_message m ct) = ct_mgr ct" "ct_timeout_records (push_message m ct) = ct_timeout_records ct"
  "ct_free_index_list (push_message m ct) = ct_free_index_list ct" "ct_option (push_message m ct) = ct_option ct"
  "ct_magic_number (push_message m ct) = ct_magic_number ct" "ct_self (push_message m ct) = ct_self ct"
  "ct_shutdown (push_message m ct) = ct_shutdown ct" "ct_net (push_message m ct) = ct_net ct"
  "ct_app (push_message m ct) = ct_app ct" "ct_last_check_time (push_message m ct) = ct_last_check_time ct"
  "ct_timer_thread (push_message m ct) = ct_timer_thread ct"
  "ct_mq_threads (push_message m ct) = ct_mq_threads ct" "ct_running_threads (push_message m ct) = ct_running_threads ct"
  by (simp_all add: push_message_def)

lemmas note_defs = ContainerImpl_OnDataReceived_def ContainerImpl_OnClosed_def

lemma handle_notes_frame [simp]:
  "ct_mgr (handle_notes ns ct) = ct_mgr ct" "ct_timeout_records (handle_notes ns ct) = ct_timeout_records ct"
  "ct_free_index_list (handle_notes ns ct) = ct_free_index_list ct" "ct_option (handle_notes ns ct) = ct_option ct"
  "ct_magic_number (handle_notes ns ct) = ct_magic_number ct" "ct_self (handle_notes ns ct) = ct_self ct"
  "ct_shutdown (handle_notes ns ct) = ct_shutdown ct" "ct_net (handle_notes ns ct) = ct_net ct"
  "ct_app (handle_notes ns ct) = ct_app ct" "ct_last_check_time (handle_notes ns ct) = ct_last_check_time ct"
  "ct_timer_thread (handle_notes ns ct) = ct_timer_thread ct"
  "ct_mq_threads (handle_notes ns ct) = ct_mq_threads ct" "ct_running_threads (handle_notes ns ct) = ct_running_threads ct"
  by (induction ns ct rule: handle_notes.induct) (simp_all add: note_defs)

text \<open>The messages the service calls put into the queue.\<close>

fun note_msgs :: "Option \<Rightarrow> notification \<Rightarrow> TcpMessageNode list" where
  "note_msgs opt (DataReceived ep s) = [(TcpMessageNode_new kRecvAMessage ep)\<lparr>mn_slice := s\<rparr>]"
| "note_msgs opt (Closed ep ev) =
     (if closed_handler opt then [(TcpMessageNode_new kCloseEvent ep)\<lparr>mn_event := ev\<rparr>] else [])"

text \<open>The handler a message is dispatched to exists. Data is queued without a check of the message
  handler, so this is promised only to a container that has one.\<close>

definition deliverable :: "Option \<Rightarrow> TcpMessageNode \<Rightarrow> bool" where
  "deliverable opt m =
     (case mn_type m of
        kRecvAMessage \<Rightarrow> msg_handler opt
      | kCloseEvent \<Rightarrow> closed_handler opt
      | kHeartbeatEvent \<Rightarrow> heartbeat_handler opt \<noteq> None
      | kEndpointNotify \<Rightarrow> notify_handler opt)"

definition msgs_ok :: "container \<Rightarrow> TcpMessageNode list \<Rightarrow> bool" where
  "msgs_ok ct ms \<longleftrightarrow> mqueue_ok (ct_mq ct) ms \<and> ct_count ct = of_nat (length ms)
     \<and> (msg_handler (ct_option ct) \<longrightarrow> list_all (deliverable (ct_option ct)) ms)"

lemma push_message_ok:
  "msgs_ok ct ms \<Longrightarrow> (msg_handler (ct_option ct) \<Longrightarrow> deliverable (ct_option ct) m)
    \<Longrightarrow> msgs_ok (push_message m ct) (ms @ [m])"
  using mqueue_push_ok [of "ct_mq ct" ms m] by (auto simp: msgs_ok_def push_message_def)

lemma handle_notes_ok:
  "msgs_ok ct ms \<Longrightarrow> msgs_ok (handle_notes ns ct) (ms @ concat (map (note_msgs (ct_option ct)) ns))"
proof (induction ns ct arbitrary: ms rule: handle_notes.induct)
  case (2 ep s ns ct)
  let ?m = "(TcpMessageNode_new kRecvAMessage ep)\<lparr>mn_slice := s\<rparr>"
  have "deliverable (ct_option ct) ?m" if "msg_handler (ct_option ct)"
    using that by (simp add: deliverable_def TcpMessageNode_new_def)
  from "2.IH" [of "ms @ [?m]"] push_message_ok [OF "2.prems" this] show ?case by (simp add: note_defs)
next
  case (3 ep ev ns ct)
  let ?m = "(TcpMessageNode_new kCloseEvent ep)\<lparr>mn_event := ev\<rparr>"
  have "deliverable (ct_option ct) ?m" if "closed_handler (ct_option ct)"
    using that by (simp add: deliverable_def TcpMessageNode_new_def)
  with push_message_ok [OF "3.prems", of ?m] "3.IH" [of "ms @ note_msgs (ct_option ct) (Closed ep ev)"] "3.prems"
  show ?case by (auto simp: note_defs)
qed simp

section \<open>Connections in slots\<close>

definition conn_ok :: "net \<Rightarrow> Connection \<Rightarrow> bool" where
  "conn_ok w c \<longleftrightarrow> conn_ready c \<and> n_eps w (c_endpoint c) \<noteq> None"

text \<open>An operation of a connection keeps its identity, every endpoint object and the polling threads.\<close>

definition conn_step :: "Connection \<Rightarrow> net \<Rightarrow> Connection \<Rightarrow> net \<Rightarrow> bool" where
  "conn_step c w c' w' \<longleftrightarrow> c_endpoint c' = c_endpoint c \<and> conn_ready c' = conn_ready c
     \<and> c_handle_id c' = c_handle_id c \<and> n_threads w' = n_threads w \<and> (\<forall>a. n_eps w' a = None \<longleftrightarrow> n_eps w a = None)"

lemma conn_step_refl [simp]: "conn_step c w c w"
  by (simp add: conn_step_def)

lemma conn_step_trans: "conn_step c w c1 w1 \<Longrightarrow> conn_step c1 w1 c2 w2 \<Longrightarrow> conn_step c w c2 w2"
  by (simp add: conn_step_def)

lemma SendMsg_step: "Connection_SendMsg s c w = Some (r, c', w') \<Longrightarrow> conn_step c w c' w'"
  by (auto simp: Connection_SendMsg_def conn_step_def conn_ready_def Let_def split: if_splits)

lemma Shutdown_step: "Connection_Shutdown notify ev c w = Some (c', w') \<Longrightarrow> conn_step c w c' w'"
  by (auto simp: Connection_Shutdown_def conn_step_def conn_ready_def Let_def split: if_splits)

lemma on_bytes_step: "Connection_on_bytes bs c w = Some (r, c', w') \<Longrightarrow> conn_step c w c' w'"
  by (auto simp: Connection_on_bytes_def conn_step_def conn_ready_def Let_def split: if_splits option.splits)

lemma OnRecv_step: "Connection_OnRecv rs c w = Some (r, c', w') \<Longrightarrow> conn_step c w c' w'"
proof (induction rs c w arbitrary: r rule: Connection_OnRecv.induct)
  case (3 data rs c w)
  then show ?case by (fastforce split: if_splits dest: on_bytes_step intro: conn_step_trans)
qed (auto split: if_splits)

lemma DoRecvEvent_step: "Connection_DoRecvEvent os rs c w = Some (e, c', w') \<Longrightarrow> conn_step c w c' w'"
  by (fastforce simp: Connection_DoRecvEvent_def conn_step_def split: if_splits dest: OnRecv_step)

lemma OnSend_loop_eps: "OnSend_loop rs b w = Some (r, b', w') \<Longrightarrow> n_eps w' = n_eps w \<and> n_threads w' = n_threads w"
proof (induction rs arbitrary: b w r)
  case (Cons a rs)
  then obtain x where x: "SliceBuffer_Front b = Some x" by auto
  show ?case
  proof (cases a)
    case (SendErr errno)
    with Cons.prems x show ?thesis by (simp split: if_splits)
  next
    case (SendOk n)
    define k w1 where "k = min n (length x)" and "w1 = w\<lparr>n_sent := n_sent w @ take k x\<rparr>"
    have eq: "(if k = 0 then Some (0, b, w1)
        else do { (_, b1) \<leftarrow> SliceBuffer_MoveHeader b k;
                  if SliceBuffer_SliceCount b1 > 0 then OnSend_loop rs b1 w1 else Some (0, b1, w1) })
      = Some (r, b', w')"
      using Cons.prems x SendOk by (simp only: OnSend_loop.simps Option.bind.simps send_result.case Let_def k_def w1_def)
    show ?thesis
    proof (cases "k = 0")
      case True
      with eq show ?thesis by (simp add: w1_def)
    next
      case False
      with eq obtain p b1 where mh: "SliceBuffer_MoveHeader b k = Some (p, b1)" by auto
      show ?thesis
      proof (cases "SliceBuffer_SliceCount b1 > 0")
        case True
        with eq False mh have "OnSend_loop rs b1 w1 = Some (r, b', w')" by simp
        from Cons.IH [OF this] show ?thesis by (simp add: w1_def)
      qed (use eq False mh in \<open>auto simp: w1_def\<close>)
    qed
  qed
qed auto

lemma DoSendEvent_step: "Connection_DoSendEvent rs c w = Some (e, c', w') \<Longrightarrow> conn_step c w c' w'"
  by (fastforce simp: Connection_DoSendEvent_def Connection_OnSend_def conn_step_def conn_ready_def
      split: if_splits dest: OnSend_loop_eps)

lemma dtor_step: "Connection_dtor c w = Some w' \<Longrightarrow> conn_step c w c w'"
  by (auto simp: Connection_dtor_def conn_step_def dest: Shutdown_step)

lemma dtor_total: "conn_ok w c \<Longrightarrow> \<exists>w'. Connection_dtor c w = Some w'"
  using Connection_Shutdown_total [of c w _ False Event_default]
  by (auto simp: conn_ok_def Connection_dtor_def)

section \<open>The invariant\<close>

definition conns_ok :: "slot list \<Rightarrow> net \<Rightarrow> bool" where
  "conns_ok mgr w \<longleftrightarrow> (\<forall>s \<in> set mgr. \<forall>c. fst s = Some c \<longrightarrow> conn_ok w c)"

definition container_ok :: "container \<Rightarrow> bool" where
  "container_ok ct \<longleftrightarrow> table_shape (ct_mgr ct) (ct_timeout_records ct) (ct_free_index_list ct)
     \<and> conns_ok (ct_mgr ct) (ct_net ct)
     \<and> length (ct_mgr ct) \<le> max_container_size (ct_option ct) \<and> max_container_size (ct_option ct) < 4294967296
     \<and> (\<exists>ms. msgs_ok ct ms)"

lemma conns_ok_eps:
  "conns_ok mgr w \<Longrightarrow> (\<forall>a. n_eps w' a = None \<longleftrightarrow> n_eps w a = None) \<Longrightarrow> conns_ok mgr w'"
  by (simp add: conns_ok_def conn_ok_def)

lemma conns_ok_update:
  "conns_ok mgr w \<Longrightarrow> (\<And>c. fst s = Some c \<Longrightarrow> conn_ok w c) \<Longrightarrow> conns_ok (mgr[i := s]) w"
  unfolding conns_ok_def using set_update_subset_insert [of mgr i s] by blast

lemma container_ok_slot:
  assumes "container_ok ct" and "unat x < length (ct_mgr ct)" and "ct_mgr ct ! unat x = (Some c, it)"
  shows "conn_ok (ct_net ct) c"
proof -
  have "(Some c, it) \<in> set (ct_mgr ct)" using assms(2,3) by (metis nth_mem)
  with assms(1) show ?thesis by (force simp: container_ok_def conns_ok_def)
qed

text \<open>Running an operation on a connection of the table and writing it back.\<close>

lemma with_net_ok:
  assumes ok: "container_ok ct" and f: "with_net f ct = Some (y, ct1)"
    and step: "\<And>w. f (ct_net ct) = Some (y, w) \<Longrightarrow> conn_step c (ct_net ct) c1 w"
    and x: "unat x < length (ct_mgr ct)" and s: "ct_mgr ct ! unat x = (Some c, it)"
  shows "container_ok (put_connection x c1 ct1)" and "ct_mgr ct1 = ct_mgr ct"
    and "ct_mgr (put_connection x c1 ct1) ! unat x = (Some c1, it)"
    and "length (ct_mgr (put_connection x c1 ct1)) = length (ct_mgr ct)"
proof -
  obtain w where w: "f (ct_net ct) = Some (y, w)" "ct1 = handle_notes (n_notes w) (ct\<lparr>ct_net := w\<lparr>n_notes := []\<rparr>\<rparr>)"
    using f by (auto simp: with_net_def)
  note st = step [OF w(1)]
  have c1: "conn_ok w c1" using container_ok_slot [OF ok x s] st by (auto simp: conn_ok_def conn_step_def)
  have "conns_ok (ct_mgr ct) (w\<lparr>n_notes := []\<rparr>)"
    by (rule conns_ok_eps [of _ "ct_net ct"]) (use ok st in \<open>auto simp: container_ok_def conn_step_def\<close>)
  then have "conns_ok ((ct_mgr ct)[unat x := (Some c1, it)]) (w\<lparr>n_notes := []\<rparr>)"
    using c1 by (intro conns_ok_update) (auto simp: conn_ok_def)
  moreover have "table_shape ((ct_mgr ct)[unat x := (Some c1, it)]) (ct_timeout_records ct) (ct_free_index_list ct)"
    using shape_set [of "ct_mgr ct" "ct_timeout_records ct" "ct_free_index_list ct" x c1] ok x s
    by (simp add: container_ok_def)
  moreover obtain ms where "msgs_ok ct ms" using ok by (auto simp: container_ok_def)
  then have "msgs_ok (ct\<lparr>ct_net := w\<lparr>n_notes := []\<rparr>\<rparr>) ms" by (simp add: msgs_ok_def)
  from handle_notes_ok [OF this, of "n_notes w"] have "\<exists>ms'. msgs_ok (put_connection x c1 ct1) ms'"
    by (auto simp: w(2) put_connection_def msgs_ok_def)
  ultimately show "container_ok (put_connection x c1 ct1)"
    using ok s by (simp add: container_ok_def put_connection_def w(2))
  show "ct_mgr ct1 = ct_mgr ct" by (simp add: w(2))
  show "ct_mgr (put_connection x c1 ct1) ! unat x = (Some c1, it)"
    "length (ct_mgr (put_connection x c1 ct1)) = length (ct_mgr ct)"
    using x s by (simp_all add: put_connection_def w(2))
qed

section \<open>Freeing a slot\<close>

lemma free_slot_ok:
  assumes ok: "container_ok ct" and x: "unat x < length (ct_mgr ct)" and s: "ct_mgr ct ! unat x = (Some c, it)"
  shows "\<exists>ct'. free_slot x ct = Some ct' \<and> container_ok ct'
    \<and> ct_mgr ct' = (ct_mgr ct)[unat x := (None, None)] \<and> ct_free_index_list ct' = ct_free_index_list ct @ [x]
    \<and> (\<exists>n k. it = Some n \<and> (n, k, x) \<in> mm_set (ct_timeout_records ct)
         \<and> mm_set (ct_timeout_records ct') = mm_set (ct_timeout_records ct) - {(n, k, x)}
         \<and> mm_nodes (ct_timeout_records ct') = filter (\<lambda>m. fst m \<noteq> n) (mm_nodes (ct_timeout_records ct)))
    \<and> ct_option ct' = ct_option ct \<and> (\<forall>a. n_eps (ct_net ct') a = None \<longleftrightarrow> n_eps (ct_net ct) a = None)"
proof -
  obtain w where w: "Connection_dtor c (ct_net ct) = Some w"
    using dtor_total [OF container_ok_slot [OF ok x s]] by blast
  have eps: "\<forall>a. n_eps w a = None \<longleftrightarrow> n_eps (ct_net ct) a = None"
    using dtor_step [OF w] by (simp add: conn_step_def)
  let ?w = "w\<lparr>n_notes := []\<rparr>"
  define ct1 where "ct1 = handle_notes (n_notes w) (ct\<lparr>ct_net := ?w\<rparr>)"
  have r: "reset_connection x ct = Some (ct1\<lparr>ct_mgr := (ct_mgr ct)[unat x := (None, it)]\<rparr>)"
    using x s w by (simp add: reset_connection_def vec_at_def with_net_def ct1_def)
  from ok have sh: "table_shape (ct_mgr ct) (ct_timeout_records ct) (ct_free_index_list ct)"
    by (simp add: container_ok_def)
  from shape_free [OF sh x s] obtain nxt tr' n k where
    e: "mm_erase it (ct_timeout_records ct) = Some (nxt, tr')"
      "table_shape ((ct_mgr ct)[unat x := (None, None)]) tr' (ct_free_index_list ct @ [x])"
      "it = Some n" "(n, k, x) \<in> mm_set (ct_timeout_records ct)"
      "mm_set tr' = mm_set (ct_timeout_records ct) - {(n, k, x)}"
      "mm_nodes tr' = filter (\<lambda>m. fst m \<noteq> n) (mm_nodes (ct_timeout_records ct))" by blast
  define ct' where "ct' = ct1\<lparr>ct_timeout_records := tr', ct_mgr := (ct_mgr ct)[unat x := (None, None)],
      ct_free_index_list := ct_free_index_list ct @ [x]\<rparr>"
  have "free_slot x ct = Some ct'"
    using x r e(1) by (simp add: free_slot_def vec_at_def ct'_def ct1_def)
  moreover have "conns_ok ((ct_mgr ct)[unat x := (None, None)]) ?w"
    by (intro conns_ok_update conns_ok_eps [of _ "ct_net ct" ?w]) (use ok eps in \<open>auto simp: container_ok_def\<close>)
  moreover obtain ms where "msgs_ok ct ms" using ok by (auto simp: container_ok_def)
  then have "msgs_ok (ct\<lparr>ct_net := ?w\<rparr>) ms" by (simp add: msgs_ok_def)
  from handle_notes_ok [OF this, of "n_notes w"] have "\<exists>ms'. msgs_ok ct' ms'"
    by (auto simp: ct'_def ct1_def msgs_ok_def)
  ultimately have "free_slot x ct = Some ct'" "container_ok ct'"
    using ok e(2) by (simp_all add: container_ok_def ct'_def ct1_def)
  with e eps show ?thesis by (auto simp: ct'_def ct1_def)
qed

lemma DeleteConnection_ok:
  assumes ok: "container_ok ct" and x: "unat x < length (ct_mgr ct)"
  shows "\<exists>ct'. ContainerImpl_DeleteConnection x ct = Some ct' \<and> container_ok ct'
    \<and> ct_mgr ct' = (ct_mgr ct)[unat x := (None, None)]"
proof (cases "ct_mgr ct ! unat x")
  case (Pair con it)
  show ?thesis
  proof (cases con)
    case None
    from ok x have "slot_ok (ct_mgr ct ! unat x) x (ct_timeout_records ct) (ct_free_index_list ct)"
      by (simp add: container_ok_def table_shape_def)
    with None Pair have "ct_mgr ct ! unat x = (None, None)" by (simp add: slot_ok_def)
    with x ok Pair None show ?thesis
      by (simp add: ContainerImpl_DeleteConnection_def vec_at_def) (metis list_update_id)
  next
    case (Some c)
    with free_slot_ok [OF ok x, of c it] Pair x show ?thesis
      by (auto simp: ContainerImpl_DeleteConnection_def vec_at_def)
  qed
qed

lemma RefreshTime_ok:
  assumes ok: "container_ok ct" and x: "unat x < length (ct_mgr ct)"
  shows "\<exists>ct'. ContainerImpl_RefreshTime now x ct = Some ct' \<and> container_ok ct'
    \<and> length (ct_mgr ct') = length (ct_mgr ct) \<and> map fst (ct_mgr ct') = map fst (ct_mgr ct)"
proof (cases "ct_mgr ct ! unat x")
  case (Pair con it)
  show ?thesis
  proof (cases con)
    case None
    with x ok Pair show ?thesis by (simp add: ContainerImpl_RefreshTime_def vec_at_def)
  next
    case (Some c)
    have s: "ct_mgr ct ! unat x = (Some c, it)" using Pair Some by simp
    from ok have sh: "table_shape (ct_mgr ct) (ct_timeout_records ct) (ct_free_index_list ct)"
      by (simp add: container_ok_def)
    from shape_refresh [OF sh x s, of "deadline now ct"] obtain nxt tr1 it' tr2 where
      r: "mm_erase it (ct_timeout_records ct) = Some (nxt, tr1)" "mm_insert (deadline now ct) x tr1 = (it', tr2)"
        "table_shape ((ct_mgr ct)[unat x := (Some c, it')]) tr2 (ct_free_index_list ct)" by blast
    have "conns_ok ((ct_mgr ct)[unat x := (Some c, it')]) (ct_net ct)"
      using ok container_ok_slot [OF ok x s] by (intro conns_ok_update) (auto simp: container_ok_def)
    moreover have "map fst ((ct_mgr ct)[unat x := (Some c, it')]) = map fst (ct_mgr ct)"
      using x s by (metis fst_conv list_update_id map_update)
    ultimately show ?thesis
      using x s r ok by (simp add: ContainerImpl_RefreshTime_def vec_at_def container_ok_def msgs_ok_def)
  qed
qed

section \<open>Closing\<close>

lemma close_connection_ok:
  assumes ok: "container_ok ct" and x: "unat x < length (ct_mgr ct)" and s: "ct_mgr ct ! unat x = (Some c, it)"
  shows "\<exists>ct'. close_connection notify ev x c ct = Some ct' \<and> container_ok ct'
    \<and> ct_mgr ct' = (ct_mgr ct)[unat x := (None, None)]"
proof -
  obtain c1 w1 where sd: "Connection_Shutdown notify ev c (ct_net ct) = Some (c1, w1)"
    using container_ok_slot [OF ok x s] Connection_Shutdown_total by (metis conn_ok_def not_None_eq)
  then obtain ct1 where w: "with_net (Connection_Shutdown notify ev c) ct = Some (c1, ct1)"
    by (simp add: with_net_def)
  note wn = with_net_ok [OF ok w _ x s, of c1]
  have st: "\<And>w. Connection_Shutdown notify ev c (ct_net ct) = Some (c1, w) \<Longrightarrow> conn_step c (ct_net ct) c1 w"
    by (rule Shutdown_step)
  from wn [OF st] DeleteConnection_ok [of "put_connection x c1 ct1" x] x obtain ct' where
    d: "ContainerImpl_DeleteConnection x (put_connection x c1 ct1) = Some ct'" "container_ok ct'"
      "ct_mgr ct' = (ct_mgr (put_connection x c1 ct1))[unat x := (None, None)]" by auto
  moreover have "(ct_mgr (put_connection x c1 ct1))[unat x := (None, None)] = (ct_mgr ct)[unat x := (None, None)]"
    using wn(2) [OF st] by (simp add: put_connection_def)
  ultimately show ?thesis using w by (auto simp: close_connection_def)
qed

text \<open>The handlers that end a connection.\<close>

lemma OnErrorEvent_ok:
  assumes "container_ok ct" and "unat x < length (ct_mgr ct)"
  shows "\<exists>ct'. ContainerImpl_OnErrorEvent x d ct = Some ct' \<and> container_ok ct'
    \<and> ct_mgr ct' = (ct_mgr ct)[unat x := (None, None)]"
proof (cases "ct_mgr ct ! unat x")
  case (Pair con it)
  show ?thesis
  proof (cases con)
    case None
    from assms have "slot_ok (ct_mgr ct ! unat x) x (ct_timeout_records ct) (ct_free_index_list ct)"
      by (simp add: container_ok_def table_shape_def)
    with None Pair have "ct_mgr ct ! unat x = (None, None)" by (simp add: slot_ok_def)
    with assms Pair None show ?thesis
      by (simp add: ContainerImpl_OnErrorEvent_def ContainerImpl_GetConnection_def vec_at_def) (metis list_update_id)
  next
    case (Some c)
    with close_connection_ok [OF assms, of c it] Pair assms show ?thesis
      by (auto simp: ContainerImpl_OnErrorEvent_def ContainerImpl_GetConnection_def vec_at_def Let_def)
  qed
qed

lemma CheckConnectionId_Build:
  assumes "unat x < max_container_size (ct_option ct)" and "max_container_size (ct_option ct) < 4294967296"
  shows "ContainerImpl_CheckConnectionId (BuildConnectionId (ct_magic_number ct) p x) ct = Some x"
proof -
  have ne: "x \<noteq> InvalidIndex"
  proof
    assume "x = InvalidIndex"
    then have "unat x = 4294967295" by (simp add: InvalidIndex_def unsigned_minus_1_eq_mask mask_eq_exp_minus_1)
    with assms show False by simp
  qed
  then have "BuildConnectionId (ct_magic_number ct) p x \<noteq> InvalidConnectionId"
    by (simp add: Build_Invalid_iff InvalidIndex_def)
  with ne assms show ?thesis by (simp add: ContainerImpl_CheckConnectionId_def)
qed

end
