(* ===== verification/ContainerOps.thy ===== *)
theory ContainerOps
  imports ContainerInv
begin

text \<open>
  The operations of the container on a well-formed table: attaching, socket events, the idle check,
  the application thread, and the life cycle; then the properties of the container.
\<close>

section \<open>Attaching\<close>

text \<open>What an endpoint looks like once it is attached in slot \<open>x\<close>.\<close>

definition attached :: "container \<Rightarrow> addr \<Rightarrow> u32 \<Rightarrow> bool" where
  "attached ct ep x \<longleftrightarrow> unat x < length (ct_mgr ct)
     \<and> (\<exists>c it. ct_mgr ct ! unat x = (Some c, it) \<and> c_endpoint c = ep)
     \<and> (\<exists>e. n_eps (ct_net ct) ep = Some e \<and> ei_container e = Some (ct_self ct)
          \<and> ei_connection_id e = BuildConnectionId (ct_magic_number ct) (ei_listen_port e) x)"

lemma Connection_Init_eval:
  "n_eps w (c_endpoint c) = Some e \<Longrightarrow> \<exists>acts. Connection_Init t b c w
     = Some (c\<lparr>c_service := True, c_recv_thread := Some t, c_send_thread := Some b\<rparr>, net_sys acts w)"
  by (auto simp: Connection_Init_def net_sys_def)

lemma attach_slot_ok:
  assumes sh: "table_shape (ct_mgr ct) (ct_timeout_records ct) (x # ct_free_index_list ct)"
    and co: "conns_ok (ct_mgr ct) (ct_net ct)" and obj: "n_eps (ct_net ct) ep = Some obj"
    and mx: "length (ct_mgr ct) \<le> max_container_size (ct_option ct)" "max_container_size (ct_option ct) < 4294967296"
    and ms: "msgs_ok ct ms"
  shows "\<exists>ct' c it. attach_slot now ep x ct = Some ct' \<and> container_ok ct' \<and> attached ct' ep x \<and> msgs_ok ct' ms
    \<and> ct_mgr ct' = (ct_mgr ct)[unat x := (Some c, it)] \<and> ct_free_index_list ct' = ct_free_index_list ct
    \<and> ct_magic_number ct' = ct_magic_number ct
    \<and> (\<forall>a. a \<noteq> ep \<longrightarrow> n_eps (ct_net ct') a = n_eps (ct_net ct) a)
    \<and> ei_connection_id (the (n_eps (ct_net ct') ep)) = BuildConnectionId (ct_magic_number ct) (ei_listen_port obj) x"
proof -
  define obj' where "obj' = EndpointImpl_SetContainer (Some (ct_self ct))
     (EndpointImpl_SetConnection (BuildConnectionId (ct_magic_number ct) (EndpointImpl_GetListenPort obj) x) obj)"
  define w1 where "w1 = net_set_ep ep obj' (ct_net ct)"
  obtain it tr where ins: "mm_insert (deadline now ct) x (ct_timeout_records ct) = (it, tr)" by fastforce
  note at = shape_attach [OF sh ins]
  obtain con0 w2 where new: "Connection_new ep w1 = (con0, w2)" by fastforce
  have con0: "c_endpoint con0 = ep" "n_eps w2 = n_eps w1" using new by (auto simp: Connection_new_def)
  let ?con1 = "Connection_SetProtocol (proto_handler (ct_option ct)) con0"
  have e: "n_eps w2 (c_endpoint ?con1) = Some obj'" using con0 by (simp add: Connection_SetProtocol_def w1_def)
  from Connection_Init_eval [OF e, of RecvThread SendThread] obtain acts where
    ini: "Connection_Init RecvThread SendThread ?con1 w2 = Some (?con1\<lparr>c_service := True,
       c_recv_thread := Some RecvThread, c_send_thread := Some SendThread\<rparr>, net_sys acts w2)" by blast
  define con where "con = ?con1\<lparr>c_service := True, c_recv_thread := Some RecvThread, c_send_thread := Some SendThread\<rparr>"
  define tm where "tm = (case heartbeat_handler (ct_option ct) of
       Some interval \<Rightarrow> map_option (Timer_SetTimer now x (c_handle_id con) (of_nat interval)) (ct_timer_thread ct)
     | None \<Rightarrow> ct_timer_thread ct)"
  define ct' where "ct' = ct\<lparr>ct_net := net_sys acts w2, ct_timeout_records := tr,
     ct_mgr := (ct_mgr ct)[unat x := (Some con, it)], ct_timer_thread := tm\<rparr>"
  have dl: "deadline now (ct\<lparr>ct_net := w1\<rparr>) = deadline now ct" by (simp add: deadline_def)
  have "attach_slot now ep x ct = Some ct'"
    using obj at(1) new ini ins dl
    by (simp add: attach_slot_def obj'_def [symmetric] w1_def [symmetric] vec_at_def con_def [symmetric]
        ct'_def tm_def split: option.splits)
  moreover have eps: "n_eps (ct_net ct') = (n_eps (ct_net ct))(ep \<mapsto> obj')"
    using con0 by (simp add: ct'_def w1_def)
  have "conn_ok (ct_net ct') con" using eps con0 by (simp add: conn_ok_def con_def conn_ready_def Connection_SetProtocol_def)
  then have "conns_ok (ct_mgr ct') (ct_net ct')"
  proof -
    assume c: "conn_ok (ct_net ct') con"
    have "conns_ok (ct_mgr ct) (ct_net ct')" using co eps by (auto simp: conns_ok_def conn_ok_def)
    then have "conns_ok ((ct_mgr ct)[unat x := (Some con, it)]) (ct_net ct')"
      by (rule conns_ok_update) (use c in simp)
    then show ?thesis by (simp add: ct'_def)
  qed
  then have "container_ok ct'"
    using at(3) [of con] mx ms by (auto simp: container_ok_def ct'_def msgs_ok_def)
  moreover have "attached ct' ep x"
    using at(1) eps con0 by (simp add: attached_def ct'_def con_def Connection_SetProtocol_def obj'_def
        EndpointImpl_SetContainer_def EndpointImpl_SetConnection_def EndpointImpl_GetListenPort_def)
  moreover have "msgs_ok ct' ms" using ms by (simp add: msgs_ok_def ct'_def)
  moreover have "ei_connection_id (the (n_eps (ct_net ct') ep)) = BuildConnectionId (ct_magic_number ct) (ei_listen_port obj) x"
    using eps by (simp add: obj'_def EndpointImpl_SetContainer_def EndpointImpl_SetConnection_def EndpointImpl_GetListenPort_def)
  ultimately show ?thesis
    using eps by (intro exI [of _ ct'] exI [of _ con] exI [of _ it]) (simp add: ct'_def)
qed

lemma expand_table_ok:
  assumes ok: "container_ok ct" and fr: "ct_free_index_list ct = []"
    and room: "length (ct_mgr ct) < max_container_size (ct_option ct)" and ne: "ct_mgr ct \<noteq> []"
  shows "container_ok (expand_table ct)" and "ct_free_index_list (expand_table ct) \<noteq> []"
    and "\<exists>k. ct_mgr (expand_table ct) = ct_mgr ct @ replicate k (None, None)"
    and "length (ct_mgr (expand_table ct)) = min (2 * length (ct_mgr ct)) (max_container_size (ct_option ct))"
proof -
  define n where "n = (if length (ct_mgr ct) * 2 < max_container_size (ct_option ct)
     then length (ct_mgr ct) * 2 else max_container_size (ct_option ct))"
  have n: "length (ct_mgr ct) < n" "n \<le> max_container_size (ct_option ct)" "n < 4294967296"
    using room ne ok by (auto simp: n_def container_ok_def)
  have ex: "expand_table ct = ct\<lparr>ct_mgr := ct_mgr ct @ replicate (n - length (ct_mgr ct)) (None, None),
       ct_free_index_list := map of_nat [length (ct_mgr ct)..<n]\<rparr>"
    using n(1) fr by (simp add: expand_table_def n_def [symmetric] Let_def)
  have "conns_ok (ct_mgr ct @ replicate (n - length (ct_mgr ct)) (None, None)) (ct_net ct)"
    using ok by (auto simp: container_ok_def conns_ok_def)
  then show "container_ok (expand_table ct)"
    using ok fr n shape_expand [of "ct_mgr ct" "ct_timeout_records ct" n]
    by (auto simp: container_ok_def ex msgs_ok_def)
  show "ct_free_index_list (expand_table ct) \<noteq> []" using n(1) by (simp add: ex)
  show "\<exists>k. ct_mgr (expand_table ct) = ct_mgr ct @ replicate k (None, None)" by (auto simp: ex)
  show "length (ct_mgr (expand_table ct)) = min (2 * length (ct_mgr ct)) (max_container_size (ct_option ct))"
    using n(1) room by (simp add: ex) (auto simp: n_def)
qed

lemma AttachEndpointImpl_ok:
  assumes ok: "container_ok ct" and obj: "n_eps (ct_net ct) ep = Some obj"
    and room: "ct_free_index_list ct \<noteq> [] \<or> length (ct_mgr ct) < max_container_size (ct_option ct)"
    and ne: "ct_mgr ct \<noteq> []"
  shows "\<exists>ct' x. ContainerImpl_AttachEndpointImpl now ep ct = Some (RAPTOR_ERROR_NONE, ct') \<and> container_ok ct'
    \<and> attached ct' ep x \<and> (unat x \<ge> length (ct_mgr ct) \<or> fst (ct_mgr ct ! unat x) = None)
    \<and> (\<exists>k c it. ct_mgr ct' = (ct_mgr ct @ replicate k (None, None))[unat x := (Some c, it)]
         \<and> unat x < length (ct_mgr ct @ replicate k (None, None)))
    \<and> (\<forall>a. a \<noteq> ep \<longrightarrow> n_eps (ct_net ct') a = n_eps (ct_net ct) a)"
proof -
  define ct1 where "ct1 = (if ct_free_index_list ct = [] then expand_table ct else ct)"
  have ok1: "container_ok ct1" and f1: "ct_free_index_list ct1 \<noteq> []"
    using expand_table_ok [OF ok _ _ ne] ok room by (auto simp: ct1_def)
  then obtain x rest where x: "ct_free_index_list ct1 = x # rest" by (cases "ct_free_index_list ct1") auto
  have obj1: "n_eps (ct_net ct1) ep = Some obj" using obj by (simp add: ct1_def expand_table_def Let_def)
  obtain ms where ms: "msgs_ok ct1 ms" using ok1 by (auto simp: container_ok_def)
  have "fst (ct_mgr ct1 ! unat x) = None" and xl: "unat x < length (ct_mgr ct1)"
  proof -
    have xl: "unat x < length (ct_mgr ct1)" "slot_ok (ct_mgr ct1 ! unat x) x (ct_timeout_records ct1) (x # rest)"
      using ok1 x by (auto simp: container_ok_def table_shape_def)
    then show "unat x < length (ct_mgr ct1)" "fst (ct_mgr ct1 ! unat x) = None"
      by (auto simp: slot_ok_def split: option.splits)
  qed
  moreover obtain k where k: "ct_mgr ct1 = ct_mgr ct @ replicate k (None, None)"
  proof (cases "ct_free_index_list ct = []")
    case True
    with expand_table_ok(3) [OF ok True _ ne] room that show ?thesis by (auto simp: ct1_def)
  next
    case False
    with that [of 0] show ?thesis by (simp add: ct1_def)
  qed
  ultimately have free: "unat x \<ge> length (ct_mgr ct) \<or> fst (ct_mgr ct ! unat x) = None"
    by (cases "unat x < length (ct_mgr ct)") (simp_all add: nth_append)
  let ?ct = "ct1\<lparr>ct_free_index_list := rest\<rparr>"
  have pre: "table_shape (ct_mgr ?ct) (ct_timeout_records ?ct) (x # ct_free_index_list ?ct)"
    "conns_ok (ct_mgr ?ct) (ct_net ?ct)" "n_eps (ct_net ?ct) ep = Some obj"
    "length (ct_mgr ?ct) \<le> max_container_size (ct_option ?ct)" "max_container_size (ct_option ?ct) < 4294967296"
    "msgs_ok ?ct ms"
    using ok1 x obj1 ms by (simp_all add: container_ok_def msgs_ok_def)
  obtain ct' c it where ct': "attach_slot now ep x ?ct = Some ct'" "container_ok ct'" "attached ct' ep x"
    and mg: "ct_mgr ct' = (ct_mgr ?ct)[unat x := (Some c, it)]"
      "\<forall>a. a \<noteq> ep \<longrightarrow> n_eps (ct_net ct') a = n_eps (ct_net ?ct) a"
    using attach_slot_ok [OF pre, of now] by blast
  have net1: "ct_net ct1 = ct_net ct" by (simp add: ct1_def expand_table_def Let_def)
  have full: "\<not> (ct_free_index_list ct = [] \<and> length (ct_mgr ct) \<ge> max_container_size (ct_option ct))"
    using room by auto
  have "ContainerImpl_AttachEndpointImpl now ep ct = Some (RAPTOR_ERROR_NONE, ct')"
    unfolding ContainerImpl_AttachEndpointImpl_def if_not_P [OF full] ct1_def [symmetric] Let_def
    using x ct'(1) by simp
  moreover have "ct_mgr ct' = (ct_mgr ct @ replicate k (None, None))[unat x := (Some c, it)]"
    "unat x < length (ct_mgr ct @ replicate k (None, None))" "\<forall>a. a \<noteq> ep \<longrightarrow> n_eps (ct_net ct') a = n_eps (ct_net ct) a"
    using mg k xl net1 by simp_all
  ultimately show ?thesis using ct' free by blast
qed

section \<open>Events\<close>

lemma GetConnection_Some:
  "ContainerImpl_GetConnection x ct = Some con \<Longrightarrow> unat x < length (ct_mgr ct) \<and> fst (ct_mgr ct ! unat x) = con"
  by (auto simp: ContainerImpl_GetConnection_def)

lemma GetConnection_in_range:
  "unat x < length (ct_mgr ct) \<Longrightarrow> ContainerImpl_GetConnection x ct = Some (fst (ct_mgr ct ! unat x))"
  by (simp add: ContainerImpl_GetConnection_def vec_at_def)

text \<open>The common part of the receive and send events: run the connection, then refresh or close.\<close>

lemma finish_event_ok:
  assumes ok: "container_ok ct" and x: "unat x < length (ct_mgr ct)" and s: "ct_mgr ct ! unat x = (Some c, it)"
    and f: "with_net f ct = Some ((err, c1), ct1)"
    and step: "\<And>w. f (ct_net ct) = Some ((err, c1), w) \<Longrightarrow> conn_step c (ct_net ct) c1 w"
  shows "\<exists>ct'. (if err = RAPTOR_ERROR_NONE then ContainerImpl_RefreshTime now x (put_connection x c1 ct1)
              else close_connection True ev x c1 (put_connection x c1 ct1)) = Some ct' \<and> container_ok ct'"
proof -
  note wn = with_net_ok [OF ok f step x s]
  have x': "unat x < length (ct_mgr (put_connection x c1 ct1))" using wn(4) x by simp
  show ?thesis
  proof (cases "err = RAPTOR_ERROR_NONE")
    case True
    with RefreshTime_ok [OF wn(1) x'] show ?thesis by auto
  next
    case False
    with close_connection_ok [OF wn(1) x' wn(3)] show ?thesis by auto
  qed
qed

lemma OnRecvEvent_ok:
  assumes ok: "container_ok ct" and ev: "ContainerImpl_OnRecvEvent os x ct = Some ct'"
  shows "container_ok ct'"
proof -
  from ev obtain con where con: "ContainerImpl_GetConnection x ct = Some con" by (auto simp: ContainerImpl_OnRecvEvent_def)
  note g = GetConnection_Some [OF con]
  show ?thesis
  proof (cases con)
    case None
    with ev con ok show ?thesis by (simp add: ContainerImpl_OnRecvEvent_def)
  next
    case (Some c)
    define f where "f = (\<lambda>w. map_option (\<lambda>(e, c1, w1). ((e, c1), w1)) (Connection_DoRecvEvent (eo_err os) (eo_recv os) c w))"
    from ev con Some obtain err c1 ct1 where f: "with_net f ct = Some ((err, c1), ct1)"
      and r: "(if err = RAPTOR_ERROR_NONE then ContainerImpl_RefreshTime (eo_now os) x (put_connection x c1 ct1)
              else close_connection True (Event_new kSocketError err) x c1 (put_connection x c1 ct1)) = Some ct'"
      by (auto simp: ContainerImpl_OnRecvEvent_def f_def Let_def)
    have st: "\<And>w. f (ct_net ct) = Some ((err, c1), w) \<Longrightarrow> conn_step c (ct_net ct) c1 w"
      by (auto simp: f_def dest: DoRecvEvent_step)
    have sl: "ct_mgr ct ! unat x = (Some c, snd (ct_mgr ct ! unat x))" using g Some by (simp add: prod_eq_iff)
    show ?thesis
      using finish_event_ok [OF ok conjunct1 [OF g] sl f st, of "eo_now os" "Event_new kSocketError err"] r by simp
  qed
qed

lemma OnSendEvent_ok:
  assumes ok: "container_ok ct" and ev: "ContainerImpl_OnSendEvent os x ct = Some ct'"
  shows "container_ok ct'"
proof -
  from ev obtain con where con: "ContainerImpl_GetConnection x ct = Some con" by (auto simp: ContainerImpl_OnSendEvent_def)
  note g = GetConnection_Some [OF con]
  show ?thesis
  proof (cases con)
    case None
    with ev con ok show ?thesis by (simp add: ContainerImpl_OnSendEvent_def)
  next
    case (Some c)
    define f where "f = (\<lambda>w. map_option (\<lambda>(e, c1, w1). ((e, c1), w1)) (Connection_DoSendEvent (eo_send os) c w))"
    from ev con Some obtain err c1 ct1 where f: "with_net f ct = Some ((err, c1), ct1)"
      and r: "(if err = RAPTOR_ERROR_NONE then ContainerImpl_RefreshTime (eo_now os) x (put_connection x c1 ct1)
              else close_connection True (Event_new kSocketError err) x c1 (put_connection x c1 ct1)) = Some ct'"
      by (auto simp: ContainerImpl_OnSendEvent_def f_def Let_def)
    have st: "\<And>w. f (ct_net ct) = Some ((err, c1), w) \<Longrightarrow> conn_step c (ct_net ct) c1 w"
      by (auto simp: f_def dest: DoSendEvent_step)
    have sl: "ct_mgr ct ! unat x = (Some c, snd (ct_mgr ct ! unat x))" using g Some by (simp add: prod_eq_iff)
    show ?thesis
      using finish_event_ok [OF ok conjunct1 [OF g] sl f st, of "eo_now os" "Event_new kSocketError err"] r by simp
  qed
qed

lemma OnEventProcess_ok:
  assumes "container_ok ct" and "ContainerImpl_OnEventProcess os d ct = Some ct'"
  shows "container_ok ct'"
proof -
  have err: "container_ok ct'" if "ContainerImpl_OnErrorEvent x dd ct = Some ct'" for x dd
  proof -
    from that obtain con where "ContainerImpl_GetConnection x ct = Some con" by (auto simp: ContainerImpl_OnErrorEvent_def)
    from GetConnection_Some [OF this] OnErrorEvent_ok [OF assms(1), of x dd] that show ?thesis by auto
  qed
  from assms show ?thesis
    by (auto simp: ContainerImpl_OnEventProcess_def split: option.splits if_splits
        dest: err OnRecvEvent_ok OnSendEvent_ok)
qed

lemma SendMsg_ok:
  assumes ok: "container_ok ct" and sm: "ContainerImpl_SendMsg cid s ct = Some (r, ct')"
  shows "container_ok ct'"
proof (cases "ContainerImpl_CheckConnectionId cid ct")
  case None
  with ok sm show ?thesis by (simp add: ContainerImpl_SendMsg_def)
next
  case (Some x)
  with sm obtain con where con: "ContainerImpl_GetConnection x ct = Some con" by (auto simp: ContainerImpl_SendMsg_def)
  note g = GetConnection_Some [OF con]
  show ?thesis
  proof (cases con)
    case None
    with sm con Some ok show ?thesis by (simp add: ContainerImpl_SendMsg_def)
  next
    case c: (Some c)
    define f where "f = (\<lambda>w. map_option (\<lambda>(r, c1, w1). ((r, c1), w1)) (Connection_SendMsg s c w))"
    from sm con Some c obtain c1 ct1 where f: "with_net f ct = Some ((r, c1), ct1)" "ct' = put_connection x c1 ct1"
      by (auto simp: ContainerImpl_SendMsg_def f_def)
    have st: "\<And>w. f (ct_net ct) = Some ((r, c1), w) \<Longrightarrow> conn_step c (ct_net ct) c1 w"
      by (auto simp: f_def dest: SendMsg_step)
    have sl: "ct_mgr ct ! unat x = (Some c, snd (ct_mgr ct ! unat x))" using g c by (simp add: prod_eq_iff)
    from with_net_ok(1) [OF ok f(1) st _ sl] g f(2) show ?thesis by simp
  qed
qed

lemma CloseEndpoint_ok:
  assumes ok: "container_ok ct" and cl: "ContainerImpl_CloseEndpoint ep notify ct = Some ct'"
  shows "container_ok ct'"
proof -
  from cl obtain obj where obj: "n_eps (ct_net ct) ep = Some obj" by (auto simp: ContainerImpl_CloseEndpoint_def)
  show ?thesis
  proof (cases "ContainerImpl_CheckConnectionId (EndpointImpl_ConnectionId obj) ct")
    case None
    with ok cl obj show ?thesis by (simp add: ContainerImpl_CloseEndpoint_def)
  next
    case (Some x)
    with cl obj obtain con where con: "ContainerImpl_GetConnection x ct = Some con"
      by (auto simp: ContainerImpl_CloseEndpoint_def)
    note g = GetConnection_Some [OF con]
    show ?thesis
    proof (cases con)
      case None
      with cl con Some ok obj show ?thesis by (simp add: ContainerImpl_CloseEndpoint_def)
    next
      case c: (Some c)
      have sl: "ct_mgr ct ! unat x = (Some c, snd (ct_mgr ct ! unat x))" using g c by (simp add: prod_eq_iff)
      have "close_connection notify Event_default x c ct = Some ct'"
        using cl con Some c obj by (simp add: ContainerImpl_CloseEndpoint_def)
      with close_connection_ok [OF ok conjunct1 [OF g] sl, of notify Event_default] show ?thesis by auto
    qed
  qed
qed

section \<open>The idle check\<close>

lemma timeout_slot_ok:
  assumes ok: "container_ok ct" and mem: "(i, k, x) \<in> mm_set (ct_timeout_records ct)"
  shows "\<exists>ct'. timeout_slot x ct = Some ct' \<and> container_ok ct'
    \<and> ct_mgr ct' = (ct_mgr ct)[unat x := (None, None)] \<and> unat x < length (ct_mgr ct)
    \<and> mm_nodes (ct_timeout_records ct') = filter (\<lambda>m. fst m \<noteq> i) (mm_nodes (ct_timeout_records ct))"
proof -
  from ok mem have x: "unat x < length (ct_mgr ct)" and it: "snd (ct_mgr ct ! unat x) = Some i"
    and so: "slot_ok (ct_mgr ct ! unat x) x (ct_timeout_records ct) (ct_free_index_list ct)"
    by (auto simp: container_ok_def table_shape_def)
  then obtain c where s: "ct_mgr ct ! unat x = (Some c, Some i)"
    by (cases "ct_mgr ct ! unat x") (auto simp: slot_ok_def split: option.splits)
  obtain c1 w1 where sd: "Connection_Shutdown True timeout_event c (ct_net ct) = Some (c1, w1)"
    using container_ok_slot [OF ok x s] Connection_Shutdown_total by (metis conn_ok_def not_None_eq)
  then obtain ct1 where w: "with_net (Connection_Shutdown True timeout_event c) ct = Some (c1, ct1)"
    and tr: "ct_timeout_records ct1 = ct_timeout_records ct"
    by (simp add: with_net_def)
  have st: "\<And>w. Connection_Shutdown True timeout_event c (ct_net ct) = Some (c1, w) \<Longrightarrow> conn_step c (ct_net ct) c1 w"
    by (rule Shutdown_step)
  note wn = with_net_ok [OF ok w st x s]
  have x': "unat x < length (ct_mgr (put_connection x c1 ct1))" using wn(4) x by simp
  have tr': "ct_timeout_records (put_connection x c1 ct1) = ct_timeout_records ct"
    using tr by (simp add: put_connection_def)
  from free_slot_ok [OF wn(1) x' wn(3)] obtain ct' where
    f: "free_slot x (put_connection x c1 ct1) = Some ct'" "container_ok ct'"
      "ct_mgr ct' = (ct_mgr (put_connection x c1 ct1))[unat x := (None, None)]"
      "mm_nodes (ct_timeout_records ct') = filter (\<lambda>m. fst m \<noteq> i) (mm_nodes (ct_timeout_records ct))"
    using tr' by auto
  have "(ct_mgr (put_connection x c1 ct1))[unat x := (None, None)] = (ct_mgr ct)[unat x := (None, None)]"
    using wn(2) by (simp add: put_connection_def)
  with f x s w show ?thesis by (auto simp: timeout_slot_def vec_at_def)
qed

text \<open>The loop removes exactly the due records and empties exactly their slots.\<close>

lemma timeout_loop_ok:
  assumes "container_ok ct" and "mm_nodes (ct_timeout_records ct) = ns"
  shows "\<exists>ct'. timeout_loop (length ns) now (first_iter ns) ct = Some ct' \<and> container_ok ct'
    \<and> mm_nodes (ct_timeout_records ct') = filter (\<lambda>n. now < node_key n) ns
    \<and> length (ct_mgr ct') = length (ct_mgr ct)
    \<and> (\<forall>x. unat x < length (ct_mgr ct) \<longrightarrow> ct_mgr ct' ! unat x =
         (if \<exists>i k. (i, k, x) \<in> set ns \<and> k \<le> now then (None, None) else ct_mgr ct ! unat x))"
  using assms
proof (induction ns arbitrary: ct)
  case Nil
  then show ?case by (simp add: timeout_loop.simps first_iter_def)
next
  case (Cons n ns)
  obtain i k x where n: "n = (i, k, x)" by (cases n) auto
  have mok: "mm_ok (ct_timeout_records ct)" using Cons.prems(1) by (simp add: container_ok_def table_shape_def)
  note head = mm_head [OF mok Cons.prems(2) [unfolded n]]
  show ?case
  proof (cases "k > now")
    case True
    then have late: "\<forall>m \<in> set (n # ns). now < node_key m" using head(5) n by (auto simp: node_key_def)
    then have "filter (\<lambda>m. now < node_key m) (n # ns) = n # ns" by (simp add: filter_id_conv)
    moreover have "\<not> (\<exists>i k. (i, k, y) \<in> set (n # ns) \<and> k \<le> now)" for y
      using late by (force simp: node_key_def)
    moreover have "timeout_loop (length (n # ns)) now (first_iter (n # ns)) ct = Some ct"
      using True head(2) n by (simp add: timeout_loop.simps first_iter_def)
    ultimately show ?thesis using Cons.prems by (simp only: if_False) blast
  next
    case False
    have "(i, k, x) \<in> mm_set (ct_timeout_records ct)" using Cons.prems(2) n by (simp add: mm_set_def)
    from timeout_slot_ok [OF Cons.prems(1) this] head(4) obtain ct1 where
      t: "timeout_slot x ct = Some ct1" "container_ok ct1" "ct_mgr ct1 = (ct_mgr ct)[unat x := (None, None)]"
        "unat x < length (ct_mgr ct)" "mm_nodes (ct_timeout_records ct1) = ns" by auto
    from Cons.IH [OF t(2,5)] obtain ct' where
      IH: "timeout_loop (length ns) now (first_iter ns) ct1 = Some ct'" "container_ok ct'"
        "mm_nodes (ct_timeout_records ct') = filter (\<lambda>n. now < node_key n) ns"
        "length (ct_mgr ct') = length (ct_mgr ct1)"
        "\<forall>y. unat y < length (ct_mgr ct1) \<longrightarrow> ct_mgr ct' ! unat y =
           (if \<exists>i k. (i, k, y) \<in> set ns \<and> k \<le> now then (None, None) else ct_mgr ct1 ! unat y)" by blast
    have "timeout_loop (length (n # ns)) now (first_iter (n # ns)) ct = Some ct'"
      using False head(2,3) n t(1) IH(1) by (subst timeout_loop.simps) (simp add: first_iter_def)
    moreover have "ct_mgr ct' ! unat y = (if \<exists>i k. (i, k, y) \<in> set (n # ns) \<and> k \<le> now then (None, None) else ct_mgr ct ! unat y)"
      if y: "unat y < length (ct_mgr ct)" for y
    proof (cases "y = x")
      case True
      have "k \<le> now" using False by simp
      then have "\<exists>i k. (i, k, y) \<in> set (n # ns) \<and> k \<le> now" using True n by auto
      moreover have "ct_mgr ct' ! unat y = (None, None)" using IH(5) t(3,4) True by auto
      ultimately show ?thesis by (simp only: if_True)
    next
      case ne: False
      then have "ct_mgr ct1 ! unat y = ct_mgr ct ! unat y" using t(3) by (simp add: unat_eq_iff)
      moreover have "(\<exists>i k. (i, k, y) \<in> set (n # ns) \<and> k \<le> now) = (\<exists>i k. (i, k, y) \<in> set ns \<and> k \<le> now)"
        using ne n by auto
      moreover have "ct_mgr ct' ! unat y = (if \<exists>i k. (i, k, y) \<in> set ns \<and> k \<le> now then (None, None) else ct_mgr ct1 ! unat y)"
        using IH(5) t(3) y by simp
      ultimately show ?thesis by (simp only:)
    qed
    ultimately show ?thesis using IH(2-4) t(3) False n by (simp add: node_key_def)
  qed
qed

lemma OnTimeoutCheck_ok:
  assumes "container_ok ct" and "3000 \<le> now - ct_last_check_time ct"
  shows "\<exists>ct'. ContainerImpl_OnTimeoutCheck now ct = Some ct' \<and> container_ok ct'
    \<and> mm_nodes (ct_timeout_records ct') = filter (\<lambda>n. now < node_key n) (mm_nodes (ct_timeout_records ct))
    \<and> length (ct_mgr ct') = length (ct_mgr ct)
    \<and> (\<forall>x. unat x < length (ct_mgr ct) \<longrightarrow> ct_mgr ct' ! unat x =
         (if \<exists>i k. (i, k, x) \<in> mm_set (ct_timeout_records ct) \<and> k \<le> now then (None, None) else ct_mgr ct ! unat x))"
proof -
  have ok1: "container_ok (ct\<lparr>ct_last_check_time := now\<rparr>)" using assms(1) by (simp add: container_ok_def msgs_ok_def)
  have mg: "ct_mgr (ct\<lparr>ct_last_check_time := now\<rparr>) = ct_mgr ct"
    and tr: "ct_timeout_records (ct\<lparr>ct_last_check_time := now\<rparr>) = ct_timeout_records ct" by simp_all
  have run: "ContainerImpl_OnTimeoutCheck now ct = timeout_loop (length (mm_nodes (ct_timeout_records ct))) now
      (first_iter (mm_nodes (ct_timeout_records ct))) (ct\<lparr>ct_last_check_time := now\<rparr>)"
    using assms(2) by (simp add: ContainerImpl_OnTimeoutCheck_def Let_def mm_begin_def)
  show ?thesis
    using timeout_loop_ok [OF ok1 refl, of now] unfolding mg tr run mm_set_def .
qed

end
