(* ===== verification/ContainerLife.thy ===== *)
theory ContainerLife
  imports ContainerOps
begin

text \<open>
  The application side and the life cycle of the container: delivery of the queued messages,
  \<open>Init\<close>, \<open>Shutdown\<close>, and the reachable states of a running container.
\<close>

section \<open>Delivery to the application\<close>

definition app_call_of :: "TcpMessageNode \<Rightarrow> app_call" where
  "app_call_of m =
     (case mn_type m of
        kRecvAMessage \<Rightarrow> App_OnMessage (mn_ep m) (mn_slice m)
      | kCloseEvent \<Rightarrow> App_OnClosed (mn_ep m) (mn_event m)
      | kHeartbeatEvent \<Rightarrow> App_OnHeartbeat (mn_ep m)
      | kEndpointNotify \<Rightarrow> App_OnNotify (mn_ep m))"

lemma Dispatch_deliverable:
  "deliverable (ct_option ct) m \<Longrightarrow>
    ContainerImpl_Dispatch m ct = Some (ct\<lparr>ct_app := ct_app ct @ [app_call_of m]\<rparr>)"
  by (auto simp: ContainerImpl_Dispatch_def deliverable_def app_call_of_def split: TcpMessageType.splits)

lemma MessageQueueThread_round_ok:
  assumes ms: "msgs_ok ct (m # ms)" and h: "msg_handler (ct_option ct)"
  shows "\<exists>mq. MessageQueueThread_round ct = Some (ct\<lparr>ct_mq := mq, ct_count := ct_count ct - 1,
             ct_app := ct_app ct @ [app_call_of m]\<rparr>)
           \<and> msgs_ok (ct\<lparr>ct_mq := mq, ct_count := ct_count ct - 1, ct_app := ct_app ct @ [app_call_of m]\<rparr>) ms"
proof -
  from ms obtain mq where mq: "mqueue_pop (ct_mq ct) = Some (Some m, mq)" "mqueue_ok mq ms"
    using mqueue.pop_spec [of "ct_mq ct" m ms] by (auto simp: msgs_ok_def)
  have d: "deliverable (ct_option ct) m" using ms h by (simp add: msgs_ok_def)
  let ?ct = "ct\<lparr>ct_mq := mq, ct_count := ct_count ct - 1\<rparr>"
  have "ContainerImpl_Dispatch m ?ct = Some (?ct\<lparr>ct_app := ct_app ?ct @ [app_call_of m]\<rparr>)"
    by (rule Dispatch_deliverable) (use d in simp)
  then have "MessageQueueThread_round ct = Some (?ct\<lparr>ct_app := ct_app ct @ [app_call_of m]\<rparr>)"
    using mq(1) by (simp add: MessageQueueThread_round_def Let_def)
  then show ?thesis using mq(2) ms h by (intro exI [of _ mq]) (simp add: msgs_ok_def)
qed

lemma of_nat_u32_nonzero: "0 < n \<Longrightarrow> n < 4294967296 \<Longrightarrow> (of_nat n :: u32) \<noteq> 0"
  using unat_of_nat_u32 [of n] by (metis less_irrefl unat_0)

text \<open>With enough rounds every queued message is delivered, in order, and nothing else changes.\<close>

lemma MessageQueueThread_ok:
  assumes "msgs_ok ct ms" and "msg_handler (ct_option ct)" and "\<not> ct_shutdown ct"
    and "length ms \<le> fuel" and "length ms < 4294967296"
  shows "\<exists>mq. MessageQueueThread fuel ct = Some (ct\<lparr>ct_mq := mq, ct_count := 0, ct_app := ct_app ct @ map app_call_of ms\<rparr>)
           \<and> msgs_ok (ct\<lparr>ct_mq := mq, ct_count := 0, ct_app := ct_app ct @ map app_call_of ms\<rparr>) []"
  using assms
proof (induction ms arbitrary: ct fuel)
  case Nil
  then have "ct_count ct = 0" by (simp add: msgs_ok_def)
  then have "ct\<lparr>ct_mq := ct_mq ct, ct_count := 0, ct_app := ct_app ct @ []\<rparr> = ct" by (cases ct) simp
  moreover have "MessageQueueThread fuel ct = Some ct" using \<open>ct_count ct = 0\<close> by (cases fuel) simp_all
  ultimately have "MessageQueueThread fuel ct = Some ct" "ct\<lparr>ct_mq := ct_mq ct, ct_count := 0, ct_app := ct_app ct @ []\<rparr> = ct"
    by blast+
  with Nil.prems show ?case by (intro exI [of _ "ct_mq ct"]) simp
next
  case (Cons m ms)
  from Cons.prems obtain f where f: "fuel = Suc f" "length ms \<le> f" by (cases fuel) auto
  have nz: "ct_count ct \<noteq> 0" using Cons.prems of_nat_u32_nonzero [of "length (m # ms)"] by (simp add: msgs_ok_def)
  from MessageQueueThread_round_ok [OF Cons.prems(1,2)] obtain mq where
    r: "MessageQueueThread_round ct = Some (ct\<lparr>ct_mq := mq, ct_count := ct_count ct - 1, ct_app := ct_app ct @ [app_call_of m]\<rparr>)"
       "msgs_ok (ct\<lparr>ct_mq := mq, ct_count := ct_count ct - 1, ct_app := ct_app ct @ [app_call_of m]\<rparr>) ms" by blast
  from Cons.IH [OF r(2), of f] Cons.prems f(2) show ?case
    using r(1) nz Cons.prems(3) f(1) by simp
qed

lemma round_keeps_ok:
  assumes ok: "container_ok ct" and h: "msg_handler (ct_option ct)"
  shows "\<exists>ct'. MessageQueueThread_round ct = Some ct' \<and> container_ok ct' \<and> ct_option ct' = ct_option ct"
proof -
  from ok obtain ms where ms: "msgs_ok ct ms" by (auto simp: container_ok_def)
  show ?thesis
  proof (cases ms)
    case Nil
    with ms have "MessageQueueThread_round ct = Some ct"
      using mqueue.pop_empty_spec [of "ct_mq ct"] by (simp add: msgs_ok_def MessageQueueThread_round_def)
    with ok show ?thesis by simp
  next
    case (Cons m ms')
    with MessageQueueThread_round_ok [of ct m ms'] ms h ok show ?thesis
      by (auto simp: container_ok_def)
  qed
qed

section \<open>Attaching and the heartbeat timer\<close>

lemma AttachEndpointImpl_keeps_ok:
  assumes ok: "container_ok ct" and r: "ContainerImpl_AttachEndpointImpl now ep ct = Some (e, ct')"
  shows "container_ok ct'"
proof (cases "ct_free_index_list ct = [] \<and> length (ct_mgr ct) \<ge> max_container_size (ct_option ct)")
  case True
  with ok r show ?thesis by (simp add: ContainerImpl_AttachEndpointImpl_def)
next
  case False
  have ne: "ct_mgr ct \<noteq> []"
  proof
    assume "ct_mgr ct = []"
    with ok have "ct_free_index_list ct = []"
      by (cases "ct_free_index_list ct") (auto simp: container_ok_def table_shape_def)
    with \<open>ct_mgr ct = []\<close> False r show False
      by (simp add: ContainerImpl_AttachEndpointImpl_def expand_table_def Let_def)
  qed
  have "\<exists>obj. n_eps (ct_net ct) ep = Some obj"
    using r False by (auto simp: ContainerImpl_AttachEndpointImpl_def attach_slot_def expand_table_def Let_def
        split: list.splits if_splits)
  then obtain obj where "n_eps (ct_net ct) ep = Some obj" by blast
  from AttachEndpointImpl_ok [OF ok this _ ne, of now] False r show ?thesis by auto
qed

lemma push_container_ok:
  assumes ok: "container_ok ct" and d: "deliverable (ct_option ct) m"
  shows "container_ok (push_message m ct)"
proof -
  from ok obtain ms where "msgs_ok ct ms" by (auto simp: container_ok_def)
  from push_message_ok [OF this d] ok show ?thesis by (auto simp: container_ok_def)
qed

lemma OnNotify_ok: "container_ok ct \<Longrightarrow> notify_handler (ct_option ct) \<Longrightarrow> container_ok (ContainerImpl_OnNotify ep ct)"
  by (simp add: ContainerImpl_OnNotify_def push_container_ok deliverable_def TcpMessageNode_new_def)

lemma OnTimerEvent_ok: "container_ok ct \<Longrightarrow> container_ok (ContainerImpl_OnTimerEvent ep ct)"
  by (simp add: ContainerImpl_OnTimerEvent_def push_container_ok deliverable_def TcpMessageNode_new_def)

lemma AttachEndpoint_keeps_ok:
  assumes "container_ok ct" and "ContainerImpl_AttachEndpoint now ep notify ct = Some (e, ct')"
  shows "container_ok ct'"
  using assms by (auto simp: ContainerImpl_AttachEndpoint_def split: if_splits
      dest: AttachEndpointImpl_keeps_ok intro: OnNotify_ok)

lemma container_ok_timer [simp]: "container_ok (ct\<lparr>ct_timer_thread := t\<rparr>) = container_ok ct"
  by (simp add: container_ok_def msgs_ok_def)

lemma OnTimer_ok:
  assumes "container_ok ct" and "ContainerImpl_OnTimer now tid1 tid2 ct = Some ct'"
  shows "container_ok ct'"
  using assms OnTimerEvent_ok [OF assms(1)]
  by (auto simp: ContainerImpl_OnTimer_def Let_def split: option.splits if_splits)

lemma OnTimeoutCheck_keeps_ok:
  assumes "container_ok ct" and "ContainerImpl_OnTimeoutCheck now ct = Some ct'"
  shows "container_ok ct'"
  using assms OnTimeoutCheck_ok [OF assms(1), of now]
  by (cases "now - ct_last_check_time ct < 3000") (auto simp: ContainerImpl_OnTimeoutCheck_def)

lemma Close_keeps_ok:
  assumes "container_ok ct" and "EndpointImpl_Close ep notify ct = Some (r, ct')"
  shows "container_ok ct'"
proof -
  have "container_ok (ct\<lparr>ct_net := net_set_ep ep e (net_sys acts (ct_net ct))\<rparr>)" if "n_eps (ct_net ct) ep \<noteq> None" for e acts
    using assms(1) that by (auto simp: container_ok_def conns_ok_def conn_ok_def msgs_ok_def)
  with assms show ?thesis by (auto simp: EndpointImpl_Close_def split: if_splits dest: CloseEndpoint_ok)
qed

section \<open>What a running container keeps\<close>

text \<open>The running threads of each group are in one of the given states.\<close>

definition timer_ok :: "thread_state set \<Rightarrow> Timer \<Rightarrow> bool" where
  "timer_ok S t \<longleftrightarrow> \<not> tm_shutdown t \<and> thread_ok (tm_thd t) \<and> t_state (tm_thd t) \<in> S
     \<and> (\<exists>ms. mqueue_ok (tm_mq t) ms)"

definition wants_timer :: "Option \<Rightarrow> bool" where
  "wants_timer opt \<longleftrightarrow> (case heartbeat_handler opt of None \<Rightarrow> False | Some n \<Rightarrow> n > 0)"

definition threads_ok :: "thread_state set \<Rightarrow> container \<Rightarrow> bool" where
  "threads_ok S ct \<longleftrightarrow> poll_ok S (n_threads (ct_net ct) RecvThread) \<and> poll_ok S (n_threads (ct_net ct) SendThread)
     \<and> group_ok S (nat (ct_running_threads ct)) (ct_mq_threads ct)
     \<and> (\<forall>t. ct_timer_thread ct = Some t \<longrightarrow> timer_ok S t)
     \<and> (\<not> wants_timer (ct_option ct) \<longrightarrow> ct_timer_thread ct = None)"

definition keeps_threads :: "container \<Rightarrow> container \<Rightarrow> bool" where
  "keeps_threads ct ct' \<longleftrightarrow> n_threads (ct_net ct') = n_threads (ct_net ct) \<and> ct_mq_threads ct' = ct_mq_threads ct
     \<and> ct_running_threads ct' = ct_running_threads ct \<and> ct_shutdown ct' = ct_shutdown ct \<and> ct_option ct' = ct_option ct
     \<and> ct_self ct' = ct_self ct \<and> ct_magic_number ct' = ct_magic_number ct
     \<and> (\<forall>t'. ct_timer_thread ct' = Some t' \<longrightarrow> (\<exists>t. ct_timer_thread ct = Some t \<and> (\<forall>S. timer_ok S t \<longrightarrow> timer_ok S t')))"

lemma keeps_refl [simp]: "keeps_threads ct ct"
  by (simp add: keeps_threads_def)

lemma keeps_trans: "keeps_threads a b \<Longrightarrow> keeps_threads b c \<Longrightarrow> keeps_threads a c"
  unfolding keeps_threads_def by metis

lemma keeps_threads_ok: "keeps_threads ct ct' \<Longrightarrow> threads_ok S ct \<Longrightarrow> threads_ok S ct'"
  unfolding keeps_threads_def threads_ok_def by (metis option.exhaust option.distinct(1))

lemma keeps_update [simp]:
  "keeps_threads ct (put_connection x c ct') = keeps_threads ct ct'"
  "keeps_threads ct (push_message m ct') = keeps_threads ct ct'"
  "keeps_threads ct (handle_notes ns ct') = keeps_threads ct ct'"
  "keeps_threads ct (ct'\<lparr>ct_mgr := mgr\<rparr>) = keeps_threads ct ct'"
  "keeps_threads ct (ct'\<lparr>ct_timeout_records := tr\<rparr>) = keeps_threads ct ct'"
  "keeps_threads ct (ct'\<lparr>ct_free_index_list := fr\<rparr>) = keeps_threads ct ct'"
  "keeps_threads ct (ct'\<lparr>ct_last_check_time := now\<rparr>) = keeps_threads ct ct'"
  "keeps_threads ct (ct'\<lparr>ct_mq := mq\<rparr>) = keeps_threads ct ct'"
  "keeps_threads ct (ct'\<lparr>ct_count := n\<rparr>) = keeps_threads ct ct'"
  "keeps_threads ct (ct'\<lparr>ct_app := calls\<rparr>) = keeps_threads ct ct'"
  "keeps_threads (put_connection x c ct) ct' = keeps_threads ct ct'"
  "keeps_threads (ct\<lparr>ct_last_check_time := now\<rparr>) ct' = keeps_threads ct ct'"
  "keeps_threads (ct\<lparr>ct_free_index_list := fr\<rparr>) ct' = keeps_threads ct ct'"
  by (simp_all add: keeps_threads_def put_connection_def)

lemma SetTimer_timer_ok: "timer_ok S t \<Longrightarrow> timer_ok S (Timer_SetTimer now a b d t)"
  by (auto simp: timer_ok_def Timer_SetTimer_def intro: mqueue.push_spec)

lemma keeps_timer [simp]:
  "keeps_threads ct ct' \<Longrightarrow> ct_timer_thread ct' = Some t
    \<Longrightarrow> keeps_threads ct (ct'\<lparr>ct_timer_thread := Some (Timer_SetTimer now a b d t)\<rparr>)"
  unfolding keeps_threads_def using SetTimer_timer_ok by auto

lemma with_net_keeps:
  assumes "with_net f ct = Some (y, ct1)" and "\<And>w. f (ct_net ct) = Some (y, w) \<Longrightarrow> n_threads w = n_threads (ct_net ct)"
  shows "keeps_threads ct ct1"
proof -
  from assms(1) obtain w where w: "f (ct_net ct) = Some (y, w)" "ct1 = handle_notes (n_notes w) (ct\<lparr>ct_net := w\<lparr>n_notes := []\<rparr>\<rparr>)"
    by (auto simp: with_net_def)
  with assms(2) show ?thesis by (simp add: keeps_threads_def)
qed

lemma step_threads: "conn_step c w c' w' \<Longrightarrow> n_threads w' = n_threads w"
  by (simp add: conn_step_def)

lemma reset_keeps: "reset_connection x ct = Some ct' \<Longrightarrow> keeps_threads ct ct'"
  by (auto simp: reset_connection_def split: option.splits prod.splits
      dest!: with_net_keeps dest: step_threads [OF dtor_step])

lemma free_slot_keeps: "free_slot x ct = Some ct' \<Longrightarrow> keeps_threads ct ct'"
  by (auto simp: free_slot_def case_prod_beta dest: reset_keeps)

lemma DeleteConnection_keeps: "ContainerImpl_DeleteConnection x ct = Some ct' \<Longrightarrow> keeps_threads ct ct'"
  by (auto simp: ContainerImpl_DeleteConnection_def split: if_splits prod.splits dest: free_slot_keeps)

lemma RefreshTime_keeps: "ContainerImpl_RefreshTime now x ct = Some ct' \<Longrightarrow> keeps_threads ct ct'"
  by (auto simp: ContainerImpl_RefreshTime_def Let_def case_prod_beta split: if_splits)

lemma close_keeps: "close_connection notify ev x c ct = Some ct' \<Longrightarrow> keeps_threads ct ct'"
  by (auto simp: close_connection_def dest!: with_net_keeps DeleteConnection_keeps dest: step_threads [OF Shutdown_step])
    (blast intro: keeps_trans)+

lemma conn_op_keeps:
  assumes "with_net (\<lambda>w. map_option (\<lambda>(r, c1, w1). ((r, c1), w1)) (f w)) ct = Some ((r, c1), ct1)"
    and "\<And>r c1 w. f (ct_net ct) = Some (r, c1, w) \<Longrightarrow> conn_step c (ct_net ct) c1 w"
  shows "keeps_threads ct ct1"
  by (rule with_net_keeps [OF assms(1)]) (auto dest: assms(2) step_threads)

lemma finish_event_keeps:
  assumes "keeps_threads ct ct1"
    and "(if err = RAPTOR_ERROR_NONE then ContainerImpl_RefreshTime now x (put_connection x c1 ct1)
          else close_connection True ev x c1 (put_connection x c1 ct1)) = Some ct'"
  shows "keeps_threads ct ct'"
proof -
  have "keeps_threads (put_connection x c1 ct1) ct'"
    using assms(2) by (auto split: if_splits dest: RefreshTime_keeps close_keeps)
  with assms(1) show ?thesis by (auto dest: keeps_trans)
qed

lemma OnRecvEvent_keeps:
  assumes "ContainerImpl_OnRecvEvent os x ct = Some ct'"
  shows "keeps_threads ct ct'"
proof -
  from assms obtain con where con: "ContainerImpl_GetConnection x ct = Some con" by (auto simp: ContainerImpl_OnRecvEvent_def)
  show ?thesis
  proof (cases con)
    case (Some c)
    with assms con obtain err c1 ct1 where
      f: "with_net (\<lambda>w. map_option (\<lambda>(r, c1, w1). ((r, c1), w1)) (Connection_DoRecvEvent (eo_err os) (eo_recv os) c w)) ct
            = Some ((err, c1), ct1)"
      and r: "(if err = RAPTOR_ERROR_NONE then ContainerImpl_RefreshTime (eo_now os) x (put_connection x c1 ct1)
              else close_connection True (Event_new kSocketError err) x c1 (put_connection x c1 ct1)) = Some ct'"
      by (auto simp: ContainerImpl_OnRecvEvent_def Let_def)
    from finish_event_keeps [OF conn_op_keeps [OF f DoRecvEvent_step] r] show ?thesis .
  qed (use assms con in \<open>simp add: ContainerImpl_OnRecvEvent_def\<close>)
qed

lemma OnSendEvent_keeps:
  assumes "ContainerImpl_OnSendEvent os x ct = Some ct'"
  shows "keeps_threads ct ct'"
proof -
  from assms obtain con where con: "ContainerImpl_GetConnection x ct = Some con" by (auto simp: ContainerImpl_OnSendEvent_def)
  show ?thesis
  proof (cases con)
    case (Some c)
    with assms con obtain err c1 ct1 where
      f: "with_net (\<lambda>w. map_option (\<lambda>(r, c1, w1). ((r, c1), w1)) (Connection_DoSendEvent (eo_send os) c w)) ct
            = Some ((err, c1), ct1)"
      and r: "(if err = RAPTOR_ERROR_NONE then ContainerImpl_RefreshTime (eo_now os) x (put_connection x c1 ct1)
              else close_connection True (Event_new kSocketError err) x c1 (put_connection x c1 ct1)) = Some ct'"
      by (auto simp: ContainerImpl_OnSendEvent_def Let_def)
    from finish_event_keeps [OF conn_op_keeps [OF f DoSendEvent_step] r] show ?thesis .
  qed (use assms con in \<open>simp add: ContainerImpl_OnSendEvent_def\<close>)
qed

lemma OnEventProcess_keeps: "ContainerImpl_OnEventProcess os d ct = Some ct' \<Longrightarrow> keeps_threads ct ct'"
  by (auto simp: ContainerImpl_OnEventProcess_def ContainerImpl_OnErrorEvent_def split: option.splits if_splits
      dest: OnRecvEvent_keeps OnSendEvent_keeps close_keeps)

lemma SendMsg_keeps: "ContainerImpl_SendMsg cid s ct = Some (r, ct') \<Longrightarrow> keeps_threads ct ct'"
  by (auto simp: ContainerImpl_SendMsg_def split: option.split_asm dest!: conn_op_keeps [OF _ SendMsg_step])

lemma CloseEndpoint_keeps: "ContainerImpl_CloseEndpoint ep notify ct = Some ct' \<Longrightarrow> keeps_threads ct ct'"
  by (auto simp: ContainerImpl_CloseEndpoint_def split: option.split_asm) (erule close_keeps)

lemma Close_keeps:
  assumes "EndpointImpl_Close ep notify ct = Some (r, ct')"
  shows "keeps_threads ct ct'"
proof -
  from assms obtain e where e: "n_eps (ct_net ct) ep = Some e" by (auto simp: EndpointImpl_Close_def)
  show ?thesis
  proof (cases "ei_container e = None")
    case True
    with assms e show ?thesis by (auto simp: EndpointImpl_Close_def keeps_threads_def)
  qed (use assms e in \<open>auto simp: EndpointImpl_Close_def dest: CloseEndpoint_keeps\<close>)
qed

lemma timeout_loop_keeps: "timeout_loop fuel now it ct = Some ct' \<Longrightarrow> keeps_threads ct ct'"
proof (induction fuel arbitrary: it ct)
  case 0
  then show ?case by (simp add: timeout_loop.simps split: if_splits)
next
  case (Suc fuel)
  show ?case
  proof (cases it)
    case None
    with Suc.prems show ?thesis by (simp add: timeout_loop.simps)
  next
    case (Some n)
    with Suc.prems obtain key index where "mm_at it (ct_timeout_records ct) = Some (key, index)"
      by (auto simp: timeout_loop.simps [of "Suc fuel"])
    with Some Suc.prems have "ct' = ct \<or> (\<exists>it' ct1. timeout_slot index ct = Some ct1 \<and> timeout_loop fuel now it' ct1 = Some ct')"
      by (auto simp: timeout_loop.simps [of "Suc fuel"] split: if_splits)
    moreover have "keeps_threads ct ct1" if "timeout_slot index ct = Some ct1" for ct1
      using that by (auto simp: timeout_slot_def case_prod_beta dest!: with_net_keeps free_slot_keeps
          dest: step_threads [OF Shutdown_step]) (blast intro: keeps_trans)+
    ultimately show ?thesis using Suc.IH keeps_trans by auto
  qed
qed

lemma OnTimeoutCheck_keeps: "ContainerImpl_OnTimeoutCheck now ct = Some ct' \<Longrightarrow> keeps_threads ct ct'"
  by (auto simp: ContainerImpl_OnTimeoutCheck_def Let_def split: if_splits dest: timeout_loop_keeps)

lemma OnTimer_keeps:
  assumes "ContainerImpl_OnTimer now a b ct = Some ct'"
  shows "keeps_threads ct ct'"
proof -
  from assms obtain con where con: "ContainerImpl_GetConnection a ct = Some con" by (auto simp: ContainerImpl_OnTimer_def)
  have ev: "keeps_threads ct (ContainerImpl_OnTimerEvent ep ct)" for ep by (simp add: ContainerImpl_OnTimerEvent_def)
  show ?thesis
  proof (cases con)
    case (Some c)
    with assms con have "ct' = ct \<or> (\<exists>t d. ct_timer_thread (ContainerImpl_OnTimerEvent (c_endpoint c) ct) = Some t
        \<and> ct' = (ContainerImpl_OnTimerEvent (c_endpoint c) ct)\<lparr>ct_timer_thread := Some (Timer_SetTimer now a b d t)\<rparr>)"
      by (auto simp: ContainerImpl_OnTimer_def Let_def split: if_split_asm)
    then show ?thesis using keeps_timer [OF ev] by auto
  qed (use assms con in \<open>simp add: ContainerImpl_OnTimer_def\<close>)
qed

lemma Dispatch_keeps: "ContainerImpl_Dispatch m ct = Some ct' \<Longrightarrow> keeps_threads ct ct'"
  by (auto simp: ContainerImpl_Dispatch_def split: TcpMessageType.split_asm if_split_asm)

lemma round_keeps:
  assumes "MessageQueueThread_round ct = Some ct'"
  shows "keeps_threads ct ct'"
proof -
  from assms obtain n mq where p: "mqueue_pop (ct_mq ct) = Some (n, mq)" by (auto simp: MessageQueueThread_round_def)
  show ?thesis
  proof (cases n)
    case (Some m)
    with assms p have "ContainerImpl_Dispatch m (ct\<lparr>ct_mq := mq, ct_count := ct_count ct - 1\<rparr>) = Some ct'"
      by (simp add: MessageQueueThread_round_def Let_def)
    from Dispatch_keeps [OF this] show ?thesis by (simp add: keeps_threads_def)
  qed (use assms p in \<open>auto simp: MessageQueueThread_round_def\<close>)
qed

lemma attach_slot_keeps:
  assumes "attach_slot now ep x ct = Some ct'"
  shows "keeps_threads ct ct'"
proof -
  from assms obtain obj where obj: "n_eps (ct_net ct) ep = Some obj" by (auto simp: attach_slot_def)
  define w1 where "w1 = net_set_ep ep (EndpointImpl_SetContainer (Some (ct_self ct)) (EndpointImpl_SetConnection
    (BuildConnectionId (ct_magic_number ct) (EndpointImpl_GetListenPort obj) x) obj)) (ct_net ct)"
  obtain con0 w2 where new: "Connection_new ep w1 = (con0, w2)" by fastforce
  let ?con1 = "Connection_SetProtocol (proto_handler (ct_option ct)) con0"
  have e: "n_eps w2 (c_endpoint ?con1) \<noteq> None" "n_threads w2 = n_threads (ct_net ct)"
    using new by (auto simp: Connection_new_def Connection_SetProtocol_def w1_def)
  then obtain acts where
    ini: "Connection_Init RecvThread SendThread ?con1 w2 = Some (?con1\<lparr>c_service := True,
       c_recv_thread := Some RecvThread, c_send_thread := Some SendThread\<rparr>, net_sys acts w2)"
    using Connection_Init_eval by blast
  obtain it tr where ins: "mm_insert (deadline now (ct\<lparr>ct_net := w1\<rparr>)) x (ct_timeout_records ct) = (it, tr)" by fastforce
  define ct1 where "ct1 = ct\<lparr>ct_net := net_sys acts w2, ct_timeout_records := tr,
    ct_mgr := (ct_mgr ct)[unat x := (Some (?con1\<lparr>c_service := True,
       c_recv_thread := Some RecvThread, c_send_thread := Some SendThread\<rparr>), it)]\<rparr>"
  have "\<exists>h d. ct' = ct1 \<or> ct' = ct1\<lparr>ct_timer_thread := map_option (Timer_SetTimer now x h d) (ct_timer_thread ct1)\<rparr>"
    using assms obj new ini ins
    by (auto simp: attach_slot_def Let_def w1_def [symmetric] ct1_def split: option.split_asm)
  moreover have "keeps_threads ct ct1" using e(2) by (simp add: ct1_def keeps_threads_def)
  then have "keeps_threads ct (ct1\<lparr>ct_timer_thread := map_option (Timer_SetTimer now x h d) (ct_timer_thread ct1)\<rparr>)" for h d
    by (cases "ct_timer_thread ct1") (simp add: keeps_threads_def, simp)
  ultimately show ?thesis using \<open>keeps_threads ct ct1\<close> by auto
qed

lemma expand_keeps [simp]: "keeps_threads ct (expand_table ct)"
  by (simp add: expand_table_def Let_def)

lemma AttachEndpointImpl_keeps:
  assumes "ContainerImpl_AttachEndpointImpl now ep ct = Some (e, ct')"
  shows "keeps_threads ct ct'"
proof (cases "ct_free_index_list ct = [] \<and> length (ct_mgr ct) \<ge> max_container_size (ct_option ct)")
  case True
  with assms show ?thesis by (simp add: ContainerImpl_AttachEndpointImpl_def)
next
  case False
  define ct1 where "ct1 = (if ct_free_index_list ct = [] then expand_table ct else ct)"
  have k: "keeps_threads ct ct1" by (simp add: ct1_def)
  from assms obtain x rest where "attach_slot now ep x (ct1\<lparr>ct_free_index_list := rest\<rparr>) = Some ct'"
    unfolding ContainerImpl_AttachEndpointImpl_def if_not_P [OF False] ct1_def [symmetric] Let_def
    by (auto split: list.split_asm)
  from attach_slot_keeps [OF this] have "keeps_threads ct1 ct'" by simp
  with k show ?thesis by (rule keeps_trans)
qed

lemma AttachEndpoint_keeps:
  assumes "ContainerImpl_AttachEndpoint now ep notify ct = Some (e, ct')"
  shows "keeps_threads ct ct'"
proof -
  from assms obtain ct1 where r: "ContainerImpl_AttachEndpointImpl now ep ct = Some (e, ct1)"
    "ct' = ct1 \<or> ct' = ContainerImpl_OnNotify ep ct1"
    by (auto simp: ContainerImpl_AttachEndpoint_def split: if_split_asm)
  with AttachEndpointImpl_keeps [OF r(1)] show ?thesis by (auto simp: ContainerImpl_OnNotify_def)
qed

end
