(* ===== verification/ContainerSpec.thy ===== *)
theory ContainerSpec
  imports ContainerLife
begin

text \<open>
  The life cycle of the container and its properties: \<open>Init\<close> and \<open>Shutdown\<close>, the reachable states
  of a running container, and what the container promises to the application.
\<close>

section \<open>Init\<close>

definition container_idle :: "container \<Rightarrow> bool" where
  "container_idle ct \<longleftrightarrow> ct_shutdown ct \<and> ct_mgr ct = [] \<and> ct_free_index_list ct = [] \<and> mm_ok (ct_timeout_records ct)
     \<and> mm_set (ct_timeout_records ct) = {} \<and> mqueue_ok (ct_mq ct) [] 
     \<and> (\<not> wants_timer (ct_option ct) \<longrightarrow> ct_timer_thread ct = None)"

text \<open>The sizes the application configures.\<close>

definition sizes_ok :: "Option \<Rightarrow> bool" where
  "sizes_ok opt \<longleftrightarrow> default_container_size opt \<le> max_container_size opt \<and> max_container_size opt < 4294967296"

lemma ContainerImpl_new_idle: "container_idle (ContainerImpl_new self opt w)"
  by (simp add: container_idle_def ContainerImpl_new_def mqueue.new_spec)

lemma Timer_Init_ok: "Timer_Init created Timer_new = (RAPTOR_ERROR_NONE, t) \<Longrightarrow> timer_ok {kAlive} t"
  using thread_ok_new(2) [of created] mqueue.new_spec
  by (auto simp: Timer_Init_def Timer_new_def timer_ok_def Thread_new_def InternalThreadImpl_new_def split: if_splits prod.splits)

lemma init_table_ok:
  assumes "container_idle ct" and "sizes_ok (ct_option ct)"
  shows "container_ok (init_table now (ct\<lparr>ct_count := 0\<rparr>))"
proof -
  let ?n = "default_container_size (ct_option ct)"
  have "table_shape (replicate ?n (None, None)) (ct_timeout_records ct) (map of_nat [0..<?n])"
    using shape_expand [of "[]" "ct_timeout_records ct" ?n] assms
    by (simp add: container_idle_def sizes_ok_def shape_empty)
  with assms show ?thesis
    by (auto simp: container_ok_def init_table_def container_idle_def sizes_ok_def conns_ok_def msgs_ok_def
        Let_def intro!: exI [of _ "[]"])
qed

lemma Init_ok:
  assumes idle: "container_idle ct" and sz: "sizes_ok (ct_option ct)"
    and ini: "ContainerImpl_Init os ct = (RAPTOR_ERROR_NONE, ct')"
  shows "container_ok ct'" and "threads_ok {kAlive} ct'" and "\<not> ct_shutdown ct'" and "ct_option ct' = ct_option ct"
    and "ct_mgr ct' = replicate (default_container_size (ct_option ct)) (None, None)"
    and "ct_poll_threads ct'" and "ct_self ct' = ct_self ct" and "n_eps (ct_net ct') = n_eps (ct_net ct)"
proof -
  define rt where "rt = to_i32 (int (if recv_send_threads (ct_option ct) div 2 = 0 then 1 else recv_send_threads (ct_option ct) div 2))"
  obtain e1 p1 where p1: "PollingThread_Init (cio_poll os) rt PollingThread_new = (e1, p1)" by fastforce
  obtain e2 p2 where p2: "PollingThread_Init (cio_back os) rt PollingThread_new = (e2, p2)" by fastforce
  define tm where "tm = wants_timer (ct_option ct)"
  obtain e3 t where t: "(if tm then Timer_Init (cio_timer_thread os) Timer_new else (RAPTOR_ERROR_NONE, Timer_new)) = (e3, t)"
    by fastforce
  let ?n = "mq_consumer_threads (ct_option ct)"
  obtain ts running where sp: "spawn_loop ?n 0 (cio_mq_thread os) (replicate ?n Thread_null) 0 = (ts, running)" by fastforce
  define nt where "nt = (n_threads (ct_net ct))(RecvThread := PollingThread_EnableTimeoutCheck (\<not> not_check_connection_timeout (ct_option ct)) p1,
      SendThread := PollingThread_EnableTimeoutCheck False p2)"
  define tmr where "tmr = (if tm then Some t else ct_timer_thread ct)"
  have sd: "ct_shutdown ct" using idle by (simp add: container_idle_def)
  have fin: "e1 = None \<and> e2 = None \<and> e3 = None \<and> running \<noteq> 0 \<and> ct' = init_table (cio_now os)
      (ct\<lparr>ct_net := (ct_net ct)\<lparr>n_threads := nt\<rparr>, ct_poll_threads := True, ct_timer_thread := tmr, ct_shutdown := False,
         ct_count := 0, ct_mq_threads := ts, ct_running_threads := running\<rparr>)"
    using ini sd
    unfolding ContainerImpl_Init_def Let_def rt_def [symmetric] p1 p2 case_prod_conv
      tm_def [unfolded wants_timer_def, symmetric] t sp
    by (cases ct) (auto simp: set_poll_def nt_def tmr_def fun_upd_twist MakeStatusFromStaticString_def split: if_splits)
  obtain n where n: "running = int n" "group_ok {kAlive} n ts"
    using spawn_loop_ok [of 0 ?n "replicate ?n Thread_null" "cio_mq_thread os"] sp by (auto simp: group_ok_def)
  let ?ct = "ct\<lparr>ct_net := (ct_net ct)\<lparr>n_threads := nt\<rparr>, ct_poll_threads := True, ct_timer_thread := tmr,
         ct_mq_threads := ts, ct_running_threads := running\<rparr>"
  have "container_ok (init_table (cio_now os) (?ct\<lparr>ct_count := 0\<rparr>))"
  proof (rule init_table_ok)
    show "container_idle ?ct" using idle by (auto simp: container_idle_def tmr_def tm_def)
  qed (use sz in simp)
  then show "container_ok ct'"
    using fin by (simp add: container_ok_def init_table_def Let_def msgs_ok_def)
  have "poll_ok {kAlive} (nt RecvThread)" "poll_ok {kAlive} (nt SendThread)"
    using fin p1 p2 by (simp_all add: nt_def PollingThread_Init_poll_ok)
  moreover have "\<forall>x. tmr = Some x \<longrightarrow> timer_ok {kAlive} x" "\<not> wants_timer (ct_option ct) \<longrightarrow> tmr = None"
    using fin t idle Timer_Init_ok [of "cio_timer_thread os" t] by (auto simp: tmr_def tm_def container_idle_def)
  ultimately show "threads_ok {kAlive} ct'"
    using fin n by (auto simp: threads_ok_def init_table_def Let_def group_ok_def)
  show "\<not> ct_shutdown ct'" "ct_option ct' = ct_option ct" "ct_poll_threads ct'" "ct_self ct' = ct_self ct"
    "n_eps (ct_net ct') = n_eps (ct_net ct)"
    "ct_mgr ct' = replicate (default_container_size (ct_option ct)) (None, None)"
    using fin idle by (simp_all add: init_table_def Let_def container_idle_def)
qed

section \<open>Start\<close>

lemma Thread_Start_alive:
  "thread_ok t \<Longrightarrow> t_state t = kAlive \<Longrightarrow> \<exists>u. Thread_Start t = Some u \<and> thread_ok u \<and> t_state u = kActive"
  by (auto simp: Thread_Start_def thread_ok_def InternalThreadImpl_Start_def split: option.splits)

lemma Timer_Start_ok:
  assumes "timer_ok {kAlive} t"
  shows "\<exists>t'. Timer_Start t = Some t' \<and> timer_ok {kActive} t'"
proof -
  from assms Thread_Start_alive [of "tm_thd t"] obtain u where
    "Thread_Start (tm_thd t) = Some u" "thread_ok u" "t_state u = kActive" by (auto simp: timer_ok_def)
  with assms show ?thesis by (simp add: Timer_Start_def timer_ok_def)
qed

lemma Start_ok:
  assumes ok: "container_ok ct" and th: "threads_ok {kAlive} ct" and pt: "ct_poll_threads ct"
  shows "\<exists>ct'. ContainerImpl_Start ct = Some (RAPTOR_ERROR_NONE, ct') \<and> container_ok ct' \<and> threads_ok {kActive} ct'
    \<and> ct_shutdown ct' = ct_shutdown ct \<and> ct_option ct' = ct_option ct \<and> ct_mgr ct' = ct_mgr ct"
proof -
  obtain p1 where p1: "PollingThread_Start (n_threads (ct_net ct) RecvThread) = Some (RAPTOR_ERROR_NONE, p1)" "poll_ok {kActive} p1"
    using poll_Start_ok th by (auto simp: threads_ok_def)
  obtain p2 where p2: "PollingThread_Start (n_threads (ct_net ct) SendThread) = Some (RAPTOR_ERROR_NONE, p2)" "poll_ok {kActive} p2"
    using poll_Start_ok th by (auto simp: threads_ok_def)
  obtain ts where ts: "start_loop (nat (ct_running_threads ct)) 0 (ct_mq_threads ct) = Some ts"
    "group_ok {kActive} (nat (ct_running_threads ct)) ts"
    using th start_group unfolding threads_ok_def by blast
  obtain tm where tm: "(case ct_timer_thread ct of None \<Rightarrow> Some None | Some t \<Rightarrow> map_option Some (Timer_Start t)) = Some tm"
    "\<forall>t. tm = Some t \<longrightarrow> timer_ok {kActive} t" "ct_timer_thread ct = None \<longleftrightarrow> tm = None"
  proof (cases "ct_timer_thread ct")
    case (Some t)
    with th Timer_Start_ok [of t] obtain t' where "Timer_Start t = Some t'" "timer_ok {kActive} t'" by (auto simp: threads_ok_def)
    with Some that [of "Some t'"] show ?thesis by simp
  qed (use that in simp)
  define ct' where "ct' = (set_poll SendThread p2 (set_poll RecvThread p1 ct))\<lparr>ct_mq_threads := ts, ct_timer_thread := tm\<rparr>"
  have "ContainerImpl_Start ct = Some (RAPTOR_ERROR_NONE, ct')"
    using pt p1 p2 ts tm by (simp add: ContainerImpl_Start_def set_poll_def ct'_def)
  moreover have "container_ok ct'"
    using ok by (simp add: container_ok_def ct'_def set_poll_def conns_ok_def conn_ok_def msgs_ok_def)
  moreover have "threads_ok {kActive} ct'"
    using p1 p2 ts tm th by (simp add: threads_ok_def ct'_def set_poll_def)
  ultimately show ?thesis by (simp add: ct'_def set_poll_def)
qed

section \<open>Shutdown\<close>

lemma Timer_Shutdown_ok:
  assumes "timer_ok {kAlive, kActive} t"
  shows "\<exists>t'. Timer_Shutdown t = Some t' \<and> tm_shutdown t' \<and> mqueue_ok (tm_mq t') []"
proof -
  from assms obtain ms u where "mqueue_ok (tm_mq t) ms" "Thread_Join (tm_thd t) = Some u" "\<not> tm_shutdown t"
    using Thread_Join_ok [of "tm_thd t"] by (auto simp: timer_ok_def)
  with mqueue.drain_spec [of "tm_mq t" ms] show ?thesis by (auto simp: Timer_Shutdown_def)
qed

text \<open>Once closed, an endpoint stays closed.\<close>

definition offline :: "net \<Rightarrow> addr \<Rightarrow> bool" where
  "offline w a \<longleftrightarrow> (\<exists>e. n_eps w a = Some e \<and> \<not> EndpointImpl_IsOnline e)"

lemma Shutdown_offline:
  assumes "Connection_Shutdown notify ev c w = Some (c', w')"
  shows "offline w' (c_endpoint c)" and "offline w a \<Longrightarrow> offline w' a"
proof -
  from assms obtain e where e: "n_eps w (c_endpoint c) = Some e" by (auto simp: Connection_Shutdown_def)
  have down: "\<not> EndpointImpl_IsOnline (e\<lparr>ei_fd := NOT 0\<rparr>)" by (simp add: EndpointImpl_IsOnline_def)
  have "n_eps w' = (if EndpointImpl_IsOnline e then (n_eps w)(c_endpoint c \<mapsto> e\<lparr>ei_fd := NOT 0\<rparr>) else n_eps w)"
    using assms e by (auto simp: Connection_Shutdown_def Let_def split: if_split_asm)
  with e down show "offline w' (c_endpoint c)" and "offline w a \<Longrightarrow> offline w' a"
    by (auto simp: offline_def)
qed

lemma dtor_offline: "Connection_dtor c w = Some w' \<Longrightarrow> offline w a \<Longrightarrow> offline w' a"
  by (auto simp: Connection_dtor_def dest: Shutdown_offline(2))

lemma shutdown_slots_ok:
  assumes "\<forall>s \<in> set sl. \<forall>c. fst s = Some c \<longrightarrow> conn_ok w c"
  shows "\<exists>w'. shutdown_slots sl w = Some w' \<and> n_threads w' = n_threads w
    \<and> (\<forall>a. n_eps w' a = None \<longleftrightarrow> n_eps w a = None) \<and> (\<forall>a. offline w a \<longrightarrow> offline w' a)
    \<and> (\<forall>s \<in> set sl. \<forall>c. fst s = Some c \<longrightarrow> offline w' (c_endpoint c))"
  using assms
proof (induction sl w rule: shutdown_slots.induct)
  case (2 con it sl w)
  show ?case
  proof (cases con)
    case None
    with 2 show ?thesis by simp
  next
    case (Some c)
    have c: "conn_ok w c" using "2.prems" Some by simp
    then obtain c1 w1 where s1: "Connection_Shutdown False Event_default c w = Some (c1, w1)"
      using Connection_Shutdown_total by (metis conn_ok_def not_None_eq)
    note st1 = Shutdown_step [OF s1]
    have "conn_ok w1 c1" using c st1 by (auto simp: conn_ok_def conn_step_def)
    then obtain w2 where s2: "Connection_dtor c1 w1 = Some w2" using dtor_total by blast
    note st2 = dtor_step [OF s2]
    have eps: "\<forall>a. n_eps w2 a = None \<longleftrightarrow> n_eps w a = None" "n_threads w2 = n_threads w"
      using st1 st2 by (auto simp: conn_step_def)
    have "\<forall>s \<in> set sl. \<forall>c. fst s = Some c \<longrightarrow> conn_ok w2 c" using "2.prems" eps(1) by (auto simp: conn_ok_def)
    from "2.IH"(2) [OF Some s1 refl s2 this] obtain w' where
      IH: "shutdown_slots sl w2 = Some w'" "n_threads w' = n_threads w2" "\<forall>a. n_eps w' a = None \<longleftrightarrow> n_eps w2 a = None"
        "\<forall>a. offline w2 a \<longrightarrow> offline w' a" "\<forall>s \<in> set sl. \<forall>c. fst s = Some c \<longrightarrow> offline w' (c_endpoint c)"
      by blast
    have off: "offline w2 (c_endpoint c)" "\<And>a. offline w a \<Longrightarrow> offline w2 a"
      using Shutdown_offline [OF s1] dtor_offline [OF s2] by blast+
    show ?thesis using Some s1 s2 IH eps off by auto
  qed
qed simp

lemma Shutdown_ok:
  assumes ok: "container_ok ct" and th: "threads_ok {kAlive, kActive} ct" and up: "\<not> ct_shutdown ct"
  shows "\<exists>ct'. ContainerImpl_Shutdown ct = Some ct' \<and> container_idle ct' \<and> ct_count ct' = 0
    \<and> ct_option ct' = ct_option ct
    \<and> (\<forall>s \<in> set (ct_mgr ct). \<forall>c. fst s = Some c \<longrightarrow> offline (ct_net ct') (c_endpoint c))"
proof -
  obtain a1 p1 where p1: "PollingThread_Shutdown (n_threads (ct_net ct) RecvThread) = Some (a1, p1)"
    using th poll_Shutdown_ok unfolding threads_ok_def by blast
  obtain a2 p2 where p2: "PollingThread_Shutdown (n_threads (ct_net ct) SendThread) = Some (a2, p2)"
    using th poll_Shutdown_ok unfolding threads_ok_def by blast
  obtain tm where tm: "(case ct_timer_thread ct of None \<Rightarrow> Some None | Some t \<Rightarrow> map_option Some (Timer_Shutdown t)) = Some tm"
    "ct_timer_thread ct = None \<longrightarrow> tm = None"
  proof (cases "ct_timer_thread ct")
    case (Some t)
    with th Timer_Shutdown_ok [of t] obtain t' where "Timer_Shutdown t = Some t'" by (auto simp: threads_ok_def)
    with Some that [of "Some t'"] show ?thesis by simp
  qed (use that in simp)
  obtain ts where ts: "join_loop (nat (ct_running_threads ct)) 0 (ct_mq_threads ct) = Some ts"
    using th join_group unfolding threads_ok_def by blast
  define w where "w = net_sys (a1 @ a2) ((ct_net ct)\<lparr>n_threads := (n_threads (ct_net ct))(RecvThread := p1, SendThread := p2)\<rparr>)"
  define ct1 where "ct1 = ct\<lparr>ct_shutdown := True, ct_net := w, ct_timer_thread := tm, ct_mq_threads := ts,
     ct_timeout_records := (ct_timeout_records ct)\<lparr>mm_nodes := []\<rparr>, ct_free_index_list := []\<rparr>"
  have "\<forall>s \<in> set (ct_mgr ct). \<forall>c. fst s = Some c \<longrightarrow> conn_ok w c"
    using ok by (simp add: container_ok_def conns_ok_def conn_ok_def w_def)
  from shutdown_slots_ok [OF this] obtain w' where w': "shutdown_slots (ct_mgr ct) w = Some w'"
    "\<forall>s \<in> set (ct_mgr ct). \<forall>c. fst s = Some c \<longrightarrow> offline w' (c_endpoint c)" by blast
  define ct2 where "ct2 = handle_notes (n_notes w') (ct1\<lparr>ct_net := w'\<lparr>n_notes := []\<rparr>\<rparr>)"
  from ok obtain ms where "msgs_ok ct ms" by (auto simp: container_ok_def)
  then have "msgs_ok (ct1\<lparr>ct_net := w'\<lparr>n_notes := []\<rparr>\<rparr>) ms" by (simp add: msgs_ok_def ct1_def)
  from handle_notes_ok [OF this, of "n_notes w'"] obtain ms' where ms': "mqueue_ok (ct_mq ct2) ms'" "ct_count ct2 = of_nat (length ms')"
    unfolding ct2_def msgs_ok_def by blast
  from mqueue.drain_spec [OF ms'(1)] obtain mq where mq: "mqueue_drain (ct_mq ct2) = Some (length ms', mq)" "mqueue_ok mq []" by blast
  have "with_net (\<lambda>w. map_option (\<lambda>w'. ((), w')) (shutdown_slots (ct_mgr ct1) w)) ct1 = Some ((), ct2)"
    using w'(1) by (simp add: with_net_def ct1_def ct2_def)
  then have "ContainerImpl_Shutdown ct = Some (ct2\<lparr>ct_mgr := [], ct_mq := mq, ct_count := 0\<rparr>)"
    using up p1 p2 tm(1) ts mq(1) ms'(2)
    by (simp add: ContainerImpl_Shutdown_def set_poll_def ct1_def w_def Let_def)
  moreover have "container_idle (ct2\<lparr>ct_mgr := [], ct_mq := mq, ct_count := 0\<rparr>)"
    using mq(2) tm(2) th by (auto simp: container_idle_def ct2_def ct1_def mm_ok_def mm_set_def threads_ok_def)
  ultimately show ?thesis using w'(2) by (simp add: ct2_def ct1_def offline_def)
qed

section \<open>Reachable states\<close>

text \<open>
  One step of a running container: the application attaches, sends or closes, a polling thread
  reports an event or runs the idle check, the timer fires, a message is dispatched, or a new
  endpoint object is created. Each step takes the operating system's answers as they come.
\<close>

inductive container_step :: "container \<Rightarrow> container \<Rightarrow> bool" where
  cs_endpoint: "n_eps (ct_net ct) a = None \<Longrightarrow> container_step ct (ct\<lparr>ct_net := net_set_ep a e (ct_net ct)\<rparr>)"
| cs_attach: "ContainerImpl_AttachEndpoint now ep notify ct = Some (e, ct') \<Longrightarrow> container_step ct ct'"
| cs_send: "ContainerImpl_SendMsg cid s ct = Some (r, ct') \<Longrightarrow> container_step ct ct'"
| cs_close: "EndpointImpl_Close ep notify ct = Some (r, ct') \<Longrightarrow> container_step ct ct'"
| cs_event: "ContainerImpl_OnEventProcess os d ct = Some ct' \<Longrightarrow> container_step ct ct'"
| cs_idle: "ContainerImpl_OnTimeoutCheck now ct = Some ct' \<Longrightarrow> container_step ct ct'"
| cs_timer: "ContainerImpl_OnTimer now tid1 tid2 ct = Some ct' \<Longrightarrow> container_step ct ct'"
| cs_dispatch: "MessageQueueThread_round ct = Some ct' \<Longrightarrow> container_step ct ct'"

inductive container_reach :: "Option \<Rightarrow> container \<Rightarrow> bool" for opt where
  cr_start: "ContainerImpl_Init os (ContainerImpl_new self opt w) = (RAPTOR_ERROR_NONE, ct1)
     \<Longrightarrow> ContainerImpl_Start ct1 = Some (RAPTOR_ERROR_NONE, ct) \<Longrightarrow> container_reach opt ct"
| cr_step: "container_reach opt ct \<Longrightarrow> container_step ct ct' \<Longrightarrow> container_reach opt ct'"

text \<open>Everything a running container maintains.\<close>

definition running_ok :: "Option \<Rightarrow> container \<Rightarrow> bool" where
  "running_ok opt ct \<longleftrightarrow> container_ok ct \<and> threads_ok {kActive} ct \<and> \<not> ct_shutdown ct \<and> ct_option ct = opt"

lemma round_any_ok:
  assumes ok: "container_ok ct" and h: "MessageQueueThread_round ct = Some ct'"
  shows "container_ok ct'"
proof -
  from ok obtain ms where ms: "msgs_ok ct ms" by (auto simp: container_ok_def)
  show ?thesis
  proof (cases ms)
    case Nil
    with ms h have "ct' = ct"
      using mqueue.pop_empty_spec [of "ct_mq ct"] by (simp add: msgs_ok_def MessageQueueThread_round_def)
    with ok show ?thesis by simp
  next
    case (Cons m ms')
    with ms obtain mq where mq: "mqueue_pop (ct_mq ct) = Some (Some m, mq)" "mqueue_ok mq ms'"
      using mqueue.pop_spec [of "ct_mq ct" m ms'] by (auto simp: msgs_ok_def)
    let ?ct = "ct\<lparr>ct_mq := mq, ct_count := ct_count ct - 1\<rparr>"
    have "ContainerImpl_Dispatch m ?ct = Some ct'" using h mq(1) by (simp add: MessageQueueThread_round_def Let_def)
    then obtain calls where ct': "ct' = ?ct\<lparr>ct_app := calls\<rparr>"
      by (auto simp: ContainerImpl_Dispatch_def split: TcpMessageType.split_asm if_split_asm)
    have "msgs_ok ct' ms'" using ms mq(2) Cons by (simp add: ct' msgs_ok_def)
    with ok show ?thesis by (auto simp: container_ok_def ct')
  qed
qed

lemma container_step_ok: "container_step ct ct' \<Longrightarrow> container_ok ct \<Longrightarrow> container_ok ct'"
proof (induction rule: container_step.induct)
  case (cs_endpoint ct a e)
  then show ?case by (auto simp: container_ok_def conns_ok_def conn_ok_def msgs_ok_def)
qed (auto intro: AttachEndpoint_keeps_ok SendMsg_ok Close_keeps_ok OnEventProcess_ok OnTimeoutCheck_keeps_ok OnTimer_ok round_any_ok)

lemma container_step_keeps: "container_step ct ct' \<Longrightarrow> keeps_threads ct ct'"
proof (induction rule: container_step.induct)
  case (cs_endpoint ct a e)
  then show ?case by (simp add: keeps_threads_def)
qed (auto intro: AttachEndpoint_keeps SendMsg_keeps Close_keeps OnEventProcess_keeps OnTimeoutCheck_keeps OnTimer_keeps round_keeps)

lemma container_step_running:
  assumes "running_ok opt ct" and "container_step ct ct'"
  shows "running_ok opt ct'"
proof -
  have "keeps_threads ct ct'" using assms(2) by (rule container_step_keeps)
  with keeps_threads_ok [OF this, of "{kActive}"] container_step_ok [OF assms(2)] assms(1) show ?thesis
    by (auto simp: running_ok_def keeps_threads_def)
qed

lemma Start_running:
  assumes "sizes_ok opt" and "ContainerImpl_Init os (ContainerImpl_new self opt w) = (RAPTOR_ERROR_NONE, ct1)"
  shows "\<exists>ct. ContainerImpl_Start ct1 = Some (RAPTOR_ERROR_NONE, ct) \<and> running_ok opt ct
    \<and> ct_mgr ct = replicate (default_container_size opt) (None, None)"
proof -
  have o: "ct_option (ContainerImpl_new self opt w) = opt" by (simp add: ContainerImpl_new_def)
  note i = Init_ok [OF ContainerImpl_new_idle _ assms(2), unfolded o, OF assms(1)]
  from Start_ok [OF i(1,2,6)] i(3,4,5) show ?thesis by (auto simp: running_ok_def)
qed

lemma reach_running: "container_reach opt ct \<Longrightarrow> sizes_ok opt \<Longrightarrow> running_ok opt ct"
proof (induction rule: container_reach.induct)
  case (cr_start os self w ct1 ct)
  from Start_running [OF cr_start(3,1)] cr_start(2) show ?case by auto
qed (rule container_step_running)

end
