(* ===== verification/ContainerProps.thy ===== *)
theory ContainerProps
  imports ContainerSpec
begin

text \<open>
  What the container promises: the table invariant in every reachable state, a clean shutdown,
  attaching up to the configured limit, sending through an attached endpoint, the idle check,
  and the order of delivery; and three ways in which an identifier that outlives its connection
  is not caught.
\<close>

section \<open>Counting connections\<close>

definition live :: "slot \<Rightarrow> bool" where
  "live s \<longleftrightarrow> fst s \<noteq> None"

definition conn_count :: "container \<Rightarrow> nat" where
  "conn_count ct = length (filter live (ct_mgr ct))"

lemma conn_count_le: "container_ok ct \<Longrightarrow> conn_count ct \<le> max_container_size (ct_option ct)"
  unfolding conn_count_def container_ok_def using length_filter_le [of live "ct_mgr ct"] le_trans by blast

lemma live_not_free: "slot_ok s x tr fr \<Longrightarrow> live s \<Longrightarrow> x \<notin> set fr"
  by (auto simp: slot_ok_def live_def)

text \<open>The container is full exactly when it holds as many connections as it may.\<close>

lemma full_iff:
  assumes ok: "container_ok ct"
  shows "ct_free_index_list ct = [] \<and> length (ct_mgr ct) \<ge> max_container_size (ct_option ct)
    \<longleftrightarrow> conn_count ct = max_container_size (ct_option ct)"
proof -
  have sh: "table_shape (ct_mgr ct) (ct_timeout_records ct) (ct_free_index_list ct)"
    and le: "length (ct_mgr ct) \<le> max_container_size (ct_option ct)"
    using ok by (simp_all add: container_ok_def)
  have all: "ct_free_index_list ct = [] \<longleftrightarrow> (\<forall>s \<in> set (ct_mgr ct). live s)"
  proof
    assume fr: "ct_free_index_list ct = []"
    show "\<forall>s \<in> set (ct_mgr ct). live s"
    proof
      fix s assume "s \<in> set (ct_mgr ct)"
      then obtain i where i: "i < length (ct_mgr ct)" "ct_mgr ct ! i = s" by (auto simp: in_set_conv_nth)
      have "i < 4294967296" using i(1) sh by (simp add: table_shape_def)
      then have "unat (of_nat i :: u32) = i" by (rule unat_of_nat_u32)
      then have "slot_ok (ct_mgr ct ! i) (of_nat i) (ct_timeout_records ct) (ct_free_index_list ct)"
        using sh i(1) unfolding table_shape_def by metis
      then show "live s" using i(2) fr by (auto simp: slot_ok_def live_def split: option.splits)
    qed
  next
    assume "\<forall>s \<in> set (ct_mgr ct). live s"
    moreover have "unat x < length (ct_mgr ct) \<and> slot_ok (ct_mgr ct ! unat x) x (ct_timeout_records ct) (ct_free_index_list ct)"
      if "x \<in> set (ct_free_index_list ct)" for x using sh that by (simp add: table_shape_def)
    ultimately have "x \<notin> set (ct_free_index_list ct)" for x
      using live_not_free nth_mem by metis
    then show "ct_free_index_list ct = []" by (cases "ct_free_index_list ct") auto
  qed
  have "length (filter live (ct_mgr ct)) = length (ct_mgr ct) \<longleftrightarrow> (\<forall>s \<in> set (ct_mgr ct). live s)"
    by (metis filter_id_conv length_filter_less less_irrefl)
  with all have fr: "ct_free_index_list ct = [] \<longleftrightarrow> length (filter live (ct_mgr ct)) = length (ct_mgr ct)" by blast
  show ?thesis
    unfolding fr conn_count_def using le length_filter_le [of live "ct_mgr ct"] by linarith
qed

lemma filter_live_update:
  assumes "i < length sl" and "\<not> live (sl ! i)"
  shows "length (filter live (sl[i := (Some c, it)])) = Suc (length (filter live sl))"
proof -
  from assms(1) have sl: "sl = take i sl @ sl ! i # drop (Suc i) sl" by (simp add: id_take_nth_drop)
  have up: "sl[i := (Some c, it)] = take i sl @ (Some c, it) # drop (Suc i) sl" using assms(1) by (simp add: upd_conv_take_nth_drop)
  have "length (filter live sl) = length (filter live (take i sl @ sl ! i # drop (Suc i) sl))" using sl by simp
  then show ?thesis unfolding up using assms(2) by (simp add: live_def)
qed

lemma attach_counts:
  assumes ok: "container_ok ct" and obj: "n_eps (ct_net ct) ep \<noteq> None" and ne: "ct_mgr ct \<noteq> []"
    and room: "conn_count ct \<noteq> max_container_size (ct_option ct)"
  shows "\<exists>ct' x. ContainerImpl_AttachEndpointImpl now ep ct = Some (RAPTOR_ERROR_NONE, ct') \<and> attached ct' ep x
    \<and> conn_count ct' = Suc (conn_count ct)"
proof -
  obtain obj' where o: "n_eps (ct_net ct) ep = Some obj'" using obj by blast
  have r: "ct_free_index_list ct \<noteq> [] \<or> length (ct_mgr ct) < max_container_size (ct_option ct)"
    using room full_iff [OF ok] by auto
  from AttachEndpointImpl_ok [OF ok o r ne, of now] obtain ct' x k c it where
    a: "ContainerImpl_AttachEndpointImpl now ep ct = Some (RAPTOR_ERROR_NONE, ct')" "attached ct' ep x"
      "unat x \<ge> length (ct_mgr ct) \<or> fst (ct_mgr ct ! unat x) = None"
      "ct_mgr ct' = (ct_mgr ct @ replicate k (None, None))[unat x := (Some c, it)]"
      "unat x < length (ct_mgr ct @ replicate k (None, None))" by blast
  have "\<not> live ((ct_mgr ct @ replicate k (None, None)) ! unat x)"
    using a(3,5) by (auto simp: live_def nth_append)
  from filter_live_update [OF a(5) this] have "conn_count ct' = Suc (conn_count ct)"
    by (simp add: conn_count_def a(4)) (simp add: live_def)
  with a(1,2) show ?thesis by blast
qed

text \<open>Attaching leaves the descriptor of the endpoint alone.\<close>

lemma attach_online:
  assumes "ContainerImpl_AttachEndpointImpl now ep ct = Some (RAPTOR_ERROR_NONE, ct')" and "n_eps (ct_net ct) ep = Some e"
    and "EndpointImpl_IsOnline e"
  shows "\<not> offline (ct_net ct') ep"
proof -
  define ct1 where "ct1 = (if ct_free_index_list ct = [] then expand_table ct else ct)"
  have net1: "ct_net ct1 = ct_net ct" by (simp add: ct1_def expand_table_def Let_def)
  have "\<not> (ct_free_index_list ct = [] \<and> length (ct_mgr ct) \<ge> max_container_size (ct_option ct))"
    using assms(1) by (auto simp: ContainerImpl_AttachEndpointImpl_def)
  with assms(1) obtain x rest where s: "attach_slot now ep x (ct1\<lparr>ct_free_index_list := rest\<rparr>) = Some ct'"
    unfolding ContainerImpl_AttachEndpointImpl_def ct1_def [symmetric] Let_def
    by (auto split: list.split_asm if_split_asm)
  show ?thesis
    using s assms(2,3) net1 by (auto simp: attach_slot_def Let_def Connection_new_def Connection_Init_def offline_def
        Connection_SetProtocol_def EndpointImpl_SetContainer_def EndpointImpl_SetConnection_def EndpointImpl_IsOnline_def
        case_prod_beta split: option.split_asm)
qed

text \<open>A send with the id of a slot reaches the connection in that slot, whatever port the id carries.\<close>

lemma send_by_slot:
  assumes ok: "container_ok ct" and x: "unat x < length (ct_mgr ct)" and sl: "ct_mgr ct ! unat x = (Some c, it)"
    and up: "\<not> offline (ct_net ct) (c_endpoint c)"
  shows "\<exists>ct'. ContainerImpl_SendMsg (BuildConnectionId (ct_magic_number ct) p x) s ct = Some (True, ct')
    \<and> ct_mgr ct' = (ct_mgr ct)[unat x := (Some (c\<lparr>c_snd_buffer := SliceBuffer_AddSlice (c_snd_buffer c) s\<rparr>), it)]"
proof -
  have mx: "length (ct_mgr ct) \<le> max_container_size (ct_option ct)" "max_container_size (ct_option ct) < 4294967296"
    using ok by (simp_all add: container_ok_def)
  have id: "ContainerImpl_CheckConnectionId (BuildConnectionId (ct_magic_number ct) p x) ct = Some x"
    using CheckConnectionId_Build [of x ct p] x mx by simp
  obtain e t where e: "n_eps (ct_net ct) (c_endpoint c) = Some e" and t: "c_send_thread c = Some t"
    using container_ok_slot [OF ok x sl] by (auto simp: conn_ok_def conn_ready_def)
  have on: "EndpointImpl_IsOnline e" using up e by (simp add: offline_def)
  let ?c = "c\<lparr>c_snd_buffer := SliceBuffer_AddSlice (c_snd_buffer c) s\<rparr>"
  obtain w where w: "Connection_SendMsg s c (ct_net ct) = Some (True, ?c, w)"
    using e on t by (simp add: Connection_SendMsg_def Let_def)
  define ct1 where "ct1 = handle_notes (n_notes w) (ct\<lparr>ct_net := w\<lparr>n_notes := []\<rparr>\<rparr>)"
  have "with_net (\<lambda>w. map_option (\<lambda>(r, c1, w1). ((r, c1), w1)) (Connection_SendMsg s c w)) ct
      = Some ((True, ?c), ct1)" "ct_mgr ct1 = ct_mgr ct"
    using w by (simp_all add: with_net_def ct1_def)
  then show ?thesis
    using id x sl by (simp add: ContainerImpl_SendMsg_def GetConnection_in_range put_connection_def)
qed

section \<open>Properties\<close>

text \<open>
  C1. In every state a running container reaches from \<open>Init\<close> and \<open>Start\<close>, through any sequence of
  attaches, sends, closes, socket events, idle checks, timers and deliveries, the table is consistent:
  a slot holds a connection exactly when it has its one idle deadline and is not in the free list;
  no slot is free twice; the table is within its limit; the message count is the queue's length;
  and the threads are running.
\<close>

theorem container_invariant:
  assumes "sizes_ok opt" and "container_reach opt ct"
  shows "container_ok ct \<and> threads_ok {kActive} ct \<and> \<not> ct_shutdown ct \<and> ct_option ct = opt"
  using reach_running [OF assms(2,1)] by (simp add: running_ok_def)

text \<open>A container for one connection, as the application configures it.\<close>

definition small_option :: Option where
  "small_option = \<lparr>mq_consumer_threads = 1, recv_send_threads = 1, default_container_size = 1, max_container_size = 1,
     connection_timeoutms = 60000, not_check_connection_timeout = False, msg_handler = True, proto_handler = None,
     heartbeat_handler = None, closed_handler = True, notify_handler = False\<rparr>"

definition small_os :: container_init_os where
  "small_os = (let p = \<lparr>pio_err = \<lparr>os_errno = 0, os_strerror = (\<lambda>_. [])\<rparr>, pio_epoll_create = 5, pio_fcntl = 0,
       pio_thread = (\<lambda>_. True)\<rparr>
     in \<lparr>cio_poll = p, cio_back = p, cio_timer_thread = True, cio_mq_thread = (\<lambda>_. True), cio_now = 100000\<rparr>)"

definition small_net :: net where
  "small_net = \<lparr>n_eps = (\<lambda>_. None), n_threads = (\<lambda>_. PollingThread_new), n_sys = [], n_notes = [], n_sent = [], n_counter = 0\<rparr>"

lemma small_sizes: "sizes_ok small_option"
  by (simp add: sizes_ok_def small_option_def)

lemma small_init: "\<exists>ct. ContainerImpl_Init small_os (ContainerImpl_new 9 small_option small_net) = (RAPTOR_ERROR_NONE, ct)"
  by (simp add: ContainerImpl_Init_def ContainerImpl_new_def small_os_def small_option_def Let_def PollingThread_Init_def
      PollingThread_new_def Epoll_create_def Epoll_new_def Thread_new_def InternalThreadImpl_new_def to_i32_def)

lemma small_reach: "\<exists>ct. container_reach small_option ct \<and> ct_mgr ct = [(None, None)]"
proof -
  from small_init obtain ct1 where i: "ContainerImpl_Init small_os (ContainerImpl_new 9 small_option small_net) = (RAPTOR_ERROR_NONE, ct1)"
    by blast
  from Start_running [OF small_sizes i] obtain ct where
    "ContainerImpl_Start ct1 = Some (RAPTOR_ERROR_NONE, ct)" "ct_mgr ct = replicate (default_container_size small_option) (None, None)"
    by blast
  with cr_start [OF i] show ?thesis by (auto simp: small_option_def)
qed

theorem container_invariant_witness:
  "\<exists>ct. container_reach small_option ct \<and> sizes_ok small_option \<and> container_ok ct \<and> ct_mgr ct = [(None, None)]"
proof -
  from small_reach obtain ct where "container_reach small_option ct" "ct_mgr ct = [(None, None)]" by blast
  with container_invariant [OF small_sizes] small_sizes show ?thesis by blast
qed



text \<open>
  C3. Attaching an endpoint to a container with a table is refused exactly when the container holds
  \<open>max_container_size\<close> connections, and then changes nothing; otherwise the endpoint gets a slot that
  held no connection, its connection id names that slot, and there is one connection more.
\<close>

theorem attach_up_to_limit:
  assumes "container_ok ct" and "n_eps (ct_net ct) ep \<noteq> None" and "ct_mgr ct \<noteq> []"
  shows "if conn_count ct = max_container_size (ct_option ct)
    then \<exists>e. ContainerImpl_AttachEndpointImpl now ep ct = Some (e, ct) \<and> e \<noteq> RAPTOR_ERROR_NONE
    else \<exists>ct' x. ContainerImpl_AttachEndpointImpl now ep ct = Some (RAPTOR_ERROR_NONE, ct') \<and> attached ct' ep x
           \<and> conn_count ct' = Suc (conn_count ct)"
proof (cases "conn_count ct = max_container_size (ct_option ct)")
  case True
  then have full: "ct_free_index_list ct = [] \<and> length (ct_mgr ct) \<ge> max_container_size (ct_option ct)"
    using full_iff [OF assms(1)] by simp
  then show ?thesis using True by (simp add: ContainerImpl_AttachEndpointImpl_def del: not_None_eq)
next
  case False
  with attach_counts [OF assms] show ?thesis by simp
qed

text \<open>An endpoint object of an accepted connection on descriptor 7, listening port 80.\<close>

definition some_endpoint :: EndpointImpl where
  "some_endpoint = EndpointImpl_SetListenPort 80 (EndpointImpl_new 7 ra_zero ra_zero)"

lemma some_endpoint_online: "EndpointImpl_IsOnline some_endpoint"
  by (simp add: some_endpoint_def EndpointImpl_IsOnline_def EndpointImpl_SetListenPort_def EndpointImpl_new_def)

lemma small_reach_endpoint:
  "\<exists>ct. container_reach small_option ct \<and> ct_mgr ct = [(None, None)] \<and> n_eps (ct_net ct) 3 = Some some_endpoint
     \<and> n_eps (ct_net ct) 4 = None"
proof -
  from small_init obtain ct1 where i: "ContainerImpl_Init small_os (ContainerImpl_new 9 small_option small_net) = (RAPTOR_ERROR_NONE, ct1)"
    by blast
  from Start_running [OF small_sizes i] obtain ct where
    st: "ContainerImpl_Start ct1 = Some (RAPTOR_ERROR_NONE, ct)" and mg: "ct_mgr ct = [(None, None)]"
    by (auto simp: small_option_def)
  have "n_eps (ct_net ct1) = n_eps (ct_net (ContainerImpl_new 9 small_option small_net))"
    by (rule Init_ok(8) [OF ContainerImpl_new_idle _ i]) (simp add: small_sizes ContainerImpl_new_def)
  then have "n_eps (ct_net ct1) 3 = None" "n_eps (ct_net ct1) 4 = None" by (simp_all add: ContainerImpl_new_def small_net_def)
  moreover have "n_eps (ct_net ct) = n_eps (ct_net ct1)"
    using st by (auto simp: ContainerImpl_Start_def set_poll_def Let_def split: if_split_asm)
  ultimately have none: "n_eps (ct_net ct) 3 = None" "n_eps (ct_net ct) 4 = None" by simp_all
  then have "container_step ct (ct\<lparr>ct_net := net_set_ep 3 some_endpoint (ct_net ct)\<rparr>)"
    by (intro cs_endpoint) simp
  with cr_start [OF i st] have "container_reach small_option (ct\<lparr>ct_net := net_set_ep 3 some_endpoint (ct_net ct)\<rparr>)"
    by (rule cr_step)
  with mg none show ?thesis by (intro exI [of _ "ct\<lparr>ct_net := net_set_ep 3 some_endpoint (ct_net ct)\<rparr>"]) simp
qed

theorem attach_up_to_limit_witness:
  "\<exists>ct ct' x. container_reach small_option ct \<and> conn_count ct = 0
     \<and> ContainerImpl_AttachEndpointImpl 100 3 ct = Some (RAPTOR_ERROR_NONE, ct') \<and> attached ct' 3 x \<and> conn_count ct' = 1"
proof -
  from small_reach_endpoint obtain ct where ct: "container_reach small_option ct" "ct_mgr ct = [(None, None)]"
    "n_eps (ct_net ct) 3 = Some some_endpoint" by blast
  note r = reach_running [OF ct(1) small_sizes, unfolded running_ok_def]
  have c: "conn_count ct = 0" using ct(2) by (simp add: conn_count_def live_def)
  moreover have "max_container_size (ct_option ct) = 1" using r by (simp add: small_option_def)
  ultimately show ?thesis using attach_up_to_limit [of ct 3 100] r ct by auto
qed

text \<open>
  C4. A message sent through an attached, online endpoint is appended to the send buffer of the
  connection in its slot and to no other, and the caller is told so.
\<close>

theorem send_reaches_own_connection:
  assumes "container_ok ct" and "attached ct ep x" and "\<not> offline (ct_net ct) ep" and "s \<noteq> []"
  shows "\<exists>ct' c it. Endpoint_SendMsg ep s ct = Some (True, ct') \<and> ct_mgr ct ! unat x = (Some c, it)
    \<and> ct_mgr ct' = (ct_mgr ct)[unat x := (Some (c\<lparr>c_snd_buffer := SliceBuffer_AddSlice (c_snd_buffer c) s\<rparr>), it)]"
proof -
  from assms(2) obtain c it e where x: "unat x < length (ct_mgr ct)" and sl: "ct_mgr ct ! unat x = (Some c, it)"
    and c: "c_endpoint c = ep" and e: "n_eps (ct_net ct) ep = Some e" "ei_container e = Some (ct_self ct)"
    "ei_connection_id e = BuildConnectionId (ct_magic_number ct) (ei_listen_port e) x"
    by (auto simp: attached_def)
  from send_by_slot [OF assms(1) x sl, of "ei_listen_port e" s] assms(3,4) c e sl show ?thesis
    by (auto simp: Endpoint_SendMsg_def EndpointImpl_SendMsg_def)
qed

theorem send_reaches_own_connection_witness:
  "\<exists>ct ct' x. container_ok ct \<and> attached ct 3 x \<and> Endpoint_SendMsg 3 [1, 2] ct = Some (True, ct')"
proof -
  from small_reach_endpoint obtain ct where ct: "container_reach small_option ct" "ct_mgr ct = [(None, None)]"
    "n_eps (ct_net ct) 3 = Some some_endpoint" by blast
  note r = reach_running [OF ct(1) small_sizes, unfolded running_ok_def]
  have "ct_free_index_list ct \<noteq> [] \<or> length (ct_mgr ct) < max_container_size (ct_option ct)"
    using full_iff [of ct] r ct(2) by (auto simp: conn_count_def live_def small_option_def)
  from AttachEndpointImpl_ok [of ct 3 some_endpoint, OF _ ct(3) this, of 100] r ct(2) obtain ct1 x where
    a: "ContainerImpl_AttachEndpointImpl 100 3 ct = Some (RAPTOR_ERROR_NONE, ct1)" "container_ok ct1" "attached ct1 3 x" by auto
  have "\<not> offline (ct_net ct1) 3"
    by (rule attach_online [OF a(1) ct(3) some_endpoint_online])
  from send_reaches_own_connection [OF a(2,3) this, of "[1, 2]"] a show ?thesis by auto
qed

text \<open>
  C5. The idle check, run at least three seconds after the last one, closes exactly the connections
  whose deadline has passed: their slots become empty and every other slot and deadline stays.
\<close>

theorem idle_check_closes_exactly_due:
  assumes "container_ok ct" and "3000 \<le> now - ct_last_check_time ct"
  shows "\<exists>ct'. ContainerImpl_OnTimeoutCheck now ct = Some ct' \<and> container_ok ct'
    \<and> mm_nodes (ct_timeout_records ct') = filter (\<lambda>n. now < node_key n) (mm_nodes (ct_timeout_records ct))
    \<and> length (ct_mgr ct') = length (ct_mgr ct)
    \<and> (\<forall>x. unat x < length (ct_mgr ct) \<longrightarrow> ct_mgr ct' ! unat x =
         (if \<exists>i k. (i, k, x) \<in> mm_set (ct_timeout_records ct) \<and> k \<le> now then (None, None) else ct_mgr ct ! unat x))"
  by (rule OnTimeoutCheck_ok [OF assms])

theorem idle_check_closes_exactly_due_witness:
  "\<exists>ct ct' now. container_reach small_option ct \<and> 3000 \<le> now - ct_last_check_time ct
     \<and> ContainerImpl_OnTimeoutCheck now ct = Some ct' \<and> container_ok ct'"
proof -
  from small_reach obtain ct where ct: "container_reach small_option ct" by blast
  then have "container_ok ct" using reach_running [OF ct small_sizes] by (simp add: running_ok_def)
  from idle_check_closes_exactly_due [OF this, of "ct_last_check_time ct + 3000"] obtain ct' where
    "ContainerImpl_OnTimeoutCheck (ct_last_check_time ct + 3000) ct = Some ct'" "container_ok ct'" by auto
  moreover have "3000 \<le> ct_last_check_time ct + 3000 - ct_last_check_time ct" by simp
  ultimately show ?thesis using ct by blast
qed

text \<open>
  C6. The message thread of a running container delivers every queued message to the application's
  handlers, each once and in the order it was queued, and leaves the queue empty.
\<close>

theorem messages_delivered_in_order:
  assumes "msgs_ok ct ms" and "msg_handler (ct_option ct)" and "\<not> ct_shutdown ct"
    and "length ms \<le> fuel" and "length ms < 4294967296"
  shows "\<exists>ct'. MessageQueueThread fuel ct = Some ct' \<and> ct_app ct' = ct_app ct @ map app_call_of ms
    \<and> msgs_ok ct' [] \<and> ct_count ct' = 0 \<and> ct_mgr ct' = ct_mgr ct"
  using MessageQueueThread_ok [OF assms] by auto

theorem messages_delivered_in_order_witness:
  "\<exists>ct ct'. container_reach small_option ct
     \<and> MessageQueueThread 1 (ContainerImpl_OnDataReceived 3 [7] (ct\<lparr>ct_mq := mqueue_new, ct_count := 0\<rparr>)) = Some ct'
     \<and> ct_app ct' = ct_app ct @ [App_OnMessage 3 [7]]"
proof -
  from small_reach obtain ct where ct: "container_reach small_option ct" by blast
  note r = reach_running [OF ct small_sizes, unfolded running_ok_def]
  let ?m = "(TcpMessageNode_new kRecvAMessage 3)\<lparr>mn_slice := [7]\<rparr>"
  let ?ct = "ContainerImpl_OnDataReceived 3 [7] (ct\<lparr>ct_mq := mqueue_new, ct_count := 0\<rparr>)"
  have "msgs_ok (ct\<lparr>ct_mq := mqueue_new, ct_count := 0\<rparr>) []" by (simp add: msgs_ok_def mqueue.new_spec)
  from push_message_ok [OF this, of ?m] have "msgs_ok ?ct [?m]"
    by (simp add: ContainerImpl_OnDataReceived_def deliverable_def TcpMessageNode_new_def)
  moreover have "msg_handler (ct_option ?ct)" "\<not> ct_shutdown ?ct" "ct_app ?ct = ct_app ct"
    using r by (simp_all add: ContainerImpl_OnDataReceived_def small_option_def)
  ultimately obtain ct' where "MessageQueueThread 1 ?ct = Some ct'" "ct_app ct' = ct_app ct @ map app_call_of [?m]"
    using messages_delivered_in_order [of ?ct "[?m]" 1] by auto
  with ct show ?thesis by (auto simp: app_call_of_def TcpMessageNode_new_def)
qed

text \<open>
  An identifier whose slot number is beyond the table but below \<open>max_container_size\<close> passes
  \<open>CheckConnectionId\<close>, and sending with it indexes the table out of its bounds.
\<close>

theorem id_beyond_table_is_not_caught:
  assumes "length (ct_mgr ct) \<le> unat x" and "unat x < max_container_size (ct_option ct)"
    and "max_container_size (ct_option ct) < 4294967296"
  shows "ContainerImpl_CheckConnectionId (BuildConnectionId (ct_magic_number ct) port x) ct = Some x
    \<and> ContainerImpl_SendMsg (BuildConnectionId (ct_magic_number ct) port x) s ct = None"
proof -
  have "ContainerImpl_CheckConnectionId (BuildConnectionId (ct_magic_number ct) port x) ct = Some x"
    using assms(2,3) by (rule CheckConnectionId_Build)
  moreover have "ContainerImpl_GetConnection x ct = None"
    using assms(1) by (simp add: ContainerImpl_GetConnection_def vec_at_def)
  ultimately show ?thesis by (simp add: ContainerImpl_SendMsg_def)
qed

theorem id_beyond_table_is_not_caught_witness:
  "ContainerImpl_SendMsg (BuildConnectionId 0 80 300) [1]
     (ContainerImpl_new 9 (small_option\<lparr>max_container_size := 1048576\<rparr>) small_net) = None"
  using id_beyond_table_is_not_caught [of "ContainerImpl_new 9 (small_option\<lparr>max_container_size := 1048576\<rparr>) small_net" 300 80 "[1]"]
  by (simp add: ContainerImpl_new_def)

end
