(* ===== verification/ContainerIds.thy ===== *)
theory ContainerIds
  imports ContainerProps
begin

text \<open>
  Identifiers that outlive their connection. A connection id is the magic number of the container,
  the listening port and the slot number, and nothing in it tells two users of a slot apart: after a
  close and an attach, the id of the closed endpoint names the new connection, and a handler that
  fetched the closed connection deletes the new one.
\<close>

section \<open>What closing changes\<close>

definition closed_ep :: "EndpointImpl \<Rightarrow> EndpointImpl" where
  "closed_ep e = (if EndpointImpl_IsOnline e then e\<lparr>ei_fd := NOT 0\<rparr> else e)"

lemma closed_ep_simps [simp]:
  "ei_connection_id (closed_ep e) = ei_connection_id e" "ei_container (closed_ep e) = ei_container e"
  "ei_listen_port (closed_ep e) = ei_listen_port e" "closed_ep (closed_ep e) = closed_ep e"
  "\<not> EndpointImpl_IsOnline (closed_ep e)"
  by (simp_all add: closed_ep_def)

lemma closed_ep_offline: "\<not> EndpointImpl_IsOnline e \<Longrightarrow> closed_ep e = e"
  by (simp add: closed_ep_def)

lemma Shutdown_eps:
  assumes "Connection_Shutdown notify ev c w = Some (c', w')"
  shows "\<exists>e. n_eps w (c_endpoint c) = Some e \<and> n_eps w' = (n_eps w)(c_endpoint c \<mapsto> closed_ep e)"
proof -
  from assms obtain e where e: "n_eps w (c_endpoint c) = Some e" by (auto simp: Connection_Shutdown_def)
  show ?thesis
  proof (cases "EndpointImpl_IsOnline e")
    case True
    with assms e show ?thesis
      by (auto simp: Connection_Shutdown_def closed_ep_def Let_def split: if_split_asm)
  next
    case False
    with assms e Connection_Shutdown_offline [OF e False] show ?thesis
      by (simp add: closed_ep_offline fun_upd_idem)
  qed
qed

lemma free_slot_frame:
  assumes x: "unat x < length (ct_mgr ct)" and s: "ct_mgr ct ! unat x = (Some c, it)" and f: "free_slot x ct = Some ct'"
  shows "ct_free_index_list ct' = ct_free_index_list ct @ [x]"
    and "\<exists>e. n_eps (ct_net ct) (c_endpoint c) = Some e \<and> n_eps (ct_net ct') = (n_eps (ct_net ct))(c_endpoint c \<mapsto> closed_ep e)"
    and "n_notes (ct_net ct') = []"
proof -
  from f x s obtain w where w: "Connection_dtor c (ct_net ct) = Some w"
    by (auto simp: free_slot_def reset_connection_def vec_at_def with_net_def)
  then obtain c' where sd: "Connection_Shutdown False Event_default c (ct_net ct) = Some (c', w)" by (auto simp: Connection_dtor_def)
  have fr: "ct_free_index_list ct' = ct_free_index_list ct @ [x] \<and> n_eps (ct_net ct') = n_eps w \<and> n_notes (ct_net ct') = []"
    using f x s w by (auto simp: free_slot_def reset_connection_def vec_at_def with_net_def)
  then show "ct_free_index_list ct' = ct_free_index_list ct @ [x]" "n_notes (ct_net ct') = []" by simp_all
  from Shutdown_eps [OF sd] fr
  show "\<exists>e. n_eps (ct_net ct) (c_endpoint c) = Some e \<and> n_eps (ct_net ct') = (n_eps (ct_net ct))(c_endpoint c \<mapsto> closed_ep e)" by simp
qed

text \<open>The destructor notifies nobody.\<close>

lemma dtor_silent:
  assumes "Connection_dtor c w = Some w'"
  shows "n_notes w' = n_notes w"
proof -
  from assms obtain c' e where sd: "Connection_Shutdown False Event_default c w = Some (c', w')"
    and e: "n_eps w (c_endpoint c) = Some e" by (auto simp: Connection_dtor_def Connection_Shutdown_def)
  then show ?thesis
    by (cases "EndpointImpl_IsOnline e") (auto simp: Connection_Shutdown_def Let_def)
qed

lemma free_slot_silent:
  assumes x: "unat x < length (ct_mgr ct)" and s: "ct_mgr ct ! unat x = (Some c, it)" and f: "free_slot x ct = Some ct'"
    and ms: "msgs_ok ct ms" and quiet: "n_notes (ct_net ct) = []"
  shows "msgs_ok ct' ms"
proof -
  from f x s obtain w where w: "Connection_dtor c (ct_net ct) = Some w"
    by (auto simp: free_slot_def reset_connection_def vec_at_def with_net_def)
  with dtor_silent [OF w] quiet f x s ms show ?thesis
    by (auto simp: free_slot_def reset_connection_def vec_at_def with_net_def msgs_ok_def)
qed

lemma close_frame:
  assumes x: "unat x < length (ct_mgr ct)" and s: "ct_mgr ct ! unat x = (Some c, it)"
    and cl: "close_connection notify ev x c ct = Some ct'"
  shows "ct_free_index_list ct' = ct_free_index_list ct @ [x]"
    and "\<exists>e. n_eps (ct_net ct) (c_endpoint c) = Some e \<and> n_eps (ct_net ct') = (n_eps (ct_net ct))(c_endpoint c \<mapsto> closed_ep e)"
    and "n_notes (ct_net ct') = []"
proof -
  from cl obtain c1 w where sd: "Connection_Shutdown notify ev c (ct_net ct) = Some (c1, w)"
    by (auto simp: close_connection_def with_net_def)
  define ct1 where "ct1 = put_connection x c1 (handle_notes (n_notes w) (ct\<lparr>ct_net := w\<lparr>n_notes := []\<rparr>\<rparr>))"
  have m1: "ct_mgr ct1 = (ct_mgr ct)[unat x := (Some c1, it)]" "ct_free_index_list ct1 = ct_free_index_list ct"
    "n_eps (ct_net ct1) = n_eps w"
    using s by (simp_all add: ct1_def put_connection_def)
  have del: "ContainerImpl_DeleteConnection x ct1 = Some ct'"
    using cl sd by (simp add: close_connection_def with_net_def ct1_def)
  have x1: "unat x < length (ct_mgr ct1)" "ct_mgr ct1 ! unat x = (Some c1, it)" using x m1(1) by simp_all
  have "free_slot x ct1 = Some ct'"
    using del x1 by (simp add: ContainerImpl_DeleteConnection_def vec_at_def)
  note fs = free_slot_frame [OF x1 this]
  have ep: "c_endpoint c1 = c_endpoint c" using Shutdown_step [OF sd] by (simp add: conn_step_def)
  show "ct_free_index_list ct' = ct_free_index_list ct @ [x]" "n_notes (ct_net ct') = []" using fs(1,3) m1(2) by simp_all
  from Shutdown_eps [OF sd] fs(2) ep m1(3)
  show "\<exists>e. n_eps (ct_net ct) (c_endpoint c) = Some e \<and> n_eps (ct_net ct') = (n_eps (ct_net ct))(c_endpoint c \<mapsto> closed_ep e)"
    by auto
qed

lemma attach_slot_notes: "attach_slot now ep x ct = Some ct' \<Longrightarrow> n_notes (ct_net ct') = n_notes (ct_net ct)"
  by (auto simp: attach_slot_def Let_def Connection_new_def Connection_Init_def case_prod_beta split: option.split_asm)

text \<open>Closing an attached endpoint of a full container, and attaching another one.\<close>

lemma close_then_attach:
  assumes ok: "container_ok ct" and at: "attached ct ep1 x" and full: "ct_free_index_list ct = []"
    and ne: "ep1 \<noteq> ep2" and e2: "n_eps (ct_net ct) ep2 = Some e2"
    and e1: "n_eps (ct_net ct) ep1 = Some e1"
  shows "\<exists>ct1 ct2 c2 it2. EndpointImpl_Close ep1 notify ct = Some (True, ct1)
    \<and> ContainerImpl_AttachEndpointImpl now ep2 ct1 = Some (RAPTOR_ERROR_NONE, ct2) \<and> container_ok ct2
    \<and> attached ct2 ep2 x \<and> ct_mgr ct2 = (ct_mgr ct)[unat x := (Some c2, it2)] \<and> c_endpoint c2 = ep2
    \<and> n_eps (ct_net ct2) ep1 = Some (closed_ep e1) \<and> ct_magic_number ct2 = ct_magic_number ct
    \<and> (EndpointImpl_IsOnline e2 \<longrightarrow> \<not> offline (ct_net ct2) ep2) \<and> n_notes (ct_net ct2) = []"
proof -
  from at obtain c it where x: "unat x < length (ct_mgr ct)" and sl: "ct_mgr ct ! unat x = (Some c, it)"
    and c: "c_endpoint c = ep1" and con: "ei_container e1 = Some (ct_self ct)"
    and cid: "ei_connection_id e1 = BuildConnectionId (ct_magic_number ct) (ei_listen_port e1) x"
    using e1 by (auto simp: attached_def)
  have mx: "length (ct_mgr ct) \<le> max_container_size (ct_option ct)" "max_container_size (ct_option ct) < 4294967296"
    using ok by (simp_all add: container_ok_def)
  have chk: "ContainerImpl_CheckConnectionId (EndpointImpl_ConnectionId e1) ct = Some x"
    using CheckConnectionId_Build [of x ct "ei_listen_port e1"] x mx cid by (simp add: EndpointImpl_ConnectionId_def)
  from close_connection_ok [OF ok x sl, of notify Event_default] obtain ct1 where
    cl: "close_connection notify Event_default x c ct = Some ct1" and ok1: "container_ok ct1"
    and m1: "ct_mgr ct1 = (ct_mgr ct)[unat x := (None, None)]" by blast
  note fr = close_frame [OF x sl cl]
  have eps1: "n_eps (ct_net ct1) = (n_eps (ct_net ct))(ep1 \<mapsto> closed_ep e1)" using fr(2) c e1 by auto
  have k1: "ct_magic_number ct1 = ct_magic_number ct" "ct_option ct1 = ct_option ct"
    using close_keeps [OF cl] by (simp_all add: keeps_threads_def)
  have "EndpointImpl_Close ep1 notify ct = Some (True, ct1)"
    using e1 con chk cl x sl by (simp add: EndpointImpl_Close_def ContainerImpl_CloseEndpoint_def GetConnection_in_range)
  moreover
  let ?ct1 = "ct1\<lparr>ct_free_index_list := []\<rparr>"
  obtain ms where ms: "msgs_ok ct1 ms" using ok1 by (auto simp: container_ok_def)
  have free: "ct_free_index_list ct1 = [x]" using fr(1) full by simp
  have pre: "table_shape (ct_mgr ?ct1) (ct_timeout_records ?ct1) (x # ct_free_index_list ?ct1)"
    "conns_ok (ct_mgr ?ct1) (ct_net ?ct1)" "n_eps (ct_net ?ct1) ep2 = Some e2"
    "length (ct_mgr ?ct1) \<le> max_container_size (ct_option ?ct1)" "max_container_size (ct_option ?ct1) < 4294967296"
    "msgs_ok ?ct1 ms"
    using ok1 free eps1 ne e2 ms by (simp_all add: container_ok_def msgs_ok_def)
  obtain ct2 c2 it2 where a: "attach_slot now ep2 x ?ct1 = Some ct2" "container_ok ct2" "attached ct2 ep2 x"
    "ct_mgr ct2 = (ct_mgr ?ct1)[unat x := (Some c2, it2)]" "ct_magic_number ct2 = ct_magic_number ?ct1"
    "\<forall>a. a \<noteq> ep2 \<longrightarrow> n_eps (ct_net ct2) a = n_eps (ct_net ?ct1) a"
    using attach_slot_ok [OF pre, of now] by blast
  have "ContainerImpl_AttachEndpointImpl now ep2 ct1 = Some (RAPTOR_ERROR_NONE, ct2)"
    using free a(1) by (simp add: ContainerImpl_AttachEndpointImpl_def)
  moreover from this have "EndpointImpl_IsOnline e2 \<longrightarrow> \<not> offline (ct_net ct2) ep2"
    using attach_online [of now ep2 ct1 ct2 e2] pre(3) by simp
  moreover have "n_notes (ct_net ct2) = []" using attach_slot_notes [OF a(1)] fr(3) by simp
  moreover have m2: "ct_mgr ct2 = (ct_mgr ct)[unat x := (Some c2, it2)]" using a(4) m1 by simp
  moreover have "c_endpoint c2 = ep2" using a(3) m2 x by (simp add: attached_def)
  moreover have "n_eps (ct_net ct2) ep1 = Some (closed_ep e1)" using a(6) ne eps1 by simp
  moreover have "ct_magic_number ct2 = ct_magic_number ct" using a(5) k1(1) by simp
  ultimately show ?thesis using a(2,3) by blast
qed

section \<open>Properties\<close>

text \<open>
  C37. A connection id is reused: in a full container, after one endpoint is closed and another is
  attached, a message sent through the closed endpoint is accepted and queued on the other
  endpoint's connection.
\<close>

theorem closed_endpoint_sends_to_other_connection:
  assumes "container_ok ct" and "attached ct ep1 x" and "ct_free_index_list ct = []" and "ep1 \<noteq> ep2"
    and "n_eps (ct_net ct) ep2 = Some e2" and "EndpointImpl_IsOnline e2" and "s \<noteq> []"
  shows "\<exists>ct1 ct2 ct3 c c' it. EndpointImpl_Close ep1 notify ct = Some (True, ct1)
    \<and> ContainerImpl_AttachEndpointImpl now ep2 ct1 = Some (RAPTOR_ERROR_NONE, ct2)
    \<and> Endpoint_SendMsg ep1 s ct2 = Some (True, ct3)
    \<and> ct_mgr ct2 ! unat x = (Some c, it) \<and> c_endpoint c = ep2
    \<and> ct_mgr ct3 ! unat x = (Some c', it) \<and> c_snd_buffer c' = SliceBuffer_AddSlice (c_snd_buffer c) s"
proof -
  from assms(2) obtain e1 where e1: "n_eps (ct_net ct) ep1 = Some e1" "ei_container e1 \<noteq> None"
    "ei_connection_id e1 = BuildConnectionId (ct_magic_number ct) (ei_listen_port e1) x" and x: "unat x < length (ct_mgr ct)"
    by (auto simp: attached_def)
  obtain ct1 ct2 c2 it2 where h: "EndpointImpl_Close ep1 notify ct = Some (True, ct1)"
    "ContainerImpl_AttachEndpointImpl now ep2 ct1 = Some (RAPTOR_ERROR_NONE, ct2)" "container_ok ct2"
    "ct_mgr ct2 = (ct_mgr ct)[unat x := (Some c2, it2)]" "c_endpoint c2 = ep2"
    "n_eps (ct_net ct2) ep1 = Some (closed_ep e1)" "ct_magic_number ct2 = ct_magic_number ct" "\<not> offline (ct_net ct2) ep2"
    using close_then_attach [OF assms(1-5) e1(1), of notify now] assms(6) by blast
  have x2: "unat x < length (ct_mgr ct2)" "ct_mgr ct2 ! unat x = (Some c2, it2)" using h(4) x by simp_all
  from send_by_slot [OF h(3) x2, of "ei_listen_port e1" s] h(5,8) obtain ct3 where
    sd: "ContainerImpl_SendMsg (BuildConnectionId (ct_magic_number ct) (ei_listen_port e1) x) s ct2 = Some (True, ct3)"
      "ct_mgr ct3 = (ct_mgr ct2)[unat x := (Some (c2\<lparr>c_snd_buffer := SliceBuffer_AddSlice (c_snd_buffer c2) s\<rparr>), it2)]"
    by (auto simp: h(7))
  have "Endpoint_SendMsg ep1 s ct2 = Some (True, ct3)"
    using assms(7) h(6) e1 sd(1) by (simp add: Endpoint_SendMsg_def EndpointImpl_SendMsg_def)
  moreover have "ct_mgr ct3 ! unat x = (Some (c2\<lparr>c_snd_buffer := SliceBuffer_AddSlice (c_snd_buffer c2) s\<rparr>), it2)"
    using sd(2) x2 by simp
  ultimately show ?thesis
    using h(1,2,5) x2(2)
    by (intro exI [of _ ct1] exI [of _ ct2] exI [of _ ct3] exI [of _ c2]
        exI [of _ "c2\<lparr>c_snd_buffer := SliceBuffer_AddSlice (c_snd_buffer c2) s\<rparr>"] exI [of _ it2]) simp
qed

text \<open>A reachable full container with one attached endpoint and another one waiting.\<close>

lemma small_reach_full:
  "\<exists>ct x. container_reach small_option ct \<and> container_ok ct \<and> attached ct 3 x \<and> ct_free_index_list ct = []
     \<and> n_eps (ct_net ct) 4 = Some some_endpoint"
proof -
  from small_reach_endpoint obtain ct where ct: "container_reach small_option ct" "ct_mgr ct = [(None, None)]"
    "n_eps (ct_net ct) 3 = Some some_endpoint" "n_eps (ct_net ct) 4 = None" by blast
  note r = reach_running [OF ct(1) small_sizes, unfolded running_ok_def]
  have room: "ct_free_index_list ct \<noteq> [] \<or> length (ct_mgr ct) < max_container_size (ct_option ct)"
    using full_iff [of ct] r ct(2) by (auto simp: conn_count_def live_def small_option_def)
  have ne: "ct_mgr ct \<noteq> []" using ct(2) by simp
  from AttachEndpointImpl_ok [OF conjunct1 [OF r] ct(3) room ne, of 100] obtain ct1 x k c it where
    a: "ContainerImpl_AttachEndpointImpl 100 3 ct = Some (RAPTOR_ERROR_NONE, ct1)" "container_ok ct1" "attached ct1 3 x"
      "ct_mgr ct1 = (ct_mgr ct @ replicate k (None, None))[unat x := (Some c, it)]"
      "unat x < length (ct_mgr ct @ replicate k (None, None))"
      "\<forall>a. a \<noteq> 3 \<longrightarrow> n_eps (ct_net ct1) a = n_eps (ct_net ct) a" by blast
  have o1: "ct_option ct1 = small_option" using AttachEndpointImpl_keeps [OF a(1)] r by (simp add: keeps_threads_def)
  have "length (ct_mgr ct1) \<le> 1" using a(2) o1 by (simp add: container_ok_def small_option_def)
  moreover have "length (ct_mgr ct1) = Suc k"
    unfolding a(4) ct(2) by (simp only: length_list_update length_append length_replicate list.size)
  ultimately have "k = 0" by simp
  then have "conn_count ct1 = 1" using a(4,5) ct(2) by (simp add: conn_count_def live_def)
  then have free: "ct_free_index_list ct1 = []" using full_iff [OF a(2)] o1 by (simp add: small_option_def)
  have "ContainerImpl_AttachEndpoint 100 3 False ct = Some (RAPTOR_ERROR_NONE, ct1)"
    using a(1) by (simp add: ContainerImpl_AttachEndpoint_def)
  from cr_step [OF ct(1) cs_attach [OF this]] have r1: "container_reach small_option ct1" .
  let ?ct = "ct1\<lparr>ct_net := net_set_ep 4 some_endpoint (ct_net ct1)\<rparr>"
  have "n_eps (ct_net ct1) 4 = None" using a(6) ct(4) by simp
  note st = cs_endpoint [OF this, of some_endpoint]
  have "attached ?ct 3 x" using a(3) by (simp add: attached_def)
  with cr_step [OF r1 st] container_step_ok [OF st a(2)] free show ?thesis
    by (intro exI [of _ ?ct] exI [of _ x]) simp
qed

theorem closed_endpoint_sends_to_other_connection_witness:
  "\<exists>ct ct1 ct2 ct3. container_reach small_option ct \<and> EndpointImpl_Close 3 True ct = Some (True, ct1)
    \<and> ContainerImpl_AttachEndpointImpl 200 4 ct1 = Some (RAPTOR_ERROR_NONE, ct2)
    \<and> Endpoint_SendMsg 3 [1, 2] ct2 = Some (True, ct3)"
proof -
  from small_reach_full obtain ct x where ct: "container_reach small_option ct" "container_ok ct" "attached ct 3 x"
    "ct_free_index_list ct = []" "n_eps (ct_net ct) 4 = Some some_endpoint" by blast
  from closed_endpoint_sends_to_other_connection [OF ct(2,3,4) _ ct(5) some_endpoint_online, of "[1, 2]" True 200] ct(1)
  show ?thesis by auto
qed

text \<open>
  Two polling threads report an error of the same connection, and both fetch it. The first closes
  it; its slot is given to a new endpoint; then the second goes on: shutting down the connection it
  holds does nothing, and \<open>DeleteConnection\<close> destroys the new endpoint's connection, taking it offline
  without reporting it closed.
\<close>

theorem late_error_event_destroys_new_connection:
  assumes "container_ok ct" and "attached ct ep1 x" and "ct_free_index_list ct = []" and "ep1 \<noteq> ep2"
    and "n_eps (ct_net ct) ep2 = Some e2" and "EndpointImpl_IsOnline e2"
  shows "\<exists>c ct1 ct2 ct3. ContainerImpl_GetConnection x ct = Some (Some c)
    \<and> EndpointImpl_Close ep1 True ct = Some (True, ct1)
    \<and> ContainerImpl_AttachEndpointImpl now ep2 ct1 = Some (RAPTOR_ERROR_NONE, ct2) \<and> \<not> offline (ct_net ct2) ep2
    \<and> Connection_Shutdown True ev c (ct_net ct2) = Some (c, ct_net ct2)
    \<and> ContainerImpl_DeleteConnection x ct2 = Some ct3
    \<and> fst (ct_mgr ct3 ! unat x) = None \<and> offline (ct_net ct3) ep2 \<and> (\<forall>ms. msgs_ok ct2 ms \<longrightarrow> msgs_ok ct3 ms)"
proof -
  from assms(2) obtain c it e1 where x: "unat x < length (ct_mgr ct)" and sl: "ct_mgr ct ! unat x = (Some c, it)"
    and c: "c_endpoint c = ep1" and e1: "n_eps (ct_net ct) ep1 = Some e1"
    by (auto simp: attached_def)
  obtain ct1 ct2 c2 it2 where h: "EndpointImpl_Close ep1 True ct = Some (True, ct1)"
    "ContainerImpl_AttachEndpointImpl now ep2 ct1 = Some (RAPTOR_ERROR_NONE, ct2)" "container_ok ct2"
    "ct_mgr ct2 = (ct_mgr ct)[unat x := (Some c2, it2)]" "c_endpoint c2 = ep2"
    "n_eps (ct_net ct2) ep1 = Some (closed_ep e1)" "\<not> offline (ct_net ct2) ep2"
    "n_notes (ct_net ct2) = []"
    using close_then_attach [OF assms(1-5) e1, of True now] assms(6) by blast
  have x2: "unat x < length (ct_mgr ct2)" "ct_mgr ct2 ! unat x = (Some c2, it2)" using h(4) x by simp_all
  have sh: "Connection_Shutdown True ev c (ct_net ct2) = Some (c, ct_net ct2)"
    using h(6) c by (intro Connection_Shutdown_offline [of _ _ "closed_ep e1"]) simp_all
  from DeleteConnection_ok [OF h(3) x2(1)] obtain ct3 where
    d: "ContainerImpl_DeleteConnection x ct2 = Some ct3" "ct_mgr ct3 = (ct_mgr ct2)[unat x := (None, None)]" by blast
  then have fs: "free_slot x ct2 = Some ct3" using x2 by (simp add: ContainerImpl_DeleteConnection_def vec_at_def)
  from free_slot_frame(2) [OF x2 fs] h(5) have off: "offline (ct_net ct3) ep2" by (auto simp: offline_def)
  have q: "msgs_ok ct3 ms" if "msgs_ok ct2 ms" for ms by (rule free_slot_silent [OF x2 fs that h(8)])
  show ?thesis
    using GetConnection_in_range [OF x] sl h(1,2,7) sh d off q x2(1) by auto
qed

theorem late_error_event_destroys_new_connection_witness:
  "\<exists>ct ct1 ct2 ct3 x. container_reach small_option ct \<and> EndpointImpl_Close 3 True ct = Some (True, ct1)
    \<and> ContainerImpl_AttachEndpointImpl 200 4 ct1 = Some (RAPTOR_ERROR_NONE, ct2) \<and> \<not> offline (ct_net ct2) 4
    \<and> ContainerImpl_DeleteConnection x ct2 = Some ct3 \<and> offline (ct_net ct3) 4"
proof -
  from small_reach_full obtain ct x where ct: "container_reach small_option ct" "container_ok ct" "attached ct 3 x"
    "ct_free_index_list ct = []" "n_eps (ct_net ct) 4 = Some some_endpoint" by blast
  have "(3::addr) \<noteq> 4" by simp
  from late_error_event_destroys_new_connection [OF ct(2,3,4) this ct(5) some_endpoint_online, of 200 Event_default]
  obtain ct1 ct2 ct3 where "EndpointImpl_Close 3 True ct = Some (True, ct1)"
    "ContainerImpl_AttachEndpointImpl 200 4 ct1 = Some (RAPTOR_ERROR_NONE, ct2)" "\<not> offline (ct_net ct2) 4"
    "ContainerImpl_DeleteConnection x ct2 = Some ct3" "offline (ct_net ct3) 4"
    by (elim exE conjE) (rule that; assumption)
  with ct(1) show ?thesis by blast
qed

end
