(* ===== verification/SockSet.thy ===== *)
theory SockSet
  imports EndpointM
begin

text \<open>
  Creating and configuring sockets (src/src/linux/socket_setting.cc). The operating system is the
  parameter \<open>px\<close>: its answer to a system call is any function of the calls made so far and the call.
  The state is the list of calls made, \<open>errno\<close>, the cached listen queue size, and, for the proofs, the
  descriptors that \<open>socket\<close> and \<open>accept4\<close> returned and \<open>close\<close> has not closed yet.
\<close>

unbundle bit_operations_syntax

section \<open>System calls\<close>

datatype sockopt = SO_REUSEADDR | SO_REUSEPORT | SO_SNDTIMEO | SO_RCVTIMEO | SO_ERROR
  | TCP_NODELAY | TCP_USER_TIMEOUT | IPV6_V6ONLY

datatype syscall =
    F_GETFL int | F_SETFL int int | F_GETFD int | F_SETFD int int
  | Setsockopt int sockopt "int list" | Getsockopt int sockopt
  | Socket int | Bind int resolved_address | Listen int int | Getsockname int
  | Accept4 int int | Connect int resolved_address | Sys sys_act

record answer =
  ans_ret :: int
  ans_errno :: int
  ans_val :: int
  ans_addr :: resolved_address

record posix =
  px_answer :: "syscall list \<Rightarrow> syscall \<Rightarrow> answer"
  px_strerror :: "int \<Rightarrow> string"
  px_somaxconn :: "string option option"

record io =
  io_trace :: "syscall list"
  io_errno :: int
  io_queue_size :: "int option"
  io_open :: "int list"
  io_bad_close :: bool

fun fd_effect :: "syscall \<Rightarrow> int \<Rightarrow> io \<Rightarrow> io" where
  "fd_effect (Socket _) r s = (if r < 0 then s else s\<lparr>io_open := r # io_open s\<rparr>)"
| "fd_effect (Accept4 _ _) r s = (if r < 0 then s else s\<lparr>io_open := r # io_open s\<rparr>)"
| "fd_effect (Sys (SysClose fd)) r s =
     s\<lparr>io_bad_close := (io_bad_close s \<or> fd \<notin> set (io_open s)), io_open := remove1 fd (io_open s)\<rparr>"
| "fd_effect _ r s = s"

definition call :: "posix \<Rightarrow> syscall \<Rightarrow> io \<Rightarrow> answer \<times> io" where
  "call px c s =
     (let a = px_answer px (io_trace s) c
      in (a, fd_effect c (ans_ret a) (s\<lparr>io_trace := io_trace s @ [c], io_errno := ans_errno a\<rparr>)))"

text \<open>Calls whose result the code does not look at.\<close>

fun calls :: "posix \<Rightarrow> syscall list \<Rightarrow> io \<Rightarrow> io" where
  "calls px [] s = s"
| "calls px (c # cs) s = calls px cs (snd (call px c s))"

definition posix_error :: "posix \<Rightarrow> io \<Rightarrow> string \<Rightarrow> raptor_error" where
  "posix_error px s api = RAPTOR_POSIX_ERROR \<lparr>os_errno = io_errno s, os_strerror = px_strerror px\<rparr> api"

section \<open>Options\<close>

abbreviation "O_NONBLOCK \<equiv> (2048 :: int)"
abbreviation "FD_CLOEXEC \<equiv> (1 :: int)"

definition raptor_set_socket_nonblocking :: "posix \<Rightarrow> int \<Rightarrow> bool \<Rightarrow> io \<Rightarrow> raptor_error \<times> io" where
  "raptor_set_socket_nonblocking px fd non_blocking s =
     (let (a, s) = call px (F_GETFL fd) s; oldflags = ans_ret a in
      if oldflags < 0 then (posix_error px s ''fcntl'', s)
      else
        let oldflags = (if non_blocking then oldflags OR O_NONBLOCK else oldflags AND NOT O_NONBLOCK);
            (a, s) = call px (F_SETFL fd oldflags) s in
        if ans_ret a \<noteq> 0 then (posix_error px s ''fcntl'', s) else (RAPTOR_ERROR_NONE, s))"

definition raptor_set_socket_cloexec :: "posix \<Rightarrow> int \<Rightarrow> bool \<Rightarrow> io \<Rightarrow> raptor_error \<times> io" where
  "raptor_set_socket_cloexec px fd close_on_exec s =
     (let (a, s) = call px (F_GETFD fd) s; oldflags = ans_ret a in
      if oldflags < 0 then (posix_error px s ''fcntl'', s)
      else
        let oldflags = (if close_on_exec then oldflags OR FD_CLOEXEC else oldflags AND NOT FD_CLOEXEC);
            (a, s) = call px (F_SETFD fd oldflags) s in
        if ans_ret a \<noteq> 0 then (posix_error px s ''fcntl'', s) else (RAPTOR_ERROR_NONE, s))"

text \<open>Set a boolean option and read it back; the three functions differ in the option and its name.\<close>

definition set_and_check :: "posix \<Rightarrow> int \<Rightarrow> sockopt \<Rightarrow> string \<Rightarrow> bool \<Rightarrow> io \<Rightarrow> raptor_error \<times> io" where
  "set_and_check px fd opt name v s =
     (let (a, s) = call px (Setsockopt fd opt [if v then 1 else 0]) s in
      if ans_ret a \<noteq> 0 then (posix_error px s (''setsockopt('' @ name @ '')''), s)
      else
        let (a, s) = call px (Getsockopt fd opt) s in
        if ans_ret a \<noteq> 0 then (posix_error px s (''getsockopt('' @ name @ '')''), s)
        else if (ans_val a \<noteq> 0) \<noteq> v then (MakeStatusFromStaticString (''Failed to set '' @ name), s)
        else (RAPTOR_ERROR_NONE, s))"

definition raptor_set_socket_reuse_addr :: "posix \<Rightarrow> int \<Rightarrow> bool \<Rightarrow> io \<Rightarrow> raptor_error \<times> io" where
  "raptor_set_socket_reuse_addr px fd reuse s = set_and_check px fd SO_REUSEADDR ''SO_REUSEADDR'' reuse s"

definition raptor_set_socket_low_latency :: "posix \<Rightarrow> int \<Rightarrow> bool \<Rightarrow> io \<Rightarrow> raptor_error \<times> io" where
  "raptor_set_socket_low_latency px fd low_latency s = set_and_check px fd TCP_NODELAY ''TCP_NODELAY'' low_latency s"

definition raptor_set_socket_reuse_port :: "posix \<Rightarrow> int \<Rightarrow> bool \<Rightarrow> io \<Rightarrow> raptor_error \<times> io" where
  "raptor_set_socket_reuse_port px fd reuse s = set_and_check px fd SO_REUSEPORT ''SO_REUSEPORT'' reuse s"

text \<open>C's division rounds toward zero.\<close>

definition c_div :: "int \<Rightarrow> int \<Rightarrow> int" where
  "c_div a b = sgn a * sgn b * (\<bar>a\<bar> div \<bar>b\<bar>)"

definition timeval :: "int \<Rightarrow> int list" where
  "timeval timeout_ms = (let sec = c_div timeout_ms 1000 in [sec, (timeout_ms - sec * 1000) * 1000])"

definition raptor_set_socket_snd_timeout :: "posix \<Rightarrow> int \<Rightarrow> int \<Rightarrow> io \<Rightarrow> raptor_error \<times> io" where
  "raptor_set_socket_snd_timeout px fd timeout_ms s =
     (let (a, s) = call px (Setsockopt fd SO_SNDTIMEO (timeval timeout_ms)) s in
      (if ans_ret a = 0 then RAPTOR_ERROR_NONE else posix_error px s ''setsockopt(SO_SNDTIMEO)'', s))"

definition raptor_set_socket_rcv_timeout :: "posix \<Rightarrow> int \<Rightarrow> int \<Rightarrow> io \<Rightarrow> raptor_error \<times> io" where
  "raptor_set_socket_rcv_timeout px fd timeout_ms s =
     (let (a, s) = call px (Setsockopt fd SO_RCVTIMEO (timeval timeout_ms)) s in
      (if ans_ret a = 0 then RAPTOR_ERROR_NONE else posix_error px s ''setsockopt(SO_RCVTIMEO)'', s))"

definition raptor_set_socket_ipv6_only :: "posix \<Rightarrow> int \<Rightarrow> bool \<Rightarrow> io \<Rightarrow> raptor_error \<times> io" where
  "raptor_set_socket_ipv6_only px fd only s =
     (let (a, s) = call px (Setsockopt fd IPV6_V6ONLY [if only then 1 else 0]) s in
      (if ans_ret a = 0 then RAPTOR_ERROR_NONE else posix_error px s ''setsockopt(IPV6_V6ONLY)'', s))"

definition raptor_get_socket_error :: "posix \<Rightarrow> int \<Rightarrow> io \<Rightarrow> int \<times> io" where
  "raptor_get_socket_error px fd s =
     (let (a, s) = call px (Getsockopt fd SO_ERROR) s in (if ans_ret a = 0 then ans_val a else 0, s))"

definition raptor_is_unix_socket :: "resolved_address \<Rightarrow> bool" where
  "raptor_is_unix_socket a \<longleftrightarrow> sa_family a = AF_UNIX"

text \<open>Failures of the user timeout are logged only.\<close>

definition raptor_set_socket_tcp_user_timeout :: "posix \<Rightarrow> int \<Rightarrow> int \<Rightarrow> io \<Rightarrow> raptor_error \<times> io" where
  "raptor_set_socket_tcp_user_timeout px fd timeout s =
     (let (a, s) = call px (Setsockopt fd TCP_USER_TIMEOUT [timeout]) s in
      if ans_ret a \<noteq> 0 then (RAPTOR_ERROR_NONE, s)
      else let (a, s) = call px (Getsockopt fd TCP_USER_TIMEOUT) s in (RAPTOR_ERROR_NONE, s))"

text \<open>Linux has no \<open>SO_NOSIGPIPE\<close>.\<close>

definition raptor_set_socket_no_sigpipe_if_possible :: "posix \<Rightarrow> int \<Rightarrow> io \<Rightarrow> raptor_error \<times> io" where
  "raptor_set_socket_no_sigpipe_if_possible px fd s = (RAPTOR_ERROR_NONE, s)"

section \<open>Creating a socket\<close>

datatype raptor_dualstack_mode = RAPTOR_DSMODE_NONE | RAPTOR_DSMODE_IPV4 | RAPTOR_DSMODE_IPV6 | RAPTOR_DSMODE_DUALSTACK

text \<open>The part after the IPv6 attempt.\<close>

definition create_plain_socket :: "posix \<Rightarrow> int \<Rightarrow> io \<Rightarrow> (raptor_error \<times> raptor_dualstack_mode \<times> int) \<times> io" where
  "create_plain_socket px family s =
     (let dsmode = (if family = AF_INET then RAPTOR_DSMODE_IPV4 else RAPTOR_DSMODE_NONE);
          (a, s) = call px (Socket family) s; newfd = ans_ret a in
      (if newfd \<le> 0 then (posix_error px s ''socket'', dsmode, newfd) else (RAPTOR_ERROR_NONE, dsmode, newfd), s))"

definition raptor_create_dualstack_socket ::
  "posix \<Rightarrow> resolved_address \<Rightarrow> io \<Rightarrow> (raptor_error \<times> raptor_dualstack_mode \<times> int) \<times> io" where
  "raptor_create_dualstack_socket px addr s =
     (let family = sa_family addr in
      if family = AF_INET6 then
        let (a, s) = call px (Socket family) s; newfd = ans_ret a;
            (e, s) = (if newfd \<ge> 0 then raptor_set_socket_ipv6_only px newfd False s
                      else (MakeStatusFromStaticString '''', s)) in
        if newfd \<ge> 0 \<and> e = RAPTOR_ERROR_NONE then ((RAPTOR_ERROR_NONE, RAPTOR_DSMODE_DUALSTACK, newfd), s)
        else if \<not> fst (raptor_sockaddr_is_v4mapped addr) then
          (if newfd \<le> 0 then (posix_error px s ''socket'', RAPTOR_DSMODE_IPV6, newfd)
           else (RAPTOR_ERROR_NONE, RAPTOR_DSMODE_IPV6, newfd), s)
        else
          let s = (if newfd \<ge> 0 then calls px [Sys (SysClose newfd)] s else s) in
          create_plain_socket px AF_INET s
      else create_plain_socket px family s)"

section \<open>The listen queue size\<close>

text \<open>The constant of the C library's header.\<close>

definition SOMAXCONN :: int where "SOMAXCONN = 4096"

definition is_space :: "char \<Rightarrow> bool" where
  "is_space c \<longleftrightarrow> c = CHR '' '' \<or> (9 \<le> (of_char c :: nat) \<and> (of_char c :: nat) \<le> 13)"

text \<open>\<open>strtol(buf, &end, 10)\<close>: the value, saturated to the range of \<open>long\<close>, and the rest at \<open>end\<close>.\<close>

definition strtol :: "string \<Rightarrow> int \<times> string" where
  "strtol buf =
     (let b = dropWhile is_space buf;
          neg = (b \<noteq> [] \<and> hd b = CHR ''-'');
          b1 = (if b \<noteq> [] \<and> (hd b = CHR ''-'' \<or> hd b = CHR ''+'') then tl b else b);
          ds = takeWhile is_digit b1 in
      if ds = [] then (0, buf)
      else
        let v = int (parse_nat ds); v = (if neg then - v else v) in
        (max (- (2 ^ 63)) (min (2 ^ 63 - 1) v), dropWhile is_digit b1))"

text \<open>The file is what \<open>fopen\<close> and \<open>fgets\<close> read of /proc/sys/net/core/somaxconn.\<close>

definition init_max_accept_queue_size :: "string option option \<Rightarrow> int" where
  "init_max_accept_queue_size file =
     (case file of
        None \<Rightarrow> SOMAXCONN
      | Some None \<Rightarrow> SOMAXCONN
      | Some (Some buf) \<Rightarrow>
          let (i, end) = strtol buf in
          if i > 0 \<and> i \<le> 2147483647 \<and> end \<noteq> [] \<and> hd end = CHR 0x0a then i else SOMAXCONN)"

definition get_max_accept_queue_size :: "posix \<Rightarrow> io \<Rightarrow> int \<times> io" where
  "get_max_accept_queue_size px s =
     (case io_queue_size s of
        Some n \<Rightarrow> (n, s)
      | None \<Rightarrow> let n = init_max_accept_queue_size (px_somaxconn px) in (n, s\<lparr>io_queue_size := Some n\<rparr>))"

section \<open>Preparing sockets\<close>

text \<open>\<open>err = f(\<dots>); if (err != RAPTOR_ERROR_NONE) goto error;\<close> for a sequence of calls.\<close>

fun try_all :: "(io \<Rightarrow> raptor_error \<times> io) list \<Rightarrow> io \<Rightarrow> raptor_error \<times> io" where
  "try_all [] s = (RAPTOR_ERROR_NONE, s)"
| "try_all (f # fs) s = (let (e, s) = f s in if e \<noteq> RAPTOR_ERROR_NONE then (e, s) else try_all fs s)"

definition DEFAULT_TCP_USER_TIMEOUT_MS :: int where
  "DEFAULT_TCP_USER_TIMEOUT_MS = 20000"

definition bind_step :: "posix \<Rightarrow> int \<Rightarrow> resolved_address \<Rightarrow> io \<Rightarrow> raptor_error \<times> io" where
  "bind_step px fd addr s =
     (let (a, s) = call px (Bind fd addr) s in
      (if ans_ret a < 0 then posix_error px s ''bind'' else RAPTOR_ERROR_NONE, s))"

definition listen_step :: "posix \<Rightarrow> int \<Rightarrow> io \<Rightarrow> raptor_error \<times> io" where
  "listen_step px fd s =
     (let (n, s) = get_max_accept_queue_size px s; (a, s) = call px (Listen fd n) s in
      (if ans_ret a < 0 then posix_error px s ''listen'' else RAPTOR_ERROR_NONE, s))"

text \<open>The options of a stream socket that both kinds of socket get.\<close>

definition stream_options :: "posix \<Rightarrow> int \<Rightarrow> resolved_address \<Rightarrow> int \<Rightarrow> (io \<Rightarrow> raptor_error \<times> io) list" where
  "stream_options px fd addr timeout =
     [raptor_set_socket_nonblocking px fd True, raptor_set_socket_cloexec px fd True]
     @ (if \<not> raptor_is_unix_socket addr
        then [raptor_set_socket_low_latency px fd True, raptor_set_socket_reuse_addr px fd True,
              raptor_set_socket_tcp_user_timeout px fd timeout]
        else [])
     @ [raptor_set_socket_no_sigpipe_if_possible px fd]"

text \<open>The result is the error and \<open>*port\<close>; \<open>None\<close> is the failed assertion \<open>fd >= 0\<close>.\<close>

definition raptor_tcp_server_prepare_socket ::
  "posix \<Rightarrow> int \<Rightarrow> resolved_address \<Rightarrow> bool \<Rightarrow> io \<Rightarrow> ((raptor_error \<times> int option) \<times> io) option" where
  "raptor_tcp_server_prepare_socket px fd addr so_reuseport s =
     (if fd < 0 then None
      else
        let (e, s) = try_all ((if so_reuseport \<and> \<not> raptor_is_unix_socket addr
                               then [raptor_set_socket_reuse_port px fd True] else [])
                              @ stream_options px fd addr DEFAULT_TCP_USER_TIMEOUT_MS
                              @ [bind_step px fd addr, listen_step px fd]) s in
        if e \<noteq> RAPTOR_ERROR_NONE then Some ((e, None), calls px [Sys (SysClose fd)] s)
        else
          let (a, s) = call px (Getsockname fd) s in
          if ans_ret a < 0 then Some ((posix_error px s ''getsockname'', None), calls px [Sys (SysClose fd)] s)
          else Some ((RAPTOR_ERROR_NONE, Some (raptor_sockaddr_get_port (ans_addr a))), s))"

definition tcp_client_prepare_socket :: "posix \<Rightarrow> resolved_address \<Rightarrow> int \<Rightarrow> int \<Rightarrow> io \<Rightarrow> raptor_error \<times> io" where
  "tcp_client_prepare_socket px addr fd timeout_ms s =
     (let timeout_ms = (if timeout_ms \<le> 0 then DEFAULT_TCP_USER_TIMEOUT_MS else timeout_ms);
          (e, s) = try_all (stream_options px fd addr timeout_ms) s in
      if e \<noteq> RAPTOR_ERROR_NONE then (e, if fd \<ge> 0 then calls px [Sys (SysClose fd)] s else s) else (e, s))"

text \<open>The result is the error, \<open>*mapped_addr\<close> and \<open>*newfd\<close>.\<close>

definition raptor_tcp_client_prepare_socket ::
  "posix \<Rightarrow> resolved_address \<Rightarrow> int \<Rightarrow> io \<Rightarrow> (raptor_error \<times> resolved_address \<times> int) \<times> io" where
  "raptor_tcp_client_prepare_socket px addr timeout_ms s =
     (let mapped = (case raptor_sockaddr_to_v4mapped addr of (True, Some m) \<Rightarrow> m | _ \<Rightarrow> addr);
          ((e, dsmode, fd), s) = raptor_create_dualstack_socket px mapped s in
      if e \<noteq> RAPTOR_ERROR_NONE then ((e, mapped, 0), s)
      else
        let mapped = (if dsmode = RAPTOR_DSMODE_IPV4
                      then (case raptor_sockaddr_is_v4mapped addr of (True, Some m) \<Rightarrow> m | _ \<Rightarrow> addr) else mapped);
            (e, s) = tcp_client_prepare_socket px mapped fd timeout_ms s in
        if e \<noteq> RAPTOR_ERROR_NONE then ((e, mapped, 0), s) else ((RAPTOR_ERROR_NONE, mapped, fd), s))"

section \<open>Descriptors\<close>

text \<open>A piece of code that opens and closes no descriptor; the calls it makes are for \<open>fd\<close> only.\<close>

fun call_fd :: "syscall \<Rightarrow> int option" where
  "call_fd (F_GETFL fd) = Some fd" | "call_fd (F_SETFL fd _) = Some fd"
| "call_fd (F_GETFD fd) = Some fd" | "call_fd (F_SETFD fd _) = Some fd"
| "call_fd (Setsockopt fd _ _) = Some fd" | "call_fd (Getsockopt fd _) = Some fd"
| "call_fd (Bind fd _) = Some fd" | "call_fd (Listen fd _) = Some fd" | "call_fd (Getsockname fd) = Some fd"
| "call_fd (Connect fd _) = Some fd"
| "call_fd (Socket _) = None" | "call_fd (Accept4 _ _) = None" | "call_fd (Sys _) = None"

definition keeps_fds :: "int \<Rightarrow> io \<Rightarrow> io \<Rightarrow> bool" where
  "keeps_fds fd s s' \<longleftrightarrow> io_open s' = io_open s \<and> io_bad_close s' = io_bad_close s
     \<and> (\<exists>t. io_trace s' = io_trace s @ t \<and> (\<forall>c \<in> set t. call_fd c = Some fd))"

lemma keeps_fds_refl [simp]: "keeps_fds fd s s"
  by (simp add: keeps_fds_def)

lemma keeps_fds_trans: "keeps_fds fd a b \<Longrightarrow> keeps_fds fd b c \<Longrightarrow> keeps_fds fd a c"
  unfolding keeps_fds_def by (metis (no_types, lifting) Un_iff append.assoc set_append)

lemma fd_effect_other: "call_fd c \<noteq> None \<Longrightarrow> fd_effect c r s = s"
  by (cases c) auto

lemma call_keeps: "call_fd c = Some fd \<Longrightarrow> keeps_fds fd s (snd (call px c s))"
  by (simp add: call_def Let_def fd_effect_other keeps_fds_def)

lemma fd_effect_trace [simp]: "io_trace (fd_effect c r s) = io_trace s"
  by (induction c r s rule: fd_effect.induct) auto

lemma call_trace [simp]: "io_trace (snd (call px c s)) = io_trace s @ [c]"
  by (simp add: call_def Let_def)

lemma posix_error_Some [simp]: "posix_error px s api \<noteq> RAPTOR_ERROR_NONE"
  by (simp add: posix_error_def)

lemmas setter_defs = raptor_set_socket_nonblocking_def raptor_set_socket_cloexec_def raptor_set_socket_reuse_addr_def
  raptor_set_socket_low_latency_def raptor_set_socket_reuse_port_def set_and_check_def raptor_set_socket_snd_timeout_def
  raptor_set_socket_rcv_timeout_def raptor_set_socket_ipv6_only_def raptor_get_socket_error_def
  raptor_set_socket_tcp_user_timeout_def raptor_set_socket_no_sigpipe_if_possible_def bind_step_def

lemma two_calls_keep:
  assumes "call_fd c = Some fd" and "call_fd d = Some fd"
  shows "keeps_fds fd s (snd (call px d (snd (call px c s))))"
  by (rule keeps_fds_trans [OF call_keeps [OF assms(1)] call_keeps [OF assms(2)]])

lemma setters_keep:
  "keeps_fds fd s (snd (raptor_set_socket_nonblocking px fd b s))"
  "keeps_fds fd s (snd (raptor_set_socket_cloexec px fd b s))"
  "keeps_fds fd s (snd (raptor_set_socket_reuse_addr px fd b s))"
  "keeps_fds fd s (snd (raptor_set_socket_low_latency px fd b s))"
  "keeps_fds fd s (snd (raptor_set_socket_reuse_port px fd b s))"
  "keeps_fds fd s (snd (raptor_set_socket_snd_timeout px fd n s))"
  "keeps_fds fd s (snd (raptor_set_socket_rcv_timeout px fd n s))"
  "keeps_fds fd s (snd (raptor_set_socket_ipv6_only px fd b s))"
  "keeps_fds fd s (snd (raptor_get_socket_error px fd s))"
  "keeps_fds fd s (snd (raptor_set_socket_tcp_user_timeout px fd n s))"
  "keeps_fds fd s (snd (raptor_set_socket_no_sigpipe_if_possible px fd s))"
  "keeps_fds fd s (snd (bind_step px fd addr s))"
  unfolding setter_defs Let_def case_prod_beta by (auto simp: call_keeps two_calls_keep)

lemma listen_keeps: "keeps_fds fd s (snd (listen_step px fd s))"
proof -
  have "keeps_fds fd s (snd (get_max_accept_queue_size px s))"
    by (cases "io_queue_size s") (simp_all add: get_max_accept_queue_size_def Let_def keeps_fds_def)
  then show ?thesis
    unfolding listen_step_def Let_def case_prod_beta using keeps_fds_trans call_keeps by (metis call_fd.simps(8) snd_conv)
qed

definition all_keep :: "int \<Rightarrow> (io \<Rightarrow> raptor_error \<times> io) list \<Rightarrow> bool" where
  "all_keep fd fs \<longleftrightarrow> (\<forall>f \<in> set fs. \<forall>s. keeps_fds fd s (snd (f s)))"

lemma try_all_keeps: "all_keep fd fs \<Longrightarrow> keeps_fds fd s (snd (try_all fs s))"
proof (induction fs arbitrary: s)
  case (Cons f fs)
  have "keeps_fds fd s (snd (f s))" using Cons.prems by (simp add: all_keep_def)
  moreover have "keeps_fds fd (snd (f s)) (snd (try_all fs (snd (f s))))" using Cons by (simp add: all_keep_def)
  ultimately show ?case
    by (auto simp: case_prod_beta Let_def intro: keeps_fds_trans)
qed simp

lemma all_keep_append [simp]: "all_keep fd (fs @ gs) \<longleftrightarrow> all_keep fd fs \<and> all_keep fd gs"
  by (auto simp: all_keep_def)

lemma stream_options_keep: "all_keep fd (stream_options px fd addr n)"
  by (auto simp: stream_options_def all_keep_def setters_keep split: if_splits)

text \<open>When all succeed, each of them has succeeded in its turn.\<close>

lemma try_all_append:
  "try_all (fs @ gs) s = (let (e, s1) = try_all fs s in if e \<noteq> RAPTOR_ERROR_NONE then (e, s1) else try_all gs s1)"
  by (induction fs arbitrary: s) (auto simp: case_prod_beta Let_def)

lemma call_socket:
  "io_open (snd (call px (Socket f) s)) = (if ans_ret (fst (call px (Socket f) s)) < 0 then io_open s
     else ans_ret (fst (call px (Socket f) s)) # io_open s)"
  "io_bad_close (snd (call px (Socket f) s)) = io_bad_close s"
  by (auto simp: call_def Let_def)

lemma call_close:
  "io_open (calls px [Sys (SysClose fd)] s) = remove1 fd (io_open s)"
  "io_bad_close (calls px [Sys (SysClose fd)] s) = (io_bad_close s \<or> fd \<notin> set (io_open s))"
  by (auto simp: call_def Let_def)

lemma keeps_open: "keeps_fds fd s s' \<Longrightarrow> io_open s' = io_open s \<and> io_bad_close s' = io_bad_close s"
  by (simp add: keeps_fds_def)

text \<open>What a creation leaves open: the new descriptor on success, and nothing on failure, except a
  descriptor 0, which counts as a failure and stays open.\<close>

definition creation_ok :: "io \<Rightarrow> (raptor_error \<times> raptor_dualstack_mode \<times> int) \<times> io \<Rightarrow> bool" where
  "creation_ok s r \<longleftrightarrow> (case r of ((e, m, fd), s') \<Rightarrow> io_bad_close s' = io_bad_close s
     \<and> (if e = RAPTOR_ERROR_NONE then 0 \<le> fd \<and> io_open s' = fd # io_open s
        else io_open s' = (if fd = 0 then [0] else []) @ io_open s))"

lemma create_plain_ok: "creation_ok s (create_plain_socket px family s)"
  by (auto simp: creation_ok_def create_plain_socket_def Let_def case_prod_beta call_socket)

lemma create_dualstack_ok: "creation_ok s (raptor_create_dualstack_socket px addr s)"
proof (cases "sa_family addr = AF_INET6")
  case True
  define fd s1 where "fd = ans_ret (fst (call px (Socket AF_INET6) s))" and "s1 = snd (call px (Socket AF_INET6) s)"
  have s1: "io_open s1 = (if fd < 0 then [] else [fd]) @ io_open s" "io_bad_close s1 = io_bad_close s"
    by (simp_all add: fd_def s1_def call_socket)
  show ?thesis
  proof (cases "fd < 0")
    case neg: True
    then show ?thesis
      using s1 True create_plain_ok [of s1 px AF_INET]
      by (auto simp: raptor_create_dualstack_socket_def Let_def case_prod_beta fd_def [symmetric] s1_def [symmetric]
          creation_ok_def)
  next
    case False
    define e s2 where "e = fst (raptor_set_socket_ipv6_only px fd False s1)" and "s2 = snd (raptor_set_socket_ipv6_only px fd False s1)"
    have s2: "io_open s2 = fd # io_open s" "io_bad_close s2 = io_bad_close s"
      using keeps_open [OF setters_keep(8) [of fd s1 px False]] s1 False by (simp_all add: s2_def)
    define s3 where "s3 = calls px [Sys (SysClose fd)] s2"
    have s3: "io_open s3 = io_open s" "io_bad_close s3 = io_bad_close s"
      unfolding s3_def call_close using s2 by simp_all
    have run: "raptor_create_dualstack_socket px addr s =
        (if e = RAPTOR_ERROR_NONE then ((RAPTOR_ERROR_NONE, RAPTOR_DSMODE_DUALSTACK, fd), s2)
         else if \<not> fst (raptor_sockaddr_is_v4mapped addr) then
           (if fd \<le> 0 then (posix_error px s2 ''socket'', RAPTOR_DSMODE_IPV6, fd) else (RAPTOR_ERROR_NONE, RAPTOR_DSMODE_IPV6, fd), s2)
         else create_plain_socket px AF_INET s3)"
      using True False unfolding raptor_create_dualstack_socket_def Let_def case_prod_beta True fd_def [symmetric] s1_def [symmetric]
      by (simp add: e_def s2_def s3_def)
    have "creation_ok s3 r \<Longrightarrow> creation_ok s r" for r unfolding creation_ok_def s3 .
    then show ?thesis unfolding run using s2 False create_plain_ok [of s3 px AF_INET]
      by (auto simp: creation_ok_def)
  qed
next
  case False
  then show ?thesis by (simp add: raptor_create_dualstack_socket_def Let_def create_plain_ok)
qed

lemma try_all_NONE_mem:
  assumes "fst (try_all fs s) = RAPTOR_ERROR_NONE" and "f \<in> set fs" and "all_keep fd fs"
  shows "\<exists>s1 t1 t2. fst (f s1) = RAPTOR_ERROR_NONE \<and> io_trace s1 = io_trace s @ t1
    \<and> io_trace (snd (try_all fs s)) = io_trace (snd (f s1)) @ t2"
  using assms
proof (induction fs arbitrary: s)
  case (Cons g fs)
  have ok: "fst (g s) = RAPTOR_ERROR_NONE" and run: "try_all (g # fs) s = try_all fs (snd (g s))"
    using Cons.prems(1) by (auto simp: case_prod_beta Let_def split: if_splits)
  have rest: "all_keep fd fs" "\<And>s. keeps_fds fd s (snd (g s))" using Cons.prems(3) by (simp_all add: all_keep_def)
  show ?case
  proof (cases "f = g")
    case True
    from try_all_keeps [OF rest(1)] obtain t2 where "io_trace (snd (try_all fs (snd (g s)))) = io_trace (snd (g s)) @ t2"
      unfolding keeps_fds_def by blast
    with True ok show ?thesis unfolding run by (intro exI [of _ s] exI [of _ "[]"] exI [of _ t2]) simp
  next
    case False
    with Cons.prems(2) have mem: "f \<in> set fs" by simp
    from rest(2) obtain t where t: "io_trace (snd (g s)) = io_trace s @ t" unfolding keeps_fds_def by blast
    from Cons.IH [OF _ mem rest(1), of "snd (g s)"] Cons.prems(1) run obtain s1 t1 t2 where
      "fst (f s1) = RAPTOR_ERROR_NONE" "io_trace s1 = io_trace (snd (g s)) @ t1"
      "io_trace (snd (try_all fs (snd (g s)))) = io_trace (snd (f s1)) @ t2" by auto
    with t run show ?thesis by (intro exI [of _ s1] exI [of _ "t @ t1"] exI [of _ t2]) simp
  qed
qed simp

text \<open>A successful \<open>nonblocking\<close> has set flags with \<open>O_NONBLOCK\<close>.\<close>

lemma nonblocking_sets:
  assumes "fst (raptor_set_socket_nonblocking px fd True s) = RAPTOR_ERROR_NONE"
  shows "\<exists>flags. io_trace (snd (raptor_set_socket_nonblocking px fd True s))
    = io_trace s @ [F_GETFL fd, F_SETFL fd (flags OR O_NONBLOCK)]"
  using assms by (auto simp: raptor_set_socket_nonblocking_def Let_def case_prod_beta split: if_splits)

text \<open>The descriptor of a creation is an answer of \<open>socket\<close>.\<close>

lemma created_fd_answer:
  "\<exists>tr f. snd (snd (fst (raptor_create_dualstack_socket px addr s))) = ans_ret (px_answer px tr (Socket f))"
proof -
  have "\<exists>tr f. ans_ret (fst (call px (Socket f') s')) = ans_ret (px_answer px tr (Socket f))" for f' s'
    by (auto simp: call_def Let_def)
  then show ?thesis
    unfolding raptor_create_dualstack_socket_def create_plain_socket_def Let_def case_prod_beta by auto
qed

text \<open>An operating system that grants everything: every call succeeds, and \<open>socket\<close> answers 7.\<close>

definition granting :: posix where
  "granting = \<lparr>px_answer = (\<lambda>tr c. \<lparr>ans_ret = (case c of Socket f \<Rightarrow> 7 | _ \<Rightarrow> 0), ans_errno = 0, ans_val = 1,
      ans_addr = ra_zero\<rparr>), px_strerror = (\<lambda>n. ''error''), px_somaxconn = None\<rparr>"

definition io_start :: io where
  "io_start = \<lparr>io_trace = [], io_errno = 0, io_queue_size = None, io_open = [], io_bad_close = False\<rparr>"

lemma client_prepare_ok:
  fixes px addr timeout
  assumes "fd \<in> set (io_open s)" and "0 \<le> fd"
  defines "r \<equiv> tcp_client_prepare_socket px addr fd timeout s"
  shows "io_bad_close (snd r) = io_bad_close s"
    and "io_open (snd r) = (if fst r = RAPTOR_ERROR_NONE then io_open s else remove1 fd (io_open s))"
    and "fst r = RAPTOR_ERROR_NONE \<Longrightarrow> \<exists>flags t1 t2.
      io_trace (snd r) = io_trace s @ t1 @ [F_SETFL fd (flags OR O_NONBLOCK)] @ t2"
proof -
  define n where "n = (if timeout \<le> 0 then DEFAULT_TCP_USER_TIMEOUT_MS else timeout)"
  define q where "q = try_all (stream_options px fd addr n) s"
  have k: "keeps_fds fd s (snd q)" unfolding q_def by (rule try_all_keeps [OF stream_options_keep])
  have r: "r = (if fst q \<noteq> RAPTOR_ERROR_NONE then (fst q, calls px [Sys (SysClose fd)] (snd q)) else q)"
    using assms(2) unfolding r_def tcp_client_prepare_socket_def Let_def n_def [symmetric] q_def [symmetric]
    by (simp add: case_prod_beta prod_eq_iff)
  show "io_bad_close (snd r) = io_bad_close s"
    "io_open (snd r) = (if fst r = RAPTOR_ERROR_NONE then io_open s else remove1 fd (io_open s))"
    using keeps_open [OF k] assms(1) call_close [of px fd "snd q"] unfolding r by (auto simp del: calls.simps)
  assume "fst r = RAPTOR_ERROR_NONE"
  then have ok: "fst q = RAPTOR_ERROR_NONE" and rq: "r = q" unfolding r by (auto split: if_splits)
  have mem: "raptor_set_socket_nonblocking px fd True \<in> set (stream_options px fd addr n)" by (simp add: stream_options_def)
  from try_all_NONE_mem [OF ok [unfolded q_def] mem stream_options_keep] obtain sa t1 t2 where
    a: "fst (raptor_set_socket_nonblocking px fd True sa) = RAPTOR_ERROR_NONE" "io_trace sa = io_trace s @ t1"
      "io_trace (snd q) = io_trace (snd (raptor_set_socket_nonblocking px fd True sa)) @ t2" unfolding q_def by blast
  obtain flags where "io_trace (snd (raptor_set_socket_nonblocking px fd True sa))
      = io_trace sa @ [F_GETFL fd, F_SETFL fd (flags OR O_NONBLOCK)]" using nonblocking_sets [OF a(1)] by blast
  with a(2,3) show "\<exists>flags t1 t2. io_trace (snd r) = io_trace s @ t1 @ [F_SETFL fd (flags OR O_NONBLOCK)] @ t2"
    unfolding rq by (intro exI [of _ flags] exI [of _ "t1 @ [F_GETFL fd]"] exI [of _ t2]) simp
qed

text \<open>A listening socket is configured or closed.\<close>

lemma server_prepare_ok:
  assumes "0 \<le> fd" and "fd \<in> set (io_open s)"
  shows "\<exists>e port s'. raptor_tcp_server_prepare_socket px fd addr reuseport s = Some ((e, port), s')
    \<and> io_bad_close s' = io_bad_close s
    \<and> (if e = RAPTOR_ERROR_NONE
       then io_open s' = io_open s \<and> port \<noteq> None
         \<and> (\<exists>flags t1 t2 n. io_trace s' = io_trace s @ t1 @ [F_SETFL fd (flags OR O_NONBLOCK)] @ t2
              @ [Bind fd addr, Listen fd n, Getsockname fd])
       else io_open s' = remove1 fd (io_open s) \<and> port = None)"
proof -
  define fs where "fs = (if reuseport \<and> \<not> raptor_is_unix_socket addr then [raptor_set_socket_reuse_port px fd True] else [])
     @ stream_options px fd addr DEFAULT_TCP_USER_TIMEOUT_MS"
  have kp: "all_keep fd fs"
    using stream_options_keep [of fd px addr DEFAULT_TCP_USER_TIMEOUT_MS]
    by (auto simp: fs_def all_keep_def setters_keep split: if_splits)
  define s1 where "s1 = snd (try_all fs s)"
  define s2 where "s2 = snd (try_all (fs @ [bind_step px fd addr, listen_step px fd]) s)"
  define e where "e = fst (try_all (fs @ [bind_step px fd addr, listen_step px fd]) s)"
  have k2: "keeps_fds fd s s2"
    unfolding s2_def by (rule try_all_keeps) (use kp setters_keep(12) listen_keeps in \<open>simp add: all_keep_def\<close>)
  define s3 where "s3 = snd (call px (Getsockname fd) s2)"
  have k3: "keeps_fds fd s s3" unfolding s3_def by (rule keeps_fds_trans [OF k2 call_keeps]) simp
  have closed: "io_open (calls px [Sys (SysClose fd)] s') = remove1 fd (io_open s)
      \<and> io_bad_close (calls px [Sys (SysClose fd)] s') = io_bad_close s" if "keeps_fds fd s s'" for s'
    using keeps_open [OF that] assms(2) unfolding call_close by simp
  have run: "raptor_tcp_server_prepare_socket px fd addr reuseport s =
      (if e \<noteq> RAPTOR_ERROR_NONE then Some ((e, None), calls px [Sys (SysClose fd)] s2)
       else if ans_ret (fst (call px (Getsockname fd) s2)) < 0
       then Some ((posix_error px s3 ''getsockname'', None), calls px [Sys (SysClose fd)] s3)
       else Some ((RAPTOR_ERROR_NONE, Some (raptor_sockaddr_get_port (ans_addr (fst (call px (Getsockname fd) s2))))), s3))"
    using assms(1) unfolding raptor_tcp_server_prepare_socket_def append_assoc [symmetric] fs_def [symmetric]
    by (simp add: Let_def case_prod_beta e_def s2_def s3_def)
  have tr: "\<exists>flags t1 t2 n. io_trace s3 = io_trace s @ t1 @ [F_SETFL fd (flags OR O_NONBLOCK)] @ t2
      @ [Bind fd addr, Listen fd n, Getsockname fd]" if e: "e = RAPTOR_ERROR_NONE"
  proof -
    have ok: "fst (try_all fs s) = RAPTOR_ERROR_NONE" "s2 = snd (try_all [bind_step px fd addr, listen_step px fd] s1)"
      using e by (auto simp: e_def s2_def s1_def try_all_append Let_def case_prod_beta split: if_splits)
    have mem: "raptor_set_socket_nonblocking px fd True \<in> set fs" by (simp add: fs_def stream_options_def)
    obtain sa t1 t2 where n: "fst (raptor_set_socket_nonblocking px fd True sa) = RAPTOR_ERROR_NONE" "io_trace sa = io_trace s @ t1"
      "io_trace s1 = io_trace (snd (raptor_set_socket_nonblocking px fd True sa)) @ t2"
      using try_all_NONE_mem [OF ok(1) mem kp] unfolding s1_def by blast
    obtain flags where fl: "io_trace (snd (raptor_set_socket_nonblocking px fd True sa))
        = io_trace sa @ [F_GETFL fd, F_SETFL fd (flags OR O_NONBLOCK)]" using nonblocking_sets [OF n(1)] by blast
    have "fst (try_all [bind_step px fd addr, listen_step px fd] s1) = RAPTOR_ERROR_NONE"
      using e ok(1) by (simp add: e_def s1_def try_all_append Let_def case_prod_beta)
    then obtain m where "io_trace s2 = io_trace s1 @ [Bind fd addr, Listen fd m]"
      using ok(2) by (auto simp: bind_step_def listen_step_def get_max_accept_queue_size_def Let_def case_prod_beta
          split: if_splits option.splits)
    then have "io_trace s3 = io_trace s1 @ [Bind fd addr, Listen fd m, Getsockname fd]" by (simp add: s3_def)
    with n(2,3) fl show ?thesis by (intro exI [of _ flags] exI [of _ "t1 @ [F_GETFL fd]"] exI [of _ t2] exI [of _ m]) simp
  qed
  show ?thesis
    unfolding run using closed [OF k2] closed [OF k3] keeps_open [OF k3] tr by (auto simp del: calls.simps)
qed

text \<open>A client socket is ready or gone.\<close>

lemma client_socket_ok:
  assumes "\<forall>tr f. ans_ret (px_answer px tr (Socket f)) \<noteq> 0"
    and "raptor_tcp_client_prepare_socket px addr timeout s = ((e, mapped, fd), s')"
  shows "io_bad_close s' = io_bad_close s
    \<and> (if e = RAPTOR_ERROR_NONE
       then 0 < fd \<and> io_open s' = fd # io_open s
         \<and> (\<exists>flags t1 t2. io_trace s' = t1 @ [F_SETFL fd (flags OR O_NONBLOCK)] @ t2)
       else fd = 0 \<and> io_open s' = io_open s)"
proof -
  define m1 where "m1 = (case raptor_sockaddr_to_v4mapped addr of (True, Some m) \<Rightarrow> m | _ \<Rightarrow> addr)"
  obtain e1 d fd1 s1 where c: "raptor_create_dualstack_socket px m1 s = ((e1, d, fd1), s1)" by (metis surj_pair)
  define m2 where "m2 = (if d = RAPTOR_DSMODE_IPV4
    then (case raptor_sockaddr_is_v4mapped addr of (True, Some m) \<Rightarrow> m | _ \<Rightarrow> addr) else m1)"
  obtain e2 s2 where p: "tcp_client_prepare_socket px m2 fd1 timeout s1 = (e2, s2)" by (metis surj_pair)
  have nz: "fd1 \<noteq> 0" using created_fd_answer [of px m1 s] assms(1) unfolding c by auto
  have ok: "creation_ok s ((e1, d, fd1), s1)" using create_dualstack_ok [of s px m1] unfolding c .
  show ?thesis
  proof (cases "e1 = RAPTOR_ERROR_NONE")
    case True
    then have o: "0 < fd1" "io_open s1 = fd1 # io_open s" "io_bad_close s1 = io_bad_close s"
      using ok nz by (auto simp: creation_ok_def)
    have r: "e = e2" "s' = s2" "fd = (if e2 = RAPTOR_ERROR_NONE then fd1 else 0)"
      using assms(2) True c p unfolding raptor_tcp_client_prepare_socket_def m1_def [symmetric]
      by (auto simp: Let_def m2_def [symmetric] split: if_splits)
    note q = client_prepare_ok [of fd1 s1 px m2 timeout, unfolded p fst_conv snd_conv]
    show ?thesis
    proof (cases "e2 = RAPTOR_ERROR_NONE")
      case ok2: True
      from q(3) o ok2 obtain fl t1 t2 where "io_trace s2 = io_trace s1 @ t1 @ [F_SETFL fd1 (fl OR O_NONBLOCK)] @ t2" by auto
      then have "\<exists>fl t1 t2. io_trace s2 = t1 @ [F_SETFL fd1 (fl OR O_NONBLOCK)] @ t2" by (metis append.assoc)
      with q(1,2) o ok2 r show ?thesis by simp
    next
      case False
      with q(1,2) o r show ?thesis by simp
    qed
  next
    case False
    then have "e = e1" "s' = s1" "fd = 0"
      using assms(2) c unfolding raptor_tcp_client_prepare_socket_def m1_def [symmetric] by (auto simp: Let_def)
    with ok False nz show ?thesis by (simp add: creation_ok_def)
  qed
qed

section \<open>Properties\<close>

text \<open>
  C23. Whatever the operating system answers, a listening socket is either configured or closed: on
  success nothing was closed, and the socket was made non-blocking before it was bound and put to
  listen; on an error the descriptor is closed exactly once. Nothing else is opened or closed.
\<close>

theorem server_socket_ready_or_closed:
  assumes "0 \<le> fd" and "fd \<in> set (io_open s)"
  shows "\<exists>e port s'. raptor_tcp_server_prepare_socket px fd addr reuseport s = Some ((e, port), s')
    \<and> io_bad_close s' = io_bad_close s
    \<and> (if e = RAPTOR_ERROR_NONE
       then io_open s' = io_open s \<and> port \<noteq> None
         \<and> (\<exists>flags t1 t2 n. io_trace s' = io_trace s @ t1 @ [F_SETFL fd (flags OR O_NONBLOCK)] @ t2
              @ [Bind fd addr, Listen fd n, Getsockname fd])
       else io_open s' = remove1 fd (io_open s) \<and> port = None)"
  using assms by (rule server_prepare_ok)

theorem server_socket_ready_or_closed_witness:
  "\<exists>e port s'. raptor_tcp_server_prepare_socket granting 7 ra_zero True (io_start\<lparr>io_open := [7]\<rparr>) = Some ((e, port), s')
     \<and> (if e = RAPTOR_ERROR_NONE then io_open s' = [7] else io_open s' = [])"
  using server_socket_ready_or_closed [of 7 "io_start\<lparr>io_open := [7]\<rparr>" granting ra_zero True]
  by (auto simp: io_start_def split: if_splits)

text \<open>
  A client socket is either ready or gone, as long as \<open>socket\<close> never answers 0: on success one
  descriptor has been opened and it has been made non-blocking; on an error everything that was
  opened on the way, the rejected IPv6 socket included, has been closed again, and nothing else.
\<close>

theorem client_socket_ready_or_closed:
  assumes "\<forall>tr f. ans_ret (px_answer px tr (Socket f)) \<noteq> 0"
    and "raptor_tcp_client_prepare_socket px addr timeout s = ((e, mapped, fd), s')"
  shows "io_bad_close s' = io_bad_close s
    \<and> (if e = RAPTOR_ERROR_NONE
       then 0 < fd \<and> io_open s' = fd # io_open s
         \<and> (\<exists>flags t1 t2. io_trace s' = t1 @ [F_SETFL fd (flags OR O_NONBLOCK)] @ t2)
       else fd = 0 \<and> io_open s' = io_open s)"
  using assms by (rule client_socket_ok)

theorem client_socket_ready_or_closed_witness:
  "\<exists>e m fd s'. raptor_tcp_client_prepare_socket granting example_v4 0 io_start = ((e, m, fd), s')
     \<and> \<not> io_bad_close s' \<and> (if e = RAPTOR_ERROR_NONE then 0 < fd \<and> io_open s' = [fd] else io_open s' = [])"
proof -
  obtain e m fd s' where r: "raptor_tcp_client_prepare_socket granting example_v4 0 io_start = ((e, m, fd), s')"
    by (metis surj_pair)
  have nz: "\<forall>tr f. ans_ret (px_answer granting tr (Socket f)) \<noteq> 0" by (simp add: granting_def)
  show ?thesis
    using client_socket_ready_or_closed [OF nz r] r by (auto simp: io_start_def split: if_splits)
qed

text \<open>
  A socket with descriptor 0, which \<open>socket\<close> answers in a process that has closed its standard
  input, counts as a failure: creation for an address that is not IPv6 reports an error and leaves the
  descriptor open.
\<close>

theorem descriptor_zero_leaks:
  assumes "sa_family addr \<noteq> AF_INET6" and "ans_ret (px_answer px (io_trace s) (Socket (sa_family addr))) = 0"
  shows "\<exists>e m s'. raptor_create_dualstack_socket px addr s = ((e, m, 0), s') \<and> e \<noteq> RAPTOR_ERROR_NONE
    \<and> io_open s' = 0 # io_open s \<and> io_trace s' = io_trace s @ [Socket (sa_family addr)]"
  using assms by (auto simp: raptor_create_dualstack_socket_def create_plain_socket_def call_def Let_def
      simp del: not_None_eq)

theorem descriptor_zero_leaks_witness:
  "io_open (snd (raptor_create_dualstack_socket (granting\<lparr>px_answer := \<lambda>tr c. px_answer granting tr c\<lparr>ans_ret := 0\<rparr>\<rparr>)
     example_v4 io_start)) = [0]"
  using descriptor_zero_leaks [of example_v4 "granting\<lparr>px_answer := \<lambda>tr c. px_answer granting tr c\<lparr>ans_ret := 0\<rparr>\<rparr>" io_start]
  by (auto simp: example_v4_facts af_defs io_start_def)

end
