(* ===== verification/ListEntry.thy ===== *)
theory ListEntry
  imports Prelude
begin

text \<open>
  The intrusive doubly linked list of src/src/utils/list_entry.cc. The two pointer fields are two
  functions on addresses, with the set of allocated nodes beside them; a result of \<open>None\<close> is an access
  to a node that is not allocated. \<open>list_rep\<close> relates a head to the list of the nodes behind it.
\<close>

section \<open>Operations\<close>

record list_heap =
  lnext :: "addr \<Rightarrow> addr"
  lprev :: "addr \<Rightarrow> addr"
  lnodes :: "addr set"

definition get_next :: "addr \<Rightarrow> list_heap \<Rightarrow> addr option" where
  "get_next a h = (if a \<in> lnodes h then Some (lnext h a) else None)"

definition get_prev :: "addr \<Rightarrow> list_heap \<Rightarrow> addr option" where
  "get_prev a h = (if a \<in> lnodes h then Some (lprev h a) else None)"

definition set_next :: "addr \<Rightarrow> addr \<Rightarrow> list_heap \<Rightarrow> list_heap option" where
  "set_next a v h = (if a \<in> lnodes h then Some (h\<lparr>lnext := (lnext h)(a := v)\<rparr>) else None)"

definition set_prev :: "addr \<Rightarrow> addr \<Rightarrow> list_heap \<Rightarrow> list_heap option" where
  "set_prev a v h = (if a \<in> lnodes h then Some (h\<lparr>lprev := (lprev h)(a := v)\<rparr>) else None)"

definition RAPTOR_LIST_INIT :: "addr \<Rightarrow> list_heap \<Rightarrow> list_heap option" where
  "RAPTOR_LIST_INIT head h = do { h \<leftarrow> set_next head head h; set_prev head head h }"

definition RAPTOR_LIST_IS_EMPTY :: "addr \<Rightarrow> list_heap \<Rightarrow> bool option" where
  "RAPTOR_LIST_IS_EMPTY head h = do { n \<leftarrow> get_next head h; Some (n = head) }"

definition raptor_list_push_front :: "addr \<Rightarrow> addr \<Rightarrow> list_heap \<Rightarrow> list_heap option" where
  "raptor_list_push_front head new_item h = do {
     first \<leftarrow> get_next head h;
     h \<leftarrow> set_next head new_item h;
     h \<leftarrow> set_prev new_item head h;
     h \<leftarrow> set_next new_item first h;
     set_prev first new_item h }"

definition raptor_list_push_back :: "addr \<Rightarrow> addr \<Rightarrow> list_heap \<Rightarrow> list_heap option" where
  "raptor_list_push_back head new_item h = do {
     last \<leftarrow> get_prev head h;
     h \<leftarrow> set_next last new_item h;
     h \<leftarrow> set_prev new_item last h;
     h \<leftarrow> set_next new_item head h;
     set_prev head new_item h }"

text \<open>The null pointer is \<open>None\<close>.\<close>

definition raptor_list_pop_front :: "addr \<Rightarrow> list_heap \<Rightarrow> (addr option \<times> list_heap) option" where
  "raptor_list_pop_front head h = do {
     e \<leftarrow> RAPTOR_LIST_IS_EMPTY head h;
     if e then Some (None, h)
     else do {
       removed \<leftarrow> get_next head h;
       second \<leftarrow> get_next removed h;
       h \<leftarrow> set_next head second h;
       h \<leftarrow> set_prev second head h;
       Some (Some removed, h) } }"

definition raptor_list_pop_back :: "addr \<Rightarrow> list_heap \<Rightarrow> (addr option \<times> list_heap) option" where
  "raptor_list_pop_back head h = do {
     e \<leftarrow> RAPTOR_LIST_IS_EMPTY head h;
     if e then Some (None, h)
     else do {
       removed \<leftarrow> get_prev head h;
       second \<leftarrow> get_prev removed h;
       h \<leftarrow> set_next second head h;
       h \<leftarrow> set_prev head second h;
       Some (Some removed, h) } }"

definition raptor_list_remove_entry :: "addr \<Rightarrow> list_heap \<Rightarrow> (int \<times> list_heap) option" where
  "raptor_list_remove_entry item h = do {
     n \<leftarrow> get_next item h;
     if n = item then Some (0, h)
     else do {
       prior \<leftarrow> get_prev item h;
       next \<leftarrow> get_next item h;
       h \<leftarrow> set_next prior next h;
       h \<leftarrow> set_prev next prior h;
       Some (1, h) } }"

section \<open>The list behind a head\<close>

definition list_rep :: "list_heap \<Rightarrow> addr \<Rightarrow> addr list \<Rightarrow> bool" where
  "list_rep h head xs \<longleftrightarrow> distinct (head # xs) \<and> set (head # xs) \<subseteq> lnodes h
     \<and> map (lnext h) (head # xs) = xs @ [head] \<and> map (lprev h) (xs @ [head]) = head # xs"

lemma map_upd_notin [simp]: "a \<notin> set xs \<Longrightarrow> map (f(a := v)) xs = map f xs"
  by simp

lemma list_rep_init:
  "head \<in> lnodes h \<Longrightarrow> \<exists>h'. RAPTOR_LIST_INIT head h = Some h' \<and> list_rep h' head [] \<and> lnodes h' = lnodes h"
  by (simp add: RAPTOR_LIST_INIT_def set_next_def set_prev_def list_rep_def)

lemma list_rep_empty: "list_rep h head xs \<Longrightarrow> RAPTOR_LIST_IS_EMPTY head h = Some (xs = [])"
  by (cases xs) (auto simp: list_rep_def RAPTOR_LIST_IS_EMPTY_def get_next_def)

text \<open>The fields on the two sides of a cut of the list.\<close>

lemma list_rep_split:
  assumes "list_rep h head (xs @ ys)"
  shows "map (lnext h) (butlast (head # xs)) = xs" and "lnext h (last (head # xs)) = hd (ys @ [head])"
    and "map (lnext h) ys = tl (ys @ [head])"
    and "map (lprev h) xs = butlast (head # xs)" and "lprev h (hd (ys @ [head])) = last (head # xs)"
    and "map (lprev h) (tl (ys @ [head])) = ys"
proof -
  have n: "map (lnext h) (head # xs) @ map (lnext h) ys = (xs @ [hd (ys @ [head])]) @ tl (ys @ [head])"
    using assms by (cases ys) (auto simp: list_rep_def)
  then have n1: "map (lnext h) (head # xs) = xs @ [hd (ys @ [head])]" and n2: "map (lnext h) ys = tl (ys @ [head])"
    by (simp_all del: list.map append_assoc append_Cons add: append_eq_append_conv)
  show "map (lnext h) ys = tl (ys @ [head])" by (rule n2)
  have "head # xs = butlast (head # xs) @ [last (head # xs)]" by (rule append_butlast_last_id [symmetric]) simp
  then have "map (lnext h) (butlast (head # xs)) @ [lnext h (last (head # xs))] = xs @ [hd (ys @ [head])]"
    using n1 by (metis list.simps(8) list.simps(9) map_append)
  then show "map (lnext h) (butlast (head # xs)) = xs" "lnext h (last (head # xs)) = hd (ys @ [head])" by simp_all
  have c: "ys @ [head] = hd (ys @ [head]) # tl (ys @ [head])" by (cases ys) simp_all
  have "map (lprev h) xs @ map (lprev h) (ys @ [head]) = butlast (head # xs) @ last (head # xs) # ys"
    using assms \<open>head # xs = butlast (head # xs) @ [last (head # xs)]\<close>
    by (simp add: list_rep_def del: butlast.simps last.simps)
  then have p1: "map (lprev h) xs = butlast (head # xs)" and p2: "map (lprev h) (ys @ [head]) = last (head # xs) # ys"
    by (simp_all del: butlast.simps last.simps map_append add: append_eq_append_conv)
  show "map (lprev h) xs = butlast (head # xs)" by (rule p1)
  from p2 have "lprev h (hd (ys @ [head])) # map (lprev h) (tl (ys @ [head])) = last (head # xs) # ys"
    using c by (metis list.simps(9))
  then show "lprev h (hd (ys @ [head])) = last (head # xs)" "map (lprev h) (tl (ys @ [head])) = ys" by simp_all
qed

lemma list_rep_join:
  assumes "distinct (head # xs @ ys)" and "set (head # xs @ ys) \<subseteq> lnodes h"
    and "map (lnext h) (butlast (head # xs)) = xs" and "lnext h (last (head # xs)) = hd (ys @ [head])"
    and "map (lnext h) ys = tl (ys @ [head])"
    and "map (lprev h) xs = butlast (head # xs)" and "lprev h (hd (ys @ [head])) = last (head # xs)"
    and "map (lprev h) (tl (ys @ [head])) = ys"
  shows "list_rep h head (xs @ ys)"
proof -
  have l: "head # xs = butlast (head # xs) @ [last (head # xs)]" by (rule append_butlast_last_id [symmetric]) simp
  have c: "hd (ys @ [head]) # tl (ys @ [head]) = ys @ [head]" by (cases ys) simp_all
  have "map (lnext h) (head # xs @ ys) = map (lnext h) (butlast (head # xs) @ [last (head # xs)]) @ map (lnext h) ys"
    using l by (metis append_Cons map_append)
  also have "\<dots> = xs @ (hd (ys @ [head]) # tl (ys @ [head]))"
    unfolding map_append assms(3,5) by (simp add: assms(4) del: last.simps)
  finally have "map (lnext h) (head # xs @ ys) = xs @ ys @ [head]" unfolding c .
  moreover have "map (lprev h) (xs @ (hd (ys @ [head]) # tl (ys @ [head]))) = butlast (head # xs) @ last (head # xs) # ys"
    unfolding map_append list.map assms(6,7,8) ..
  then have "map (lprev h) (xs @ ys @ [head]) = head # xs @ ys"
    unfolding c using l by (metis append_Cons append_Nil append_assoc)
  ultimately show ?thesis using assms(1,2) by (simp add: list_rep_def)
qed

lemma last_in: "last (head # xs) \<in> set (head # xs)"
  by (rule last_in_set) simp

lemma hd_in: "hd (ys @ [head]) \<in> set (ys @ [head])"
  by (rule hd_in_set) simp

lemma last_notin_butlast: "distinct (head # xs) \<Longrightarrow> last (head # xs) \<notin> set (butlast (head # xs))"
  by (metis append_butlast_last_id distinct_butlast not_distinct_conv_prefix list.distinct(1))

lemma hd_notin_tl: "distinct zs \<Longrightarrow> zs \<noteq> [] \<Longrightarrow> hd zs \<notin> set (tl zs)"
  by (cases zs) auto

text \<open>Linking a node into the cut, and unlinking the node behind it.\<close>

lemma list_rep_insert:
  assumes rep: "list_rep h head (xs @ ys)" and x: "x \<in> lnodes h" "x \<notin> set (head # xs @ ys)"
  shows "list_rep (h\<lparr>lnext := (lnext h)(last (head # xs) := x, x := hd (ys @ [head])),
           lprev := (lprev h)(x := last (head # xs), hd (ys @ [head]) := x)\<rparr>) head (xs @ x # ys)"
    (is "list_rep ?h head _")
proof -
  note sp = list_rep_split [OF rep]
  have d: "distinct (head # xs @ ys)" "set (head # xs @ ys) \<subseteq> lnodes h" using rep by (simp_all add: list_rep_def)
  have l: "last (head # xs) \<in> set (head # xs)" "last (head # xs) \<notin> set (butlast (head # xs))"
    by (rule last_in, rule last_notin_butlast) (use d(1) in simp)
  have hd: "hd (ys @ [head]) \<in> set (ys @ [head])" "hd (ys @ [head]) \<notin> set (tl (ys @ [head]))"
    by (rule hd_in, rule hd_notin_tl) (use d(1) in simp_all)
  have ne: "last (head # xs) \<noteq> x" "hd (ys @ [head]) \<noteq> x" using l(1) hd(1) x(2) by auto
  have "set (butlast (head # xs)) \<subseteq> set (head # xs)" by (meson in_set_butlastD subsetI)
  then have nb: "x \<notin> set (butlast (head # xs))" using x(2) by auto
  have nt: "x \<notin> set (tl (ys @ [head]))" using x(2) by (cases ys) auto
  have disj: "last (head # xs) \<notin> set ys" using l(1) d(1) by auto
  have disj2: "hd (ys @ [head]) \<notin> set xs" using hd(1) d(1) by auto
  show ?thesis
  proof (rule list_rep_join)
    show "distinct (head # xs @ x # ys)" "set (head # xs @ x # ys) \<subseteq> lnodes ?h" using d x by auto
    show "map (lnext ?h) (butlast (head # xs)) = xs" using sp(1) l(2) nb by (simp del: butlast.simps)
    show "lnext ?h (last (head # xs)) = hd ((x # ys) @ [head])" using ne by simp
    show "map (lnext ?h) (x # ys) = tl ((x # ys) @ [head])"
      using sp(3) disj x(2) by (cases ys) (simp_all del: last.simps)
    show "map (lprev ?h) xs = butlast (head # xs)" using sp(4) x(2) disj2 by (simp del: butlast.simps)
    show "lprev ?h (hd ((x # ys) @ [head])) = last (head # xs)" using ne(2) by simp
    have "lprev ?h (hd (ys @ [head])) # map (lprev ?h) (tl (ys @ [head])) = x # ys"
      using sp(6) nt hd(2) by simp
    moreover have "hd (ys @ [head]) # tl (ys @ [head]) = ys @ [head]" by (cases ys) simp_all
    ultimately have "map (lprev ?h) (ys @ [head]) = x # ys" by (metis list.simps(9))
    then show "map (lprev ?h) (tl ((x # ys) @ [head])) = x # ys" by simp
  qed
qed

lemma list_rep_remove:
  assumes rep: "list_rep h head (xs @ x # ys)"
  shows "list_rep (h\<lparr>lnext := (lnext h)(last (head # xs) := hd (ys @ [head])),
           lprev := (lprev h)(hd (ys @ [head]) := last (head # xs))\<rparr>) head (xs @ ys)"
    (is "list_rep ?h head _")
proof -
  note sp = list_rep_split [OF rep]
  have d: "distinct (head # xs @ x # ys)" "set (head # xs @ x # ys) \<subseteq> lnodes h" using rep by (simp_all add: list_rep_def)
  have l: "last (head # xs) \<in> set (head # xs)" "last (head # xs) \<notin> set (butlast (head # xs))"
    by (rule last_in, rule last_notin_butlast) (use d(1) in simp)
  have hd: "hd (ys @ [head]) \<in> set (ys @ [head])" "hd (ys @ [head]) \<notin> set (tl (ys @ [head]))"
    by (rule hd_in, rule hd_notin_tl) (use d(1) in simp_all)
  have disj: "last (head # xs) \<notin> set ys" using l(1) d(1) by auto
  have disj2: "hd (ys @ [head]) \<notin> set xs" using hd(1) d(1) by auto
  show ?thesis
  proof (rule list_rep_join)
    show "distinct (head # xs @ ys)" "set (head # xs @ ys) \<subseteq> lnodes ?h" using d by auto
    show "map (lnext ?h) (butlast (head # xs)) = xs" using sp(1) l(2) by (simp del: butlast.simps)
    show "lnext ?h (last (head # xs)) = hd (ys @ [head])" by simp
    have "map (lnext h) ys = tl (ys @ [head])" using sp(3) by (cases ys) simp_all
    then show "map (lnext ?h) ys = tl (ys @ [head])" using disj by simp
    show "map (lprev ?h) xs = butlast (head # xs)" using sp(4) disj2 by (simp del: butlast.simps)
    show "lprev ?h (hd (ys @ [head])) = last (head # xs)" by simp
    have "map (lprev h) (ys @ [head]) = x # ys" using sp(6) by simp
    then have "map (lprev h) (tl (ys @ [head])) = ys" by (cases ys) simp_all
    then show "map (lprev ?h) (tl (ys @ [head])) = ys" using hd(2) by simp
  qed
qed

section \<open>The operations on the list\<close>

lemma push_back_rep:
  assumes rep: "list_rep h head xs" and x: "x \<in> lnodes h" "x \<notin> set (head # xs)"
  shows "\<exists>h'. raptor_list_push_back head x h = Some h' \<and> list_rep h' head (xs @ [x]) \<and> lnodes h' = lnodes h"
proof -
  have sub: "set (head # xs) \<subseteq> lnodes h" using rep by (simp add: list_rep_def)
  have l: "lprev h head = last (head # xs)" using list_rep_split(5) [of h head xs "[]"] rep by simp
  have "last (head # xs) \<in> lnodes h" using sub last_in by (rule subsetD)
  then have "raptor_list_push_back head x h = Some (h\<lparr>lnext := (lnext h)(last (head # xs) := x, x := head),
      lprev := (lprev h)(x := last (head # xs), head := x)\<rparr>)"
    using sub x l by (simp add: raptor_list_push_back_def get_prev_def set_next_def set_prev_def del: last.simps)
  moreover have "list_rep (h\<lparr>lnext := (lnext h)(last (head # xs) := x, x := head),
      lprev := (lprev h)(x := last (head # xs), head := x)\<rparr>) head (xs @ [x])"
    using list_rep_insert [of h head xs "[]" x] rep x by (simp del: last.simps)
  ultimately show ?thesis by simp
qed

lemma push_front_rep:
  assumes rep: "list_rep h head xs" and x: "x \<in> lnodes h" "x \<notin> set (head # xs)"
  shows "\<exists>h'. raptor_list_push_front head x h = Some h' \<and> list_rep h' head (x # xs) \<and> lnodes h' = lnodes h"
proof -
  have sub: "set (head # xs) \<subseteq> lnodes h" using rep by (simp add: list_rep_def)
  have f: "lnext h head = hd (xs @ [head])" using list_rep_split(2) [of h head "[]" xs] rep by simp
  have "hd (xs @ [head]) \<in> set (xs @ [head])" by (rule hd_in)
  then have "hd (xs @ [head]) \<in> lnodes h" using sub by auto
  then have "raptor_list_push_front head x h = Some (h\<lparr>lnext := (lnext h)(head := x, x := hd (xs @ [head])),
      lprev := (lprev h)(x := head, hd (xs @ [head]) := x)\<rparr>)"
    using sub x f by (simp add: raptor_list_push_front_def get_next_def set_next_def set_prev_def)
  moreover have "list_rep (h\<lparr>lnext := (lnext h)(head := x, x := hd (xs @ [head])),
      lprev := (lprev h)(x := head, hd (xs @ [head]) := x)\<rparr>) head (x # xs)"
    using list_rep_insert [of h head "[]" xs x] rep x by simp
  ultimately show ?thesis by simp
qed

lemma remove_entry_rep:
  assumes rep: "list_rep h head (xs @ x # ys)"
  shows "\<exists>h'. raptor_list_remove_entry x h = Some (1, h') \<and> list_rep h' head (xs @ ys) \<and> lnodes h' = lnodes h"
proof -
  have sub: "set (head # xs @ x # ys) \<subseteq> lnodes h" and d: "distinct (head # xs @ x # ys)" using rep by (simp_all add: list_rep_def)
  have nx: "lnext h x = hd (ys @ [head])" using list_rep_split(2) [of h head "xs @ [x]" ys] rep by simp
  have pr: "lprev h x = last (head # xs)" using list_rep_split(5) [OF rep] by simp
  have "last (head # xs) \<in> set (head # xs)" by (rule last_in)
  then have "last (head # xs) \<in> lnodes h" using sub by auto
  moreover have "hd (ys @ [head]) \<in> set (ys @ [head])" by (rule hd_in)
  then have "hd (ys @ [head]) \<in> lnodes h" "hd (ys @ [head]) \<noteq> x" using sub d by auto
  ultimately have "raptor_list_remove_entry x h = Some (1, h\<lparr>lnext := (lnext h)(last (head # xs) := hd (ys @ [head])),
      lprev := (lprev h)(hd (ys @ [head]) := last (head # xs))\<rparr>)"
    using sub nx pr by (simp add: raptor_list_remove_entry_def get_next_def get_prev_def set_next_def set_prev_def del: last.simps)
  with list_rep_remove [OF rep] show ?thesis by simp
qed

lemma pop_front_rep:
  assumes rep: "list_rep h head (x # xs)"
  shows "\<exists>h'. raptor_list_pop_front head h = Some (Some x, h') \<and> list_rep h' head xs \<and> lnodes h' = lnodes h"
proof -
  have sub: "set (head # x # xs) \<subseteq> lnodes h" using rep by (simp add: list_rep_def)
  have f: "lnext h head = x" using list_rep_split(2) [of h head "[]" "x # xs"] rep by simp
  have g: "lnext h x = hd (xs @ [head])" using list_rep_split(2) [of h head "[x]" xs] rep by simp
  have "hd (xs @ [head]) \<in> set (xs @ [head])" by (rule hd_in)
  then have "hd (xs @ [head]) \<in> lnodes h" using sub by auto
  then have "raptor_list_pop_front head h = Some (Some x, h\<lparr>lnext := (lnext h)(head := hd (xs @ [head])),
      lprev := (lprev h)(hd (xs @ [head]) := head)\<rparr>)"
    using sub f g list_rep_empty [OF rep]
    by (simp add: raptor_list_pop_front_def get_next_def set_next_def set_prev_def)
  with list_rep_remove [of h head "[]" x xs] rep show ?thesis by simp
qed

lemma pop_back_rep:
  assumes rep: "list_rep h head (xs @ [x])"
  shows "\<exists>h'. raptor_list_pop_back head h = Some (Some x, h') \<and> list_rep h' head xs \<and> lnodes h' = lnodes h"
proof -
  have sub: "set (head # xs @ [x]) \<subseteq> lnodes h" using rep by (simp add: list_rep_def)
  have f: "lprev h head = x" using list_rep_split(5) [of h head "xs @ [x]" "[]"] rep by simp
  have g: "lprev h x = last (head # xs)" using list_rep_split(5) [OF rep] by simp
  have "last (head # xs) \<in> set (head # xs)" by (rule last_in)
  then have "last (head # xs) \<in> lnodes h" using sub by auto
  then have "raptor_list_pop_back head h = Some (Some x, h\<lparr>lnext := (lnext h)(last (head # xs) := head),
      lprev := (lprev h)(head := last (head # xs))\<rparr>)"
    using sub f g list_rep_empty [OF rep]
    by (simp add: raptor_list_pop_back_def get_prev_def set_next_def set_prev_def del: last.simps)
  with list_rep_remove [of h head xs x "[]"] rep show ?thesis by simp
qed

lemma pop_empty_rep:
  "list_rep h head [] \<Longrightarrow> raptor_list_pop_front head h = Some (None, h) \<and> raptor_list_pop_back head h = Some (None, h)"
  using list_rep_empty [of h head "[]"] by (simp add: raptor_list_pop_front_def raptor_list_pop_back_def)

section \<open>The interface\<close>

text \<open>Runs of pushes and pops.\<close>

primrec push_all :: "(addr \<Rightarrow> 'h \<Rightarrow> 'h option) \<Rightarrow> addr list \<Rightarrow> 'h \<Rightarrow> 'h option" where
  "push_all push [] h = Some h"
| "push_all push (x # xs) h = do { h \<leftarrow> push x h; push_all push xs h }"

primrec pop_n :: "('h \<Rightarrow> (addr option \<times> 'h) option) \<Rightarrow> nat \<Rightarrow> 'h \<Rightarrow> (addr list \<times> 'h) option" where
  "pop_n pop 0 h = Some ([], h)"
| "pop_n pop (Suc n) h = do {
     (x, h) \<leftarrow> pop h;
     x \<leftarrow> x;
     (xs, h) \<leftarrow> pop_n pop n h;
     Some (x # xs, h) }"

text \<open>A sequence of nodes behind a head, as a client of the list sees it: pushing at one end and popping
  at the other is a queue, at the same end a stack.\<close>

locale node_list =
  fixes rep :: "'h \<Rightarrow> addr list \<Rightarrow> bool" and nodes :: "'h \<Rightarrow> addr set" and hd_node :: addr
    and push_b :: "addr \<Rightarrow> 'h \<Rightarrow> 'h option" and push_f :: "addr \<Rightarrow> 'h \<Rightarrow> 'h option"
    and pop_b :: "'h \<Rightarrow> (addr option \<times> 'h) option" and pop_f :: "'h \<Rightarrow> (addr option \<times> 'h) option"
  assumes push_back_law: "rep h xs \<Longrightarrow> x \<in> nodes h \<Longrightarrow> x \<notin> set (hd_node # xs)
      \<Longrightarrow> \<exists>h'. push_b x h = Some h' \<and> rep h' (xs @ [x]) \<and> nodes h' = nodes h"
    and push_front_law: "rep h xs \<Longrightarrow> x \<in> nodes h \<Longrightarrow> x \<notin> set (hd_node # xs)
      \<Longrightarrow> \<exists>h'. push_f x h = Some h' \<and> rep h' (x # xs) \<and> nodes h' = nodes h"
    and pop_front_law: "rep h (x # xs) \<Longrightarrow> \<exists>h'. pop_f h = Some (Some x, h') \<and> rep h' xs \<and> nodes h' = nodes h"
    and pop_back_law: "rep h (xs @ [x]) \<Longrightarrow> \<exists>h'. pop_b h = Some (Some x, h') \<and> rep h' xs \<and> nodes h' = nodes h"
    and pop_empty_law: "rep h [] \<Longrightarrow> pop_f h = Some (None, h) \<and> pop_b h = Some (None, h)"
begin

lemma push_all_rep:
  "rep h ys \<Longrightarrow> set xs \<subseteq> nodes h \<Longrightarrow> distinct (hd_node # ys @ xs)
    \<Longrightarrow> \<exists>h'. push_all push_b xs h = Some h' \<and> rep h' (ys @ xs) \<and> nodes h' = nodes h"
proof (induction xs arbitrary: h ys)
  case (Cons x xs)
  from push_back_law [OF Cons.prems(1), of x] Cons.prems obtain h1 where
    h1: "push_b x h = Some h1" "rep h1 (ys @ [x])" "nodes h1 = nodes h" by auto
  from Cons.IH [OF h1(2)] Cons.prems h1 show ?case by auto
qed simp

lemma pop_front_n: "rep h (xs @ ys) \<Longrightarrow> \<exists>h'. pop_n pop_f (length xs) h = Some (xs, h') \<and> rep h' ys"
proof (induction xs arbitrary: h)
  case (Cons x xs)
  from pop_front_law [of h x "xs @ ys"] Cons.prems obtain h1 where "pop_f h = Some (Some x, h1)" "rep h1 (xs @ ys)" by auto
  with Cons.IH [of h1] show ?case by auto
qed simp

lemma pop_back_n: "rep h (ys @ xs) \<Longrightarrow> \<exists>h'. pop_n pop_b (length xs) h = Some (rev xs, h') \<and> rep h' ys"
proof (induction xs arbitrary: h rule: rev_induct)
  case (snoc x xs)
  from pop_back_law [of h "ys @ xs" x] snoc.prems obtain h1 where "pop_b h = Some (Some x, h1)" "rep h1 (ys @ xs)" by auto
  with snoc.IH [of h1] show ?case by auto
qed simp

end

interpretation le: node_list "\<lambda>h. list_rep h head" lnodes head "raptor_list_push_back head" "raptor_list_push_front head"
  "raptor_list_pop_back head" "raptor_list_pop_front head" for head
  by unfold_locales (rule push_back_rep push_front_rep pop_front_rep pop_back_rep pop_empty_rep; assumption)+

section \<open>Properties\<close>



end
