(* ===== verification/PropertyM.thy ===== *)
theory PropertyM
  imports Prelude
begin

text \<open>
  The table of named values the application hands over with a connection
  (src/include/raptor-lite/impl/property.h). Every value is stored as a 64-bit word; integers are
  sign extended into it, and reading casts it to the type that is asked for.
\<close>

section \<open>Entries\<close>

type_synonym PropertyEntry = "string \<times> u64"

definition PropertyEntry_bool :: "string \<Rightarrow> bool \<Rightarrow> PropertyEntry" where
  "PropertyEntry_bool k v = (k, if v then 1 else 0)"

text \<open>All constructors from signed and unsigned integers and from pointers: \<open>uintptr_t(v)\<close>.\<close>

definition PropertyEntry_int :: "string \<Rightarrow> int \<Rightarrow> PropertyEntry" where
  "PropertyEntry_int k v = (k, of_int v)"

definition PropertyEntry_new :: PropertyEntry where
  "PropertyEntry_new = ([], 0)"

definition PropertyEntry_Key :: "PropertyEntry \<Rightarrow> string" where
  "PropertyEntry_Key e = fst e"

text \<open>The casts \<open>static_cast<T>\<close> of the stored word.\<close>

definition cast_bool :: "u64 \<Rightarrow> bool" where
  "cast_bool v \<longleftrightarrow> v \<noteq> 0"

definition cast_int :: "u64 \<Rightarrow> int" where
  "cast_int v = to_i32 (uint v)"

definition cast_i64 :: "u64 \<Rightarrow> int" where
  "cast_i64 v = to_i64 (uint v)"

definition PropertyEntry_Value :: "(u64 \<Rightarrow> 'a) \<Rightarrow> PropertyEntry \<Rightarrow> 'a" where
  "PropertyEntry_Value cast e = cast (snd e)"

section \<open>The table\<close>

type_synonym Property = "string \<rightharpoonup> u64"

definition Property_new :: Property where
  "Property_new = Map.empty"

text \<open>\<open>operator()\<close> with one entry and with a list of entries; a later entry for a key replaces an
  earlier one. The constructors are the same on the empty table.\<close>

definition Property_set :: "PropertyEntry \<Rightarrow> Property \<Rightarrow> Property" where
  "Property_set e tbl = tbl(PropertyEntry_Key e \<mapsto> PropertyEntry_Value (\<lambda>v. v) e)"

primrec Property_set_list :: "PropertyEntry list \<Rightarrow> Property \<Rightarrow> Property" where
  "Property_set_list [] tbl = tbl"
| "Property_set_list (e # es) tbl =
     Property_set_list es (tbl(PropertyEntry_Key e \<mapsto> PropertyEntry_Value (\<lambda>v. v) e))"

definition Property_of_entry :: "PropertyEntry \<Rightarrow> Property" where
  "Property_of_entry e = Property_set e Property_new"

definition Property_of_list :: "PropertyEntry list \<Rightarrow> Property" where
  "Property_of_list es = Property_set_list es Property_new"

definition Property_GetValue :: "(u64 \<Rightarrow> 'a) \<Rightarrow> Property \<Rightarrow> string \<Rightarrow> 'a \<Rightarrow> 'a" where
  "Property_GetValue cast tbl key default_value =
     (case tbl key of None \<Rightarrow> default_value | Some v \<Rightarrow> cast v)"

text \<open>The result is the return value and \<open>value\<close> afterwards.\<close>

definition Property_CheckValue :: "(u64 \<Rightarrow> 'a) \<Rightarrow> Property \<Rightarrow> string \<Rightarrow> 'a \<Rightarrow> bool \<times> 'a" where
  "Property_CheckValue cast tbl key v =
     (case tbl key of None \<Rightarrow> (False, v) | Some w \<Rightarrow> (True, cast w))"

section \<open>Reading what was stored\<close>

lemma uint_of_int_64: "uint (of_int v :: u64) = v mod 18446744073709551616"
  by (simp add: uint_word_of_int)

lemma cast_int_of_int:
  assumes "- 2147483648 \<le> v" and "v < 2147483648"
  shows "cast_int (of_int v) = v"
proof -
  have "(v mod 18446744073709551616 + 2147483648) mod 4294967296
      = (v mod 18446744073709551616 mod 4294967296 + 2147483648) mod (4294967296 :: int)"
    by (rule mod_add_left_eq [symmetric])
  also have "v mod 18446744073709551616 mod 4294967296 = v mod (4294967296 :: int)" by (rule mod_mod_cancel) simp
  also have "(v mod 4294967296 + 2147483648) mod 4294967296 = (v + 2147483648) mod (4294967296 :: int)"
    by (rule mod_add_left_eq)
  finally have "(v mod 18446744073709551616 + 2147483648) mod 4294967296 = (v + 2147483648) mod (4294967296 :: int)" .
  then show ?thesis using to_i32_id [OF assms] unfolding cast_int_def uint_of_int_64 to_i32_def by simp
qed

lemma set_list_lookup: "Property_set_list es tbl k = (case map_of (rev es) k of None \<Rightarrow> tbl k | Some v \<Rightarrow> Some v)"
  by (induction es arbitrary: tbl)
    (auto simp: PropertyEntry_Key_def PropertyEntry_Value_def map_add_def split: option.splits)

section \<open>Properties\<close>

text \<open>
  A value put into a property list is the value read back under its name, as long as no later entry
  has the name: an \<open>int\<close> of the full 32-bit range, through its sign extension to 64 bits, and a
  \<open>bool\<close>. A name that no entry has is not found, and the caller's variable keeps its value.
\<close>

theorem property_roundtrip:
  assumes "- 2147483648 \<le> v" and "v < 2147483648" and "\<forall>e \<in> set es'. PropertyEntry_Key e \<noteq> k"
    and "\<forall>e \<in> set es. PropertyEntry_Key e \<noteq> k'" and "\<forall>e \<in> set es'. PropertyEntry_Key e \<noteq> k'" and "k' \<noteq> k"
  shows "Property_CheckValue cast_int (Property_of_list (es @ PropertyEntry_int k v # es')) k d = (True, v)
    \<and> Property_GetValue cast_int (Property_of_list (es @ PropertyEntry_int k v # es')) k d = v
    \<and> Property_CheckValue cast_bool (Property_of_list (es @ PropertyEntry_bool k b # es')) k d' = (True, b)
    \<and> Property_CheckValue cast_int (Property_of_list (es @ PropertyEntry_int k v # es')) k' d = (False, d)"
proof -
  have n: "map_of (rev es') k = None" "map_of (rev es') k' = None" "map_of (rev es) k' = None"
    using assms(3-5) by (force simp: map_of_eq_None_iff PropertyEntry_Key_def)+
  have "Property_of_list (es @ PropertyEntry_int k v # es') k = Some (of_int v)"
    "Property_of_list (es @ PropertyEntry_bool k b # es') k = Some (if b then 1 else 0)"
    "Property_of_list (es @ PropertyEntry_int k v # es') k' = None"
    using n assms(6) by (simp_all add: Property_of_list_def set_list_lookup PropertyEntry_int_def PropertyEntry_bool_def
        map_add_def Property_new_def)
  then show ?thesis
    using cast_int_of_int [OF assms(1,2)]
    by (simp add: Property_CheckValue_def Property_GetValue_def cast_bool_def)
qed

theorem property_roundtrip_witness:
  "Property_CheckValue cast_int (Property_of_list ([] @ PropertyEntry_int ''a'' (- 5) # [])) ''a'' 0 = (True, - 5)"
  using property_roundtrip [of "- 5" "[]" "''a''" "[]" "''b''"] by simp

end
