(* ===== verification/Listener.thy ===== *)
theory Listener
  imports SockSet ListEntry PropertyM "HOL-Library.Multiset"
begin

text \<open>
  \<open>TcpListener\<close> (src/src/linux/tcp_listener.cc): listening sockets in an intrusive list, registered with
  a polling thread under the address of their object, and the acceptance of connections. The
  operating system is the parameter \<open>px\<close> of theory \<open>SockSet\<close>, the application's handler an argument.
\<close>

section \<open>State\<close>

record ListenerObject =
  lo_addr :: resolved_address
  lo_listen_fd :: int
  lo_port :: int
  lo_mode :: raptor_dualstack_mode

text \<open>The list head is the member \<open>_head\<close>, at an address of its own. The objects are the allocated
  \<open>ListenerObject\<close>s by address; \<open>tl_fresh\<close> is the address \<open>new\<close> returns next. \<open>_poll_thread\<close> is \<open>None\<close>
  before the first \<open>Init\<close>.\<close>

abbreviation "tl_head \<equiv> (0 :: addr)"

record TcpListener =
  tl_shutdown :: bool
  tl_poll_thread :: "PollingThread option"
  tl_list :: list_heap
  tl_objects :: "addr \<rightharpoonup> ListenerObject"
  tl_fresh :: addr
  tl_io :: io

text \<open>The memory of the object before its constructor runs is arbitrary.\<close>

definition TcpListener_new :: "list_heap \<Rightarrow> io \<Rightarrow> TcpListener option" where
  "TcpListener_new mem io = do {
     l \<leftarrow> RAPTOR_LIST_INIT tl_head (mem\<lparr>lnodes := {tl_head}\<rparr>);
     Some \<lparr>tl_shutdown = True, tl_poll_thread = None, tl_list = l, tl_objects = Map.empty, tl_fresh = 1, tl_io = io\<rparr> }"

section \<open>Life cycle\<close>

text \<open>Actions of the polling thread on the kernel.\<close>

abbreviation poll_acts :: "posix \<Rightarrow> sys_act list \<Rightarrow> io \<Rightarrow> io" where
  "poll_acts px acts \<equiv> calls px (map Sys acts)"

text \<open>\<open>make_shared<PollingThread>\<close> and \<open>Init\<close> on it: the old object, if any, is destroyed, and \<open>epoll_create\<close>
  opens a descriptor.\<close>

definition replace_poll ::
  "posix \<Rightarrow> poll_init_os \<Rightarrow> int \<Rightarrow> PollingThread option \<Rightarrow> io \<Rightarrow> (raptor_error \<times> PollingThread \<times> io) option" where
  "replace_poll px os threads old io = do {
     acts \<leftarrow> (case old of None \<Rightarrow> Some [] | Some p \<Rightarrow> PollingThread_dtor p);
     let io = poll_acts px acts io;
     let (e, p) = PollingThread_Init os threads PollingThread_new;
     let io = (if ep_fd (pt_epoll p) < 0 then io else io\<lparr>io_open := ep_fd (pt_epoll p) # io_open io\<rparr>);
     Some (e, p, io) }"

definition TcpListener_Init :: "posix \<Rightarrow> poll_init_os \<Rightarrow> int \<Rightarrow> TcpListener \<Rightarrow> (raptor_error \<times> TcpListener) option" where
  "TcpListener_Init px os threads lis =
     (if \<not> tl_shutdown lis then Some (MakeStatusFromStaticString ''TcpAcceptor is already running'', lis)
      else do {
        (e, p, io) \<leftarrow> replace_poll px os threads (tl_poll_thread lis) (tl_io lis);
        if e \<noteq> RAPTOR_ERROR_NONE then Some (e, lis\<lparr>tl_poll_thread := Some p, tl_io := io\<rparr>)
        else Some (RAPTOR_ERROR_NONE,
          lis\<lparr>tl_poll_thread := Some (PollingThread_EnableTimeoutCheck False p), tl_io := io, tl_shutdown := False\<rparr>) })"

definition TcpListener_Start :: "TcpListener \<Rightarrow> (raptor_error \<times> TcpListener) option" where
  "TcpListener_Start lis =
     (if tl_shutdown lis then Some (MakeStatusFromStaticString ''TcpAcceptor is not initialized'', lis)
      else do {
        p \<leftarrow> tl_poll_thread lis;
        (e, p) \<leftarrow> PollingThread_Start p;
        Some (e, lis\<lparr>tl_poll_thread := Some p\<rparr>) })"

text \<open>The walk over the list in \<open>Shutdown\<close>: \<open>entry\<close> moves on before its object is deleted.\<close>

partial_function (option) close_objects :: "posix \<Rightarrow> addr \<Rightarrow> TcpListener \<Rightarrow> TcpListener option" where
  "close_objects px entry lis =
     (if entry = tl_head then Some lis
      else do {
        nxt \<leftarrow> get_next entry (tl_list lis);
        obj \<leftarrow> tl_objects lis entry;
        close_objects px nxt
          (lis\<lparr>tl_io := calls px [Sys (SysClose (lo_listen_fd obj))] (tl_io lis),
              tl_objects := (tl_objects lis)(entry := None),
              tl_list := (tl_list lis)\<lparr>lnodes := lnodes (tl_list lis) - {entry}\<rparr>\<rparr>) })"

definition TcpListener_Shutdown :: "posix \<Rightarrow> TcpListener \<Rightarrow> TcpListener option" where
  "TcpListener_Shutdown px lis =
     (if tl_shutdown lis then Some lis
      else do {
        p \<leftarrow> tl_poll_thread lis;
        (acts, p) \<leftarrow> PollingThread_Shutdown p;
        let lis = lis\<lparr>tl_shutdown := True, tl_poll_thread := Some p, tl_io := poll_acts px acts (tl_io lis)\<rparr>;
        entry \<leftarrow> get_next tl_head (tl_list lis);
        lis \<leftarrow> close_objects px entry lis;
        l \<leftarrow> RAPTOR_LIST_INIT tl_head (tl_list lis);
        Some (lis\<lparr>tl_list := l\<rparr>) })"

definition TcpListener_dtor :: "posix \<Rightarrow> TcpListener \<Rightarrow> TcpListener option" where
  "TcpListener_dtor px lis = TcpListener_Shutdown px lis"

section \<open>Listening\<close>

definition TcpListener_AddListeningPort :: "posix \<Rightarrow> resolved_address \<Rightarrow> TcpListener \<Rightarrow> (raptor_error \<times> TcpListener) option" where
  "TcpListener_AddListeningPort px addr lis =
     (if tl_shutdown lis then Some (MakeStatusFromStaticString ''tcp listener uninitialized'', lis)
      else
        let ((e, mode, listen_fd), io) = raptor_create_dualstack_socket px addr (tl_io lis) in
        if e \<noteq> RAPTOR_ERROR_NONE then Some (e, lis\<lparr>tl_io := io\<rparr>)
        else do {
          ((e, port), io) \<leftarrow> raptor_tcp_server_prepare_socket px listen_fd addr True io;
          if e \<noteq> RAPTOR_ERROR_NONE then Some (e, lis\<lparr>tl_io := io\<rparr>)
          else do {
            let node = tl_fresh lis;
            l \<leftarrow> raptor_list_push_back tl_head node
                   ((tl_list lis)\<lparr>lnodes := insert node (lnodes (tl_list lis))\<rparr>);
            p \<leftarrow> tl_poll_thread lis;
            let obj = \<lparr>lo_addr = addr, lo_listen_fd = listen_fd, lo_port = (case port of None \<Rightarrow> 0 | Some n \<Rightarrow> n), lo_mode = mode\<rparr>;
            Some (e, lis\<lparr>tl_list := l, tl_fresh := node + 1, tl_objects := (tl_objects lis)(node \<mapsto> obj),
              tl_io := poll_acts px [PollingThread_Add p listen_fd (of_nat node) EPOLLIN] io\<rparr>) } })"

section \<open>Accepting\<close>

definition TcpListener_AcceptEx :: "posix \<Rightarrow> int \<Rightarrow> bool \<Rightarrow> bool \<Rightarrow> io \<Rightarrow> int \<times> resolved_address \<times> io" where
  "TcpListener_AcceptEx px sockfd nonblock cloexec io =
     (let flags = 0;
          flags = flags OR (if nonblock then 0x800 else 0);
          flags = flags OR (if cloexec then 0x80000 else 0);
          (a, io) = call px (Accept4 sockfd flags) io
      in (ans_ret a, ans_addr a, io))"

text \<open>The socket options an application may set through the property of a connection, in the order of
  the code, each with its condition; the results of the calls are ignored.\<close>

definition property_steps :: "posix \<Rightarrow> int \<Rightarrow> Property \<Rightarrow> (io \<Rightarrow> raptor_error \<times> io) list" where
  "property_steps px fd p =
     (let bool = (\<lambda>key. Property_CheckValue cast_bool p key True);
          int = (\<lambda>key. Property_CheckValue cast_int p key 0) in
      (case bool ''SocketNoSIGPIPE'' of (b, v) \<Rightarrow>
         if b \<and> v then [raptor_set_socket_no_sigpipe_if_possible px fd] else [])
      @ (case bool ''SocketReuseAddress'' of (b, v) \<Rightarrow>
         if b \<and> \<not> v then [raptor_set_socket_reuse_addr px fd False] else [])
      @ (case bool ''SocketLowLatency'' of (b, v) \<Rightarrow>
         if b \<and> \<not> v then [raptor_set_socket_low_latency px fd False] else [])
      @ (case int ''SocketSendTimeoutMs'' of (b, v) \<Rightarrow>
         if b \<and> v > 0 then [raptor_set_socket_snd_timeout px fd v] else [])
      @ (case int ''SocketRecvTimeoutMs'' of (b, v) \<Rightarrow>
         if b \<and> v > 0 then [raptor_set_socket_rcv_timeout px fd v] else [])
      @ (case bool ''SocketNonBlocking'' of (b, v) \<Rightarrow>
         if b \<and> \<not> v then [raptor_set_socket_nonblocking px fd False] else []))"

fun do_all :: "(io \<Rightarrow> raptor_error \<times> io) list \<Rightarrow> io \<Rightarrow> io" where
  "do_all [] io = io"
| "do_all (f # fs) io = do_all fs (snd (f io))"

definition TcpListener_ProcessProperty :: "posix \<Rightarrow> int \<Rightarrow> Property \<Rightarrow> io \<Rightarrow> io" where
  "TcpListener_ProcessProperty px fd p io = do_all (property_steps px fd p) io"

text \<open>The application's \<open>OnAccept\<close> gets the endpoint and an empty property; what it leaves of the two,
  and the system calls it makes, are its result.\<close>

type_synonym accept_handler = "EndpointImpl \<Rightarrow> Property \<Rightarrow> io \<Rightarrow> EndpointImpl \<times> Property \<times> io"

definition TcpListener_OnEventProcess ::
  "posix \<Rightarrow> accept_handler \<Rightarrow> EventDetail \<Rightarrow> TcpListener \<Rightarrow> TcpListener option" where
  "TcpListener_OnEventProcess px handler detail lis =
     (if ed_event_type detail AND kErrorEvent = 0 then do {
        sp \<leftarrow> tl_objects lis (unat (ed_ptr detail));
        let (sock_fd, client, io) = TcpListener_AcceptEx px (lo_listen_fd sp) True True (tl_io lis);
        if sock_fd > 0 then do {
          let obj = EndpointImpl_SetListenPort (of_int (lo_port sp))
                      (EndpointImpl_new (of_int sock_fd) (lo_addr sp) client);
          let (obj, property, io) = handler obj Property_new io;
          Some (lis\<lparr>tl_io := (if EndpointImpl_IsOnline obj
                             then TcpListener_ProcessProperty px sock_fd property io else io)\<rparr>) }
        else Some (lis\<lparr>tl_io := io\<rparr>) }
      else Some lis)"

section \<open>Descriptors\<close>

lemma calls_append: "calls px (cs @ ds) io = calls px ds (calls px cs io)"
  by (induction cs arbitrary: io) simp_all

text \<open>Closing descriptors that are open.\<close>

definition closes :: "int list \<Rightarrow> io \<Rightarrow> io \<Rightarrow> bool" where
  "closes fds io io' \<longleftrightarrow> mset (io_open io') = mset (io_open io) - mset fds \<and> io_bad_close io' = io_bad_close io"

lemma close_one:
  "fd \<in> set (io_open io) \<Longrightarrow> closes [fd] io (calls px [Sys (SysClose fd)] io)"
  unfolding closes_def call_close by simp

lemma closes_trans: "closes a x y \<Longrightarrow> closes b y z \<Longrightarrow> closes (a @ b) x z"
  by (simp add: closes_def diff_diff_eq)

lemma close_all:
  "mset fds \<subseteq># mset (io_open io) \<Longrightarrow> closes fds io (poll_acts px (map SysClose fds) io)"
proof (induction fds arbitrary: io)
  case (Cons fd fds)
  then have "fd \<in> set (io_open io)" by (metis insert_subset_eq_iff mset.simps(2) set_mset_mset)
  from close_one [OF this] have c: "closes [fd] io (calls px [Sys (SysClose fd)] io)" .
  then have "mset fds \<subseteq># mset (io_open (calls px [Sys (SysClose fd)] io))"
    using Cons.prems unfolding closes_def by (simp add: insert_subset_eq_iff)
  from closes_trans [OF c Cons.IH [OF this]] show ?case by simp
qed (simp add: closes_def)

lemma do_all_keeps: "all_keep fd fs \<Longrightarrow> keeps_fds fd io (do_all fs io)"
  by (induction fs arbitrary: io) (auto simp: all_keep_def intro: keeps_fds_trans)

lemma property_steps_keep: "all_keep fd (property_steps px fd p)"
  by (auto simp: property_steps_def Let_def all_keep_def setters_keep split: if_splits prod.splits)

lemma epoll_ctl_keeps: "io_open (poll_acts px [PollingThread_Add p fd a ev] io) = io_open io
    \<and> io_bad_close (poll_acts px [PollingThread_Add p fd a ev] io) = io_bad_close io"
  by (simp add: PollingThread_Add_def Epoll_add_def Epoll_ctl_def call_def Let_def)

section \<open>Invariant\<close>

definition object_fds :: "TcpListener \<Rightarrow> addr list \<Rightarrow> int list" where
  "object_fds lis xs = map (\<lambda>a. lo_listen_fd (the (tl_objects lis a))) xs"

definition own_poll_fds :: "TcpListener \<Rightarrow> int list" where
  "own_poll_fds lis = (case tl_poll_thread lis of None \<Rightarrow> [] | Some p \<Rightarrow> poll_fds p)"

text \<open>\<open>xs\<close> are the addresses of the objects in the order of the list.\<close>

definition list_ok :: "TcpListener \<Rightarrow> addr list \<Rightarrow> bool" where
  "list_ok lis xs \<longleftrightarrow> list_rep (tl_list lis) tl_head xs \<and> lnodes (tl_list lis) = insert tl_head (set xs)
     \<and> dom (tl_objects lis) = set xs \<and> (\<forall>a \<in> insert tl_head (set xs). a < tl_fresh lis)"

definition listener_ok :: "TcpListener \<Rightarrow> addr list \<Rightarrow> bool" where
  "listener_ok lis xs \<longleftrightarrow> list_ok lis xs
     \<and> (\<forall>p. tl_poll_thread lis = Some p \<longrightarrow> poll_own p)
     \<and> (if tl_shutdown lis then xs = []
        else (\<exists>p. tl_poll_thread lis = Some p \<and> poll_ok {kAlive, kActive} p))
     \<and> mset (object_fds lis xs @ own_poll_fds lis) \<subseteq># mset (io_open (tl_io lis))"

lemma TcpListener_new_ok: "\<exists>lis. TcpListener_new mem io = Some lis \<and> listener_ok lis [] \<and> tl_io lis = io \<and> tl_shutdown lis"
proof -
  obtain l where "RAPTOR_LIST_INIT tl_head (mem\<lparr>lnodes := {tl_head}\<rparr>) = Some l" "list_rep l tl_head []" "lnodes l = {tl_head}"
    using list_rep_init [of tl_head "mem\<lparr>lnodes := {tl_head}\<rparr>"] by auto
  then show ?thesis
    by (simp add: TcpListener_new_def listener_ok_def list_ok_def object_fds_def own_poll_fds_def)
qed

text \<open>Replacing the polling thread: the old descriptor is closed, the new one open, others are kept.\<close>

definition opt_poll_fds :: "PollingThread option \<Rightarrow> int list" where
  "opt_poll_fds old = (case old of None \<Rightarrow> [] | Some p \<Rightarrow> poll_fds p)"

lemma replace_poll_ok:
  assumes "\<forall>p. old = Some p \<longrightarrow> poll_own p" and "- 1 \<le> pio_epoll_create os"
    and "M + mset (opt_poll_fds old) \<subseteq># mset (io_open io)"
  shows "\<exists>e p io'. replace_poll px os n old io = Some (e, p, io') \<and> poll_own p
    \<and> (e = RAPTOR_ERROR_NONE \<longrightarrow> poll_ok {kAlive, kActive} p)
    \<and> M + mset (poll_fds p) \<subseteq># mset (io_open io') \<and> io_bad_close io' = io_bad_close io"
proof -
  obtain e p where i: "PollingThread_Init os n PollingThread_new = (e, p)" by fastforce
  note own = PollingThread_Init_own [OF i assms(2)]
  define acts where "acts = map SysClose (opt_poll_fds old)"
  have d: "(case old of None \<Rightarrow> Some [] | Some p \<Rightarrow> PollingThread_dtor p) = Some acts"
    using assms(1) poll_dtor_own by (auto simp: acts_def opt_poll_fds_def split: option.splits)
  have "mset (opt_poll_fds old) \<subseteq># mset (io_open io)"
    using assms(3) by (auto intro: subset_mset.order_trans [OF mset_subset_eq_add_right])
  then have c: "closes (opt_poll_fds old) io (poll_acts px acts io)" unfolding acts_def by (rule close_all)
  define io' where "io' = (let io = poll_acts px acts io in
     if ep_fd (pt_epoll p) < 0 then io else io\<lparr>io_open := ep_fd (pt_epoll p) # io_open io\<rparr>)"
  have r: "replace_poll px os n old io = Some (e, p, io')"
    unfolding replace_poll_def d by (simp add: i io'_def Let_def)
  have "M \<subseteq># mset (io_open (poll_acts px acts io))"
    using c assms(3) by (simp add: closes_def subset_mset.le_diff_conv2 subset_mset.order_trans [OF mset_subset_eq_add_right])
  then have f: "M + mset (poll_fds p) \<subseteq># mset (io_open io')" "io_bad_close io' = io_bad_close io"
    using c by (simp_all add: io'_def Let_def poll_fds_def closes_def)
  have "poll_ok {kAlive, kActive} p" if "e = RAPTOR_ERROR_NONE" using own(2) [OF that] by (auto simp: poll_ok_def group_ok_def)
  with r f own(1) show ?thesis by blast
qed

lemma enable_timeout_own [simp]:
  "poll_own (PollingThread_EnableTimeoutCheck b p) = poll_own p" "poll_ok S (PollingThread_EnableTimeoutCheck b p) = poll_ok S p"
  "poll_fds (PollingThread_EnableTimeoutCheck b p) = poll_fds p"
  by (simp_all add: PollingThread_EnableTimeoutCheck_def poll_own_def poll_ok_def poll_fds_def)

lemma Init_listener_ok:
  assumes "listener_ok lis xs" and "- 1 \<le> pio_epoll_create os"
  shows "\<exists>e lis'. TcpListener_Init px os n lis = Some (e, lis') \<and> listener_ok lis' xs
    \<and> io_bad_close (tl_io lis') = io_bad_close (tl_io lis) \<and> tl_objects lis' = tl_objects lis"
proof (cases "tl_shutdown lis")
  case True
  have xs: "xs = []" using assms(1) True by (simp add: listener_ok_def)
  have "\<forall>p. tl_poll_thread lis = Some p \<longrightarrow> poll_own p" "{#} + mset (opt_poll_fds (tl_poll_thread lis)) \<subseteq># mset (io_open (tl_io lis))"
    using assms(1) by (auto simp: listener_ok_def own_poll_fds_def opt_poll_fds_def intro: subset_mset.order_trans [OF mset_subset_eq_add_right])
  from replace_poll_ok [OF this(1) assms(2) this(2), of px n] obtain e p io where
    r: "replace_poll px os n (tl_poll_thread lis) (tl_io lis) = Some (e, p, io)" "poll_own p"
      "e = RAPTOR_ERROR_NONE \<longrightarrow> poll_ok {kAlive, kActive} p" "mset (poll_fds p) \<subseteq># mset (io_open io)"
      "io_bad_close io = io_bad_close (tl_io lis)" by auto
  show ?thesis
    using True r assms(1) xs
    by (cases "e = RAPTOR_ERROR_NONE")
      (auto simp: TcpListener_Init_def listener_ok_def list_ok_def object_fds_def own_poll_fds_def)
next
  case False
  with assms(1) show ?thesis by (simp add: TcpListener_Init_def)
qed

lemma Start_listener_ok:
  assumes "listener_ok lis xs" and "TcpListener_Start lis = Some (e, lis')"
  shows "listener_ok lis' xs \<and> tl_io lis' = tl_io lis \<and> tl_objects lis' = tl_objects lis"
proof (cases "tl_shutdown lis")
  case False
  with assms obtain p q where p: "tl_poll_thread lis = Some p" "PollingThread_Start p = Some (e, q)"
    "lis' = lis\<lparr>tl_poll_thread := Some q\<rparr>" "poll_own p" "poll_ok {kAlive, kActive} p"
    by (auto simp: TcpListener_Start_def listener_ok_def)
  with poll_Start_keeps [OF p(2,4)] assms(1) False show ?thesis
    by (simp add: listener_ok_def list_ok_def object_fds_def own_poll_fds_def)
qed (use assms in \<open>simp add: TcpListener_Start_def\<close>)

text \<open>Adding a port: one more object at the end of the list, or nothing but system calls.\<close>

lemma creation_cases:
  assumes "raptor_create_dualstack_socket px addr io = ((e, m, fd), io')"
  shows "io_bad_close io' = io_bad_close io"
    and "e = RAPTOR_ERROR_NONE \<Longrightarrow> 0 \<le> fd \<and> io_open io' = fd # io_open io"
    and "e \<noteq> RAPTOR_ERROR_NONE \<Longrightarrow> mset (io_open io) \<subseteq># mset (io_open io')"
  using create_dualstack_ok [of io px addr] unfolding assms by (auto simp: creation_ok_def)

lemma listener_io_mono:
  assumes "listener_ok lis xs" and "mset (io_open (tl_io lis)) \<subseteq># mset (io_open io)"
  shows "listener_ok (lis\<lparr>tl_io := io\<rparr>) xs"
  using assms by (auto simp: listener_ok_def list_ok_def object_fds_def own_poll_fds_def intro: subset_mset.order_trans)

lemma Add_listener_ok:
  assumes "listener_ok lis xs"
  shows "\<exists>e lis' ys. TcpListener_AddListeningPort px addr lis = Some (e, lis') \<and> listener_ok lis' (xs @ ys)
    \<and> io_bad_close (tl_io lis') = io_bad_close (tl_io lis)
    \<and> (if e = RAPTOR_ERROR_NONE
       then \<exists>obj p t. ys = [tl_fresh lis] \<and> tl_objects lis' = (tl_objects lis)(tl_fresh lis \<mapsto> obj) \<and> lo_addr obj = addr
         \<and> tl_poll_thread lis = Some p
         \<and> io_trace (tl_io lis') = t @ [Sys (PollingThread_Add p (lo_listen_fd obj) (of_nat (tl_fresh lis)) EPOLLIN)]
       else ys = [] \<and> tl_objects lis' = tl_objects lis)"
proof (cases "tl_shutdown lis")
  case False
  obtain e m fd io1 where c: "raptor_create_dualstack_socket px addr (tl_io lis) = ((e, m, fd), io1)" by (metis surj_pair)
  note cc = creation_cases [OF c]
  show ?thesis
  proof (cases "e = RAPTOR_ERROR_NONE")
    case False
    then have r: "TcpListener_AddListeningPort px addr lis = Some (e, lis\<lparr>tl_io := io1\<rparr>)"
      using \<open>\<not> tl_shutdown lis\<close> c by (simp add: TcpListener_AddListeningPort_def)
    with listener_io_mono [OF assms cc(3) [OF False]] False cc(1) show ?thesis
      by (intro exI [of _ e] exI [of _ "lis\<lparr>tl_io := io1\<rparr>"] exI [of _ "[]"]) simp
  next
    case ok: True
    from cc(2) [OF ok] have fd: "0 \<le> fd" "fd \<in> set (io_open io1)" and o1: "io_open io1 = fd # io_open (tl_io lis)" by auto
    obtain e2 port io2 where s: "raptor_tcp_server_prepare_socket px fd addr True io1 = Some ((e2, port), io2)"
      "io_bad_close io2 = io_bad_close io1"
      "io_open io2 = (if e2 = RAPTOR_ERROR_NONE then io_open io1 else remove1 fd (io_open io1))"
      using server_prepare_ok [OF fd, of px addr True] by (metis (full_types))
    show ?thesis
    proof (cases "e2 = RAPTOR_ERROR_NONE")
      case False
      then have r: "TcpListener_AddListeningPort px addr lis = Some (e2, lis\<lparr>tl_io := io2\<rparr>)"
        using \<open>\<not> tl_shutdown lis\<close> c ok s(1) by (simp add: TcpListener_AddListeningPort_def)
      have "listener_ok (lis\<lparr>tl_io := io2\<rparr>) xs" by (rule listener_io_mono [OF assms]) (use False s(3) o1 in simp)
      with r False cc(1) s(2) show ?thesis
        by (intro exI [of _ e2] exI [of _ "lis\<lparr>tl_io := io2\<rparr>"] exI [of _ "[]"]) simp
    next
      case True
      define n where "n = tl_fresh lis"
      have l: "list_rep ((tl_list lis)\<lparr>lnodes := insert n (lnodes (tl_list lis))\<rparr>) tl_head xs"
        "n \<notin> set (tl_head # xs)" "n \<noteq> tl_head"
        using assms by (auto simp: listener_ok_def list_ok_def list_rep_def n_def)
      from push_back_rep [OF l(1) _ l(2)] obtain h where h:
        "raptor_list_push_back tl_head n ((tl_list lis)\<lparr>lnodes := insert n (lnodes (tl_list lis))\<rparr>) = Some h"
        "list_rep h tl_head (xs @ [n])" "lnodes h = insert n (lnodes (tl_list lis))" by auto
      obtain p where p: "tl_poll_thread lis = Some p" using assms \<open>\<not> tl_shutdown lis\<close> by (auto simp: listener_ok_def)
      define obj where "obj = \<lparr>lo_addr = addr, lo_listen_fd = fd, lo_port = (case port of None \<Rightarrow> 0 | Some n \<Rightarrow> n), lo_mode = m\<rparr>"
      define io3 where "io3 = poll_acts px [PollingThread_Add p fd (of_nat n) EPOLLIN] io2"
      define lis' where "lis' = lis\<lparr>tl_list := h, tl_fresh := n + 1, tl_objects := (tl_objects lis)(n \<mapsto> obj), tl_io := io3\<rparr>"
      have r: "TcpListener_AddListeningPort px addr lis = Some (RAPTOR_ERROR_NONE, lis')"
        using \<open>\<not> tl_shutdown lis\<close> c ok s(1) True h(1) p
        by (simp add: TcpListener_AddListeningPort_def n_def obj_def lis'_def io3_def Let_def)
      have io3: "io_open io3 = fd # io_open (tl_io lis)" "io_bad_close io3 = io_bad_close (tl_io lis)"
        using epoll_ctl_keeps [of px p fd "of_nat n" EPOLLIN io2] s(2,3) True o1 cc(1) by (simp_all add: io3_def)
      have fds: "object_fds lis' (xs @ [n]) = object_fds lis xs @ [fd]"
        using l(2) by (auto simp: object_fds_def lis'_def obj_def)
      have "list_ok lis' (xs @ [n])"
        using assms h(2,3) by (auto simp: listener_ok_def list_ok_def lis'_def n_def)
      then have "listener_ok lis' (xs @ [n])"
        using assms \<open>\<not> tl_shutdown lis\<close> fds io3(1) p
        by (auto simp: listener_ok_def lis'_def own_poll_fds_def)
      moreover have "io_trace io3 = io_trace io2 @ [Sys (PollingThread_Add p fd (of_nat n) EPOLLIN)]" by (simp add: io3_def)
      ultimately show ?thesis
        using r io3(2) p
        by (intro exI [of _ RAPTOR_ERROR_NONE] exI [of _ lis'] exI [of _ "[n]"]) (auto simp: lis'_def n_def obj_def)
    qed
  qed
qed (use assms in \<open>auto simp: TcpListener_AddListeningPort_def intro!: exI [of _ "[]"] simp del: not_None_eq\<close>)

text \<open>An event: at most the accepted connection comes or goes.\<close>

definition handler_ok :: "accept_handler \<Rightarrow> bool" where
  "handler_ok h \<longleftrightarrow> (\<forall>ep pr io. case h ep pr io of (ep', pr', io') \<Rightarrow> io_bad_close io' = io_bad_close io
     \<and> mset (io_open io) - {#fd_int (ei_fd ep)#} \<subseteq># mset (io_open io'))"

definition fds_are_ints :: "posix \<Rightarrow> bool" where
  "fds_are_ints px \<longleftrightarrow> (\<forall>tr c. ans_ret (px_answer px tr c) < 2147483648)"

lemma fd_int_of_int: "0 \<le> fd \<Longrightarrow> fd < 2147483648 \<Longrightarrow> fd_int (of_int fd) = fd"
  using cast_int_of_int [of fd] by (simp add: fd_int_def cast_int_def)

lemma call_accept:
  "io_open (snd (call px (Accept4 f fl) io)) = (if ans_ret (fst (call px (Accept4 f fl) io)) < 0 then io_open io
     else ans_ret (fst (call px (Accept4 f fl) io)) # io_open io)"
  "io_bad_close (snd (call px (Accept4 f fl) io)) = io_bad_close io"
  by (auto simp: call_def Let_def)

lemma accept_result: "ans_ret (fst (call px c io)) = ans_ret (px_answer px (io_trace io) c)"
  by (simp add: call_def Let_def)

lemma AcceptEx_effect:
  assumes "TcpListener_AcceptEx px sock a b io = (fd, client, io1)"
  shows "io_open io1 = (if fd < 0 then io_open io else fd # io_open io)" and "io_bad_close io1 = io_bad_close io"
    and "\<exists>c. fd = ans_ret (px_answer px (io_trace io) c)" and "\<exists>fl. io_trace io1 = io_trace io @ [Accept4 sock fl]"
  using assms unfolding TcpListener_AcceptEx_def Let_def case_prod_beta
  by (elim Pair_inject; clarsimp simp: call_accept accept_result; blast)+

lemma Event_listener_ok:
  assumes "listener_ok lis xs" and "handler_ok h" and "fds_are_ints px"
    and "TcpListener_OnEventProcess px h detail lis = Some lis'"
  shows "listener_ok lis' xs \<and> io_bad_close (tl_io lis') = io_bad_close (tl_io lis) \<and> tl_objects lis' = tl_objects lis"
proof -
  have fin: ?thesis if "lis' = lis\<lparr>tl_io := io\<rparr>" "mset (io_open (tl_io lis)) \<subseteq># mset (io_open io)"
    "io_bad_close io = io_bad_close (tl_io lis)" for io
    using listener_io_mono [OF assms(1) that(2)] that by simp
  show ?thesis
  proof (cases "ed_event_type detail AND kErrorEvent = 0")
    case True
    then obtain sp where sp: "tl_objects lis (unat (ed_ptr detail)) = Some sp"
      using assms(4) by (auto simp: TcpListener_OnEventProcess_def)
    obtain fd client io1 where ac: "TcpListener_AcceptEx px (lo_listen_fd sp) True True (tl_io lis) = (fd, client, io1)"
      by (metis surj_pair)
    note io1 = AcceptEx_effect [OF ac]
    have lim: "fd < 2147483648" using io1(3) assms(3) by (auto simp: fds_are_ints_def)
    show ?thesis
    proof (cases "fd > 0")
      case pos: True
      define ep where "ep = EndpointImpl_SetListenPort (of_int (lo_port sp)) (EndpointImpl_new (of_int fd) (lo_addr sp) client)"
      obtain ep' pr io2 where h: "h ep Property_new io1 = (ep', pr, io2)" by (metis surj_pair)
      have "fd_int (ei_fd ep) = fd"
        using fd_int_of_int [of fd] pos lim by (simp add: ep_def EndpointImpl_SetListenPort_def EndpointImpl_new_def)
      moreover have "io_bad_close io2 = io_bad_close io1 \<and> mset (io_open io1) - {#fd_int (ei_fd ep)#} \<subseteq># mset (io_open io2)"
        using assms(2) [unfolded handler_ok_def, THEN spec [of _ ep], THEN spec [of _ Property_new], THEN spec [of _ io1]]
        by (simp add: h)
      ultimately have i2: "mset (io_open (tl_io lis)) \<subseteq># mset (io_open io2)" "io_bad_close io2 = io_bad_close (tl_io lis)"
        using io1 pos by simp_all
      define io3 where "io3 = (if EndpointImpl_IsOnline ep' then TcpListener_ProcessProperty px fd pr io2 else io2)"
      have k: "io_open io3 = io_open io2" "io_bad_close io3 = io_bad_close io2"
        using keeps_open [OF do_all_keeps [OF property_steps_keep [of fd px pr], of io2]]
        by (simp_all add: io3_def TcpListener_ProcessProperty_def)
      have "lis' = lis\<lparr>tl_io := io3\<rparr>"
        using assms(4) True sp ac pos h by (simp add: TcpListener_OnEventProcess_def ep_def [symmetric] io3_def)
      then show ?thesis by (rule fin) (use i2 k in simp_all)
    next
      case False
      then have "lis' = lis\<lparr>tl_io := io1\<rparr>"
        using assms(4) True sp ac by (simp add: TcpListener_OnEventProcess_def)
      then show ?thesis by (rule fin) (use io1 in simp_all)
    qed
  qed (use assms in \<open>simp add: TcpListener_OnEventProcess_def\<close>)
qed

text \<open>The walk of \<open>Shutdown\<close> over the rest \<open>zs\<close> of the list.\<close>

lemma close_objects_ok:
  assumes "map (lnext (tl_list lis)) zs = List.tl (zs @ [tl_head])" and "set zs \<subseteq> lnodes (tl_list lis)"
    and "set zs \<subseteq> dom (tl_objects lis)" and "distinct zs" and "tl_head \<notin> set zs"
    and "mset (object_fds lis zs) \<subseteq># mset (io_open (tl_io lis))"
  shows "\<exists>io. close_objects px (hd (zs @ [tl_head])) lis =
     Some (lis\<lparr>tl_io := io, tl_objects := (tl_objects lis) |` (- set zs),
            tl_list := (tl_list lis)\<lparr>lnodes := lnodes (tl_list lis) - set zs\<rparr>\<rparr>)
     \<and> closes (object_fds lis zs) (tl_io lis) io"
  using assms
proof (induction zs arbitrary: lis)
  case Nil
  have "tl_objects lis |` UNIV = tl_objects lis" by (simp add: restrict_map_def)
  then show ?case
    by (subst close_objects.simps) (auto simp: closes_def object_fds_def intro!: exI [of _ "tl_io lis"])
next
  case (Cons z zs)
  from Cons.prems(3) obtain obj where obj: "tl_objects lis z = Some obj" by auto
  define io1 where "io1 = calls px [Sys (SysClose (lo_listen_fd obj))] (tl_io lis)"
  define lis1 where "lis1 = lis\<lparr>tl_io := io1, tl_objects := (tl_objects lis)(z := None),
    tl_list := (tl_list lis)\<lparr>lnodes := lnodes (tl_list lis) - {z}\<rparr>\<rparr>"
  have nx: "lnext (tl_list lis) z = hd (zs @ [tl_head])" and rest: "map (lnext (tl_list lis)) zs = List.tl (zs @ [tl_head])"
    using Cons.prems(1) by (cases zs; simp)+
  have fds: "object_fds lis (z # zs) = lo_listen_fd obj # object_fds lis zs" by (simp add: object_fds_def obj)
  have same: "object_fds lis1 zs = object_fds lis zs" using Cons.prems(4) by (auto simp: object_fds_def lis1_def)
  have c: "closes [lo_listen_fd obj] (tl_io lis) io1"
    unfolding io1_def by (rule close_one) (use Cons.prems(6) fds in \<open>simp add: insert_subset_eq_iff\<close>)
  have "\<exists>io. close_objects px (hd (zs @ [tl_head])) lis1 = Some (lis1\<lparr>tl_io := io, tl_objects := (tl_objects lis1) |` (- set zs),
            tl_list := (tl_list lis1)\<lparr>lnodes := lnodes (tl_list lis1) - set zs\<rparr>\<rparr>)
     \<and> closes (object_fds lis1 zs) (tl_io lis1) io"
    by (rule Cons.IH) (use Cons.prems rest c in \<open>auto simp: lis1_def same [unfolded lis1_def] fds closes_def insert_subset_eq_iff\<close>)
  then obtain io where io: "close_objects px (hd (zs @ [tl_head])) lis1 =
      Some (lis1\<lparr>tl_io := io, tl_objects := (tl_objects lis1) |` (- set zs),
            tl_list := (tl_list lis1)\<lparr>lnodes := lnodes (tl_list lis1) - set zs\<rparr>\<rparr>)"
    "closes (object_fds lis1 zs) (tl_io lis1) io" by blast
  have step: "close_objects px z lis = close_objects px (hd (zs @ [tl_head])) lis1"
    using Cons.prems(2,5) obj nx by (subst close_objects.simps) (simp add: get_next_def lis1_def io1_def)
  have "(tl_objects lis1) |` (- set zs) = (tl_objects lis) |` (- set (z # zs))"
    by (auto simp: lis1_def restrict_map_def fun_eq_iff)
  moreover have "lnodes (tl_list lis1) - set zs = lnodes (tl_list lis) - set (z # zs)" by (auto simp: lis1_def)
  ultimately have "close_objects px z lis = Some (lis\<lparr>tl_io := io, tl_objects := (tl_objects lis) |` (- set (z # zs)),
            tl_list := (tl_list lis)\<lparr>lnodes := lnodes (tl_list lis) - set (z # zs)\<rparr>\<rparr>)"
    using step io(1) by (simp add: lis1_def)
  moreover have "closes (object_fds lis (z # zs)) (tl_io lis) io"
    using closes_trans [OF c, of "object_fds lis zs" io] io(2) same by (simp add: fds lis1_def)
  ultimately show ?case by auto
qed

lemma Shutdown_listener_ok:
  assumes "listener_ok lis xs"
  shows "\<exists>lis'. TcpListener_Shutdown px lis = Some lis' \<and> listener_ok lis' [] \<and> tl_shutdown lis'
    \<and> tl_objects lis' = Map.empty
    \<and> closes (if tl_shutdown lis then [] else own_poll_fds lis @ object_fds lis xs) (tl_io lis) (tl_io lis')"
proof (cases "tl_shutdown lis")
  case True
  with assms have "xs = []" by (simp add: listener_ok_def)
  with True assms show ?thesis by (simp add: TcpListener_Shutdown_def closes_def listener_ok_def list_ok_def)
next
  case False
  with assms obtain p where p: "tl_poll_thread lis = Some p" "poll_ok {kAlive, kActive} p" "poll_own p" and lo: "list_ok lis xs"
    and sub: "mset (object_fds lis xs @ own_poll_fds lis) \<subseteq># mset (io_open (tl_io lis))" by (auto simp: listener_ok_def)
  from poll_Shutdown_own [OF p(2,3)] obtain p' where p': "PollingThread_Shutdown p = Some (map SysClose (poll_fds p), p')"
    "poll_own p'" "poll_fds p' = []" by blast
  have of: "own_poll_fds lis = poll_fds p" by (simp add: own_poll_fds_def p(1))
  define io1 where "io1 = poll_acts px (map SysClose (poll_fds p)) (tl_io lis)"
  have c1: "closes (poll_fds p) (tl_io lis) io1"
    unfolding io1_def by (rule close_all) (use sub of in \<open>auto intro: subset_mset.order_trans [OF mset_subset_eq_add_right]\<close>)
  have io1': "calls px (map (Sys \<circ> SysClose) (poll_fds p)) (tl_io lis) = io1" by (simp add: io1_def)
  define lis1 where "lis1 = lis\<lparr>tl_shutdown := True, tl_poll_thread := Some p', tl_io := io1\<rparr>"
  have fds: "object_fds lis1 xs = object_fds lis xs" by (simp add: object_fds_def lis1_def)
  have l: "list_rep (tl_list lis) tl_head xs" "lnodes (tl_list lis) = insert tl_head (set xs)" "dom (tl_objects lis) = set xs"
    using lo by (simp_all add: list_ok_def)
  then have m: "map (lnext (tl_list lis)) xs = List.tl (xs @ [tl_head])" "lnext (tl_list lis) tl_head = hd (xs @ [tl_head])" "distinct xs" "tl_head \<notin> set xs"
    by (cases xs; simp add: list_rep_def)+
  have s1: "mset (object_fds lis xs) \<subseteq># mset (io_open io1)"
    using sub of c1 by (simp add: closes_def subset_mset.le_diff_conv2 subset_mset.order_trans [OF mset_subset_eq_add_right])
  have walk: "\<exists>io. close_objects px (hd (xs @ [tl_head])) lis1 =
     Some (lis1\<lparr>tl_io := io, tl_objects := (tl_objects lis1) |` (- set xs),
            tl_list := (tl_list lis1)\<lparr>lnodes := lnodes (tl_list lis1) - set xs\<rparr>\<rparr>)
     \<and> closes (object_fds lis1 xs) (tl_io lis1) io"
    by (rule close_objects_ok) (use l m s1 fds in \<open>auto simp: lis1_def\<close>)
  obtain io where io: "close_objects px (hd (xs @ [tl_head])) lis1 =
     Some (lis1\<lparr>tl_io := io, tl_objects := Map.empty, tl_list := (tl_list lis)\<lparr>lnodes := {tl_head}\<rparr>\<rparr>)"
     "closes (object_fds lis xs) io1 io"
  proof -
    have "tl_objects lis |` (- set xs) = Map.empty" using l(3) by (auto simp: restrict_map_def fun_eq_iff dom_def)
    moreover have "insert tl_head (set xs) - set xs = {tl_head}" using m(4) by auto
    ultimately show ?thesis using that walk l(2) fds by (auto simp: lis1_def)
  qed
  from list_rep_init [of tl_head "(tl_list lis)\<lparr>lnodes := {tl_head}\<rparr>"] obtain h where
    h: "RAPTOR_LIST_INIT tl_head ((tl_list lis)\<lparr>lnodes := {tl_head}\<rparr>) = Some h" "list_rep h tl_head []" "lnodes h = {tl_head}" by auto
  define lis' where "lis' = lis1\<lparr>tl_io := io, tl_objects := Map.empty, tl_list := h\<rparr>"
  have r: "TcpListener_Shutdown px lis = Some lis'"
    using False p(1) p'(1) io(1) h(1) m(2) l(2)
    by (simp add: TcpListener_Shutdown_def io1' lis1_def lis'_def get_next_def)
  moreover have "listener_ok lis' []"
    using h(2,3) p'(2,3) lo by (simp add: listener_ok_def list_ok_def lis'_def lis1_def object_fds_def own_poll_fds_def)
  moreover have "closes (poll_fds p @ object_fds lis xs) (tl_io lis) io" by (rule closes_trans [OF c1 io(2)])
  ultimately show ?thesis using False of by (auto simp: lis'_def lis1_def)
qed

section \<open>Runs\<close>

datatype listener_op = LInit poll_init_os int | LStart | LAdd resolved_address | LEvent EventDetail | LShutdown

fun listener_exec :: "posix \<Rightarrow> accept_handler \<Rightarrow> listener_op \<Rightarrow> TcpListener \<Rightarrow> TcpListener option" where
  "listener_exec px h (LInit os n) lis = map_option snd (TcpListener_Init px os n lis)"
| "listener_exec px h LStart lis = map_option snd (TcpListener_Start lis)"
| "listener_exec px h (LAdd a) lis = map_option snd (TcpListener_AddListeningPort px a lis)"
| "listener_exec px h (LEvent d) lis = TcpListener_OnEventProcess px h d lis"
| "listener_exec px h LShutdown lis = TcpListener_Shutdown px lis"

primrec listener_run :: "posix \<Rightarrow> accept_handler \<Rightarrow> listener_op list \<Rightarrow> TcpListener \<Rightarrow> TcpListener option" where
  "listener_run px h [] lis = Some lis"
| "listener_run px h (c # cs) lis = do { lis \<leftarrow> listener_exec px h c lis; listener_run px h cs lis }"

text \<open>\<open>epoll_create\<close> answers a descriptor or \<open>-1\<close>.\<close>

fun op_ok :: "listener_op \<Rightarrow> bool" where
  "op_ok (LInit os n) \<longleftrightarrow> - 1 \<le> pio_epoll_create os"
| "op_ok _ \<longleftrightarrow> True"

lemma listener_exec_ok:
  assumes "listener_ok lis xs" and "handler_ok h" and "fds_are_ints px" and "op_ok c" and "listener_exec px h c lis = Some lis'"
  shows "\<exists>ys. listener_ok lis' ys \<and> io_bad_close (tl_io lis') = io_bad_close (tl_io lis)
    \<and> (c \<noteq> LShutdown \<longrightarrow> (\<forall>a obj. tl_objects lis a = Some obj \<longrightarrow> tl_objects lis' a = Some obj))"
proof (cases c)
  case (LInit os n)
  with assms Init_listener_ok [OF assms(1), of os px n] show ?thesis by auto
next
  case LStart
  with assms Start_listener_ok [OF assms(1)] show ?thesis by auto
next
  case (LAdd a)
  from Add_listener_ok [OF assms(1), of px a] obtain e lis2 ys where
    r: "TcpListener_AddListeningPort px a lis = Some (e, lis2)" "listener_ok lis2 (xs @ ys)"
      "io_bad_close (tl_io lis2) = io_bad_close (tl_io lis)"
      "tl_objects lis2 = tl_objects lis \<or> (\<exists>obj. tl_objects lis2 = (tl_objects lis)(tl_fresh lis \<mapsto> obj))" by (metis (full_types))
  have "tl_fresh lis \<notin> dom (tl_objects lis)" using assms(1) by (auto simp: listener_ok_def list_ok_def)
  then have keep: "tl_objects lis2 b = Some obj" if "tl_objects lis b = Some obj" for b obj using r(4) that by (auto simp: dom_def)
  have "lis' = lis2" using assms(5) r(1) LAdd by simp
  with r(2,3) keep show ?thesis by blast
next
  case (LEvent d)
  with assms Event_listener_ok [OF assms(1-3), of d] show ?thesis by auto
next
  case LShutdown
  with assms Shutdown_listener_ok [OF assms(1), of px] show ?thesis by (auto simp: closes_def)
qed

lemma listener_run_ok:
  assumes "listener_run px h cs lis = Some lis'" and "listener_ok lis xs" and "handler_ok h" and "fds_are_ints px" and "list_all op_ok cs"
  shows "\<exists>ys. listener_ok lis' ys \<and> io_bad_close (tl_io lis') = io_bad_close (tl_io lis)
    \<and> (LShutdown \<notin> set cs \<longrightarrow> (\<forall>a obj. tl_objects lis a = Some obj \<longrightarrow> tl_objects lis' a = Some obj))"
  using assms
proof (induction cs arbitrary: lis xs)
  case (Cons c cs)
  then obtain lis1 where e: "listener_exec px h c lis = Some lis1" "listener_run px h cs lis1 = Some lis'" by auto
  from listener_exec_ok [OF Cons.prems(2-4) _ e(1)] Cons.prems(5) obtain ys where
    "listener_ok lis1 ys" "io_bad_close (tl_io lis1) = io_bad_close (tl_io lis)"
    "c \<noteq> LShutdown \<longrightarrow> (\<forall>a obj. tl_objects lis a = Some obj \<longrightarrow> tl_objects lis1 a = Some obj)" by auto
  with Cons.IH [OF e(2)] Cons.prems(3-5) show ?case by fastforce
qed auto

section \<open>Properties\<close>

text \<open>The descriptors of the listening sockets.\<close>

definition listening :: "TcpListener \<Rightarrow> int multiset" where
  "listening lis = image_mset (\<lambda>a. lo_listen_fd (the (tl_objects lis a))) (mset_set (dom (tl_objects lis)))"

lemma listening_fds: "listener_ok lis xs \<Longrightarrow> listening lis = mset (object_fds lis xs)"
  unfolding listening_def object_fds_def listener_ok_def list_ok_def list_rep_def
  by (simp add: mset_set_set)

text \<open>
  C19. Whatever a listener does in its life, from construction through any sequence of \<open>Init\<close>, \<open>Start\<close>,
  \<open>AddListeningPort\<close>, events and \<open>Shutdown\<close> that it survives, and whatever the operating system answers, it closes no descriptor
  that is not open; and it can then be shut down: \<open>Shutdown\<close> returns, has closed every listening socket and the
  epoll descriptor of a running listener, each once, and nothing else, and has deleted every object.
\<close>

theorem listener_closes_what_it_opened:
  assumes "TcpListener_new mem io0 = Some lis0" and "listener_run px h ops lis0 = Some lis"
    and "handler_ok h" and "fds_are_ints px" and "list_all op_ok ops"
  shows "\<exists>lis'. TcpListener_Shutdown px lis = Some lis' \<and> tl_shutdown lis' \<and> tl_objects lis' = Map.empty
    \<and> io_bad_close (tl_io lis') = io_bad_close io0
    \<and> mset (io_open (tl_io lis')) + (if tl_shutdown lis then {#} else listening lis + mset (own_poll_fds lis))
      = mset (io_open (tl_io lis))"
proof -
  from TcpListener_new_ok [of mem io0] assms(1) have "listener_ok lis0 []" "tl_io lis0 = io0" by auto
  from listener_run_ok [OF assms(2) this(1) assms(3-5)] this(2) obtain xs where
    ok: "listener_ok lis xs" "io_bad_close (tl_io lis) = io_bad_close io0" by blast
  have "mset (object_fds lis xs) + mset (own_poll_fds lis) \<subseteq># mset (io_open (tl_io lis))" using ok(1) by (simp add: listener_ok_def)
  with Shutdown_listener_ok [OF ok(1), of px] ok(2) listening_fds [OF ok(1)] show ?thesis
    by (auto simp: closes_def add.commute)
qed

text \<open>A small run: one thread, one port, a handler that keeps every connection.\<close>

definition keep_all :: accept_handler where
  "keep_all ep pr io = (ep, pr, io)"

definition blank_list :: list_heap where
  "blank_list = \<lparr>lnext = (\<lambda>_. 0), lprev = (\<lambda>_. 0), lnodes = {}\<rparr>"

definition one_thread :: poll_init_os where
  "one_thread = \<lparr>pio_err = \<lparr>os_errno = 0, os_strerror = (\<lambda>_. [])\<rparr>, pio_epoll_create = 5, pio_fcntl = 0, pio_thread = (\<lambda>i. True)\<rparr>"

lemma small_run_ok: "handler_ok keep_all" "fds_are_ints granting" "op_ok (LInit one_thread 1)"
  by (simp_all add: handler_ok_def keep_all_def fds_are_ints_def granting_def one_thread_def split: syscall.splits)

lemma granting_call:
  "fst (call granting c io) = \<lparr>ans_ret = (case c of Socket f \<Rightarrow> 7 | _ \<Rightarrow> 0), ans_errno = 0, ans_val = 1, ans_addr = ra_zero\<rparr>"
  by (simp add: call_def granting_def)

lemma granting_options: "fst (try_all (stream_options granting 7 a n) io) = RAPTOR_ERROR_NONE"
  by (simp add: stream_options_def setter_defs Let_def case_prod_beta granting_call)

lemma granting_server:
  "\<exists>port io'. raptor_tcp_server_prepare_socket granting 7 a True io = Some ((RAPTOR_ERROR_NONE, port), io')"
proof -
  have r: "fst (raptor_set_socket_reuse_port granting 7 True io) = RAPTOR_ERROR_NONE" for io
    by (simp add: setter_defs Let_def case_prod_beta granting_call)
  have b: "fst (bind_step granting 7 a io) = RAPTOR_ERROR_NONE" "fst (listen_step granting 7 io) = RAPTOR_ERROR_NONE" for io
    by (simp_all add: bind_step_def listen_step_def Let_def case_prod_beta granting_call)
  have "fst (try_all ((if True \<and> \<not> raptor_is_unix_socket a then [raptor_set_socket_reuse_port granting 7 True] else [])
      @ stream_options granting 7 a DEFAULT_TCP_USER_TIMEOUT_MS @ [bind_step granting 7 a, listen_step granting 7]) io) = RAPTOR_ERROR_NONE"
    using granting_options r b by (simp add: try_all_append Let_def case_prod_beta)
  then show ?thesis
    by (simp add: raptor_tcp_server_prepare_socket_def Let_def case_prod_beta granting_call)
qed

lemma small_run:
  "\<exists>lis0 lis lis1. TcpListener_new blank_list io_start = Some lis0 \<and> listener_run granting keep_all [LInit one_thread 1] lis0 = Some lis
     \<and> TcpListener_AddListeningPort granting example_v4 lis = Some (RAPTOR_ERROR_NONE, lis1) \<and> tl_fresh lis < size_lim"
proof -
  obtain lis0 where n: "TcpListener_new blank_list io_start = Some lis0" "listener_ok lis0 []" "tl_shutdown lis0" "tl_fresh lis0 = 1"
    "tl_poll_thread lis0 = None"
    using TcpListener_new_ok [of blank_list io_start] by (auto simp: TcpListener_new_def)
  obtain lis where i: "TcpListener_Init granting one_thread 1 lis0 = Some (RAPTOR_ERROR_NONE, lis)" "\<not> tl_shutdown lis" "tl_fresh lis = 1"
    using n(3-5) by (simp add: TcpListener_Init_def replace_poll_def PollingThread_Init_def PollingThread_new_def Epoll_create_def
        Epoll_new_def one_thread_def Thread_new_def InternalThreadImpl_new_def Let_def)
  have "listener_ok lis []" using Init_listener_ok [OF n(2), of one_thread granting 1] i(1) small_run_ok(3) by auto
  from Add_listener_ok [OF this, of granting example_v4] obtain e lis1 where
    a: "TcpListener_AddListeningPort granting example_v4 lis = Some (e, lis1)" by blast
  have c: "fst (raptor_create_dualstack_socket granting example_v4 io) = (RAPTOR_ERROR_NONE, RAPTOR_DSMODE_IPV4, 7)" for io
    by (simp add: raptor_create_dualstack_socket_def example_v4_facts create_plain_socket_def Let_def case_prod_beta granting_call AF_INET_def AF_INET6_def)
  have "e = RAPTOR_ERROR_NONE"
    using a i(2) c [of "tl_io lis"] granting_server [of example_v4 "snd (raptor_create_dualstack_socket granting example_v4 (tl_io lis))"]
    by (auto simp: TcpListener_AddListeningPort_def Let_def case_prod_beta)
  with n(1) i a show ?thesis by auto
qed

theorem listener_closes_what_it_opened_witness:
  "\<exists>lis0 lis lis'. TcpListener_new blank_list io_start = Some lis0
     \<and> listener_run granting keep_all [LInit one_thread 1, LAdd example_v4] lis0 = Some lis
     \<and> TcpListener_Shutdown granting lis = Some lis' \<and> tl_objects lis' = Map.empty"
proof -
  obtain lis0 lis lis1 where r: "TcpListener_new blank_list io_start = Some lis0" "listener_run granting keep_all [LInit one_thread 1] lis0 = Some lis"
    "TcpListener_AddListeningPort granting example_v4 lis = Some (RAPTOR_ERROR_NONE, lis1)" using small_run by blast
  have run: "listener_run granting keep_all [LInit one_thread 1, LAdd example_v4] lis0 = Some lis1" using r(2,3) by auto
  show ?thesis
    using listener_closes_what_it_opened [OF r(1) run small_run_ok(1,2)] small_run_ok(3) r(1) run by auto
qed

text \<open>
  Events reach their socket: when a port has been added, the socket is registered with the polling
  thread, and in every state that follows before a \<open>Shutdown\<close>, through any further operations, an event with
  the registered data makes the listener accept on exactly that socket.
\<close>

theorem listener_event_accepts_on_its_socket:
  assumes "TcpListener_new mem io0 = Some lis0" and "listener_run px h before lis0 = Some lis"
    and "TcpListener_AddListeningPort px addr lis = Some (RAPTOR_ERROR_NONE, lis1)"
    and "listener_run px h after lis1 = Some lis2" and "LShutdown \<notin> set after"
    and "handler_ok h" and "fds_are_ints px" and "list_all op_ok before" and "list_all op_ok after"
    and "tl_fresh lis < size_lim"
  shows "\<exists>p fd data. tl_poll_thread lis = Some p
    \<and> last (io_trace (tl_io lis1)) = Sys (PollingThread_Add p fd data EPOLLIN)
    \<and> (\<forall>d. ed_ptr d = data \<and> ed_event_type d AND kErrorEvent = 0 \<longrightarrow>
        (\<exists>sp fl io. tl_objects lis2 (unat data) = Some sp \<and> lo_listen_fd sp = fd \<and> lo_addr sp = addr
          \<and> snd (snd (TcpListener_AcceptEx px (lo_listen_fd sp) True True (tl_io lis2))) = io
          \<and> io_trace io = io_trace (tl_io lis2) @ [Accept4 fd fl]
          \<and> (\<exists>lis3. TcpListener_OnEventProcess px h d lis2 = Some lis3)))"
proof -
  from TcpListener_new_ok [of mem io0] assms(1) have "listener_ok lis0 []" by auto
  from listener_run_ok [OF assms(2) this assms(6-8)] obtain xs where ok: "listener_ok lis xs" by blast
  from Add_listener_ok [OF ok, of px addr] assms(3) obtain ys obj p t where ok1: "listener_ok lis1 (xs @ ys)"
    and a: "tl_objects lis1 = (tl_objects lis)(tl_fresh lis \<mapsto> obj)" "lo_addr obj = addr" "tl_poll_thread lis = Some p"
      "io_trace (tl_io lis1) = t @ [Sys (PollingThread_Add p (lo_listen_fd obj) (of_nat (tl_fresh lis)) EPOLLIN)]"
    by auto
  define data :: u64 where "data = of_nat (tl_fresh lis)"
  have d: "unat data = tl_fresh lis" using assms(10) by (simp add: data_def unat_of_nat)
  from listener_run_ok [OF assms(4) ok1 assms(6,7,9)] assms(5) a(1) d
  have o2: "tl_objects lis2 (unat data) = Some obj" by auto
  obtain fd client io1 where ac: "TcpListener_AcceptEx px (lo_listen_fd obj) True True (tl_io lis2) = (fd, client, io1)"
    by (metis surj_pair)
  obtain fl where fl: "io_trace io1 = io_trace (tl_io lis2) @ [Accept4 (lo_listen_fd obj) fl]" using AcceptEx_effect(4) [OF ac] by blast
  have "\<exists>lis3. TcpListener_OnEventProcess px h d lis2 = Some lis3" if "ed_ptr d = data" for d
    using o2 that ac by (auto simp: TcpListener_OnEventProcess_def Let_def case_prod_beta)
  with a(2-4) o2 ac fl show ?thesis
    by (intro exI [of _ p] exI [of _ "lo_listen_fd obj"] exI [of _ data]) (auto simp: data_def)
qed

theorem listener_event_accepts_on_its_socket_witness:
  "\<exists>lis0 lis lis1 p fd data. TcpListener_new blank_list io_start = Some lis0
     \<and> listener_run granting keep_all [LInit one_thread 1] lis0 = Some lis
     \<and> TcpListener_AddListeningPort granting example_v4 lis = Some (RAPTOR_ERROR_NONE, lis1)
     \<and> last (io_trace (tl_io lis1)) = Sys (PollingThread_Add p fd data EPOLLIN)
     \<and> (\<exists>sp. tl_objects lis1 (unat data) = Some sp \<and> lo_listen_fd sp = fd)"
proof -
  obtain lis0 lis lis1 where r: "TcpListener_new blank_list io_start = Some lis0" "listener_run granting keep_all [LInit one_thread 1] lis0 = Some lis"
    "TcpListener_AddListeningPort granting example_v4 lis = Some (RAPTOR_ERROR_NONE, lis1)" "tl_fresh lis < size_lim" using small_run by blast
  have nop: "listener_run granting keep_all [] lis1 = Some lis1" by simp
  have ops: "list_all op_ok [LInit one_thread 1]" "list_all op_ok []" "LShutdown \<notin> set []" using small_run_ok(3) by simp_all
  from listener_event_accepts_on_its_socket [OF r(1,2,3) nop ops(3) small_run_ok(1,2) ops(1,2) r(4)]
  obtain p fd data where e: "last (io_trace (tl_io lis1)) = Sys (PollingThread_Add p fd data EPOLLIN)"
    "\<forall>d :: EventDetail. ed_ptr d = data \<and> ed_event_type d AND kErrorEvent = 0 \<longrightarrow> (\<exists>sp. tl_objects lis1 (unat data) = Some sp \<and> lo_listen_fd sp = fd)"
    by blast
  have "\<exists>sp. tl_objects lis1 (unat data) = Some sp \<and> lo_listen_fd sp = fd"
    using e(2) [THEN spec [of _ "\<lparr>ed_ptr = data, ed_event_type = 0, ed_error_code = 0\<rparr>"]] by simp
  with e(1) r(1-3) show ?thesis by blast
qed

end
