(* ===== verification/Resolve.thy ===== *)
theory Resolve
  imports SockAddr Status
begin

text \<open>
  Name resolution (src/src/common/resolve_address.cc). \<open>getaddrinfo\<close> belongs to the C library and is an
  argument: for a host and a service it answers a status and, when it sets the result pointer, the
  socket addresses of the list. The state counts the lists that \<open>freeaddrinfo\<close> has not freed yet and
  the address arrays that callers own.
\<close>

section \<open>The code\<close>

record gai_answer =
  ga_status :: int
  ga_result :: "byte list list option"

record resolver =
  rs_lists :: nat
  rs_arrays :: nat

text \<open>\<open>junk i\<close> is what the allocated element \<open>i\<close> holds before it is written; an address longer than the
  element would be written beyond it.\<close>

definition copy_address :: "byte list \<Rightarrow> byte list \<Rightarrow> resolved_address option" where
  "copy_address junk info =
     (if length info \<le> 128 then Some \<lparr>ra_addr = info @ drop (length info) junk, ra_len = length info\<rparr> else None)"

fun copy_addresses :: "(nat \<Rightarrow> byte list) \<Rightarrow> nat \<Rightarrow> byte list list \<Rightarrow> resolved_address list option" where
  "copy_addresses junk i [] = Some []"
| "copy_addresses junk i (resp # rest) = do {
     a \<leftarrow> copy_address (junk i) resp;
     as \<leftarrow> copy_addresses junk (i + 1) rest;
     Some (a # as) }"

text \<open>A call of \<open>getaddrinfo\<close>, and the second call for a well-known service.\<close>

definition lookup :: "(string \<Rightarrow> string \<Rightarrow> gai_answer) \<Rightarrow> string \<Rightarrow> string \<Rightarrow> resolver \<Rightarrow> gai_answer \<times> resolver" where
  "lookup gai host port st =
     (let a = gai host port
      in (a, if ga_result a = None then st else st\<lparr>rs_lists := rs_lists st + 1\<rparr>))"

definition svc :: "(string \<times> string) list" where
  "svc = [(''http'', ''80''), (''https'', ''443'')]"

definition lookup_retry :: "(string \<Rightarrow> string \<Rightarrow> gai_answer) \<Rightarrow> string \<Rightarrow> string \<Rightarrow> resolver \<Rightarrow> gai_answer \<times> resolver" where
  "lookup_retry gai host port st =
     (let (a, st) = lookup gai host port st in
      if ga_status a \<noteq> 0 then
        (case map_of svc port of None \<Rightarrow> (a, st) | Some p \<Rightarrow> lookup gai host p st)
      else (a, st))"

text \<open>The result is the error and \<open>*addresses\<close>, whose old value stays on an error.\<close>

definition raptor_blocking_resolve_address ::
  "(string \<Rightarrow> string \<Rightarrow> gai_answer) \<Rightarrow> os_error \<Rightarrow> (nat \<Rightarrow> byte list) \<Rightarrow> string \<Rightarrow> string option
   \<Rightarrow> resolved_address list option \<Rightarrow> resolver \<Rightarrow> (raptor_error \<times> resolved_address list option \<times> resolver) option" where
  "raptor_blocking_resolve_address gai os junk name default_port addresses st = do {
     (_, host, port) \<leftarrow> SplitHostPort_alloc (SV_of_cstr (Some name)) None None;
     case host of
       None \<Rightarrow> Some (MakeStatusFromFormat (Some (''unparseable host:port ('' @ name @ '')'')) True, addresses, st)
     | Some h \<Rightarrow>
         (case (if port = None then map_option c_str (raptor_strdup default_port) else port) of
            None \<Rightarrow> Some (MakeStatusFromFormat (Some (''no port in name ('' @ name @ '')'')) True, addresses, st)
          | Some p \<Rightarrow> do {
              let (a, st) = lookup_retry gai h p st;
              let st' = (if ga_result a = None then st else st\<lparr>rs_lists := rs_lists st - 1\<rparr>);
              if ga_status a \<noteq> 0 then Some (RAPTOR_POSIX_ERROR os ''getaddrinfo'', addresses, st')
              else do {
                as \<leftarrow> copy_addresses junk 0 (case ga_result a of None \<Rightarrow> [] | Some l \<Rightarrow> l);
                Some (RAPTOR_ERROR_NONE, Some as, st'\<lparr>rs_arrays := rs_arrays st' + 1\<rparr>) } }) }"

definition raptor_resolved_addresses_destroy :: "resolved_address list option \<Rightarrow> resolver \<Rightarrow> resolver" where
  "raptor_resolved_addresses_destroy addrs st =
     (case addrs of None \<Rightarrow> st | Some _ \<Rightarrow> st\<lparr>rs_arrays := rs_arrays st - 1\<rparr>)"

section \<open>Lemmas\<close>

text \<open>What the code relies on of \<open>getaddrinfo\<close>: a failing call leaves the result pointer alone, and an
  address fits into a \<open>sockaddr_storage\<close> of 128 bytes.\<close>

definition gai_ok :: "(string \<Rightarrow> string \<Rightarrow> gai_answer) \<Rightarrow> bool" where
  "gai_ok gai \<longleftrightarrow> (\<forall>h p. (ga_status (gai h p) \<noteq> 0 \<longrightarrow> ga_result (gai h p) = None)
     \<and> (\<forall>l. ga_result (gai h p) = Some l \<longrightarrow> (\<forall>a \<in> set l. length a \<le> 128)))"

definition holds_address :: "byte list \<Rightarrow> resolved_address \<Rightarrow> bool" where
  "holds_address info a \<longleftrightarrow> ra_len a = length info \<and> take (ra_len a) (ra_addr a) = info"

lemma copy_addresses_ok:
  "\<forall>a \<in> set l. length a \<le> 128 \<Longrightarrow> \<exists>as. copy_addresses junk i l = Some as \<and> list_all2 holds_address l as"
proof (induction l arbitrary: i)
  case (Cons a l)
  then obtain as where "copy_addresses junk (i + 1) l = Some as" "list_all2 holds_address l as" by force
  with Cons.prems show ?case by (simp add: copy_address_def) (simp add: holds_address_def [of a])
qed simp

lemma copy_addresses_whole:
  "copy_addresses junk i l = Some as \<Longrightarrow> \<forall>j. length (junk j) = 128 \<Longrightarrow> \<forall>a \<in> set as. ra_ok a"
  by (induction l arbitrary: i as) (auto simp: copy_address_def ra_ok_def split: if_splits)

lemma lookup_retry_lists:
  assumes "gai_ok gai"
  shows "snd (lookup_retry gai h p st) = (if ga_result (fst (lookup_retry gai h p st)) = None then st
     else st\<lparr>rs_lists := rs_lists st + 1\<rparr>)"
    and "ga_result (fst (lookup_retry gai h p st)) = Some l \<Longrightarrow> \<forall>a \<in> set l. length a \<le> 128"
    and "ga_status (fst (lookup_retry gai h p st)) \<noteq> 0 \<Longrightarrow> ga_result (fst (lookup_retry gai h p st)) = None"
  using assms by (auto simp: lookup_retry_def lookup_def Let_def case_prod_beta gai_ok_def split: option.splits if_splits)

lemma SplitHostPort_alloc_total:
  assumes "length name < SV_npos"
  shows "\<exists>r. SplitHostPort_alloc (SV_of_cstr (Some name)) None None = Some r"
proof -
  obtain ret h p b where s: "DoSplitHostPort (SV_of_cstr (Some name)) SV_null SV_null = Some (ret, h, p, b)"
    using DoSplitHostPort_total by (metis surj_pair)
  from DoSplitHostPort_in_bounds [OF s assms] obtain hs ps where
    "StringViewToCString h = Some hs" "StringViewToCString p = Some ps" using in_bounds_copy by blast
  with s show ?thesis by (cases ret) (auto simp: SplitHostPort_alloc_def)
qed

lemma resolve_ok:
  assumes "gai_ok gai" and "length name < SV_npos"
  shows "\<exists>e as st'. raptor_blocking_resolve_address gai os junk name default_port old st = Some (e, as, st')
    \<and> rs_lists st' = rs_lists st
    \<and> (if e = RAPTOR_ERROR_NONE
       then as \<noteq> None \<and> rs_arrays st' = rs_arrays st + 1 \<and> raptor_resolved_addresses_destroy as st' = st
       else as = old \<and> st' = st)"
proof -
  obtain ret host port where s: "SplitHostPort_alloc (SV_of_cstr (Some name)) None None = Some (ret, host, port)"
    using SplitHostPort_alloc_total [OF assms(2)] by (metis surj_pair)
  define port' where "port' = (if port = None then map_option c_str (raptor_strdup default_port) else port)"
  show ?thesis
  proof (cases "host = None \<or> port' = None")
    case True
    then show ?thesis
      unfolding raptor_blocking_resolve_address_def s
      by (cases host) (auto simp: port'_def [symmetric] simp del: not_None_eq)
  next
    case False
    then obtain h p where hp: "host = Some h" "port' = Some p" by auto
    obtain a st1 where a: "lookup_retry gai h p st = (a, st1)" by (metis surj_pair)
    note lr = lookup_retry_lists [OF assms(1), of h p st, unfolded a fst_conv snd_conv]
    obtain as where as: "copy_addresses junk 0 (case ga_result a of None \<Rightarrow> [] | Some l \<Rightarrow> l) = Some as"
      using copy_addresses_ok [of "case ga_result a of None \<Rightarrow> [] | Some l \<Rightarrow> l" junk 0] lr(2)
      by (cases "ga_result a") auto
    show ?thesis
      using lr(1,3) as hp a
      unfolding raptor_blocking_resolve_address_def s
      by (auto simp: port'_def [symmetric] raptor_resolved_addresses_destroy_def simp del: not_None_eq)
  qed
qed

section \<open>Properties\<close>


definition example_gai :: "string \<Rightarrow> string \<Rightarrow> gai_answer" where
  "example_gai h p = (if p = ''80'' then \<lparr>ga_status = 0, ga_result = Some [replicate 16 1, replicate 28 2]\<rparr>
     else \<lparr>ga_status = 1, ga_result = None\<rparr>)"

lemma example_gai_ok: "gai_ok example_gai"
  by (simp add: gai_ok_def example_gai_def)




end
