(* ===== verification/Connector.thy ===== *)
theory Connector
  imports Listener Resolve
begin

text \<open>
  \<open>TcpConnector\<close> (src/src/linux/tcp_connector.cc): asynchronous connects. A connect in progress is an
  entry that is registered with the polling thread under its address and kept in a set of records
  until its event arrives. The operating system is the parameter \<open>px\<close> of theory \<open>SockSet\<close>, name
  resolution that of theory \<open>Resolve\<close>, the application's handler an argument.
\<close>

section \<open>State\<close>

record async_connect_record_entry =
  ce_fd :: int
  ce_user_value :: u64
  ce_addr :: resolved_address

text \<open>\<open>_records\<close> holds addresses of entries; \<open>tc_entries\<close> are the allocated entries.\<close>

record TcpConnector =
  tc_shutdown :: bool
  tc_tcp_user_timeout_ms :: int
  tc_poll_thread :: "PollingThread option"
  tc_records :: "addr set"
  tc_entries :: "addr \<rightharpoonup> async_connect_record_entry"
  tc_fresh :: addr
  tc_resolver :: resolver
  tc_io :: io

definition TcpConnector_new :: "io \<Rightarrow> TcpConnector" where
  "TcpConnector_new io = \<lparr>tc_shutdown = True, tc_tcp_user_timeout_ms = 0, tc_poll_thread = None, tc_records = {},
     tc_entries = Map.empty, tc_fresh = 1, tc_resolver = \<lparr>rs_lists = 0, rs_arrays = 0\<rparr>, tc_io = io\<rparr>"

section \<open>Life cycle\<close>

definition TcpConnector_Init ::
  "posix \<Rightarrow> poll_init_os \<Rightarrow> int \<Rightarrow> int \<Rightarrow> TcpConnector \<Rightarrow> (raptor_error \<times> TcpConnector) option" where
  "TcpConnector_Init px os threads tcp_user_timeout tc =
     (if \<not> tc_shutdown tc then Some (MakeStatusFromStaticString ''TcpConnector is already running'', tc)
      else do {
        (e, p, io) \<leftarrow> replace_poll px os threads (tc_poll_thread tc) (tc_io tc);
        if e \<noteq> RAPTOR_ERROR_NONE then Some (e, tc\<lparr>tc_poll_thread := Some p, tc_io := io\<rparr>)
        else Some (RAPTOR_ERROR_NONE,
          tc\<lparr>tc_poll_thread := Some (PollingThread_EnableTimeoutCheck False p), tc_io := io,
             tc_tcp_user_timeout_ms := tcp_user_timeout, tc_shutdown := False\<rparr>) })"

definition TcpConnector_Start :: "TcpConnector \<Rightarrow> (raptor_error \<times> TcpConnector) option" where
  "TcpConnector_Start tc =
     (if tc_shutdown tc then Some (MakeStatusFromStaticString ''TcpConnector is not initialized'', tc)
      else do {
        p \<leftarrow> tc_poll_thread tc;
        (e, p) \<leftarrow> PollingThread_Start p;
        Some (e, tc\<lparr>tc_poll_thread := Some p\<rparr>) })"

text \<open>\<open>for (auto record : _records)\<close> visits the set in ascending order.\<close>

fun close_records :: "posix \<Rightarrow> addr list \<Rightarrow> TcpConnector \<Rightarrow> TcpConnector option" where
  "close_records px [] tc = Some tc"
| "close_records px (record # records) tc = do {
     entry \<leftarrow> tc_entries tc record;
     close_records px records (tc\<lparr>tc_io := calls px [Sys (SysClose (ce_fd entry))] (tc_io tc)\<rparr>) }"

definition TcpConnector_Shutdown :: "posix \<Rightarrow> TcpConnector \<Rightarrow> TcpConnector option" where
  "TcpConnector_Shutdown px tc =
     (if tc_shutdown tc then Some tc
      else do {
        p \<leftarrow> tc_poll_thread tc;
        (acts, p) \<leftarrow> PollingThread_Shutdown p;
        let tc = tc\<lparr>tc_shutdown := True, tc_poll_thread := Some p, tc_io := poll_acts px acts (tc_io tc)\<rparr>;
        tc \<leftarrow> close_records px (sorted_list_of_set (tc_records tc)) tc;
        Some (tc\<lparr>tc_records := {}\<rparr>) })"

definition TcpConnector_dtor :: "posix \<Rightarrow> TcpConnector \<Rightarrow> TcpConnector option" where
  "TcpConnector_dtor px tc = TcpConnector_Shutdown px tc"

section \<open>Connecting\<close>

abbreviation "EINTR \<equiv> (4 :: int)"
abbreviation "EWOULDBLOCK \<equiv> (11 :: int)"
abbreviation "EINPROGRESS \<equiv> (115 :: int)"

text \<open>\<open>do { err = connect(\<dots>) } while (err < 0 && errno == EINTR)\<close>\<close>

partial_function (option) connect_loop :: "posix \<Rightarrow> int \<Rightarrow> resolved_address \<Rightarrow> io \<Rightarrow> (int \<times> io) option" where
  "connect_loop px sock_fd addr io =
     (let (a, io) = call px (syscall.Connect sock_fd addr) io in
      if ans_ret a < 0 \<and> io_errno io = EINTR then connect_loop px sock_fd addr io else Some (ans_ret a, io))"

abbreviation connect_events :: u32 where
  "connect_events \<equiv> EPOLLIN OR EPOLLOUT OR EPOLLET OR EPOLLRDHUP"

definition TcpConnector_AsyncConnect ::
  "posix \<Rightarrow> resolved_address \<Rightarrow> u64 \<Rightarrow> int \<Rightarrow> TcpConnector \<Rightarrow> (raptor_error \<times> TcpConnector) option" where
  "TcpConnector_AsyncConnect px addr user timeout_ms tc =
     (let ((result, mapped_addr, sock_fd), io) = raptor_tcp_client_prepare_socket px addr timeout_ms (tc_io tc) in
      if result \<noteq> RAPTOR_ERROR_NONE then Some (result, tc\<lparr>tc_io := io\<rparr>)
      else do {
        (err, io) \<leftarrow> connect_loop px sock_fd mapped_addr io;
        if io_errno io \<noteq> EWOULDBLOCK \<and> io_errno io \<noteq> EINPROGRESS then
          let io = poll_acts px (raptor_set_socket_shutdown sock_fd) io
          in Some (posix_error px io ''connect'', tc\<lparr>tc_io := io\<rparr>)
        else do {
          let entry = tc_fresh tc;
          p \<leftarrow> tc_poll_thread tc;
          Some (RAPTOR_ERROR_NONE,
            tc\<lparr>tc_fresh := entry + 1,
               tc_entries := (tc_entries tc)(entry \<mapsto> \<lparr>ce_fd = sock_fd, ce_user_value = user, ce_addr = mapped_addr\<rparr>),
               tc_records := insert entry (tc_records tc),
               tc_io := poll_acts px [PollingThread_Add p sock_fd (of_nat entry) connect_events] io\<rparr>) } })"

text \<open>\<open>gai\<close> and \<open>junk\<close> are the arguments of \<open>raptor_blocking_resolve_address\<close>.\<close>

definition TcpConnector_Connect ::
  "posix \<Rightarrow> (string \<Rightarrow> string \<Rightarrow> gai_answer) \<Rightarrow> (nat \<Rightarrow> byte list) \<Rightarrow> string \<Rightarrow> u64 \<Rightarrow> TcpConnector
   \<Rightarrow> (raptor_error \<times> TcpConnector) option" where
  "TcpConnector_Connect px gai junk addr user tc = do {
     (e, addrs, rs) \<leftarrow> raptor_blocking_resolve_address gai \<lparr>os_errno = io_errno (tc_io tc), os_strerror = px_strerror px\<rparr>
                        junk addr None None (tc_resolver tc);
     let tc = tc\<lparr>tc_resolver := rs\<rparr>;
     if e \<noteq> RAPTOR_ERROR_NONE then Some (e, tc)
     else do {
       as \<leftarrow> addrs;
       case as of
         [] \<Rightarrow> Some (map_option (\<lambda>st. Status_AppendMessage st addr) (MakeStatusFromStaticString ''Invalid address: ''), tc)
       | a # _ \<Rightarrow> do {
           (e, tc) \<leftarrow> TcpConnector_AsyncConnect px a user (tc_tcp_user_timeout_ms tc) tc;
           Some (e, tc\<lparr>tc_resolver := raptor_resolved_addresses_destroy addrs (tc_resolver tc)\<rparr>) } } }"

section \<open>Events\<close>

definition TcpConnector_ProcessProperty :: "posix \<Rightarrow> int \<Rightarrow> Property \<Rightarrow> io \<Rightarrow> io" where
  "TcpConnector_ProcessProperty px fd p io = do_all (property_steps px fd p) io"

text \<open>The application's callbacks; what they leave and the system calls they make are their results.\<close>

record connect_handler =
  on_connect :: "EndpointImpl \<Rightarrow> Property \<Rightarrow> io \<Rightarrow> EndpointImpl \<times> Property \<times> io"
  on_error_occurred :: "EndpointImpl \<Rightarrow> raptor_error \<Rightarrow> io \<Rightarrow> io"

definition connect_outcome ::
  "posix \<Rightarrow> connect_handler \<Rightarrow> u32 \<Rightarrow> async_connect_record_entry \<Rightarrow> EndpointImpl \<Rightarrow> io \<Rightarrow> io" where
  "connect_outcome px h event_type entry endpoint io =
     (if event_type AND kSendEvent \<noteq> 0 then
        let property = Property_of_entry (''UserCustomValue'', ce_user_value entry);
            (endpoint, property, io) = on_connect h endpoint property io
        in (if EndpointImpl_IsOnline endpoint then TcpConnector_ProcessProperty px (ce_fd entry) property io else io)
      else
        let (error_code, io) = raptor_get_socket_error px (ce_fd entry) io;
            err = Some (Status_code_msg error_code ''getsockopt(SO_ERROR)'');
            io = on_error_occurred h endpoint err io
        in calls px [Sys (SysClose (ce_fd entry))] io)"

definition TcpConnector_OnEventProcess ::
  "posix \<Rightarrow> connect_handler \<Rightarrow> EventDetail \<Rightarrow> TcpConnector \<Rightarrow> TcpConnector option" where
  "TcpConnector_OnEventProcess px h detail tc = do {
     let record = unat (ed_ptr detail);
     entry \<leftarrow> tc_entries tc record;
     let (a, io) = call px (Getsockname (ce_fd entry)) (tc_io tc);
     let loc = (if ans_ret a < 0 then ra_zero\<lparr>ra_len := 128\<rparr> else ans_addr a);
     let endpoint = EndpointImpl_new (of_int (ce_fd entry)) loc (ce_addr entry);
     p \<leftarrow> tc_poll_thread tc;
     let io = poll_acts px [PollingThread_Delete p (ce_fd entry) connect_events] io;
     let io = connect_outcome px h (ed_event_type detail) entry endpoint io;
     Some (tc\<lparr>tc_io := io, tc_records := tc_records tc - {record}, tc_entries := (tc_entries tc)(record := None)\<rparr>) }"

section \<open>The connect loop\<close>

lemma connect_loop_keeps:
  assumes "connect_loop px fd addr io = Some r"
  shows "keeps_fds fd io (snd r)"
proof (rule connect_loop.raw_induct [where P = "\<lambda>px fd addr io r. keeps_fds fd io (snd r)", OF _ assms])
  fix loop :: "posix \<Rightarrow> int \<Rightarrow> resolved_address \<Rightarrow> io \<Rightarrow> (int \<times> io) option" and px fd addr io r
  assume IH: "\<And>px fd addr io r. loop px fd addr io = Some r \<Longrightarrow> keeps_fds fd io (snd r)"
    and run: "(let (a, io) = call px (syscall.Connect fd addr) io in
      if ans_ret a < 0 \<and> io_errno io = EINTR then loop px fd addr io else Some (ans_ret a, io)) = Some r"
  have k: "keeps_fds fd io (snd (call px (syscall.Connect fd addr) io))" by (rule call_keeps) simp
  show "keeps_fds fd io (snd r)"
    using run k keeps_fds_trans [OF k IH] by (auto simp: Let_def case_prod_beta split: if_splits)
qed

text \<open>The loop ends as soon as one \<open>connect\<close> is not interrupted by a signal.\<close>

definition interrupted :: "answer \<Rightarrow> bool" where
  "interrupted a \<longleftrightarrow> ans_ret a < 0 \<and> ans_errno a = EINTR"

lemma connect_loop_step:
  "connect_loop px fd addr io = (if interrupted (px_answer px (io_trace io) (syscall.Connect fd addr))
     then connect_loop px fd addr (snd (call px (syscall.Connect fd addr) io))
     else Some (ans_ret (px_answer px (io_trace io) (syscall.Connect fd addr)), snd (call px (syscall.Connect fd addr) io)))"
  by (subst connect_loop.simps) (simp add: call_def Let_def interrupted_def)

lemma connect_loop_returns:
  "\<not> interrupted (px_answer px (io_trace io @ replicate n (syscall.Connect fd addr)) (syscall.Connect fd addr))
   \<Longrightarrow> \<exists>r. connect_loop px fd addr io = Some r"
proof (induction n arbitrary: io)
  case 0
  then show ?case by (subst connect_loop_step) simp
next
  case (Suc n)
  from Suc.IH [of "snd (call px (syscall.Connect fd addr) io)"] Suc.prems show ?case
    by (subst connect_loop_step) simp
qed

definition connect_ends :: "posix \<Rightarrow> bool" where
  "connect_ends px \<longleftrightarrow> (\<forall>tr fd addr. \<exists>n. \<not> interrupted (px_answer px (tr @ replicate n (syscall.Connect fd addr)) (syscall.Connect fd addr)))"

definition no_fd_zero :: "posix \<Rightarrow> bool" where
  "no_fd_zero px \<longleftrightarrow> (\<forall>tr f. ans_ret (px_answer px tr (Socket f)) \<noteq> 0)"

section \<open>Invariant\<close>

definition pending_fds :: "TcpConnector \<Rightarrow> int multiset" where
  "pending_fds tc = image_mset (\<lambda>a. ce_fd (the (tc_entries tc a))) (mset_set (tc_records tc))"

definition own_fds :: "TcpConnector \<Rightarrow> int list" where
  "own_fds tc = (case tc_poll_thread tc of None \<Rightarrow> [] | Some p \<Rightarrow> poll_fds p)"

definition connector_ok :: "TcpConnector \<Rightarrow> bool" where
  "connector_ok tc \<longleftrightarrow> finite (tc_records tc) \<and> tc_records tc \<subseteq> dom (tc_entries tc)
     \<and> (\<forall>a \<in> dom (tc_entries tc). a < tc_fresh tc)
     \<and> (\<forall>p. tc_poll_thread tc = Some p \<longrightarrow> poll_own p)
     \<and> (\<not> tc_shutdown tc \<longrightarrow> (\<exists>p. tc_poll_thread tc = Some p \<and> poll_ok {kAlive, kActive} p))
     \<and> pending_fds tc + mset (own_fds tc) \<subseteq># mset (io_open (tc_io tc))"

lemma TcpConnector_new_ok: "connector_ok (TcpConnector_new io)"
  by (simp add: connector_ok_def TcpConnector_new_def pending_fds_def own_fds_def)

lemma connector_io_mono:
  assumes "connector_ok tc" and "mset (io_open (tc_io tc)) \<subseteq># mset (io_open io)"
  shows "connector_ok (tc\<lparr>tc_io := io\<rparr>)"
  using assms by (auto simp: connector_ok_def pending_fds_def own_fds_def intro: subset_mset.order_trans)

lemma AsyncConnect_ok:
  assumes "connector_ok tc" and "no_fd_zero px" and "TcpConnector_AsyncConnect px addr user timeout tc = Some (e, tc')"
  shows "connector_ok tc' \<and> io_bad_close (tc_io tc') = io_bad_close (tc_io tc)
    \<and> (if e = RAPTOR_ERROR_NONE
       then \<exists>entry p t. tc_entries tc' = (tc_entries tc)(tc_fresh tc \<mapsto> entry) \<and> tc_records tc' = insert (tc_fresh tc) (tc_records tc)
         \<and> ce_user_value entry = user \<and> tc_poll_thread tc = Some p \<and> mset (io_open (tc_io tc')) = add_mset (ce_fd entry) (mset (io_open (tc_io tc)))
         \<and> io_trace (tc_io tc') = t @ [Sys (PollingThread_Add p (ce_fd entry) (of_nat (tc_fresh tc)) connect_events)]
       else tc_records tc' = tc_records tc \<and> tc_entries tc' = tc_entries tc \<and> mset (io_open (tc_io tc')) = mset (io_open (tc_io tc)))"
proof -
  obtain r m fd io1 where c: "raptor_tcp_client_prepare_socket px addr timeout (tc_io tc) = ((r, m, fd), io1)" by (metis surj_pair)
  note cl = client_socket_ok [OF assms(2) [unfolded no_fd_zero_def] c]
  show ?thesis
  proof (cases "r = RAPTOR_ERROR_NONE")
    case False
    then have "e = r" "tc' = tc\<lparr>tc_io := io1\<rparr>" using assms(3) c by (simp_all add: TcpConnector_AsyncConnect_def)
    with False cl connector_io_mono [OF assms(1), of io1] show ?thesis by (simp del: not_None_eq)
  next
    case True
    then have o1: "0 < fd" "io_open io1 = fd # io_open (tc_io tc)" "io_bad_close io1 = io_bad_close (tc_io tc)" using cl by auto
    obtain err io2 where l: "connect_loop px fd m io1 = Some (err, io2)"
      using assms(3) c True by (auto simp: TcpConnector_AsyncConnect_def)
    have o2: "io_open io2 = fd # io_open (tc_io tc)" "io_bad_close io2 = io_bad_close (tc_io tc)"
      using keeps_open [OF connect_loop_keeps [OF l]] o1 by simp_all
    show ?thesis
    proof (cases "io_errno io2 \<noteq> EWOULDBLOCK \<and> io_errno io2 \<noteq> EINPROGRESS")
      case failed: True
      define io3 where "io3 = poll_acts px (raptor_set_socket_shutdown fd) io2"
      have o3: "io_open io3 = io_open (tc_io tc)" "io_bad_close io3 = io_bad_close (tc_io tc)"
        using o1(1) o2 by (simp_all add: io3_def raptor_set_socket_shutdown_def call_def Let_def)
      have "e = posix_error px io3 ''connect''" "tc' = tc\<lparr>tc_io := io3\<rparr>"
        using assms(3) c True l failed by (simp_all add: TcpConnector_AsyncConnect_def io3_def Let_def)
      with o3 connector_io_mono [OF assms(1), of io3] show ?thesis by (simp del: not_None_eq)
    next
      case False
      obtain p where p: "tc_poll_thread tc = Some p" using assms(3) c True l False by (auto simp: TcpConnector_AsyncConnect_def Let_def)
      define entry where "entry = \<lparr>ce_fd = fd, ce_user_value = user, ce_addr = m\<rparr>"
      define io3 where "io3 = poll_acts px [PollingThread_Add p fd (of_nat (tc_fresh tc)) connect_events] io2"
      have r': "e = RAPTOR_ERROR_NONE" "tc' = tc\<lparr>tc_fresh := tc_fresh tc + 1, tc_entries := (tc_entries tc)(tc_fresh tc \<mapsto> entry),
          tc_records := insert (tc_fresh tc) (tc_records tc), tc_io := io3\<rparr>"
        using assms(3) c True l False p by (auto simp: TcpConnector_AsyncConnect_def entry_def io3_def Let_def)
      have o3: "io_open io3 = fd # io_open (tc_io tc)" "io_bad_close io3 = io_bad_close (tc_io tc)"
        using epoll_ctl_keeps [of px p fd "of_nat (tc_fresh tc)" connect_events io2] o2 by (simp_all add: io3_def)
      have fresh: "tc_fresh tc \<notin> tc_records tc" and fin: "finite (tc_records tc)" using assms(1) by (auto simp: connector_ok_def)
      have "image_mset (\<lambda>a. ce_fd (the (((tc_entries tc)(tc_fresh tc \<mapsto> entry)) a))) (mset_set (tc_records tc)) = pending_fds tc"
        unfolding pending_fds_def using fresh fin by (intro image_mset_cong) (auto simp: elem_mset_set)
      then have pe: "pending_fds tc' = add_mset fd (pending_fds tc)"
        using fresh fin by (simp add: r'(2) pending_fds_def entry_def)
      have "connector_ok tc'"
        using assms(1) pe o3(1) by (auto simp: connector_ok_def r'(2) own_fds_def less_Suc_eq)
      moreover have "io_trace io3 = io_trace io2 @ [Sys (PollingThread_Add p fd (of_nat (tc_fresh tc)) connect_events)]" by (simp add: io3_def)
      ultimately show ?thesis using r' o3 p by (auto simp: entry_def)
    qed
  qed
qed

text \<open>\<open>AsyncConnect\<close> returns when the connector has a polling thread.\<close>

lemma AsyncConnect_returns:
  assumes "connect_ends px" and "tc_poll_thread tc = Some p"
  shows "\<exists>r. TcpConnector_AsyncConnect px addr user timeout tc = Some r"
proof -
  obtain r m fd io1 where c: "raptor_tcp_client_prepare_socket px addr timeout (tc_io tc) = ((r, m, fd), io1)" by (metis surj_pair)
  obtain n where "\<not> interrupted (px_answer px (io_trace io1 @ replicate n (syscall.Connect fd m)) (syscall.Connect fd m))"
    using assms(1) unfolding connect_ends_def by blast
  from connect_loop_returns [OF this] obtain err io2 where "connect_loop px fd m io1 = Some (err, io2)" by auto
  with assms(2) c show ?thesis by (auto simp: TcpConnector_AsyncConnect_def Let_def)
qed

lemma resolver_upd_ok: "connector_ok (tc\<lparr>tc_resolver := rs\<rparr>) = connector_ok tc"
  by (simp add: connector_ok_def pending_fds_def own_fds_def)

text \<open>\<open>Connect\<close> ends without an attempt or with one attempt.\<close>

lemma Connect_cases:
  assumes "TcpConnector_Connect px gai junk addr user tc = Some (e, tc')"
  obtains (none) rs where "tc' = tc\<lparr>tc_resolver := rs\<rparr>"
  | (attempt) rs a tc2 rs2 where "TcpConnector_AsyncConnect px a user (tc_tcp_user_timeout_ms tc) (tc\<lparr>tc_resolver := rs\<rparr>) = Some (e, tc2)"
      "tc' = tc2\<lparr>tc_resolver := rs2\<rparr>"
proof -
  obtain e1 addrs rs where r: "raptor_blocking_resolve_address gai \<lparr>os_errno = io_errno (tc_io tc), os_strerror = px_strerror px\<rparr>
      junk addr None None (tc_resolver tc) = Some (e1, addrs, rs)"
    using assms by (auto simp: TcpConnector_Connect_def)
  show ?thesis
  proof (cases "e1 = RAPTOR_ERROR_NONE \<and> (\<exists>a as. addrs = Some (a # as))")
    case False
    then have "tc' = tc\<lparr>tc_resolver := rs\<rparr>"
      using assms r by (auto simp: TcpConnector_Connect_def Let_def neq_Nil_conv split: if_splits list.splits)
    then show ?thesis by (rule none)
  next
    case True
    with assms r show ?thesis by (auto simp: TcpConnector_Connect_def Let_def intro: attempt)
  qed
qed

lemma Connect_ok:
  assumes "connector_ok tc" and "no_fd_zero px" and "TcpConnector_Connect px gai junk addr user tc = Some (e, tc')"
  shows "connector_ok tc' \<and> io_bad_close (tc_io tc') = io_bad_close (tc_io tc)"
  using assms(3)
proof (cases rule: Connect_cases)
  case (attempt rs a tc2 rs2)
  with AsyncConnect_ok [OF _ assms(2) attempt(1)] assms(1) show ?thesis by (simp add: resolver_upd_ok)
qed (use assms(1) in \<open>simp add: resolver_upd_ok\<close>)

lemma Init_connector_ok:
  assumes "connector_ok tc" and "- 1 \<le> pio_epoll_create os" and "TcpConnector_Init px os n tmo tc = Some (e, tc')"
  shows "connector_ok tc' \<and> io_bad_close (tc_io tc') = io_bad_close (tc_io tc)"
proof (cases "tc_shutdown tc")
  case True
  have "\<forall>p. tc_poll_thread tc = Some p \<longrightarrow> poll_own p"
    "pending_fds tc + mset (opt_poll_fds (tc_poll_thread tc)) \<subseteq># mset (io_open (tc_io tc))"
    using assms(1) by (auto simp: connector_ok_def own_fds_def opt_poll_fds_def)
  from replace_poll_ok [OF this(1) assms(2) this(2), of px n] obtain e' p io where
    r: "replace_poll px os n (tc_poll_thread tc) (tc_io tc) = Some (e', p, io)" "poll_own p"
      "e' = RAPTOR_ERROR_NONE \<longrightarrow> poll_ok {kAlive, kActive} p" "pending_fds tc + mset (poll_fds p) \<subseteq># mset (io_open io)"
      "io_bad_close io = io_bad_close (tc_io tc)" by blast
  show ?thesis
    using True r assms(1,3)
    by (cases "e' = RAPTOR_ERROR_NONE") (auto simp: TcpConnector_Init_def connector_ok_def pending_fds_def own_fds_def)
next
  case False
  with assms show ?thesis by (simp add: TcpConnector_Init_def)
qed

lemma Start_connector_ok:
  assumes "connector_ok tc" and "TcpConnector_Start tc = Some (e, tc')"
  shows "connector_ok tc' \<and> tc_io tc' = tc_io tc"
proof (cases "tc_shutdown tc")
  case False
  with assms obtain p q where p: "tc_poll_thread tc = Some p" "PollingThread_Start p = Some (e, q)"
    "tc' = tc\<lparr>tc_poll_thread := Some q\<rparr>" "poll_own p" "poll_ok {kAlive, kActive} p"
    by (auto simp: TcpConnector_Start_def connector_ok_def)
  with poll_Start_keeps [OF p(2,4)] assms(1) False show ?thesis
    by (simp add: connector_ok_def pending_fds_def own_fds_def)
qed (use assms in \<open>simp add: TcpConnector_Start_def\<close>)

text \<open>Events: the handlers may close the connection they are given in \<open>OnConnect\<close> and nothing else.\<close>

definition connect_handler_ok :: "connect_handler \<Rightarrow> bool" where
  "connect_handler_ok h \<longleftrightarrow> (\<forall>ep pr io. case on_connect h ep pr io of (ep', pr', io') \<Rightarrow> io_bad_close io' = io_bad_close io
       \<and> mset (io_open io) - {#fd_int (ei_fd ep)#} \<subseteq># mset (io_open io'))
     \<and> (\<forall>ep e io. io_bad_close (on_error_occurred h ep e io) = io_bad_close io
       \<and> mset (io_open io) \<subseteq># mset (io_open (on_error_occurred h ep e io)))"

lemma epoll_del_keeps: "io_open (poll_acts px [PollingThread_Delete p fd ev] io) = io_open io
    \<and> io_bad_close (poll_acts px [PollingThread_Delete p fd ev] io) = io_bad_close io"
  by (simp add: PollingThread_Delete_def Epoll_remove_def Epoll_ctl_def call_def Let_def)

lemma pending_mem: "finite (tc_records tc) \<Longrightarrow> r \<in> tc_records tc \<Longrightarrow> tc_entries tc r = Some entry
  \<Longrightarrow> pending_fds tc = add_mset (ce_fd entry) (image_mset (\<lambda>a. ce_fd (the (tc_entries tc a))) (mset_set (tc_records tc - {r})))"
  unfolding pending_fds_def by (subst mset_set.remove [of _ r]) simp_all

lemma connect_outcome_ok:
  assumes "connect_handler_ok h" and "fd_int (ei_fd ep) = ce_fd entry" and "ce_fd entry \<in># mset (io_open io)"
  shows "mset (io_open io) - {#ce_fd entry#} \<subseteq># mset (io_open (connect_outcome px h ty entry ep io))"
    and "io_bad_close (connect_outcome px h ty entry ep io) = io_bad_close io"
proof -
  have "mset (io_open io) - {#ce_fd entry#} \<subseteq># mset (io_open (connect_outcome px h ty entry ep io))
      \<and> io_bad_close (connect_outcome px h ty entry ep io) = io_bad_close io"
  proof (cases "ty AND kSendEvent = 0")
    case True
    define c io1 where "c = fst (raptor_get_socket_error px (ce_fd entry) io)" and "io1 = snd (raptor_get_socket_error px (ce_fd entry) io)"
    define io2 where "io2 = on_error_occurred h ep (Some (Status_code_msg c ''getsockopt(SO_ERROR)'')) io1"
    have o1: "io_open io1 = io_open io" "io_bad_close io1 = io_bad_close io"
      using keeps_open [OF setters_keep(9) [of "ce_fd entry" io px]] by (simp_all add: io1_def)
    have o2: "mset (io_open io) \<subseteq># mset (io_open io2)" "io_bad_close io2 = io_bad_close io"
      using assms(1) [unfolded connect_handler_ok_def, THEN conjunct2, THEN spec [of _ ep],
          THEN spec [of _ "Some (Status_code_msg c ''getsockopt(SO_ERROR)'')"], THEN spec [of _ io1]] o1
      by (simp_all add: io2_def)
    with assms(3) have "ce_fd entry \<in> set (io_open io2)" by (metis mset_subset_eqD set_mset_mset)
    from close_one [OF this, of px] have "mset (io_open (calls px [Sys (SysClose (ce_fd entry))] io2)) = mset (io_open io2) - {#ce_fd entry#}"
      "io_bad_close (calls px [Sys (SysClose (ce_fd entry))] io2) = io_bad_close io2" by (simp_all add: closes_def)
    moreover have "connect_outcome px h ty entry ep io = calls px [Sys (SysClose (ce_fd entry))] io2"
      using True by (simp add: connect_outcome_def Let_def case_prod_beta c_def io1_def io2_def)
    ultimately show ?thesis using o2 by (simp add: subseteq_mset_def diff_le_mono)
  next
    case False
    obtain ep' pr io1 where h: "on_connect h ep (Property_of_entry (''UserCustomValue'', ce_user_value entry)) io = (ep', pr, io1)" by (metis surj_pair)
    have o1: "io_bad_close io1 = io_bad_close io" "mset (io_open io) - {#ce_fd entry#} \<subseteq># mset (io_open io1)"
      using assms(1) [unfolded connect_handler_ok_def, THEN conjunct1, THEN spec [of _ ep],
          THEN spec [of _ "Property_of_entry (''UserCustomValue'', ce_user_value entry)"], THEN spec [of _ io]] assms(2)
      by (simp_all add: h)
    have k: "io_open (TcpConnector_ProcessProperty px (ce_fd entry) pr io1) = io_open io1"
      "io_bad_close (TcpConnector_ProcessProperty px (ce_fd entry) pr io1) = io_bad_close io1"
      using keeps_open [OF do_all_keeps [OF property_steps_keep [of "ce_fd entry" px pr], of io1]]
      by (simp_all add: TcpConnector_ProcessProperty_def)
    from False h o1 k show ?thesis by (simp add: connect_outcome_def)
  qed
  then show "mset (io_open io) - {#ce_fd entry#} \<subseteq># mset (io_open (connect_outcome px h ty entry ep io))"
    "io_bad_close (connect_outcome px h ty entry ep io) = io_bad_close io" by blast+
qed

text \<open>Descriptors are \<open>int\<close>s.\<close>

definition entries_int :: "TcpConnector \<Rightarrow> bool" where
  "entries_int tc \<longleftrightarrow> (\<forall>a entry. tc_entries tc a = Some entry \<longrightarrow> 0 \<le> ce_fd entry \<and> ce_fd entry < 2147483648)"

lemma entries_int_resolver [simp]: "entries_int (tc\<lparr>tc_resolver := rs\<rparr>) = entries_int tc"
  by (simp add: entries_int_def)

lemma entries_int_cong: "tc_entries tc' = tc_entries tc \<Longrightarrow> entries_int tc' = entries_int tc"
  by (simp add: entries_int_def)

lemma Event_connector_ok:
  assumes "connector_ok tc" and "connect_handler_ok h" and "unat (ed_ptr d) \<in> tc_records tc" and "entries_int tc"
    and "TcpConnector_OnEventProcess px h d tc = Some tc'"
  shows "connector_ok tc' \<and> io_bad_close (tc_io tc') = io_bad_close (tc_io tc)
    \<and> tc_records tc' = tc_records tc - {unat (ed_ptr d)} \<and> tc_entries tc' = (tc_entries tc)(unat (ed_ptr d) := None)"
proof -
  define r where "r = unat (ed_ptr d)"
  obtain entry p where en: "tc_entries tc r = Some entry" and p: "tc_poll_thread tc = Some p"
    using assms(5) by (auto simp: TcpConnector_OnEventProcess_def r_def Let_def case_prod_beta)
  define a io1 where "a = fst (call px (Getsockname (ce_fd entry)) (tc_io tc))" and "io1 = snd (call px (Getsockname (ce_fd entry)) (tc_io tc))"
  define ep where "ep = EndpointImpl_new (of_int (ce_fd entry)) (if ans_ret a < 0 then ra_zero\<lparr>ra_len := 128\<rparr> else ans_addr a) (ce_addr entry)"
  define io2 where "io2 = poll_acts px [PollingThread_Delete p (ce_fd entry) connect_events] io1"
  have o2: "io_open io2 = io_open (tc_io tc)" "io_bad_close io2 = io_bad_close (tc_io tc)"
    using epoll_del_keeps [of px p "ce_fd entry" connect_events io1] keeps_open [OF call_keeps [of "Getsockname (ce_fd entry)" "ce_fd entry" "tc_io tc" px]]
    by (simp_all add: io2_def io1_def)
  have fd: "fd_int (ei_fd ep) = ce_fd entry"
    using assms(4) en fd_int_of_int by (simp add: ep_def EndpointImpl_new_def entries_int_def)
  define io3 where "io3 = connect_outcome px h (ed_event_type d) entry ep io2"
  have tc': "tc' = tc\<lparr>tc_io := io3, tc_records := tc_records tc - {r}, tc_entries := (tc_entries tc)(r := None)\<rparr>"
    using assms(5) en p
    by (auto simp: TcpConnector_OnEventProcess_def r_def Let_def case_prod_beta a_def io1_def ep_def io2_def io3_def)
  have fin: "finite (tc_records tc)" and sub: "pending_fds tc + mset (own_fds tc) \<subseteq># mset (io_open (tc_io tc))"
    using assms(1) by (simp_all add: connector_ok_def)
  have pm: "pending_fds tc = add_mset (ce_fd entry) (pending_fds tc')"
  proof -
    have "image_mset (\<lambda>a. ce_fd (the (((tc_entries tc)(r := None)) a))) (mset_set (tc_records tc - {r}))
        = image_mset (\<lambda>a. ce_fd (the (tc_entries tc a))) (mset_set (tc_records tc - {r}))"
      using fin by (intro image_mset_cong) (auto simp: elem_mset_set)
    with pending_mem [OF fin _ en] assms(3) show ?thesis by (simp add: r_def pending_fds_def tc' [unfolded r_def])
  qed
  have mem: "ce_fd entry \<in># mset (io_open io2)" using sub pm o2(1) by (simp add: insert_subset_eq_iff)
  note o3 = connect_outcome_ok [OF assms(2) fd mem, of px "ed_event_type d", folded io3_def]
  have "pending_fds tc' + mset (own_fds tc) \<subseteq># mset (io_open (tc_io tc)) - {#ce_fd entry#}"
    using sub pm by (simp add: insert_subset_eq_iff)
  with o3(1) o2(1) have "pending_fds tc' + mset (own_fds tc') \<subseteq># mset (io_open io3)"
    by (auto simp: own_fds_def tc' intro: subset_mset.order_trans)
  then have "connector_ok tc'" using assms(1) by (auto simp: connector_ok_def tc' own_fds_def)
  with o3(2) o2(2) tc' show ?thesis by (simp add: r_def)
qed

section \<open>Shutdown\<close>

lemma mset_set_sorted: "mset (sorted_list_of_set A) = mset_set A"
  by (metis mset_sorted_list_of_multiset sorted_list_of_mset_set)

lemma close_records_ok:
  assumes "set rs \<subseteq> dom (tc_entries tc)" and "mset (map (\<lambda>a. ce_fd (the (tc_entries tc a))) rs) \<subseteq># mset (io_open (tc_io tc))"
  shows "\<exists>io. close_records px rs tc = Some (tc\<lparr>tc_io := io\<rparr>) \<and> closes (map (\<lambda>a. ce_fd (the (tc_entries tc a))) rs) (tc_io tc) io"
  using assms
proof (induction rs arbitrary: tc)
  case (Cons r rs)
  from Cons.prems(1) obtain entry where en: "tc_entries tc r = Some entry" by auto
  define tc1 where "tc1 = tc\<lparr>tc_io := calls px [Sys (SysClose (ce_fd entry))] (tc_io tc)\<rparr>"
  have c: "closes [ce_fd entry] (tc_io tc) (tc_io tc1)"
    using close_one [of "ce_fd entry" "tc_io tc" px] Cons.prems(2) en by (simp add: tc1_def insert_subset_eq_iff del: calls.simps)
  have "\<exists>io. close_records px rs tc1 = Some (tc1\<lparr>tc_io := io\<rparr>)
      \<and> closes (map (\<lambda>a. ce_fd (the (tc_entries tc1 a))) rs) (tc_io tc1) io"
    by (rule Cons.IH) (use Cons.prems c en in \<open>simp_all add: tc1_def closes_def insert_subset_eq_iff del: calls.simps\<close>)
  then obtain io where io: "close_records px rs tc1 = Some (tc\<lparr>tc_io := io\<rparr>)"
    "closes (map (\<lambda>a. ce_fd (the (tc_entries tc a))) rs) (tc_io tc1) io" by (auto simp: tc1_def)
  from closes_trans [OF c io(2)] io(1) en show ?case by (auto simp: tc1_def)
next
  case Nil
  show ?case by (auto simp: closes_def intro!: exI [of _ "tc_io tc"])
qed

lemma Shutdown_connector_ok:
  assumes "connector_ok tc" and "\<not> tc_shutdown tc"
  shows "\<exists>tc'. TcpConnector_Shutdown px tc = Some tc' \<and> connector_ok tc' \<and> tc_shutdown tc' \<and> tc_records tc' = {}
    \<and> tc_entries tc' = tc_entries tc \<and> io_bad_close (tc_io tc') = io_bad_close (tc_io tc)
    \<and> mset (io_open (tc_io tc')) + (pending_fds tc + mset (own_fds tc)) = mset (io_open (tc_io tc))"
proof -
  from assms obtain p where p: "tc_poll_thread tc = Some p" "poll_ok {kAlive, kActive} p" "poll_own p"
    and fin: "finite (tc_records tc)" "tc_records tc \<subseteq> dom (tc_entries tc)"
    and sub: "pending_fds tc + mset (own_fds tc) \<subseteq># mset (io_open (tc_io tc))" by (auto simp: connector_ok_def)
  from poll_Shutdown_own [OF p(2,3)] obtain p' where p': "PollingThread_Shutdown p = Some (map SysClose (poll_fds p), p')"
    "poll_own p'" "poll_fds p' = []" by blast
  have ow: "own_fds tc = poll_fds p" by (simp add: own_fds_def p(1))
  define io1 where "io1 = poll_acts px (map SysClose (poll_fds p)) (tc_io tc)"
  have io1': "calls px (map (Sys \<circ> SysClose) (poll_fds p)) (tc_io tc) = io1" by (simp add: io1_def)
  have c1: "closes (poll_fds p) (tc_io tc) io1"
    unfolding io1_def by (rule close_all) (use sub ow in \<open>auto intro: subset_mset.order_trans [OF mset_subset_eq_add_right]\<close>)
  define tc1 where "tc1 = tc\<lparr>tc_shutdown := True, tc_poll_thread := Some p', tc_io := io1\<rparr>"
  define fds where "fds = map (\<lambda>a. ce_fd (the (tc_entries tc a))) (sorted_list_of_set (tc_records tc))"
  have m: "mset fds = pending_fds tc" by (simp add: fds_def pending_fds_def mset_set_sorted)
  have "\<exists>io. close_records px (sorted_list_of_set (tc_records tc)) tc1 = Some (tc1\<lparr>tc_io := io\<rparr>)
      \<and> closes (map (\<lambda>a. ce_fd (the (tc_entries tc1 a))) (sorted_list_of_set (tc_records tc))) (tc_io tc1) io"
  proof (rule close_records_ok)
    show "set (sorted_list_of_set (tc_records tc)) \<subseteq> dom (tc_entries tc1)" using fin by (simp add: tc1_def)
    have "pending_fds tc \<subseteq># mset (io_open io1)"
      using sub c1 ow by (simp add: closes_def subset_mset.le_diff_conv2 subset_mset.order_trans [OF mset_subset_eq_add_right])
    then show "mset (map (\<lambda>a. ce_fd (the (tc_entries tc1 a))) (sorted_list_of_set (tc_records tc))) \<subseteq># mset (io_open (tc_io tc1))"
      using m by (simp add: tc1_def fds_def)
  qed
  then obtain io where io: "close_records px (sorted_list_of_set (tc_records tc)) tc1 = Some (tc1\<lparr>tc_io := io\<rparr>)" "closes fds io1 io"
    by (auto simp: tc1_def fds_def)
  define tc' where "tc' = tc1\<lparr>tc_io := io, tc_records := {}\<rparr>"
  have r: "TcpConnector_Shutdown px tc = Some tc'"
    using assms(2) p(1) p'(1) io(1) by (simp add: TcpConnector_Shutdown_def io1' tc1_def tc'_def)
  have "closes (poll_fds p @ fds) (tc_io tc) io" by (rule closes_trans [OF c1 io(2)])
  then have "mset (io_open io) + (pending_fds tc + mset (own_fds tc)) = mset (io_open (tc_io tc))" "io_bad_close io = io_bad_close (tc_io tc)"
    using sub m ow by (simp_all add: closes_def add.commute)
  moreover have "connector_ok tc'"
    using assms(1) p'(2,3) by (simp add: connector_ok_def tc'_def tc1_def pending_fds_def own_fds_def)
  ultimately show ?thesis using r by (auto simp: tc'_def tc1_def)
qed

section \<open>Runs\<close>

text \<open>The steps of a connector. An event carries the data of a connect that is registered.\<close>

inductive connector_step ::
  "posix \<Rightarrow> (string \<Rightarrow> string \<Rightarrow> gai_answer) \<Rightarrow> (nat \<Rightarrow> byte list) \<Rightarrow> connect_handler \<Rightarrow> TcpConnector \<Rightarrow> TcpConnector \<Rightarrow> bool"
  for px gai junk h where
  init: "- 1 \<le> pio_epoll_create os \<Longrightarrow> TcpConnector_Init px os n tmo tc = Some (e, tc') \<Longrightarrow> connector_step px gai junk h tc tc'"
| start: "TcpConnector_Start tc = Some (e, tc') \<Longrightarrow> connector_step px gai junk h tc tc'"
| connect: "TcpConnector_Connect px gai junk addr user tc = Some (e, tc') \<Longrightarrow> connector_step px gai junk h tc tc'"
| event: "unat (ed_ptr d) \<in> tc_records tc \<Longrightarrow> TcpConnector_OnEventProcess px h d tc = Some tc' \<Longrightarrow> connector_step px gai junk h tc tc'"
| shutdown: "TcpConnector_Shutdown px tc = Some tc' \<Longrightarrow> connector_step px gai junk h tc tc'"

lemma client_fd_int:
  assumes "fds_are_ints px" and "raptor_tcp_client_prepare_socket px addr timeout s = ((e, m, fd), s')"
  shows "fd < 2147483648"
proof -
  have "snd (snd (fst (raptor_create_dualstack_socket px a s))) < 2147483648" for a
    using created_fd_answer [of px a s] assms(1) by (auto simp: fds_are_ints_def)
  with assms(2) show ?thesis
    by (auto simp: raptor_tcp_client_prepare_socket_def Let_def case_prod_beta split: if_splits)
qed

lemma AsyncConnect_int:
  assumes "entries_int tc" and "fds_are_ints px" and "no_fd_zero px" and "TcpConnector_AsyncConnect px addr user timeout tc = Some (e, tc')"
  shows "entries_int tc'"
proof -
  obtain r m fd io1 where c: "raptor_tcp_client_prepare_socket px addr timeout (tc_io tc) = ((r, m, fd), io1)" by (metis surj_pair)
  have "r = RAPTOR_ERROR_NONE \<Longrightarrow> 0 < fd \<and> fd < 2147483648"
    using client_fd_int [OF assms(2) c] client_socket_ok [OF assms(3) [unfolded no_fd_zero_def] c] by simp
  with assms(1,4) c show ?thesis
    by (auto simp: TcpConnector_AsyncConnect_def Let_def entries_int_def split: if_splits)
qed

definition connector_inv :: "io \<Rightarrow> TcpConnector \<Rightarrow> bool" where
  "connector_inv io0 tc \<longleftrightarrow> connector_ok tc \<and> entries_int tc \<and> io_bad_close (tc_io tc) = io_bad_close io0"

lemma Connect_int:
  assumes "entries_int tc" and "fds_are_ints px" and "no_fd_zero px" and "TcpConnector_Connect px gai junk addr user tc = Some (e, tc')"
  shows "entries_int tc'"
  using assms(4)
proof (cases rule: Connect_cases)
  case (attempt rs a tc2 rs2)
  with AsyncConnect_int [OF _ assms(2,3) attempt(1)] assms(1) show ?thesis by simp
qed (use assms(1) in simp)

lemma connector_step_inv:
  assumes "connector_step px gai junk h tc tc'" and "connector_inv io0 tc"
    and "no_fd_zero px" and "fds_are_ints px" and "connect_handler_ok h"
  shows "connector_inv io0 tc'"
  using assms(1)
proof cases
  case (init os n tmo e)
  have "entries_int tc' = entries_int tc"
    by (rule entries_int_cong) (use init(2) in \<open>auto simp: TcpConnector_Init_def split: if_splits\<close>)
  with Init_connector_ok [OF _ init] assms(2) show ?thesis by (simp add: connector_inv_def)
next
  case (start e)
  have "entries_int tc' = entries_int tc"
    by (rule entries_int_cong) (use start in \<open>auto simp: TcpConnector_Start_def split: if_splits\<close>)
  with Start_connector_ok [OF _ start] assms(2) show ?thesis by (simp add: connector_inv_def)
next
  case (connect addr user e)
  with Connect_ok [OF _ assms(3) connect] Connect_int [OF _ assms(4,3) connect] assms(2) show ?thesis by (simp add: connector_inv_def)
next
  case (event d)
  from Event_connector_ok [OF _ assms(5) event(1) _ event(2)] assms(2) have
    e: "connector_ok tc'" "io_bad_close (tc_io tc') = io_bad_close io0" "tc_entries tc' = (tc_entries tc)(unat (ed_ptr d) := None)"
    by (simp_all add: connector_inv_def)
  have "entries_int tc" using assms(2) by (simp add: connector_inv_def)
  then have "entries_int tc'" unfolding entries_int_def e(3) by (metis fun_upd_apply option.distinct(1))
  with e show ?thesis by (simp add: connector_inv_def)
next
  case shutdown
  show ?thesis
  proof (cases "tc_shutdown tc")
    case True
    with shutdown assms(2) show ?thesis by (simp add: TcpConnector_Shutdown_def)
  next
    case False
    with Shutdown_connector_ok [OF _ False, of px] shutdown assms(2) entries_int_cong [of tc' tc] show ?thesis
      by (auto simp: connector_inv_def)
  qed
qed

lemma connector_reach_inv:
  assumes "(connector_step px gai junk h)\<^sup>*\<^sup>* (TcpConnector_new io0) tc"
    and "no_fd_zero px" and "fds_are_ints px" and "connect_handler_ok h"
  shows "connector_inv io0 tc"
  using assms(1)
proof (induction rule: rtranclp_induct)
  case base
  show ?case using TcpConnector_new_ok by (simp add: connector_inv_def entries_int_def TcpConnector_new_def)
qed (rule connector_step_inv [OF _ _ assms(2-4)])

section \<open>Properties\<close>

text \<open>
  C22. In every state a connector reaches from construction, through any sequence of \<open>Init\<close>, \<open>Start\<close>, \<open>Connect\<close>,
  events of registered connects and \<open>Shutdown\<close>, it has closed no descriptor that was not open. A
  running connector can be shut down: \<open>Shutdown\<close> returns, has closed the socket of every connect in progress
  and the epoll descriptor, each once, and nothing else, and has cleared the records. The entries of
  the connects themselves stay allocated.
\<close>

theorem connector_closes_what_it_opened:
  assumes "(connector_step px gai junk h)\<^sup>*\<^sup>* (TcpConnector_new io0) tc"
    and "no_fd_zero px" and "fds_are_ints px" and "connect_handler_ok h"
  shows "io_bad_close (tc_io tc) = io_bad_close io0
    \<and> (\<not> tc_shutdown tc \<longrightarrow> (\<exists>tc'. TcpConnector_Shutdown px tc = Some tc' \<and> tc_shutdown tc' \<and> tc_records tc' = {}
        \<and> tc_entries tc' = tc_entries tc \<and> io_bad_close (tc_io tc') = io_bad_close io0
        \<and> mset (io_open (tc_io tc')) + (pending_fds tc + mset (own_fds tc)) = mset (io_open (tc_io tc))))"
  using connector_reach_inv [OF assms] Shutdown_connector_ok [of tc px] by (auto simp: connector_inv_def)

text \<open>A handler that leaves everything as it is.\<close>

definition quiet_handler :: connect_handler where
  "quiet_handler = \<lparr>on_connect = (\<lambda>ep pr io. (ep, pr, io)), on_error_occurred = (\<lambda>ep e io. io)\<rparr>"

lemma quiet_handler_ok: "connect_handler_ok quiet_handler"
  by (simp add: connect_handler_ok_def quiet_handler_def)

lemma granting_connects: "no_fd_zero granting" "fds_are_ints granting" "connect_ends granting"
  by (auto simp: no_fd_zero_def fds_are_ints_def connect_ends_def interrupted_def granting_def split: syscall.splits)

lemma small_connector:
  "\<exists>tc p. TcpConnector_Init granting one_thread 1 0 (TcpConnector_new io_start) = Some (RAPTOR_ERROR_NONE, tc)
     \<and> \<not> tc_shutdown tc \<and> tc_poll_thread tc = Some p"
  by (simp add: TcpConnector_new_def TcpConnector_Init_def replace_poll_def PollingThread_Init_def PollingThread_new_def Epoll_create_def
      Epoll_new_def one_thread_def Thread_new_def InternalThreadImpl_new_def Let_def)

lemma small_connector_step:
  assumes "TcpConnector_Init granting one_thread 1 0 (TcpConnector_new io_start) = Some (RAPTOR_ERROR_NONE, tc)"
  shows "(connector_step granting example_gai (\<lambda>_. []) quiet_handler)\<^sup>*\<^sup>* (TcpConnector_new io_start) tc"
  by (rule r_into_rtranclp, rule connector_step.init [OF _ assms]) (simp add: one_thread_def)

theorem connector_closes_what_it_opened_witness:
  "\<exists>tc tc'. TcpConnector_Init granting one_thread 1 0 (TcpConnector_new io_start) = Some (RAPTOR_ERROR_NONE, tc)
     \<and> TcpConnector_Shutdown granting tc = Some tc' \<and> tc_records tc' = {}"
proof -
  obtain tc where i: "TcpConnector_Init granting one_thread 1 0 (TcpConnector_new io_start) = Some (RAPTOR_ERROR_NONE, tc)"
    "\<not> tc_shutdown tc" using small_connector by blast
  from connector_closes_what_it_opened [OF small_connector_step [OF i(1)] granting_connects(1,2) quiet_handler_ok] i show ?thesis by blast
qed



text \<open>
  A connect that succeeds at once is treated as a failure: \<open>AsyncConnect\<close> looks at \<open>errno\<close> without looking at
  the result of \<open>connect\<close>, so with \<open>errno\<close> neither \<open>EWOULDBLOCK\<close> nor \<open>EINPROGRESS\<close> the connected socket is
  shut down and closed, and the caller gets an error.
\<close>

theorem immediate_connect_is_an_error:
  assumes "raptor_tcp_client_prepare_socket px addr timeout (tc_io tc) = ((RAPTOR_ERROR_NONE, m, fd), io1)" and "0 < fd"
    and "ans_ret (px_answer px (io_trace io1) (syscall.Connect fd m)) = 0"
    and "ans_errno (px_answer px (io_trace io1) (syscall.Connect fd m)) = 0"
  shows "\<exists>e tc'. TcpConnector_AsyncConnect px addr user timeout tc = Some (e, tc') \<and> e \<noteq> RAPTOR_ERROR_NONE
    \<and> tc_records tc' = tc_records tc
    \<and> io_trace (tc_io tc') = io_trace io1 @ [syscall.Connect fd m, Sys (SysShutdown fd), Sys (SysClose fd)]"
proof -
  have "connect_loop px fd m io1 = Some (0, snd (call px (syscall.Connect fd m) io1))"
    using assms(3,4) by (subst connect_loop_step) (simp add: interrupted_def)
  moreover have "io_errno (snd (call px (syscall.Connect fd m) io1)) = 0" using assms(4) by (simp add: call_def Let_def)
  ultimately show ?thesis
    using assms(1,2) by (simp add: TcpConnector_AsyncConnect_def raptor_set_socket_shutdown_def Let_def del: not_None_eq)
qed

lemma granting_client:
  "\<exists>m io1. raptor_tcp_client_prepare_socket granting a n io = ((RAPTOR_ERROR_NONE, m, 7), io1)"
proof -
  have "\<exists>d. fst (raptor_create_dualstack_socket granting b io) = (RAPTOR_ERROR_NONE, d, 7)" for b io
    by (simp add: raptor_create_dualstack_socket_def raptor_set_socket_ipv6_only_def create_plain_socket_def Let_def
        case_prod_beta granting_call)
  then obtain d io2 where c: "raptor_create_dualstack_socket granting (case raptor_sockaddr_to_v4mapped a of (True, Some m) \<Rightarrow> m | _ \<Rightarrow> a) io
      = ((RAPTOR_ERROR_NONE, d, 7), io2)" by (metis prod.collapse)
  have "fst (tcp_client_prepare_socket granting b 7 n s) = RAPTOR_ERROR_NONE" for b s
    using granting_options by (simp add: tcp_client_prepare_socket_def Let_def case_prod_beta)
  then show ?thesis
    unfolding raptor_tcp_client_prepare_socket_def Let_def c by (simp add: case_prod_beta)
qed

theorem immediate_connect_is_an_error_witness:
  "\<exists>e tc'. TcpConnector_AsyncConnect granting example_v4 9 0 (TcpConnector_new io_start) = Some (e, tc') \<and> e \<noteq> RAPTOR_ERROR_NONE"
proof -
  obtain m io1 where c: "raptor_tcp_client_prepare_socket granting example_v4 0 (tc_io (TcpConnector_new io_start)) = ((RAPTOR_ERROR_NONE, m, 7), io1)"
    using granting_client by blast
  have "ans_ret (px_answer granting (io_trace io1) (syscall.Connect 7 m)) = 0" "ans_errno (px_answer granting (io_trace io1) (syscall.Connect 7 m)) = 0"
    by (simp_all add: granting_def)
  from immediate_connect_is_an_error [OF c _ this] show ?thesis by fastforce
qed

end
