(* ===== verification/Surface.thy ===== *)
theory Surface
  imports ContainerProps Connector
begin

text \<open>
  The public interface (src/src/surface): acceptors, connectors and containers made from a property
  list. The adaptor classes own the listener, connector or container and pass every call on. The
  application's handler objects are arguments: a property holds a handler's address.
\<close>

section \<open>Acceptors\<close>

text \<open>An acceptor is its listener; the resolver's state is beside it.\<close>

definition AcceptorAdaptor_Init :: "posix \<Rightarrow> poll_init_os \<Rightarrow> int \<Rightarrow> TcpListener \<Rightarrow> (raptor_error \<times> TcpListener) option" where
  "AcceptorAdaptor_Init px os threads lis = TcpListener_Init px os threads lis"

definition AcceptorAdaptor_Start :: "TcpListener \<Rightarrow> (raptor_error \<times> TcpListener) option" where
  "AcceptorAdaptor_Start lis = TcpListener_Start lis"

definition AcceptorAdaptor_Shutdown :: "posix \<Rightarrow> TcpListener \<Rightarrow> TcpListener option" where
  "AcceptorAdaptor_Shutdown px lis = TcpListener_Shutdown px lis"

text \<open>The loop over the addresses stops at the first error; without addresses \<open>e\<close> stays as it is.\<close>

fun add_ports :: "posix \<Rightarrow> resolved_address list \<Rightarrow> raptor_error \<Rightarrow> TcpListener \<Rightarrow> (raptor_error \<times> TcpListener) option" where
  "add_ports px [] e lis = Some (e, lis)"
| "add_ports px (a # as) e lis = do {
     (e, lis) \<leftarrow> TcpListener_AddListeningPort px a lis;
     if e \<noteq> RAPTOR_ERROR_NONE then Some (e, lis) else add_ports px as e lis }"

definition AcceptorAdaptor_AddListening ::
  "posix \<Rightarrow> (string \<Rightarrow> string \<Rightarrow> gai_answer) \<Rightarrow> (nat \<Rightarrow> byte list) \<Rightarrow> string \<Rightarrow> TcpListener \<times> resolver
   \<Rightarrow> (raptor_error \<times> TcpListener \<times> resolver) option" where
  "AcceptorAdaptor_AddListening px gai raw addr = (\<lambda>(lis, rs). do {
     (e, addrs, rs) \<leftarrow> raptor_blocking_resolve_address gai
        \<lparr>os_errno = io_errno (tl_io lis), os_strerror = px_strerror px\<rparr> raw addr None None rs;
     (e, lis) \<leftarrow> (if e = RAPTOR_ERROR_NONE then do { as \<leftarrow> addrs; add_ports px as e lis } else Some (e, lis));
     Some (e, lis, raptor_resolved_addresses_destroy addrs rs) })"

text \<open>The result is the error, \<open>*out\<close>, and the adaptor that was allocated. \<open>mem\<close> is the memory of the
  listener before it is constructed, \<open>io\<close> the state of the process.\<close>

definition CreateAcceptor ::
  "posix \<Rightarrow> poll_init_os \<Rightarrow> list_heap \<Rightarrow> io \<Rightarrow> Property \<Rightarrow> (raptor_error \<times> TcpListener option \<times> TcpListener option) option" where
  "CreateAcceptor px os mem io p =
     (let handler = Property_GetValue cast_i64 p ''AcceptorHandler'' 0;
          ListenThreadNum = Property_GetValue cast_int p ''ListenThreadNum'' 1 in
      if handler = 0 then Some (MakeStatusFromStaticString ''Missing AcceptorHandler'', None, None)
      else do {
        lis \<leftarrow> TcpListener_new mem io;
        (e, lis) \<leftarrow> AcceptorAdaptor_Init px os ListenThreadNum lis;
        Some (e, if e = RAPTOR_ERROR_NONE then Some lis else None, Some lis) })"

text \<open>Deleting the adaptor destroys the listener.\<close>

definition DestroyAcceptor :: "posix \<Rightarrow> TcpListener option \<Rightarrow> TcpListener option option" where
  "DestroyAcceptor px a =
     (case a of
        None \<Rightarrow> Some None
      | Some lis \<Rightarrow> do {
          lis \<leftarrow> AcceptorAdaptor_Shutdown px lis;
          lis \<leftarrow> TcpListener_dtor px lis;
          Some (Some lis) })"

section \<open>Connectors\<close>

definition ConnectorAdaptor_Init ::
  "posix \<Rightarrow> poll_init_os \<Rightarrow> int \<Rightarrow> int \<Rightarrow> TcpConnector \<Rightarrow> (raptor_error \<times> TcpConnector) option" where
  "ConnectorAdaptor_Init px os threads timeoutms tc = TcpConnector_Init px os threads timeoutms tc"

definition ConnectorAdaptor_Start :: "TcpConnector \<Rightarrow> (raptor_error \<times> TcpConnector) option" where
  "ConnectorAdaptor_Start tc = TcpConnector_Start tc"

definition ConnectorAdaptor_Shutdown :: "posix \<Rightarrow> TcpConnector \<Rightarrow> TcpConnector option" where
  "ConnectorAdaptor_Shutdown px tc = TcpConnector_Shutdown px tc"

definition ConnectorAdaptor_Connect ::
  "posix \<Rightarrow> (string \<Rightarrow> string \<Rightarrow> gai_answer) \<Rightarrow> (nat \<Rightarrow> byte list) \<Rightarrow> string \<Rightarrow> u64 \<Rightarrow> TcpConnector
   \<Rightarrow> (raptor_error \<times> TcpConnector) option" where
  "ConnectorAdaptor_Connect px gai raw addr user tc = TcpConnector_Connect px gai raw addr user tc"

definition CreateConnector ::
  "posix \<Rightarrow> poll_init_os \<Rightarrow> io \<Rightarrow> Property \<Rightarrow> (raptor_error \<times> TcpConnector option \<times> TcpConnector option) option" where
  "CreateConnector px os io p =
     (let handler = Property_GetValue cast_i64 p ''ConnectorHandler'' 0;
          ConnecThreadNum = Property_GetValue cast_int p ''ConnecThreadNum'' 1;
          TcpUserTimeoutMs = Property_GetValue cast_int p ''TcpUserTimeoutMs'' 0 in
      if handler = 0 then Some (MakeStatusFromStaticString ''Missing ConnectorHandler'', None, None)
      else do {
        (e, tc) \<leftarrow> ConnectorAdaptor_Init px os ConnecThreadNum TcpUserTimeoutMs (TcpConnector_new io);
        Some (e, if e = RAPTOR_ERROR_NONE then Some tc else None, Some tc) })"

definition DestroyConnector :: "posix \<Rightarrow> TcpConnector option \<Rightarrow> TcpConnector option option" where
  "DestroyConnector px c =
     (case c of
        None \<Rightarrow> Some None
      | Some tc \<Rightarrow> do {
          tc \<leftarrow> ConnectorAdaptor_Shutdown px tc;
          tc \<leftarrow> TcpConnector_dtor px tc;
          Some (Some tc) })"

section \<open>Containers\<close>

text \<open>The handlers at their addresses: what a protocol handler answers, the interval of a heartbeat handler.\<close>

record handlers =
  hs_protocol :: "int \<Rightarrow> protocol"
  hs_heartbeat :: "int \<Rightarrow> size_t"

definition handler_at :: "Property \<Rightarrow> string \<Rightarrow> int" where
  "handler_at p key = Property_GetValue cast_i64 p key 0"

text \<open>An \<open>int\<close> that is assigned to a \<open>size_t\<close>.\<close>

definition size_value :: "Property \<Rightarrow> string \<Rightarrow> int \<Rightarrow> size_t" where
  "size_value p key d = to_u64 (Property_GetValue cast_int p key d)"

definition optional_handler :: "Property \<Rightarrow> string \<Rightarrow> (int \<Rightarrow> 'a) \<Rightarrow> 'a option" where
  "optional_handler p key f = (if handler_at p key = 0 then None else Some (f (handler_at p key)))"

definition container_option :: "handlers \<Rightarrow> Property \<Rightarrow> Option" where
  "container_option hs p =
     \<lparr>mq_consumer_threads = size_value p ''MQConsumerThreads'' 1,
       recv_send_threads = size_value p ''RecvSendThreads'' 1,
       default_container_size = size_value p ''DefaultContainerSize'' 256,
       max_container_size = size_value p ''MaxContainerSize'' 1048576,
       connection_timeoutms = size_value p ''ConnectionTimeoutMs'' 60000,
       not_check_connection_timeout = Property_GetValue cast_bool p ''NotCheckConnectionTimeout'' False,
       msg_handler = (handler_at p ''MessageHandler'' \<noteq> 0),
       proto_handler = optional_handler p ''ProtocolHandler'' (hs_protocol hs),
       heartbeat_handler = optional_handler p ''HeartbeatHandler'' (hs_heartbeat hs),
       closed_handler = (handler_at p ''EndpointClosedHandler'' \<noteq> 0),
       notify_handler = (handler_at p ''EndpointNotifyHandler'' \<noteq> 0)\<rparr>"

text \<open>\<open>old\<close> is what \<open>*out\<close> holds before the call.\<close>

definition CreateContainer ::
  "handlers \<Rightarrow> container_init_os \<Rightarrow> addr \<Rightarrow> net \<Rightarrow> Property \<Rightarrow> container option
   \<Rightarrow> raptor_error \<times> container option \<times> container option" where
  "CreateContainer hs os self w p old =
     (if handler_at p ''MessageHandler'' = 0 then (MakeStatusFromStaticString ''Missing MessageHandler'', old, None)
      else
        let (err, adaptor) = ContainerImpl_Init os (ContainerImpl_new self (container_option hs p) w)
        in (err, if err = RAPTOR_ERROR_NONE then Some adaptor else None, Some adaptor))"

definition ContainerAdaptor_Start :: "container \<Rightarrow> (raptor_error \<times> container) option" where
  "ContainerAdaptor_Start ct = ContainerImpl_Start ct"

definition ContainerAdaptor_Shutdown :: "container \<Rightarrow> container option" where
  "ContainerAdaptor_Shutdown ct = ContainerImpl_Shutdown ct"

definition ContainerAdaptor_AttachEndpoint :: "int \<Rightarrow> addr \<Rightarrow> bool \<Rightarrow> container \<Rightarrow> (raptor_error \<times> container) option" where
  "ContainerAdaptor_AttachEndpoint now ep notify ct = ContainerImpl_AttachEndpoint now ep notify ct"

definition ContainerAdaptor_SendMsg :: "u64 \<Rightarrow> byte list \<Rightarrow> container \<Rightarrow> (bool \<times> container) option" where
  "ContainerAdaptor_SendMsg cid s ct = (if s = [] then Some (True, ct) else ContainerImpl_SendMsg cid s ct)"

definition ContainerAdaptor_CloseEndpoint :: "addr \<Rightarrow> bool \<Rightarrow> container \<Rightarrow> container option" where
  "ContainerAdaptor_CloseEndpoint ep event_notify ct = ContainerImpl_CloseEndpoint ep event_notify ct"

definition DestroyContainer :: "container option \<Rightarrow> container option option" where
  "DestroyContainer cc =
     (case cc of
        None \<Rightarrow> Some None
      | Some ct \<Rightarrow> do {
          ct \<leftarrow> ContainerAdaptor_Shutdown ct;
          ct \<leftarrow> ContainerImpl_dtor ct;
          Some (Some ct) })"

section \<open>Properties\<close>

text \<open>The sizes of a property list that an application may sensibly give.\<close>

definition sizes_given :: "Property \<Rightarrow> bool" where
  "sizes_given p \<longleftrightarrow> 0 \<le> Property_GetValue cast_int p ''DefaultContainerSize'' 256
     \<and> Property_GetValue cast_int p ''DefaultContainerSize'' 256 \<le> Property_GetValue cast_int p ''MaxContainerSize'' 1048576"

lemma int_value_bound: "d < 2147483648 \<Longrightarrow> Property_GetValue cast_int p k d < 2147483648"
  using to_i32_range by (auto simp: Property_GetValue_def cast_int_def split: option.splits)

lemma to_u64_small: "0 \<le> x \<Longrightarrow> x < 2147483648 \<Longrightarrow> to_u64 x = nat x"
  by (simp add: to_u64_def)

lemma sizes_given_ok: "sizes_given p \<Longrightarrow> sizes_ok (container_option hs p)"
  using int_value_bound [of 256 p "''DefaultContainerSize''"] int_value_bound [of 1048576 p "''MaxContainerSize''"]
  by (auto simp: sizes_given_def sizes_ok_def container_option_def size_value_def to_u64_small)

lemma running_destroyed:
  assumes "running_ok opt ct"
  shows "\<exists>ct'. DestroyContainer (Some ct) = Some (Some ct') \<and> container_idle ct'
    \<and> (\<forall>s \<in> set (ct_mgr ct). \<forall>c. fst s = Some c \<longrightarrow> offline (ct_net ct') (c_endpoint c))"
proof -
  have "threads_ok {kAlive, kActive} ct"
    using assms by (auto simp: running_ok_def threads_ok_def poll_ok_def group_ok_def timer_ok_def)
  with assms Shutdown_ok [of ct] obtain ct' where c: "ContainerImpl_Shutdown ct = Some ct'" "container_idle ct'"
    "\<forall>s \<in> set (ct_mgr ct). \<forall>c. fst s = Some c \<longrightarrow> offline (ct_net ct') (c_endpoint c)" by (auto simp: running_ok_def)
  then have "ContainerImpl_dtor ct' = Some ct'"
    by (simp add: ContainerImpl_dtor_def ContainerImpl_Shutdown_def container_idle_def)
  with c show ?thesis by (simp add: DestroyContainer_def ContainerAdaptor_Shutdown_def)
qed


definition small_property :: Property where
  "small_property = Property_of_list [PropertyEntry_int ''MessageHandler'' 1, PropertyEntry_int ''DefaultContainerSize'' 2]"

definition small_handlers :: handlers where
  "small_handlers = \<lparr>hs_protocol = (\<lambda>_ _ _. 0), hs_heartbeat = (\<lambda>_. 0)\<rparr>"

lemma small_property_values:
  "handler_at small_property ''MessageHandler'' = 1" "sizes_given small_property"
  "container_option small_handlers small_property = \<lparr>mq_consumer_threads = 1, recv_send_threads = 1, default_container_size = 2,
     max_container_size = 1048576, connection_timeoutms = 60000, not_check_connection_timeout = False, msg_handler = True,
     proto_handler = None, heartbeat_handler = None, closed_handler = False, notify_handler = False\<rparr>"
  by (simp_all add: handler_at_def sizes_given_def container_option_def size_value_def optional_handler_def Property_GetValue_def
      small_property_def Property_of_list_def PropertyEntry_int_def PropertyEntry_Key_def PropertyEntry_Value_def Property_new_def
      cast_int_def cast_i64_def cast_bool_def to_u64_def)

lemma small_created:
  "\<exists>ct. CreateContainer small_handlers small_os 9 small_net small_property None = (RAPTOR_ERROR_NONE, Some ct, Some ct)"
  by (simp add: CreateContainer_def small_property_values ContainerImpl_Init_def ContainerImpl_new_def small_os_def Let_def
      PollingThread_Init_def PollingThread_new_def Epoll_create_def Epoll_new_def Thread_new_def InternalThreadImpl_new_def to_i32_def)


text \<open>Adding a port for each address of a list.\<close>

lemma add_ports_ok:
  assumes "listener_ok lis xs"
  shows "\<exists>e lis' ys. add_ports px ads RAPTOR_ERROR_NONE lis = Some (e, lis') \<and> listener_ok lis' (xs @ ys)
    \<and> io_bad_close (tl_io lis') = io_bad_close (tl_io lis)
    \<and> (\<forall>b obj. tl_objects lis b = Some obj \<longrightarrow> tl_objects lis' b = Some obj)
    \<and> (e = RAPTOR_ERROR_NONE \<longrightarrow> map (\<lambda>a. lo_addr (the (tl_objects lis' a))) ys = ads)"
  using assms
proof (induction ads arbitrary: lis xs)
  case Nil
  then show ?case by (intro exI [of _ RAPTOR_ERROR_NONE] exI [of _ lis] exI [of _ "[]"]) simp
next
  case (Cons a ads)
  have fr: "tl_fresh lis \<notin> dom (tl_objects lis)" using Cons.prems by (auto simp: listener_ok_def list_ok_def)
  from Add_listener_ok [OF Cons.prems, of px a] obtain e lis1 ys where
    r: "TcpListener_AddListeningPort px a lis = Some (e, lis1)" "listener_ok lis1 (xs @ ys)"
      "io_bad_close (tl_io lis1) = io_bad_close (tl_io lis)"
    and o: "if e = RAPTOR_ERROR_NONE then \<exists>obj. ys = [tl_fresh lis] \<and> tl_objects lis1 = (tl_objects lis)(tl_fresh lis \<mapsto> obj) \<and> lo_addr obj = a
       else ys = [] \<and> tl_objects lis1 = tl_objects lis" by (metis (full_types))
  show ?case
  proof (cases "e = RAPTOR_ERROR_NONE")
    case True
    with o obtain obj where obj: "ys = [tl_fresh lis]" "tl_objects lis1 = (tl_objects lis)(tl_fresh lis \<mapsto> obj)" "lo_addr obj = a" by auto
    from Cons.IH [OF r(2)] obtain e2 lis2 zs where
      i: "add_ports px ads RAPTOR_ERROR_NONE lis1 = Some (e2, lis2)" "listener_ok lis2 ((xs @ ys) @ zs)"
        "io_bad_close (tl_io lis2) = io_bad_close (tl_io lis1)"
        "\<forall>b obj. tl_objects lis1 b = Some obj \<longrightarrow> tl_objects lis2 b = Some obj"
        "e2 = RAPTOR_ERROR_NONE \<longrightarrow> map (\<lambda>a. lo_addr (the (tl_objects lis2 a))) zs = ads" by blast
    have "tl_objects lis2 (tl_fresh lis) = Some obj" using i(4) obj(2) by simp
    moreover have "\<forall>b obj. tl_objects lis b = Some obj \<longrightarrow> tl_objects lis2 b = Some obj"
      using i(4) obj(2) fr by (metis domI fun_upd_other)
    ultimately show ?thesis
      using True r(1,3) i(1-3,5) obj
      by (intro exI [of _ e2] exI [of _ lis2] exI [of _ "ys @ zs"]) simp
  next
    case False
    with o r show ?thesis by (intro exI [of _ e] exI [of _ lis1] exI [of _ "[]"]) (simp del: not_None_eq)
  qed
qed



end
