(* ===== verification/LogM.thy ===== *)
theory LogM
  imports MsgQueue Threads Text
begin

text \<open>
  The log (src/src/utils/log.cc, color.cc): lines are formatted by the caller, queued, and printed by
  one thread. \<open>vasprintf\<close>, the clock, \<open>strftime\<close> and the thread id come from outside. What the print
  callback is called with is recorded; the text the default callback writes is a function of it.
\<close>

section \<open>Colours\<close>

datatype Color = Default | Black | Red | Green | Yellow | Blue | Magenta | Cyan | White

text \<open>The escape sequence for a two-digit code.\<close>

definition esc :: "string \<Rightarrow> string" where
  "esc code = [CHR 0x1B] @ ''['' @ code @ ''m''"

fun ForegroundColorTable :: "Color \<Rightarrow> string" where
  "ForegroundColorTable Default = esc ''39''"
| "ForegroundColorTable Black = esc ''30''"
| "ForegroundColorTable Red = esc ''31''"
| "ForegroundColorTable Green = esc ''32''"
| "ForegroundColorTable Yellow = esc ''33''"
| "ForegroundColorTable Blue = esc ''34''"
| "ForegroundColorTable Magenta = esc ''35''"
| "ForegroundColorTable Cyan = esc ''36''"
| "ForegroundColorTable White = esc ''37''"

fun BackgroundColorTable :: "Color \<Rightarrow> string" where
  "BackgroundColorTable Default = esc ''49''"
| "BackgroundColorTable Black = esc ''40''"
| "BackgroundColorTable Red = esc ''41''"
| "BackgroundColorTable Green = esc ''42''"
| "BackgroundColorTable Yellow = esc ''43''"
| "BackgroundColorTable Blue = esc ''44''"
| "BackgroundColorTable Magenta = esc ''45''"
| "BackgroundColorTable Cyan = esc ''46''"
| "BackgroundColorTable White = esc ''47''"

definition colorReset :: string where
  "colorReset = esc ''0''"

text \<open>What each function writes to the stream.\<close>

definition SetConsoleColor :: "Color \<Rightarrow> Color \<Rightarrow> string" where
  "SetConsoleColor foreground background = ForegroundColorTable foreground @ BackgroundColorTable background"

definition ResetConsoleColor :: string where
  "ResetConsoleColor = colorReset"

definition FprintColorTextLine :: "Color \<Rightarrow> Color \<Rightarrow> string \<Rightarrow> string" where
  "FprintColorTextLine foreground background tx =
     SetConsoleColor foreground background
     @ ForegroundColorTable foreground @ BackgroundColorTable background @ tx @ colorReset @ [CHR 0x0A]
     @ ResetConsoleColor"

section \<open>The default callback\<close>

datatype LogLevel = kDebug | kInfo | kWarn | kError

fun level_int :: "LogLevel \<Rightarrow> int" where
  "level_int kDebug = 0" | "level_int kInfo = 1" | "level_int kWarn = 2" | "level_int kError = 3"

record LogArgument =
  la_file :: string
  la_line :: int
  la_level :: LogLevel
  la_message :: string
  la_threadid :: nat

fun g_level_char :: "LogLevel \<Rightarrow> char" where
  "g_level_char kDebug = CHR ''D''" | "g_level_char kInfo = CHR ''I''"
| "g_level_char kWarn = CHR ''W''" | "g_level_char kError = CHR ''E''"

fun g_fc_table :: "LogLevel \<Rightarrow> Color" where
  "g_fc_table kDebug = Cyan" | "g_fc_table kInfo = Green" | "g_fc_table kWarn = Yellow" | "g_fc_table kError = Red"

fun g_bc_table :: "LogLevel \<Rightarrow> Color" where
  "g_bc_table kDebug = Black" | "g_bc_table kInfo = Black" | "g_bc_table kWarn = Black" | "g_bc_table kError = White"

text \<open>\<open>strrchr(file, '/')\<close>, and the part behind it.\<close>

definition display_file :: "string \<Rightarrow> string" where
  "display_file file = rev (takeWhile (\<lambda>c. c \<noteq> CHR ''/'') (rev file))"

definition pad :: "char \<Rightarrow> nat \<Rightarrow> string \<Rightarrow> string" where
  "pad c n s = replicate (n - length s) c @ s"

text \<open>\<open>%06d\<close> of a number that is not negative, as the microseconds are.\<close>

definition RAPTOR_LOG_FORMAT :: "string \<Rightarrow> nat \<Rightarrow> nat \<Rightarrow> char \<Rightarrow> string \<Rightarrow> string \<Rightarrow> int \<Rightarrow> string" where
  "RAPTOR_LOG_FORMAT time usec tid level msg file line =
     ''['' @ time @ ''.'' @ pad (CHR ''0'') 6 (dec_nat usec) @ '' '' @ pad (CHR '' '') 7 (dec_nat tid) @ '' '' @ [level] @ ''] ''
     @ msg @ '' ('' @ file @ '':'' @ dec_int line @ '')''"

text \<open>\<open>localtime\<close> and \<open>strftime\<close> answer a text that fits into \<open>time_buffer\<close>, or fail.\<close>

definition time_text :: "bool \<Rightarrow> string option \<Rightarrow> string" where
  "time_text localtime_ok strftime =
     (if \<not> localtime_ok then ''error:localtime''
      else case strftime of None \<Rightarrow> ''error:strftime'' | Some t \<Rightarrow> t)"

text \<open>The text handed to \<open>FprintColorTextLine\<close>; a null \<open>output_text\<close> is \<open>None\<close>.\<close>

definition log_text :: "bool \<Rightarrow> string option \<Rightarrow> nat \<Rightarrow> LogArgument \<Rightarrow> string option" where
  "log_text localtime_ok strftime usec args =
     (let file = display_file (la_file args);
          tx = RAPTOR_LOG_FORMAT (time_text localtime_ok strftime) usec (la_threadid args)
                 (g_level_char (la_level args)) (la_message args) file (la_line args);
          msg_size = length (la_message args) + length file + 128 in
      if msg_size \<ge> 2048 then map_option c_str (snd (raptor_asprintf (Some tx) True))
      else Some (c_str (fst (vsnprintf 2048 tx))))"

definition log_default_print :: "bool \<Rightarrow> string option \<Rightarrow> nat \<Rightarrow> LogArgument \<Rightarrow> string option" where
  "log_default_print localtime_ok strftime usec args =
     map_option (FprintColorTextLine (g_fc_table (la_level args)) (g_bc_table (la_level args)))
       (log_text localtime_ok strftime usec args)"

section \<open>The queue and its thread\<close>

text \<open>\<open>lg_calls\<close> are the calls of the print callback, with the callback that was set at the time;
  \<open>lg_messages\<close> is the number of message texts that are allocated.\<close>

record log_state =
  lg_function :: nat
  lg_min_level :: int
  lg_mpscq :: "LogArgument mqueue"
  lg_thd :: Thread
  lg_shutdown :: bool
  lg_calls :: "(nat \<times> LogArgument) list"
  lg_messages :: int

definition log_init :: log_state where
  "log_init = \<lparr>lg_function = 0, lg_min_level = level_int kDebug, lg_mpscq = mqueue_new, lg_thd = Thread_null,
     lg_shutdown = True, lg_calls = [], lg_messages = 0\<rparr>"

definition LogSetLevel :: "LogLevel \<Rightarrow> log_state \<Rightarrow> log_state" where
  "LogSetLevel level lg = lg\<lparr>lg_min_level := level_int level\<rparr>"

definition LogSetPrintCallback :: "nat \<Rightarrow> log_state \<Rightarrow> log_state" where
  "LogSetPrintCallback func lg = lg\<lparr>lg_function := func\<rparr>"

text \<open>\<open>formatted\<close> is the text \<open>vasprintf\<close> allocates, \<open>None\<close> when it fails.\<close>

definition LogFormatPrint :: "string \<Rightarrow> int \<Rightarrow> LogLevel \<Rightarrow> string option \<Rightarrow> nat \<Rightarrow> log_state \<Rightarrow> log_state" where
  "LogFormatPrint file line level formatted tid lg =
     (if lg_shutdown lg then lg
      else case formatted of
        None \<Rightarrow> lg
      | Some message \<Rightarrow>
          let lg = lg\<lparr>lg_messages := lg_messages lg + 1\<rparr> in
          if lg_min_level lg \<le> level_int level
          then lg\<lparr>lg_mpscq := mqueue_push \<lparr>la_file = file, la_line = line, la_level = level, la_message = message,
                                          la_threadid = tid\<rparr> (lg_mpscq lg)\<rparr>
          else lg)"

text \<open>One round of the loop of the log thread.\<close>

definition LogThreadProc_round :: "log_state \<Rightarrow> log_state option" where
  "LogThreadProc_round lg = do {
     (n, mq) \<leftarrow> mqueue_pop (lg_mpscq lg);
     let lg = lg\<lparr>lg_mpscq := mq\<rparr>;
     case n of
       None \<Rightarrow> Some lg
     | Some args \<Rightarrow> Some (lg\<lparr>lg_calls := lg_calls lg @ [(lg_function lg, args)], lg_messages := lg_messages lg - 1\<rparr>) }"

fun LogThreadProc :: "nat \<Rightarrow> log_state \<Rightarrow> log_state option" where
  "LogThreadProc 0 lg = Some lg"
| "LogThreadProc (Suc n) lg = (if lg_shutdown lg then Some lg else do { lg \<leftarrow> LogThreadProc_round lg; LogThreadProc n lg })"

definition LogStartup :: "bool \<Rightarrow> log_state \<Rightarrow> log_state option" where
  "LogStartup created lg =
     (if \<not> lg_shutdown lg then Some lg
      else do {
        let (thd, _) = Thread_move_assign False (lg_thd lg) (snd (Thread_new created));
        let lg = lg\<lparr>lg_thd := thd, lg_shutdown := False\<rparr>;
        thd \<leftarrow> Thread_Start (lg_thd lg);
        Some (lg\<lparr>lg_thd := thd\<rparr>) })"

definition LogCleanup :: "log_state \<Rightarrow> log_state option" where
  "LogCleanup lg =
     (if lg_shutdown lg then Some lg
      else do {
        let lg = lg\<lparr>lg_shutdown := True\<rparr>;
        thd \<leftarrow> Thread_Join (lg_thd lg);
        (n, mq) \<leftarrow> mqueue_drain (lg_mpscq lg);
        Some (lg\<lparr>lg_thd := thd, lg_mpscq := mq, lg_messages := lg_messages lg - int n\<rparr>) })"

section \<open>Lines are printed whole\<close>

lemma pad_length: "length (pad c n s) = max n (length s)"
  by (simp add: pad_def)

lemma time_text_length: "(\<And>t. strftime = Some t \<Longrightarrow> length t < 64) \<Longrightarrow> length (time_text ok strftime) < 64"
  by (auto simp: time_text_def split: option.splits)

lemma dec_int_line_length:
  assumes "- (2 ^ 31) \<le> i" and "i < 2 ^ 31"
  shows "length (dec_int i) \<le> 11"
proof -
  have "nat \<bar>i\<bar> < 10 ^ 10" using assms by simp
  from dec_nat_length [OF this] have "length (dec_nat (nat \<bar>i\<bar>)) \<le> 10" by simp
  then show ?thesis by (cases "i < 0") (simp_all add: dec_int_def)
qed

lemma dec_nat_no_nul: "CHR 0x00 \<notin> set (dec_nat n)"
  by (rule dec_nat_not_digit) (simp add: is_digit_def)

lemma dec_int_no_nul: "CHR 0x00 \<notin> set (dec_int i)"
  using dec_nat_no_nul by (auto simp: dec_int_def)

lemma g_level_char_no_nul: "g_level_char l \<noteq> CHR 0x00"
  by (cases l) simp_all

text \<open>Everything in a line apart from the message and the file name takes at most 111 characters, which is
  what the 128 in \<open>msg_size\<close> leaves room for.\<close>

lemma log_format_length:
  assumes "length time < 64" and "usec < 10 ^ 6" and "tid < size_lim" and "- (2 ^ 31) \<le> line" and "line < 2 ^ 31"
  shows "length (RAPTOR_LOG_FORMAT time usec tid level msg file line) \<le> length msg + length file + 111"
proof -
  have "length (dec_nat usec) \<le> 6" by (rule dec_nat_length) (use assms(2) in simp_all)
  moreover have "length (dec_nat tid) \<le> 20" by (rule dec_nat_length) (use assms(3) in simp_all)
  ultimately show ?thesis
    using assms(1) dec_int_line_length [OF assms(4,5)] by (simp add: RAPTOR_LOG_FORMAT_def pad_length max_def)
qed

lemma display_file_suffix: "set (display_file f) \<subseteq> set f"
proof -
  have "set (takeWhile (\<lambda>c. c \<noteq> CHR ''/'') (rev f)) \<subseteq> set (rev f)" using set_takeWhileD by fast
  then show ?thesis by (simp add: display_file_def)
qed

lemma log_format_no_nul:
  assumes "CHR 0x00 \<notin> set time" and "CHR 0x00 \<notin> set msg" and "CHR 0x00 \<notin> set file" and "level \<noteq> CHR 0x00"
  shows "CHR 0x00 \<notin> set (RAPTOR_LOG_FORMAT time usec tid level msg file line)"
  using assms dec_nat_no_nul dec_int_no_nul by (auto simp: RAPTOR_LOG_FORMAT_def pad_def)

text \<open>
  The default callback prints every line whole, in the buffer of 2048 characters as well as in allocated
  memory: whatever the message and the file name are, the text is the format applied to all of its
  arguments, between the colours of the level. The hypotheses are what C strings, \<open>strftime\<close> with its
  buffer of 64, the clock, a thread id and an \<open>int\<close> are.
\<close>

theorem log_line_complete:
  assumes "\<And>t. strftime = Some t \<Longrightarrow> length t < 64 \<and> CHR 0x00 \<notin> set t" and "usec < 10 ^ 6"
    and "la_threadid args < size_lim" and "- (2 ^ 31) \<le> la_line args" and "la_line args < 2 ^ 31"
    and "CHR 0x00 \<notin> set (la_message args)" and "CHR 0x00 \<notin> set (la_file args)"
  shows "log_default_print localtime_ok strftime usec args =
    Some (FprintColorTextLine (g_fc_table (la_level args)) (g_bc_table (la_level args))
      (RAPTOR_LOG_FORMAT (time_text localtime_ok strftime) usec (la_threadid args) (g_level_char (la_level args))
        (la_message args) (display_file (la_file args)) (la_line args)))"
proof -
  let ?time = "time_text localtime_ok strftime" and ?file = "display_file (la_file args)"
  let ?tx = "RAPTOR_LOG_FORMAT ?time usec (la_threadid args) (g_level_char (la_level args))
    (la_message args) ?file (la_line args)"
  have time: "length ?time < 64" by (rule time_text_length) (use assms(1) in blast)
  have "CHR 0x00 \<notin> set ?time" using assms(1) by (auto simp: time_text_def split: option.splits)
  then have nul: "CHR 0x00 \<notin> set ?tx"
    using assms(6,7) display_file_suffix [of "la_file args"] g_level_char_no_nul by (intro log_format_no_nul) auto
  have len: "length ?tx \<le> length (la_message args) + length ?file + 111"
    by (rule log_format_length [OF time assms(2-5)])
  have "log_text localtime_ok strftime usec args = Some ?tx"
    using nul len by (auto simp: log_text_def Let_def raptor_asprintf_whole vsnprintf_def)
  then show ?thesis by (simp add: log_default_print_def)
qed

theorem log_line_complete_witness:
  "log_default_print True (Some ''2020-05-10 01:43:06'') 42
     \<lparr>la_file = ''src/log.cc'', la_line = 7, la_level = kWarn, la_message = ''late'', la_threadid = 99\<rparr> =
   Some (FprintColorTextLine Yellow Black ''[2020-05-10 01:43:06.000042      99 W] late (log.cc:7)'')"
proof -
  let ?args = "\<lparr>la_file = ''src/log.cc'', la_line = 7, la_level = kWarn, la_message = ''late'', la_threadid = 99\<rparr>"
  have "RAPTOR_LOG_FORMAT (time_text True (Some ''2020-05-10 01:43:06'')) 42 99 (CHR ''W'') ''late'' (display_file ''src/log.cc'') 7
      = ''[2020-05-10 01:43:06.000042      99 W] late (log.cc:7)''"
    by code_simp
  then show ?thesis
    using log_line_complete [of "Some ''2020-05-10 01:43:06''" 42 ?args True] by simp
qed

section \<open>What the log promises\<close>

text \<open>A queue of lines between the callers and the callback, which exists while the log is started;
  \<open>ls_lost\<close> counts the texts that were formatted and then held back by the level.\<close>

record log_spec =
  ls_on :: bool
  ls_thread :: bool
  ls_min :: int
  ls_fn :: nat
  ls_queue :: "LogArgument list"
  ls_out :: "(nat \<times> LogArgument) list"
  ls_lost :: nat

definition log_spec_init :: log_spec where
  "log_spec_init = \<lparr>ls_on = False, ls_thread = False, ls_min = 0, ls_fn = 0, ls_queue = [], ls_out = [], ls_lost = 0\<rparr>"

datatype log_op =
    Print string int LogLevel "string option" nat
  | Round
  | SetLevel LogLevel
  | SetCallback nat
  | Startup bool
  | Cleanup

text \<open>A round of the log thread takes place while the thread runs.\<close>

fun log_exec :: "log_op \<Rightarrow> log_state \<Rightarrow> log_state option" where
  "log_exec (Print file line level formatted tid) lg = Some (LogFormatPrint file line level formatted tid lg)"
| "log_exec Round lg = (if t_state (lg_thd lg) = kActive then LogThreadProc 1 lg else Some lg)"
| "log_exec (SetLevel level) lg = Some (LogSetLevel level lg)"
| "log_exec (SetCallback func) lg = Some (LogSetPrintCallback func lg)"
| "log_exec (Startup created) lg = LogStartup created lg"
| "log_exec Cleanup lg = LogCleanup lg"

fun log_run :: "log_op list \<Rightarrow> log_state \<Rightarrow> log_state option" where
  "log_run [] lg = Some lg"
| "log_run (c # cs) lg = do { lg \<leftarrow> log_exec c lg; log_run cs lg }"

fun spec_exec :: "log_op \<Rightarrow> log_spec \<Rightarrow> log_spec" where
  "spec_exec (Print file line level formatted tid) sp =
     (case formatted of
        None \<Rightarrow> sp
      | Some message \<Rightarrow>
          if \<not> ls_on sp then sp
          else if level_int level < ls_min sp then sp\<lparr>ls_lost := Suc (ls_lost sp)\<rparr>
          else sp\<lparr>ls_queue := ls_queue sp @ [\<lparr>la_file = file, la_line = line, la_level = level, la_message = message,
                                             la_threadid = tid\<rparr>]\<rparr>)"
| "spec_exec Round sp =
     (if ls_on sp \<and> ls_thread sp \<and> ls_queue sp \<noteq> []
      then sp\<lparr>ls_queue := tl (ls_queue sp), ls_out := ls_out sp @ [(ls_fn sp, hd (ls_queue sp))]\<rparr> else sp)"
| "spec_exec (SetLevel level) sp = sp\<lparr>ls_min := level_int level\<rparr>"
| "spec_exec (SetCallback func) sp = sp\<lparr>ls_fn := func\<rparr>"
| "spec_exec (Startup created) sp = (if ls_on sp then sp else sp\<lparr>ls_on := True, ls_thread := created\<rparr>)"
| "spec_exec Cleanup sp = (if ls_on sp then sp\<lparr>ls_on := False, ls_queue := []\<rparr> else sp)"

definition log_rel :: "log_state \<Rightarrow> log_spec \<Rightarrow> bool" where
  "log_rel lg sp \<longleftrightarrow> lg_shutdown lg = (\<not> ls_on sp) \<and> lg_min_level lg = ls_min sp \<and> lg_function lg = ls_fn sp
     \<and> mqueue_ok (lg_mpscq lg) (ls_queue sp) \<and> lg_calls lg = ls_out sp
     \<and> lg_messages lg = int (length (ls_queue sp)) + int (ls_lost sp) \<and> thread_ok (lg_thd lg)
     \<and> (ls_on sp \<longrightarrow> t_state (lg_thd lg) = (if ls_thread sp then kActive else kFailed))"

lemma log_rel_init: "log_rel log_init log_spec_init"
  by (simp add: log_rel_def log_init_def log_spec_init_def mqueue.new_spec thread_ok_new)

lemma print_rel:
  assumes "log_rel lg sp"
  shows "log_rel (LogFormatPrint file line level formatted tid lg) (spec_exec (Print file line level formatted tid) sp)"
proof (cases formatted)
  case (Some message)
  with assms show ?thesis
    by (cases "level_int level < ls_min sp") (simp_all add: log_rel_def LogFormatPrint_def mqueue.push_spec)
qed (use assms in \<open>simp add: log_rel_def LogFormatPrint_def\<close>)

lemma round_rel:
  assumes "log_rel lg sp" and "ls_on sp"
  shows "\<exists>lg'. LogThreadProc_round lg = Some lg'
    \<and> log_rel lg' (if ls_queue sp \<noteq> [] then sp\<lparr>ls_queue := tl (ls_queue sp), ls_out := ls_out sp @ [(ls_fn sp, hd (ls_queue sp))]\<rparr> else sp)"
proof (cases "ls_queue sp")
  case Nil
  with assms show ?thesis by (auto simp: log_rel_def LogThreadProc_round_def mqueue.pop_empty_spec)
next
  case (Cons m ms)
  with assms(1) have "mqueue_ok (lg_mpscq lg) (m # ms)" by (simp add: log_rel_def)
  from mqueue.pop_spec [OF this] obtain mq where mq: "mqueue_pop (lg_mpscq lg) = Some (Some m, mq)" "mqueue_ok mq ms"
    by blast
  with assms Cons show ?thesis by (auto simp: log_rel_def LogThreadProc_round_def)
qed

lemma startup_rel:
  assumes "log_rel lg sp"
  shows "\<exists>lg'. LogStartup created lg = Some lg' \<and> log_rel lg' (spec_exec (Startup created) sp)"
proof (cases "ls_on sp")
  case True
  with assms show ?thesis by (auto simp: log_rel_def LogStartup_def)
next
  case False
  with assms show ?thesis
    by (cases created)
      (auto simp: log_rel_def LogStartup_def Let_def Thread_move_assign_def Thread_new_def InternalThreadImpl_new_def
        Thread_Start_def InternalThreadImpl_Start_def thread_ok_def)
qed

lemma cleanup_rel:
  assumes "log_rel lg sp"
  shows "\<exists>lg'. LogCleanup lg = Some lg' \<and> log_rel lg' (spec_exec Cleanup sp)"
proof (cases "ls_on sp")
  case False
  with assms show ?thesis by (auto simp: log_rel_def LogCleanup_def)
next
  case True
  then obtain thd where thd: "Thread_Join (lg_thd lg) = Some thd" "thread_ok thd"
    using assms Thread_Join_ok [of "lg_thd lg"] by (auto simp: log_rel_def split: if_splits)
  obtain mq where "mqueue_drain (lg_mpscq lg) = Some (length (ls_queue sp), mq)" "mqueue_ok mq []"
    using assms mqueue.drain_spec by (auto simp: log_rel_def)
  with True thd assms show ?thesis by (auto simp: log_rel_def LogCleanup_def)
qed

lemma log_exec_rel:
  assumes "log_rel lg sp"
  shows "\<exists>lg'. log_exec c lg = Some lg' \<and> log_rel lg' (spec_exec c sp)"
proof (cases c)
  case Round
  show ?thesis
  proof (cases "ls_on sp")
    case True
    with round_rel [OF assms True] assms Round show ?thesis by (auto simp: log_rel_def)
  next
    case False
    with assms Round show ?thesis by (auto simp: log_rel_def)
  qed
next
  case (SetLevel level)
  with assms show ?thesis by (simp add: log_rel_def LogSetLevel_def)
next
  case (SetCallback func)
  with assms show ?thesis by (simp add: log_rel_def LogSetPrintCallback_def)
qed (use print_rel [OF assms] startup_rel [OF assms] cleanup_rel [OF assms] in \<open>simp_all del: spec_exec.simps\<close>)


text \<open>While it runs, the log thread hands over all queued lines in as many rounds as there are lines.\<close>

lemma log_thread_delivers:
  assumes "log_rel lg sp" and "ls_on sp" and "length (ls_queue sp) \<le> n"
  shows "\<exists>lg'. LogThreadProc n lg = Some lg'
    \<and> log_rel lg' (sp\<lparr>ls_queue := [], ls_out := ls_out sp @ map (Pair (ls_fn sp)) (ls_queue sp)\<rparr>)"
  using assms
proof (induction n arbitrary: lg sp)
  case 0
  then show ?case by (simp add: log_rel_def)
next
  case (Suc n)
  let ?sp = "if ls_queue sp \<noteq> [] then sp\<lparr>ls_queue := tl (ls_queue sp), ls_out := ls_out sp @ [(ls_fn sp, hd (ls_queue sp))]\<rparr> else sp"
  obtain lg1 where lg1: "LogThreadProc_round lg = Some lg1" "log_rel lg1 ?sp"
    using round_rel [OF Suc.prems(1,2)] by blast
  have "ls_on ?sp" "length (ls_queue ?sp) \<le> n" using Suc.prems by auto
  from Suc.IH [OF lg1(2) this] lg1(1) Suc.prems show ?case
    by (cases "ls_queue sp") (auto simp: log_rel_def)
qed

end
