(* ===== verification/RefPtr.thy ===== *)
theory RefPtr
  imports Prelude
begin

text \<open>
  Reference counting (src/include/raptor-lite/utils/ref_counted.h, ref_counted_ptr.h), the ownership of
  every \<open>Status\<close>. The heap maps the address of a live object to its count, an atomic 64-bit integer;
  using an object that was deleted is \<open>None\<close>. The pointer objects are variables in a store, so that
  assigning a variable to itself is the same object on both sides.
\<close>

section \<open>RefCount and RefCounted\<close>

definition RefCount_Ref :: "u64 \<Rightarrow> u64 \<Rightarrow> u64" where
  "RefCount_Ref n v = v + n"

definition RefCount_RefIfNonZero :: "u64 \<Rightarrow> bool \<times> u64" where
  "RefCount_RefIfNonZero v = (if v = 0 then (False, v) else (True, v + 1))"

definition RefCount_Unref :: "u64 \<Rightarrow> bool \<times> u64" where
  "RefCount_Unref v = (let prior = v in (prior = 1, v - 1))"

type_synonym rc_heap = "addr \<rightharpoonup> u64"

definition RefCounted_RefIfNonZero :: "addr \<Rightarrow> rc_heap \<Rightarrow> (bool \<times> rc_heap) option" where
  "RefCounted_RefIfNonZero a h = do { v \<leftarrow> h a; let (ok, v') = RefCount_RefIfNonZero v; Some (ok, h(a \<mapsto> v')) }"

definition RefCounted_IncrementRefCount :: "addr \<Rightarrow> rc_heap \<Rightarrow> rc_heap option" where
  "RefCounted_IncrementRefCount a h = do { v \<leftarrow> h a; Some (h(a \<mapsto> RefCount_Ref 1 v)) }"

definition RefCounted_Unref :: "addr \<Rightarrow> rc_heap \<Rightarrow> rc_heap option" where
  "RefCounted_Unref a h = do {
     v \<leftarrow> h a;
     let (last, v') = RefCount_Unref v;
     Some (if last then h(a := None) else h(a \<mapsto> v')) }"

section \<open>RefCountedPtr\<close>

text \<open>\<open>rp_vars i\<close> is \<open>None\<close> when there is no pointer object \<open>i\<close>, and otherwise its \<open>_value\<close>.\<close>

record rc_state =
  rp_vars :: "nat \<rightharpoonup> addr option"
  rp_objs :: rc_heap
  rp_fresh :: addr

definition ref_if_some :: "addr option \<Rightarrow> rc_heap \<Rightarrow> rc_heap option" where
  "ref_if_some p h = (case p of None \<Rightarrow> Some h | Some a \<Rightarrow> RefCounted_IncrementRefCount a h)"

definition unref_if_some :: "addr option \<Rightarrow> rc_heap \<Rightarrow> rc_heap option" where
  "unref_if_some p h = (case p of None \<Rightarrow> Some h | Some a \<Rightarrow> RefCounted_Unref a h)"

definition RefCountedPtr_reset :: "nat \<Rightarrow> addr option \<Rightarrow> rc_state \<Rightarrow> rc_state option" where
  "RefCountedPtr_reset i p s = do {
     old \<leftarrow> rp_vars s i;
     h \<leftarrow> unref_if_some old (rp_objs s);
     Some (s\<lparr>rp_objs := h, rp_vars := (rp_vars s)(i \<mapsto> p)\<rparr>) }"

text \<open>Constructors make the pointer object \<open>i\<close>.\<close>

definition RefCountedPtr_null :: "nat \<Rightarrow> rc_state \<Rightarrow> rc_state option" where
  "RefCountedPtr_null i s = (if rp_vars s i = None then Some (s\<lparr>rp_vars := (rp_vars s)(i \<mapsto> None)\<rparr>) else None)"

definition RefCountedPtr_move :: "nat \<Rightarrow> nat \<Rightarrow> rc_state \<Rightarrow> rc_state option" where
  "RefCountedPtr_move i j s = do {
     p \<leftarrow> rp_vars s j;
     if rp_vars s i = None then Some (s\<lparr>rp_vars := (rp_vars s)(i \<mapsto> p, j \<mapsto> None)\<rparr>) else None }"

definition RefCountedPtr_copy :: "nat \<Rightarrow> nat \<Rightarrow> rc_state \<Rightarrow> rc_state option" where
  "RefCountedPtr_copy i j s = do {
     p \<leftarrow> rp_vars s j;
     if rp_vars s i = None then do {
       h \<leftarrow> ref_if_some p (rp_objs s);
       Some (s\<lparr>rp_objs := h, rp_vars := (rp_vars s)(i \<mapsto> p)\<rparr>) }
     else None }"

definition MakeRefCounted :: "nat \<Rightarrow> rc_state \<Rightarrow> rc_state option" where
  "MakeRefCounted i s =
     (if rp_vars s i = None
      then Some (s\<lparr>rp_objs := (rp_objs s)(rp_fresh s \<mapsto> 1), rp_vars := (rp_vars s)(i \<mapsto> Some (rp_fresh s)),
                   rp_fresh := rp_fresh s + 1\<rparr>)
      else None)"

definition RefCountedPtr_move_assign :: "nat \<Rightarrow> nat \<Rightarrow> rc_state \<Rightarrow> rc_state option" where
  "RefCountedPtr_move_assign i j s = do {
     p \<leftarrow> rp_vars s j;
     s \<leftarrow> RefCountedPtr_reset i p s;
     Some (s\<lparr>rp_vars := (rp_vars s)(j \<mapsto> None)\<rparr>) }"

definition RefCountedPtr_copy_assign :: "nat \<Rightarrow> nat \<Rightarrow> rc_state \<Rightarrow> rc_state option" where
  "RefCountedPtr_copy_assign i j s = do {
     p \<leftarrow> rp_vars s j;
     h \<leftarrow> ref_if_some p (rp_objs s);
     RefCountedPtr_reset i p (s\<lparr>rp_objs := h\<rparr>) }"

definition RefCountedPtr_dtor :: "nat \<Rightarrow> rc_state \<Rightarrow> rc_state option" where
  "RefCountedPtr_dtor i s = do {
     p \<leftarrow> rp_vars s i;
     h \<leftarrow> unref_if_some p (rp_objs s);
     Some (s\<lparr>rp_objs := h, rp_vars := (rp_vars s)(i := None)\<rparr>) }"

definition RefCountedPtr_swap :: "nat \<Rightarrow> nat \<Rightarrow> rc_state \<Rightarrow> rc_state option" where
  "RefCountedPtr_swap i j s = do {
     p \<leftarrow> rp_vars s i;
     q \<leftarrow> rp_vars s j;
     Some (s\<lparr>rp_vars := (rp_vars s)(i \<mapsto> q, j \<mapsto> p)\<rparr>) }"

text \<open>\<open>i = j->Ref()\<close>: a new pointer to the object of \<open>j\<close>; through null it is undefined.\<close>

definition RefCounted_Ref :: "nat \<Rightarrow> nat \<Rightarrow> rc_state \<Rightarrow> rc_state option" where
  "RefCounted_Ref i j s = do {
     p \<leftarrow> rp_vars s j;
     a \<leftarrow> p;
     if rp_vars s i = None then do {
       h \<leftarrow> RefCounted_IncrementRefCount a (rp_objs s);
       Some (s\<lparr>rp_objs := h, rp_vars := (rp_vars s)(i \<mapsto> Some a)\<rparr>) }
     else None }"

text \<open>\<open>release\<close> hands the reference out as a plain pointer, and the constructor from a plain pointer takes one in.\<close>

definition RefCountedPtr_release :: "nat \<Rightarrow> rc_state \<Rightarrow> (addr option \<times> rc_state) option" where
  "RefCountedPtr_release i s = do { p \<leftarrow> rp_vars s i; Some (p, s\<lparr>rp_vars := (rp_vars s)(i \<mapsto> None)\<rparr>) }"

definition RefCountedPtr_adopt :: "nat \<Rightarrow> addr option \<Rightarrow> rc_state \<Rightarrow> rc_state option" where
  "RefCountedPtr_adopt i p s = (if rp_vars s i = None then Some (s\<lparr>rp_vars := (rp_vars s)(i \<mapsto> p)\<rparr>) else None)"

lemma release_adopt_is_move:
  "do { (p, t) \<leftarrow> RefCountedPtr_release j s; RefCountedPtr_adopt i p t } =
     (if i = j then None else RefCountedPtr_move i j s)"
  by (cases "rp_vars s j") (auto simp: RefCountedPtr_release_def RefCountedPtr_adopt_def RefCountedPtr_move_def fun_upd_twist)

definition RefCountedPtr_get :: "nat \<Rightarrow> rc_state \<Rightarrow> addr option option" where
  "RefCountedPtr_get i s = rp_vars s i"

section \<open>Counts\<close>

text \<open>The heap has exactly the objects with a positive count.\<close>

definition counts_ok :: "(addr \<Rightarrow> nat) \<Rightarrow> rc_heap \<Rightarrow> bool" where
  "counts_ok c h \<longleftrightarrow> (\<forall>a. h a = (if c a = 0 then None else Some (of_nat (c a))) \<and> c a < size_lim)"

lemma ref_ok:
  assumes "counts_ok c h" and "c a \<noteq> 0" and "c a + 1 < size_lim"
  shows "\<exists>h'. RefCounted_IncrementRefCount a h = Some h' \<and> counts_ok (c(a := c a + 1)) h'"
  using assms by (auto simp: counts_ok_def RefCounted_IncrementRefCount_def RefCount_Ref_def add.commute)

lemma of_nat_is_1:
  assumes "n < size_lim"
  shows "(of_nat n :: u64) = 1 \<longleftrightarrow> n = 1"
proof
  assume "(of_nat n :: u64) = 1"
  then have "unat (of_nat n :: u64) = unat (1 :: u64)" by (rule arg_cong)
  moreover have "unat (of_nat n :: u64) = n" using assms by (simp add: unat_of_nat)
  ultimately show "n = 1" by simp
qed simp

lemma unref_ok:
  assumes "counts_ok c h" and "c a \<noteq> 0"
  shows "\<exists>h'. RefCounted_Unref a h = Some h' \<and> counts_ok (c(a := c a - 1)) h'"
proof -
  have a: "h a = Some (of_nat (c a))" "c a < size_lim" using assms by (simp_all add: counts_ok_def)
  have "of_nat (c a) - 1 = (of_nat (c a - 1) :: u64)" using assms(2) by (simp add: of_nat_diff)
  with assms a of_nat_is_1 [OF a(2)] show ?thesis
    by (auto simp: RefCounted_Unref_def RefCount_Unref_def counts_ok_def less_imp_diff_less)
qed

text \<open>The pointer objects that point to an object.\<close>

definition holders :: "(nat \<rightharpoonup> addr option) \<Rightarrow> addr \<Rightarrow> nat" where
  "holders vs a = card {i. vs i = Some (Some a)}"

lemma holders_upd:
  assumes "finite (dom vs)"
  shows "holders (vs(i := x)) a = (holders vs a - (if vs i = Some (Some a) then 1 else 0)) + (if x = Some (Some a) then 1 else 0)"
proof -
  let ?S = "{j. vs j = Some (Some a)}"
  have fin: "finite ?S" by (rule finite_subset [OF _ assms]) auto
  have "{j. (vs(i := x)) j = Some (Some a)} = (if x = Some (Some a) then insert i (?S - {i}) else ?S - {i})" by auto
  moreover have "card (?S - {i}) = holders vs a - (if vs i = Some (Some a) then 1 else 0)"
    unfolding holders_def by (cases "i \<in> ?S") (use fin in \<open>auto simp: card_Diff_singleton\<close>)
  moreover have "card (insert i (?S - {i})) = Suc (card (?S - {i}))" by (rule card_insert_disjoint) (use fin in auto)
  ultimately show ?thesis unfolding holders_def [of "vs(i := x)"] by simp
qed

lemma holders_pos: "finite (dom vs) \<Longrightarrow> vs i = Some (Some a) \<Longrightarrow> holders vs a \<noteq> 0"
  unfolding holders_def by (metis (mono_tags, lifting) card_eq_0_iff domI empty_iff finite_subset mem_Collect_eq subsetI)

section \<open>Programs\<close>

datatype ptr_op = Null nat | Make nat | Move nat nat | Copy nat nat | MoveAssign nat nat | CopyAssign nat nat
  | Destroy nat | Swap nat nat | Reset nat | Ref nat nat

fun ptr_exec :: "ptr_op \<Rightarrow> rc_state \<Rightarrow> rc_state option" where
  "ptr_exec (Null i) s = RefCountedPtr_null i s"
| "ptr_exec (Make i) s = MakeRefCounted i s"
| "ptr_exec (Move i j) s = RefCountedPtr_move i j s"
| "ptr_exec (Copy i j) s = RefCountedPtr_copy i j s"
| "ptr_exec (MoveAssign i j) s = RefCountedPtr_move_assign i j s"
| "ptr_exec (CopyAssign i j) s = RefCountedPtr_copy_assign i j s"
| "ptr_exec (Destroy i) s = RefCountedPtr_dtor i s"
| "ptr_exec (Swap i j) s = RefCountedPtr_swap i j s"
| "ptr_exec (Reset i) s = RefCountedPtr_reset i None s"
| "ptr_exec (Ref i j) s = RefCounted_Ref i j s"

text \<open>What a C++ program respects: a constructor makes a new pointer object, everything else works on
  existing ones, \<open>Ref\<close> goes through a pointer that is not null, and there are fewer than \<open>2 ^ 63\<close>
  pointer objects.\<close>

fun op_allowed :: "ptr_op \<Rightarrow> rc_state \<Rightarrow> bool" where
  "op_allowed (Null i) s \<longleftrightarrow> rp_vars s i = None \<and> i < 2 ^ 63"
| "op_allowed (Make i) s \<longleftrightarrow> rp_vars s i = None \<and> i < 2 ^ 63"
| "op_allowed (Move i j) s \<longleftrightarrow> rp_vars s i = None \<and> i < 2 ^ 63 \<and> rp_vars s j \<noteq> None"
| "op_allowed (Copy i j) s \<longleftrightarrow> rp_vars s i = None \<and> i < 2 ^ 63 \<and> rp_vars s j \<noteq> None"
| "op_allowed (MoveAssign i j) s \<longleftrightarrow> rp_vars s i \<noteq> None \<and> rp_vars s j \<noteq> None"
| "op_allowed (CopyAssign i j) s \<longleftrightarrow> rp_vars s i \<noteq> None \<and> rp_vars s j \<noteq> None"
| "op_allowed (Destroy i) s \<longleftrightarrow> rp_vars s i \<noteq> None"
| "op_allowed (Swap i j) s \<longleftrightarrow> rp_vars s i \<noteq> None \<and> rp_vars s j \<noteq> None"
| "op_allowed (Reset i) s \<longleftrightarrow> rp_vars s i \<noteq> None"
| "op_allowed (Ref i j) s \<longleftrightarrow> rp_vars s i = None \<and> i < 2 ^ 63 \<and> (\<exists>a. rp_vars s j = Some (Some a))"

definition rc_ok :: "rc_state \<Rightarrow> bool" where
  "rc_ok s \<longleftrightarrow> counts_ok (holders (rp_vars s)) (rp_objs s) \<and> dom (rp_vars s) \<subseteq> {..<2 ^ 63}
     \<and> (\<forall>a \<ge> rp_fresh s. rp_objs s a = None)"

lemma rc_ok_finite: "rc_ok s \<Longrightarrow> finite (dom (rp_vars s))"
  unfolding rc_ok_def using finite_subset by blast

lemma holders_bound: "dom vs \<subseteq> {..<2 ^ 63} \<Longrightarrow> holders vs a \<le> 2 ^ 63"
proof -
  assume "dom vs \<subseteq> {..<2 ^ 63}"
  then have "{i. vs i = Some (Some a)} \<subseteq> {..<2 ^ 63}" by auto
  from card_mono [OF _ this] show ?thesis by (simp add: holders_def)
qed

text \<open>Taking and dropping a reference, on a null pointer too.\<close>

definition bump :: "addr option \<Rightarrow> (addr \<Rightarrow> nat) \<Rightarrow> addr \<Rightarrow> nat" where
  "bump p c a = c a + (if p = Some a then 1 else 0)"

definition drop1 :: "addr option \<Rightarrow> (addr \<Rightarrow> nat) \<Rightarrow> addr \<Rightarrow> nat" where
  "drop1 p c a = c a - (if p = Some a then 1 else 0)"

lemma ref_if_some_ok:
  assumes "counts_ok c h" and "\<And>a. p = Some a \<Longrightarrow> c a \<noteq> 0 \<and> c a + 1 < size_lim"
  shows "\<exists>h'. ref_if_some p h = Some h' \<and> counts_ok (bump p c) h'"
proof (cases p)
  case (Some a)
  have "bump p c = c(a := c a + 1)" by (auto simp: bump_def Some)
  with ref_ok [OF assms(1), of a] assms(2) Some show ?thesis by (simp add: ref_if_some_def)
qed (use assms(1) in \<open>auto simp: ref_if_some_def bump_def [abs_def]\<close>)

lemma unref_if_some_ok:
  assumes "counts_ok c h" and "\<And>a. p = Some a \<Longrightarrow> c a \<noteq> 0"
  shows "\<exists>h'. unref_if_some p h = Some h' \<and> counts_ok (drop1 p c) h'"
proof (cases p)
  case (Some a)
  have "drop1 p c = c(a := c a - 1)" by (auto simp: drop1_def Some)
  with unref_ok [OF assms(1), of a] assms(2) Some show ?thesis by (simp add: unref_if_some_def)
qed (use assms(1) in \<open>auto simp: unref_if_some_def drop1_def [abs_def]\<close>)

lemma counts_ok_cong: "counts_ok c h \<Longrightarrow> (\<And>a. c' a = c a) \<Longrightarrow> counts_ok c' h"
  by (simp add: counts_ok_def)

text \<open>No operation revives an object.\<close>

lemma ref_dead: "ref_if_some p h = Some h' \<Longrightarrow> h a = None \<Longrightarrow> h' a = None"
  by (auto simp: ref_if_some_def RefCounted_IncrementRefCount_def split: option.splits)

lemma unref_dead: "unref_if_some p h = Some h' \<Longrightarrow> h a = None \<Longrightarrow> h' a = None"
  by (auto simp: unref_if_some_def RefCounted_Unref_def Let_def case_prod_beta split: option.splits if_splits)

lemma rc_okD:
  assumes "rc_ok s"
  shows "counts_ok (holders (rp_vars s)) (rp_objs s)" and "finite (dom (rp_vars s))" and "dom (rp_vars s) \<subseteq> {..<2 ^ 63}"
    and "\<And>a. rp_fresh s \<le> a \<Longrightarrow> rp_objs s a = None"
    and "\<And>i a. rp_vars s i = Some (Some a) \<Longrightarrow> holders (rp_vars s) a \<noteq> 0 \<and> holders (rp_vars s) a + 1 < size_lim"
proof -
  show fin: "finite (dom (rp_vars s))" by (rule rc_ok_finite [OF assms])
  show "counts_ok (holders (rp_vars s)) (rp_objs s)" "dom (rp_vars s) \<subseteq> {..<2 ^ 63}" using assms by (simp_all add: rc_ok_def)
  show "rp_objs s a = None" if "rp_fresh s \<le> a" for a using assms that by (simp add: rc_ok_def)
  show "holders (rp_vars s) a \<noteq> 0 \<and> holders (rp_vars s) a + 1 < size_lim" if "rp_vars s i = Some (Some a)" for i a
    using holders_pos [OF fin that] holders_bound [of "rp_vars s" a] assms by (simp add: rc_ok_def)
qed

text \<open>The shape of every step: the counts follow the pointer objects.\<close>

lemma rc_okI:
  assumes "counts_ok c h" and "\<And>a. holders vs a = c a" and "dom vs \<subseteq> {..<2 ^ 63}" and "\<And>a. n \<le> a \<Longrightarrow> h a = None"
  shows "rc_ok (s\<lparr>rp_objs := h, rp_vars := vs, rp_fresh := n\<rparr>)"
  using assms counts_ok_cong [OF assms(1), of "holders vs"] by (simp add: rc_ok_def)

lemma reset_ok:
  assumes "rc_ok s" and "rp_vars s i = Some old" and "counts_ok c h"
    and "\<And>a. old = Some a \<Longrightarrow> c a \<noteq> 0" and "\<And>a. rp_fresh s \<le> a \<Longrightarrow> h a = None"
  shows "\<exists>h'. RefCountedPtr_reset i p (s\<lparr>rp_objs := h\<rparr>) = Some (s\<lparr>rp_objs := h', rp_vars := (rp_vars s)(i \<mapsto> p)\<rparr>)
    \<and> counts_ok (drop1 old c) h' \<and> (\<forall>a \<ge> rp_fresh s. h' a = None)"
proof -
  from unref_if_some_ok [OF assms(3,4)] obtain h' where h': "unref_if_some old h = Some h'" "counts_ok (drop1 old c) h'" by blast
  then have "\<forall>a \<ge> rp_fresh s. h' a = None" using assms(5) unref_dead by blast
  with h' assms(2) show ?thesis by (auto simp: RefCountedPtr_reset_def)
qed

lemma exec_Null:
  assumes ok: "rc_ok s" and allowed: "op_allowed (Null i) s"
  shows "\<exists>s'. ptr_exec (Null i) s = Some s' \<and> rc_ok s'"
proof -
  let ?H = "holders (rp_vars s)"
  note cnt = rc_okD(1) [OF ok] and fin = rc_okD(2) [OF ok] and lim = rc_okD(3) [OF ok] and dead = rc_okD(4) [OF ok]
    and pos = rc_okD(5) [OF ok]
  have "rc_ok (s\<lparr>rp_objs := rp_objs s, rp_vars := (rp_vars s)(i \<mapsto> None), rp_fresh := rp_fresh s\<rparr>)"
    by (rule rc_okI [OF cnt]) (use allowed lim dead fin in \<open>auto simp: holders_upd\<close>)
  with allowed show ?thesis by (simp add: RefCountedPtr_null_def)
qed

lemma exec_Make:
  assumes ok: "rc_ok s" and allowed: "op_allowed (Make i) s"
  shows "\<exists>s'. ptr_exec (Make i) s = Some s' \<and> rc_ok s'"
proof -
  let ?H = "holders (rp_vars s)"
  note cnt = rc_okD(1) [OF ok] and fin = rc_okD(2) [OF ok] and lim = rc_okD(3) [OF ok] and dead = rc_okD(4) [OF ok]
    and pos = rc_okD(5) [OF ok]
  let ?f = "rp_fresh s"
  have f0: "?H ?f = 0" using cnt dead [of ?f] by (auto simp: counts_ok_def split: if_splits)
  have "counts_ok (bump (Some ?f) ?H) ((rp_objs s)(?f \<mapsto> 1))" using cnt f0 by (auto simp: counts_ok_def bump_def)
  then have "rc_ok (s\<lparr>rp_objs := (rp_objs s)(?f \<mapsto> 1), rp_vars := (rp_vars s)(i \<mapsto> Some ?f), rp_fresh := ?f + 1\<rparr>)"
    by (rule rc_okI) (use allowed lim dead fin in \<open>auto simp: holders_upd bump_def\<close>)
  with allowed show ?thesis by (auto simp: MakeRefCounted_def)
qed

lemma exec_Move:
  assumes ok: "rc_ok s" and allowed: "op_allowed (Move i j) s"
  shows "\<exists>s'. ptr_exec (Move i j) s = Some s' \<and> rc_ok s'"
proof -
  let ?H = "holders (rp_vars s)"
  note cnt = rc_okD(1) [OF ok] and fin = rc_okD(2) [OF ok] and lim = rc_okD(3) [OF ok] and dead = rc_okD(4) [OF ok]
    and pos = rc_okD(5) [OF ok]
  obtain p where p: "rp_vars s j = Some p" "rp_vars s i = None" "i < 2 ^ 63" "i \<noteq> j" using allowed by (cases "i = j") auto
  have f2: "finite (dom ((rp_vars s)(i \<mapsto> p)))" using fin by simp
  have "rc_ok (s\<lparr>rp_objs := rp_objs s, rp_vars := (rp_vars s)(i \<mapsto> p, j \<mapsto> None), rp_fresh := rp_fresh s\<rparr>)"
    by (rule rc_okI [OF cnt]) (use p lim dead in \<open>auto simp: holders_upd [OF f2] holders_upd [OF fin]\<close>)
  with p show ?thesis by (simp add: RefCountedPtr_move_def)
qed

lemma exec_Copy:
  assumes ok: "rc_ok s" and allowed: "op_allowed (Copy i j) s"
  shows "\<exists>s'. ptr_exec (Copy i j) s = Some s' \<and> rc_ok s'"
proof -
  let ?H = "holders (rp_vars s)"
  note cnt = rc_okD(1) [OF ok] and fin = rc_okD(2) [OF ok] and lim = rc_okD(3) [OF ok] and dead = rc_okD(4) [OF ok]
    and pos = rc_okD(5) [OF ok]
  obtain p where p: "rp_vars s j = Some p" "rp_vars s i = None" "i < 2 ^ 63" using allowed by auto
  from ref_if_some_ok [OF cnt, of p] pos p(1) obtain h where h: "ref_if_some p (rp_objs s) = Some h" "counts_ok (bump p ?H) h" by blast
  have "rc_ok (s\<lparr>rp_objs := h, rp_vars := (rp_vars s)(i \<mapsto> p), rp_fresh := rp_fresh s\<rparr>)"
    by (rule rc_okI [OF h(2)]) (use p lim dead ref_dead [OF h(1)] in \<open>auto simp: holders_upd [OF fin] bump_def\<close>)
  with p h(1) show ?thesis by (simp add: RefCountedPtr_copy_def)
qed

lemma exec_MoveAssign:
  assumes ok: "rc_ok s" and allowed: "op_allowed (MoveAssign i j) s"
  shows "\<exists>s'. ptr_exec (MoveAssign i j) s = Some s' \<and> rc_ok s'"
proof -
  let ?H = "holders (rp_vars s)"
  note cnt = rc_okD(1) [OF ok] and fin = rc_okD(2) [OF ok] and lim = rc_okD(3) [OF ok] and dead = rc_okD(4) [OF ok]
    and pos = rc_okD(5) [OF ok]
  obtain p old where p: "rp_vars s j = Some p" "rp_vars s i = Some old" using allowed by auto
  have "\<exists>h'. RefCountedPtr_reset i p (s\<lparr>rp_objs := rp_objs s\<rparr>) = Some (s\<lparr>rp_objs := h', rp_vars := (rp_vars s)(i \<mapsto> p)\<rparr>)
      \<and> counts_ok (drop1 old ?H) h' \<and> (\<forall>a \<ge> rp_fresh s. h' a = None)"
    by (rule reset_ok [OF ok p(2) cnt]) (use pos p(2) dead in auto)
  then obtain h where h: "RefCountedPtr_reset i p s = Some (s\<lparr>rp_objs := h, rp_vars := (rp_vars s)(i \<mapsto> p)\<rparr>)"
    "counts_ok (drop1 old ?H) h" "\<forall>a \<ge> rp_fresh s. h a = None" by auto
  have f2: "finite (dom ((rp_vars s)(i \<mapsto> p)))" using fin by simp
  have eq: "holders ((rp_vars s)(i \<mapsto> p, j \<mapsto> None)) a = drop1 old ?H a" for a
    using p by (auto simp: holders_upd [OF f2] holders_upd [OF fin] drop1_def)
  have "rc_ok (s\<lparr>rp_objs := h, rp_vars := (rp_vars s)(i \<mapsto> p, j \<mapsto> None), rp_fresh := rp_fresh s\<rparr>)"
    by (rule rc_okI [OF h(2) eq]) (use p lim h(3) in auto)
  with p h(1) show ?thesis by (simp add: RefCountedPtr_move_assign_def)
qed

lemma exec_CopyAssign:
  assumes ok: "rc_ok s" and allowed: "op_allowed (CopyAssign i j) s"
  shows "\<exists>s'. ptr_exec (CopyAssign i j) s = Some s' \<and> rc_ok s'"
proof -
  let ?H = "holders (rp_vars s)"
  note cnt = rc_okD(1) [OF ok] and fin = rc_okD(2) [OF ok] and lim = rc_okD(3) [OF ok] and dead = rc_okD(4) [OF ok]
    and pos = rc_okD(5) [OF ok]
  obtain p old where p: "rp_vars s j = Some p" "rp_vars s i = Some old" using allowed by auto
  from ref_if_some_ok [OF cnt, of p] pos p(1) obtain h where h: "ref_if_some p (rp_objs s) = Some h" "counts_ok (bump p ?H) h" by blast
  have "\<exists>h'. RefCountedPtr_reset i p (s\<lparr>rp_objs := h\<rparr>) = Some (s\<lparr>rp_objs := h', rp_vars := (rp_vars s)(i \<mapsto> p)\<rparr>)
      \<and> counts_ok (drop1 old (bump p ?H)) h' \<and> (\<forall>a \<ge> rp_fresh s. h' a = None)"
    by (rule reset_ok [OF ok p(2) h(2)]) (use pos p(2) dead ref_dead [OF h(1)] in \<open>auto simp: bump_def\<close>)
  then obtain h' where h': "RefCountedPtr_reset i p (s\<lparr>rp_objs := h\<rparr>) = Some (s\<lparr>rp_objs := h', rp_vars := (rp_vars s)(i \<mapsto> p)\<rparr>)"
    "counts_ok (drop1 old (bump p ?H)) h'" "\<forall>a \<ge> rp_fresh s. h' a = None" by blast
  have eq: "holders ((rp_vars s)(i \<mapsto> p)) a = drop1 old (bump p ?H) a" for a
    using p pos [of i a] by (auto simp: holders_upd [OF fin] drop1_def bump_def)
  have "rc_ok (s\<lparr>rp_objs := h', rp_vars := (rp_vars s)(i \<mapsto> p), rp_fresh := rp_fresh s\<rparr>)"
    by (rule rc_okI [OF h'(2) eq]) (use p lim h'(3) in auto)
  with p h(1) h'(1) show ?thesis by (simp add: RefCountedPtr_copy_assign_def)
qed

lemma exec_Destroy:
  assumes ok: "rc_ok s" and allowed: "op_allowed (Destroy i) s"
  shows "\<exists>s'. ptr_exec (Destroy i) s = Some s' \<and> rc_ok s'"
proof -
  let ?H = "holders (rp_vars s)"
  note cnt = rc_okD(1) [OF ok] and fin = rc_okD(2) [OF ok] and lim = rc_okD(3) [OF ok] and dead = rc_okD(4) [OF ok]
    and pos = rc_okD(5) [OF ok]
  obtain p where p: "rp_vars s i = Some p" using allowed by auto
  from unref_if_some_ok [OF cnt, of p] pos p obtain h where h: "unref_if_some p (rp_objs s) = Some h" "counts_ok (drop1 p ?H) h" by blast
  have "rc_ok (s\<lparr>rp_objs := h, rp_vars := (rp_vars s)(i := None), rp_fresh := rp_fresh s\<rparr>)"
    by (rule rc_okI [OF h(2)]) (use p lim dead unref_dead [OF h(1)] in \<open>auto simp: holders_upd [OF fin] drop1_def\<close>)
  with p h(1) show ?thesis by (simp add: RefCountedPtr_dtor_def)
qed

lemma exec_Swap:
  assumes ok: "rc_ok s" and allowed: "op_allowed (Swap i j) s"
  shows "\<exists>s'. ptr_exec (Swap i j) s = Some s' \<and> rc_ok s'"
proof -
  let ?H = "holders (rp_vars s)"
  note cnt = rc_okD(1) [OF ok] and fin = rc_okD(2) [OF ok] and lim = rc_okD(3) [OF ok] and dead = rc_okD(4) [OF ok]
    and pos = rc_okD(5) [OF ok]
  obtain p q where p: "rp_vars s i = Some p" "rp_vars s j = Some q" using allowed by auto
  have f2: "finite (dom ((rp_vars s)(i \<mapsto> q)))" using fin by simp
  have eq: "holders ((rp_vars s)(i \<mapsto> q, j \<mapsto> p)) a = ?H a" for a
    using p pos [of i a] pos [of j a] by (auto simp: holders_upd [OF f2] holders_upd [OF fin])
  have "rc_ok (s\<lparr>rp_objs := rp_objs s, rp_vars := (rp_vars s)(i \<mapsto> q, j \<mapsto> p), rp_fresh := rp_fresh s\<rparr>)"
    by (rule rc_okI [OF cnt eq]) (use p lim dead in auto)
  with p show ?thesis by (simp add: RefCountedPtr_swap_def)
qed

lemma exec_Reset:
  assumes ok: "rc_ok s" and allowed: "op_allowed (Reset i) s"
  shows "\<exists>s'. ptr_exec (Reset i) s = Some s' \<and> rc_ok s'"
proof -
  let ?H = "holders (rp_vars s)"
  note cnt = rc_okD(1) [OF ok] and fin = rc_okD(2) [OF ok] and lim = rc_okD(3) [OF ok] and dead = rc_okD(4) [OF ok]
    and pos = rc_okD(5) [OF ok]
  obtain old where p: "rp_vars s i = Some old" using allowed by auto
  have "\<exists>h'. RefCountedPtr_reset i None (s\<lparr>rp_objs := rp_objs s\<rparr>) = Some (s\<lparr>rp_objs := h', rp_vars := (rp_vars s)(i \<mapsto> None)\<rparr>)
      \<and> counts_ok (drop1 old ?H) h' \<and> (\<forall>a \<ge> rp_fresh s. h' a = None)"
    by (rule reset_ok [OF ok p cnt]) (use pos p dead in auto)
  then obtain h where h: "RefCountedPtr_reset i None s = Some (s\<lparr>rp_objs := h, rp_vars := (rp_vars s)(i \<mapsto> None)\<rparr>)"
    "counts_ok (drop1 old ?H) h" "\<forall>a \<ge> rp_fresh s. h a = None" by auto
  have "rc_ok (s\<lparr>rp_objs := h, rp_vars := (rp_vars s)(i \<mapsto> None), rp_fresh := rp_fresh s\<rparr>)"
    by (rule rc_okI [OF h(2)]) (use p lim h(3) in \<open>auto simp: holders_upd [OF fin] drop1_def\<close>)
  with h(1) show ?thesis by simp
qed

lemma exec_Ref:
  assumes ok: "rc_ok s" and allowed: "op_allowed (Ref i j) s"
  shows "\<exists>s'. ptr_exec (Ref i j) s = Some s' \<and> rc_ok s'"
proof -
  let ?H = "holders (rp_vars s)"
  note cnt = rc_okD(1) [OF ok] and fin = rc_okD(2) [OF ok] and lim = rc_okD(3) [OF ok] and dead = rc_okD(4) [OF ok]
    and pos = rc_okD(5) [OF ok]
  obtain a where p: "rp_vars s j = Some (Some a)" "rp_vars s i = None" "i < 2 ^ 63" using allowed by auto
  from ref_if_some_ok [OF cnt, of "Some a"] pos p(1) obtain h where
    h: "ref_if_some (Some a) (rp_objs s) = Some h" "counts_ok (bump (Some a) ?H) h" by blast
  have "rc_ok (s\<lparr>rp_objs := h, rp_vars := (rp_vars s)(i \<mapsto> Some a), rp_fresh := rp_fresh s\<rparr>)"
    by (rule rc_okI [OF h(2)]) (use p lim dead ref_dead [OF h(1)] in \<open>auto simp: holders_upd [OF fin] bump_def\<close>)
  with p h(1) show ?thesis by (simp add: RefCounted_Ref_def ref_if_some_def)
qed

lemma ptr_exec_ok: "rc_ok s \<Longrightarrow> op_allowed c s \<Longrightarrow> \<exists>s'. ptr_exec c s = Some s' \<and> rc_ok s'"
  by (cases c) (simp_all only: exec_Null exec_Make exec_Move exec_Copy exec_MoveAssign exec_CopyAssign exec_Destroy exec_Swap exec_Reset exec_Ref)

primrec ptr_run :: "ptr_op list \<Rightarrow> rc_state \<Rightarrow> rc_state option" where
  "ptr_run [] s = Some s"
| "ptr_run (c # cs) s = do { s \<leftarrow> ptr_exec c s; ptr_run cs s }"

primrec run_allowed :: "ptr_op list \<Rightarrow> rc_state \<Rightarrow> bool" where
  "run_allowed [] s \<longleftrightarrow> True"
| "run_allowed (c # cs) s \<longleftrightarrow> op_allowed c s \<and> (\<forall>s'. ptr_exec c s = Some s' \<longrightarrow> run_allowed cs s')"

definition rc_init :: rc_state where
  "rc_init = \<lparr>rp_vars = Map.empty, rp_objs = Map.empty, rp_fresh = 0\<rparr>"

lemma rc_init_ok: "rc_ok rc_init"
  by (simp add: rc_ok_def rc_init_def counts_ok_def holders_def)

lemma ptr_run_ok: "rc_ok s \<Longrightarrow> run_allowed cs s \<Longrightarrow> \<exists>s'. ptr_run cs s = Some s' \<and> rc_ok s'"
proof (induction cs arbitrary: s)
  case (Cons c cs)
  from ptr_exec_ok [OF Cons.prems(1), of c] Cons.prems(2) obtain s1 where "ptr_exec c s = Some s1" "rc_ok s1" by auto
  with Cons show ?case by auto
qed simp

section \<open>Properties\<close>

text \<open>
  C32. Reference counted pointers are memory safe: every program of constructions, copies, moves,
  assignments (of a variable to itself too), swaps, resets and destructions that uses only existing
  pointer objects runs without touching a deleted object. Afterwards an object is alive exactly when
  some pointer object points to it, its count is their number, and once all pointer objects are gone
  every object has been deleted.
\<close>

theorem refcounted_pointers_memory_safe:
  assumes "run_allowed cs rc_init"
  shows "\<exists>s. ptr_run cs rc_init = Some s
    \<and> (\<forall>a. rp_objs s a = (if \<exists>i. rp_vars s i = Some (Some a) then Some (of_nat (card {i. rp_vars s i = Some (Some a)})) else None))
    \<and> (rp_vars s = Map.empty \<longrightarrow> rp_objs s = Map.empty)"
proof -
  from ptr_run_ok [OF rc_init_ok assms] obtain s where s: "ptr_run cs rc_init = Some s" "rc_ok s" by blast
  have "finite {i. rp_vars s i = Some (Some a)}" for a by (rule finite_subset [OF _ rc_ok_finite [OF s(2)]]) auto
  then have e: "rp_objs s a = (if \<exists>i. rp_vars s i = Some (Some a) then Some (of_nat (card {i. rp_vars s i = Some (Some a)})) else None)" for a
    using s(2) by (auto simp: rc_ok_def counts_ok_def holders_def)
  then have "rp_vars s = Map.empty \<longrightarrow> rp_objs s = Map.empty" by (auto simp: fun_eq_iff)
  with s(1) e show ?thesis by blast
qed

theorem refcounted_pointers_memory_safe_witness:
  "\<exists>s. ptr_run [Make 0, Copy 1 0, MoveAssign 1 1, CopyAssign 0 0, Destroy 0, Destroy 1] rc_init = Some s \<and> rp_objs s = Map.empty"
proof -
  have "run_allowed [Make 0, Copy 1 0, MoveAssign 1 1, CopyAssign 0 0, Destroy 0, Destroy 1] rc_init"
    by (auto simp: rc_init_def MakeRefCounted_def RefCountedPtr_copy_def RefCountedPtr_move_assign_def RefCountedPtr_reset_def
        RefCountedPtr_copy_assign_def RefCountedPtr_dtor_def)
  from refcounted_pointers_memory_safe [OF this] obtain s where
    s: "ptr_run [Make 0, Copy 1 0, MoveAssign 1 1, CopyAssign 0 0, Destroy 0, Destroy 1] rc_init = Some s"
    "rp_vars s = Map.empty \<longrightarrow> rp_objs s = Map.empty" by blast
  then have "rp_vars s = Map.empty"
    by (auto simp: rc_init_def MakeRefCounted_def RefCountedPtr_copy_def RefCountedPtr_move_assign_def RefCountedPtr_reset_def
        RefCountedPtr_copy_assign_def RefCountedPtr_dtor_def)
  with s show ?thesis by blast
qed

end
