(* ===== verification/WinPoll.thy ===== *)
theory WinPoll
  imports Polling RefPtr
begin

text \<open>
  The polling threads of the Windows build (src/src/windows/iocp.cc, iocp_thread.cc). All
  \<open>PollingThread\<close> objects of the process share one adaptor, which owns one completion port and its
  threads and routes each completion by its socket to the service that registered the socket. The
  adaptor is reference counted (theory \<open>RefPtr\<close>), and the object that was created when there was no
  other one controls it. Calls to the system are recorded; their results are arguments.
\<close>

section \<open>Completion ports\<close>

type_synonym SOCKET = u64

datatype win_act = CreatePort | AddSocket SOCKET u64 | PostStatus | CloseHandle

text \<open>\<open>ic_handle\<close> is whether \<open>_handle\<close> is not null.\<close>

record Iocp =
  ic_handle :: bool

definition Iocp_new :: Iocp where
  "Iocp_new = \<lparr>ic_handle = False\<rparr>"

text \<open>What the system answers: whether it creates a port, the last error, the text of an error, and
  which threads it creates.\<close>

record iocp_os =
  wio_created :: bool
  wio_last_error :: int
  wio_message :: "int \<Rightarrow> string option"
  wio_thread :: "nat \<Rightarrow> bool"

definition Iocp_create :: "iocp_os \<Rightarrow> Iocp \<Rightarrow> raptor_error \<times> win_act list \<times> Iocp" where
  "Iocp_create os i =
     (if \<not> ic_handle i then
        if \<not> wio_created os
        then (MakeStatusFromWindowsError (wio_message os) (wio_last_error os) ''CreateIoCompletionPort'', [], i)
        else (RAPTOR_ERROR_NONE, [CreatePort], i\<lparr>ic_handle := True\<rparr>)
      else (RAPTOR_ERROR_NONE, [], i))"

definition Iocp_shutdown :: "Iocp \<Rightarrow> win_act list \<times> Iocp" where
  "Iocp_shutdown i = (if ic_handle i then ([CloseHandle], i\<lparr>ic_handle := False\<rparr>) else ([], i))"

definition Iocp_dtor :: "Iocp \<Rightarrow> win_act list" where
  "Iocp_dtor i = (if ic_handle i then [CloseHandle] else [])"

definition Iocp_add :: "bool \<Rightarrow> SOCKET \<Rightarrow> u64 \<Rightarrow> Iocp \<Rightarrow> bool \<times> win_act list" where
  "Iocp_add added sock CompletionKey i = (if \<not> ic_handle i then (False, []) else (added, [AddSocket sock CompletionKey]))"

definition Iocp_post :: "Iocp \<Rightarrow> win_act list" where
  "Iocp_post i = [PostStatus]"

text \<open>The overlapped structures: the address of one that is part of an \<open>OverLappedEx\<close>, or \<open>_exit\<close>.\<close>

datatype overlapped = Exit | Ov addr

record OverLappedEx =
  ol_event_type :: u32
  ol_HandleId :: u32

text \<open>What \<open>GetQueuedCompletionStatus\<close> answers.\<close>

record completion =
  cp_ret :: bool
  cp_bytes :: u32
  cp_key :: u64
  cp_overlapped :: "overlapped option"
  cp_last_error :: int

section \<open>IocpThread\<close>

record win_detail =
  wd_ptr :: u64
  wd_event_type :: u32
  wd_error_code :: int
  wd_transferred_bytes :: u32
  wd_handle_id :: u32
  wd_overlaped :: addr

record IocpThread =
  iw_shutdown :: bool
  iw_enable_timeout_check :: bool
  iw_number_of_threads :: nat
  iw_running_threads :: nat
  iw_threads :: "Thread list"
  iw_iocp :: Iocp

definition IocpThread_new :: IocpThread where
  "IocpThread_new = \<lparr>iw_shutdown = True, iw_enable_timeout_check = False, iw_number_of_threads = 0,
     iw_running_threads = 0, iw_threads = [], iw_iocp = Iocp_new\<rparr>"

definition IocpThread_Init :: "iocp_os \<Rightarrow> nat \<Rightarrow> IocpThread \<Rightarrow> raptor_error \<times> win_act list \<times> IocpThread" where
  "IocpThread_Init os rs_threads t =
     (if \<not> iw_shutdown t then (RAPTOR_ERROR_NONE, [], t)
      else let (e, acts, i) = Iocp_create os (iw_iocp t); t = t\<lparr>iw_iocp := i\<rparr> in
        if e \<noteq> RAPTOR_ERROR_NONE then (e, acts, t)
        else let (ts, running) = spawn_loop rs_threads 0 (wio_thread os) (replicate rs_threads Thread_null) 0;
                 t = t\<lparr>iw_shutdown := False, iw_number_of_threads := rs_threads, iw_threads := ts,
                       iw_running_threads := nat running\<rparr> in
          if iw_running_threads t = 0
          then (MakeStatusFromStaticString ''IocpThread: Failed to create thread'', acts, t)
          else (RAPTOR_ERROR_NONE, acts, t))"

definition IocpThread_Start :: "IocpThread \<Rightarrow> (raptor_error \<times> IocpThread) option" where
  "IocpThread_Start t =
     (if iw_shutdown t then Some (MakeStatusFromStaticString ''IocpThread is not initialized'', t)
      else do {
        ts \<leftarrow> start_loop (iw_running_threads t) 0 (iw_threads t);
        Some (RAPTOR_ERROR_NONE, t\<lparr>iw_threads := ts\<rparr>) })"

definition IocpThread_Shutdown :: "IocpThread \<Rightarrow> (win_act list \<times> IocpThread) option" where
  "IocpThread_Shutdown t =
     (if iw_shutdown t then Some ([], t)
      else do {
        let t = t\<lparr>iw_shutdown := True\<rparr>;
        let acts = Iocp_post (iw_iocp t);
        _ \<leftarrow> join_loop (iw_running_threads t) 0 (iw_threads t);
        Some (acts, t\<lparr>iw_threads := []\<rparr>) })"

text \<open>The destructor, with that of the member \<open>_iocp\<close>.\<close>

definition IocpThread_dtor :: "IocpThread \<Rightarrow> win_act list option" where
  "IocpThread_dtor t = do {
     (acts, t) \<leftarrow> (if \<not> iw_shutdown t then IocpThread_Shutdown t else Some ([], t));
     Some (acts @ Iocp_dtor (iw_iocp t)) }"

definition IocpThread_Add :: "bool \<Rightarrow> SOCKET \<Rightarrow> u64 \<Rightarrow> IocpThread \<Rightarrow> bool \<times> win_act list" where
  "IocpThread_Add added sock CompletionKey t = Iocp_add added sock CompletionKey (iw_iocp t)"

definition IocpThread_EnableTimeoutCheck :: "bool \<Rightarrow> IocpThread \<Rightarrow> IocpThread" where
  "IocpThread_EnableTimeoutCheck b t = t\<lparr>iw_enable_timeout_check := b\<rparr>"

text \<open>
  What a completion makes of a round of \<open>WorkThread\<close>: leave the loop, nothing, or an event. The
  structure behind the overlapped address is read from \<open>olex\<close>; \<open>None\<close> is one that was freed.
\<close>

datatype work_step = Break | Skip | Process win_detail

definition WorkThread_step :: "(addr \<Rightarrow> OverLappedEx option) \<Rightarrow> completion \<Rightarrow> work_step option" where
  "WorkThread_step olex c =
     (if \<not> cp_ret c then
        case cp_overlapped c of
          None \<Rightarrow> Some Skip
        | Some Exit \<Rightarrow> if cp_key c \<noteq> 0 then None else Some Skip
        | Some (Ov a) \<Rightarrow>
            if cp_key c = 0 then Some Skip
            else do {
              ol \<leftarrow> olex a;
              let err = cp_last_error c;
              Some (Process \<lparr>wd_ptr = cp_key c, wd_event_type = ol_event_type ol,
                wd_error_code = (if err = 0 then - 1 else err), wd_transferred_bytes = cp_bytes c,
                wd_handle_id = 0, wd_overlaped = a\<rparr>) }
      else
        case cp_overlapped c of
          None \<Rightarrow> None
        | Some Exit \<Rightarrow> Some Break
        | Some (Ov a) \<Rightarrow> do {
            ol \<leftarrow> olex a;
            Some (Process \<lparr>wd_ptr = cp_key c, wd_event_type = ol_event_type ol, wd_error_code = 0,
              wd_transferred_bytes = cp_bytes c, wd_handle_id = ol_HandleId ol, wd_overlaped = a\<rparr>) })"

text \<open>A round: the value of \<open>_shutdown\<close> before it, the clock, the completion. The overlapped
  structures live in the objects of the receivers, so they are read from the state \<open>s\<close>.\<close>

record iocp_round =
  ir_down :: bool
  ir_time :: int
  ir_completion :: completion

fun WorkThread ::
  "('s \<Rightarrow> addr \<Rightarrow> OverLappedEx option) \<Rightarrow> (win_detail \<Rightarrow> 's \<Rightarrow> 's option) \<Rightarrow> (int \<Rightarrow> 's \<Rightarrow> 's option)
   \<Rightarrow> bool \<Rightarrow> iocp_round list \<Rightarrow> 's \<Rightarrow> 's option" where
  "WorkThread olex on_event on_timeout check [] s = Some s"
| "WorkThread olex on_event on_timeout check (r # rs) s =
     (if ir_down r then Some s
      else do {
        s \<leftarrow> (if check then on_timeout (ir_time r) s else Some s);
        step \<leftarrow> WorkThread_step (olex s) (ir_completion r);
        case step of
          Break \<Rightarrow> Some s
        | Skip \<Rightarrow> WorkThread olex on_event on_timeout check rs s
        | Process d \<Rightarrow> do { s \<leftarrow> on_event d s; WorkThread olex on_event on_timeout check rs s } })"

section \<open>The adaptor\<close>

text \<open>A service is named by its address.\<close>

record IocpSupplementInfo =
  si_CompletionKey :: u64
  si_service :: addr
  si_event_types :: u32

record IocpThreadAdaptor =
  ia_iocp :: IocpThread
  ia_timeout_check_services :: "addr set"
  ia_interesting_event_services :: "SOCKET \<rightharpoonup> IocpSupplementInfo"

definition IocpThreadAdaptor_new :: IocpThreadAdaptor where
  "IocpThreadAdaptor_new = \<lparr>ia_iocp = IocpThread_new, ia_timeout_check_services = {}, ia_interesting_event_services = Map.empty\<rparr>"

definition IocpThreadAdaptor_dtor :: "IocpThreadAdaptor \<Rightarrow> win_act list option" where
  "IocpThreadAdaptor_dtor a = do {
     (acts, t) \<leftarrow> IocpThread_Shutdown (ia_iocp a);
     acts' \<leftarrow> IocpThread_dtor t;
     Some (acts @ acts') }"

definition IocpThreadAdaptor_Init :: "iocp_os \<Rightarrow> nat \<Rightarrow> IocpThreadAdaptor \<Rightarrow> raptor_error \<times> win_act list \<times> IocpThreadAdaptor" where
  "IocpThreadAdaptor_Init os rs_threads a =
     (let (e, acts, t) = IocpThread_Init os rs_threads (ia_iocp a) in (e, acts, a\<lparr>ia_iocp := t\<rparr>))"

definition IocpThreadAdaptor_Start :: "IocpThreadAdaptor \<Rightarrow> (raptor_error \<times> IocpThreadAdaptor) option" where
  "IocpThreadAdaptor_Start a = do { (e, t) \<leftarrow> IocpThread_Start (ia_iocp a); Some (e, a\<lparr>ia_iocp := t\<rparr>) }"

definition IocpThreadAdaptor_Shutdown :: "IocpThreadAdaptor \<Rightarrow> (win_act list \<times> IocpThreadAdaptor) option" where
  "IocpThreadAdaptor_Shutdown a = do { (acts, t) \<leftarrow> IocpThread_Shutdown (ia_iocp a); Some (acts, a\<lparr>ia_iocp := t\<rparr>) }"

definition IocpThreadAdaptor_Add ::
  "bool \<Rightarrow> SOCKET \<Rightarrow> u64 \<Rightarrow> u32 \<Rightarrow> addr \<Rightarrow> IocpThreadAdaptor \<Rightarrow> bool \<times> win_act list \<times> IocpThreadAdaptor" where
  "IocpThreadAdaptor_Add added sock CompletionKey type service a =
     (let (r, acts) = IocpThread_Add added sock sock (ia_iocp a);
          info = \<lparr>si_CompletionKey = CompletionKey, si_service = service, si_event_types = type\<rparr>
      in (r, acts, a\<lparr>ia_interesting_event_services := (ia_interesting_event_services a)(sock \<mapsto> info)\<rparr>))"

definition IocpThreadAdaptor_Modify ::
  "bool \<Rightarrow> SOCKET \<Rightarrow> u64 \<Rightarrow> u32 \<Rightarrow> addr \<Rightarrow> IocpThreadAdaptor \<Rightarrow> bool \<times> win_act list \<times> IocpThreadAdaptor" where
  "IocpThreadAdaptor_Modify added sock CompletionKey type service a = IocpThreadAdaptor_Add added sock CompletionKey type service a"

definition IocpThreadAdaptor_Delete :: "SOCKET \<Rightarrow> u32 \<Rightarrow> IocpThreadAdaptor \<Rightarrow> IocpThreadAdaptor" where
  "IocpThreadAdaptor_Delete sock type a =
     (case ia_interesting_event_services a sock of
        None \<Rightarrow> a
      | Some info \<Rightarrow>
          a\<lparr>ia_interesting_event_services := (ia_interesting_event_services a)(sock :=
             (if type = 0 then None else Some (info\<lparr>si_event_types := si_event_types info AND NOT type\<rparr>)))\<rparr>)"

definition IocpThreadAdaptor_EnableTimeoutCheck :: "addr \<Rightarrow> bool \<Rightarrow> IocpThreadAdaptor \<Rightarrow> IocpThreadAdaptor" where
  "IocpThreadAdaptor_EnableTimeoutCheck service timeout_check a =
     (if timeout_check then a\<lparr>ia_timeout_check_services := insert service (ia_timeout_check_services a)\<rparr>
      else a\<lparr>ia_timeout_check_services := ia_timeout_check_services a - {service}\<rparr>)"

text \<open>\<open>detail->event_type\<close> is an \<open>int\<close>, compared with 1 and 17.\<close>

definition IocpThreadAdaptor_FindEventService :: "win_detail \<Rightarrow> IocpThreadAdaptor \<Rightarrow> (addr \<times> win_detail) option" where
  "IocpThreadAdaptor_FindEventService detail a = do {
     info \<leftarrow> ia_interesting_event_services a (wd_ptr detail);
     let type = sint (wd_event_type detail);
     let detail = (if type < 1 \<or> type > 17 then detail\<lparr>wd_event_type := si_event_types info OR kErrorEvent\<rparr> else detail);
     Some (si_service info, detail\<lparr>wd_ptr := si_CompletionKey info\<rparr>) }"

definition IocpThreadAdaptor_OnEventProcess ::
  "(addr \<Rightarrow> win_detail \<Rightarrow> 's \<Rightarrow> 's option) \<Rightarrow> IocpThreadAdaptor \<Rightarrow> win_detail \<Rightarrow> 's \<Rightarrow> 's option" where
  "IocpThreadAdaptor_OnEventProcess on_event a detail s =
     (case IocpThreadAdaptor_FindEventService detail a of
        None \<Rightarrow> Some s
      | Some (service, detail) \<Rightarrow> on_event service detail s)"

fun timeout_services :: "(addr \<Rightarrow> int \<Rightarrow> 's \<Rightarrow> 's option) \<Rightarrow> int \<Rightarrow> addr list \<Rightarrow> 's \<Rightarrow> 's option" where
  "timeout_services on_timeout time [] s = Some s"
| "timeout_services on_timeout time (tcs # services) s = do { s \<leftarrow> on_timeout tcs time s; timeout_services on_timeout time services s }"

definition IocpThreadAdaptor_OnTimeoutCheck ::
  "(addr \<Rightarrow> int \<Rightarrow> 's \<Rightarrow> 's option) \<Rightarrow> IocpThreadAdaptor \<Rightarrow> int \<Rightarrow> 's \<Rightarrow> 's option" where
  "IocpThreadAdaptor_OnTimeoutCheck on_timeout a time s =
     timeout_services on_timeout time (sorted_list_of_set (ia_timeout_check_services a)) s"

section \<open>PollingThread\<close>

record iocp_polling =
  wp_service :: addr
  wp_impl :: "addr option"
  wp_enable_timeout_check :: bool
  wp_instance_id :: int

text \<open>The globals of iocp_thread.cc, the adaptors with their counts, and the calls made.\<close>

record iocp_world =
  ww_adaptor :: "addr option"
  ww_count :: int
  ww_refs :: rc_heap
  ww_objs :: "addr \<rightharpoonup> IocpThreadAdaptor"
  ww_fresh :: addr
  ww_acts :: "win_act list"

definition iocp_start :: iocp_world where
  "iocp_start = \<lparr>ww_adaptor = None, ww_count = 0, ww_refs = Map.empty, ww_objs = Map.empty, ww_fresh = 0, ww_acts = []\<rparr>"

text \<open>A call on \<open>*_impl\<close>.\<close>

definition on_impl ::
  "iocp_polling \<Rightarrow> (IocpThreadAdaptor \<Rightarrow> ('r \<times> win_act list \<times> IocpThreadAdaptor) option) \<Rightarrow> iocp_world \<Rightarrow> ('r \<times> iocp_world) option" where
  "on_impl p f w = do {
     a \<leftarrow> wp_impl p;
     obj \<leftarrow> ww_objs w a;
     (r, acts, obj) \<leftarrow> f obj;
     Some (r, w\<lparr>ww_objs := (ww_objs w)(a \<mapsto> obj), ww_acts := ww_acts w @ acts\<rparr>) }"

definition WinPolling_new :: "addr \<Rightarrow> iocp_world \<Rightarrow> (iocp_polling \<times> iocp_world) option" where
  "WinPolling_new service w = do {
     let count = ww_count w;
     (impl, w) \<leftarrow> (if count = 0 then
        let a = ww_fresh w in
        Some (Some a, w\<lparr>ww_fresh := a + 1, ww_refs := (ww_refs w)(a \<mapsto> 1), ww_objs := (ww_objs w)(a \<mapsto> IocpThreadAdaptor_new),
                        ww_adaptor := Some a\<rparr>)
      else do {
        a \<leftarrow> ww_adaptor w;
        (_, h) \<leftarrow> RefCounted_RefIfNonZero a (ww_refs w);
        Some (Some a, w\<lparr>ww_refs := h\<rparr>) });
     Some (\<lparr>wp_service = service, wp_impl = impl, wp_enable_timeout_check = False, wp_instance_id = to_i32 (count + 1)\<rparr>,
           w\<lparr>ww_count := to_i32 (ww_count w + 1)\<rparr>) }"

definition WinPolling_Init :: "iocp_os \<Rightarrow> nat \<Rightarrow> iocp_polling \<Rightarrow> iocp_world \<Rightarrow> (raptor_error \<times> iocp_world) option" where
  "WinPolling_Init os rs_threads p w =
     (if wp_instance_id p = 1 then on_impl p (\<lambda>a. Some (IocpThreadAdaptor_Init os rs_threads a)) w
      else Some (RAPTOR_ERROR_NONE, w))"

definition WinPolling_Start :: "iocp_polling \<Rightarrow> iocp_world \<Rightarrow> (raptor_error \<times> iocp_world) option" where
  "WinPolling_Start p w =
     (if wp_instance_id p = 1
      then on_impl p (\<lambda>a. do { (e, a) \<leftarrow> IocpThreadAdaptor_Start a; Some (e, [], a) }) w
      else Some (RAPTOR_ERROR_NONE, w))"

definition WinPolling_Shutdown :: "iocp_polling \<Rightarrow> iocp_world \<Rightarrow> (iocp_polling \<times> iocp_world) option" where
  "WinPolling_Shutdown p w =
     (if wp_instance_id p = 0 then Some (p, w)
      else do {
        (_, w) \<leftarrow> (if wp_instance_id p = 1
                   then on_impl p (\<lambda>a. do { (acts, a) \<leftarrow> IocpThreadAdaptor_Shutdown a; Some ((), acts, a) }) w
                   else Some ((), w));
        Some (p\<lparr>wp_instance_id := 0\<rparr>, w) })"

text \<open>The destructor: \<open>Shutdown\<close>, the count, and the reference \<open>_impl\<close> holds.\<close>

definition WinPolling_dtor :: "iocp_polling \<Rightarrow> iocp_world \<Rightarrow> iocp_world option" where
  "WinPolling_dtor p w = do {
     (p, w) \<leftarrow> WinPolling_Shutdown p w;
     let w = w\<lparr>ww_count := to_i32 (ww_count w - 1)\<rparr>;
     a \<leftarrow> wp_impl p;
     h \<leftarrow> RefCounted_Unref a (ww_refs w);
     let w = w\<lparr>ww_refs := h\<rparr>;
     if h a = None then do {
       obj \<leftarrow> ww_objs w a;
       acts \<leftarrow> IocpThreadAdaptor_dtor obj;
       Some (w\<lparr>ww_objs := (ww_objs w)(a := None), ww_acts := ww_acts w @ acts\<rparr>) }
     else Some w }"

definition WinPolling_Add :: "bool \<Rightarrow> SOCKET \<Rightarrow> u64 \<Rightarrow> u32 \<Rightarrow> iocp_polling \<Rightarrow> iocp_world \<Rightarrow> (bool \<times> iocp_world) option" where
  "WinPolling_Add added sock CompletionKey type p w =
     (if wp_instance_id p = 0 then Some (False, w)
      else on_impl p (\<lambda>a. Some (IocpThreadAdaptor_Add added sock CompletionKey type (wp_service p) a)) w)"

definition WinPolling_Modify :: "bool \<Rightarrow> SOCKET \<Rightarrow> u64 \<Rightarrow> u32 \<Rightarrow> iocp_polling \<Rightarrow> iocp_world \<Rightarrow> (bool \<times> iocp_world) option" where
  "WinPolling_Modify added sock CompletionKey type p w =
     (if wp_instance_id p = 0 then Some (False, w)
      else on_impl p (\<lambda>a. Some (IocpThreadAdaptor_Modify added sock CompletionKey type (wp_service p) a)) w)"

definition WinPolling_Delete :: "SOCKET \<Rightarrow> u32 \<Rightarrow> iocp_polling \<Rightarrow> iocp_world \<Rightarrow> (bool \<times> iocp_world) option" where
  "WinPolling_Delete sock type p w =
     (if wp_instance_id p = 0 then Some (False, w)
      else on_impl p (\<lambda>a. Some (True, [], IocpThreadAdaptor_Delete sock type a)) w)"

definition WinPolling_EnableTimeoutCheck :: "bool \<Rightarrow> iocp_polling \<Rightarrow> iocp_world \<Rightarrow> (unit \<times> iocp_world) option" where
  "WinPolling_EnableTimeoutCheck b p w =
     (if wp_instance_id p = 0 then Some ((), w)
      else on_impl p (\<lambda>a. Some ((), [], IocpThreadAdaptor_EnableTimeoutCheck (wp_service p) b a)) w)"

section \<open>The port and its threads\<close>

definition iocp_thread_ok :: "IocpThread \<Rightarrow> bool" where
  "iocp_thread_ok t \<longleftrightarrow> \<not> iw_enable_timeout_check t
     \<and> (\<not> iw_shutdown t \<longrightarrow> ic_handle (iw_iocp t) \<and> group_ok {kAlive, kActive} (iw_running_threads t) (iw_threads t))"

definition startable :: "IocpThread \<Rightarrow> bool" where
  "startable t \<longleftrightarrow> iw_shutdown t \<or> group_ok {kAlive} (iw_running_threads t) (iw_threads t)"

text \<open>Ports created and closed: what a call adds to the list of acts matches the change of the handle.\<close>

definition held :: "IocpThread \<Rightarrow> nat" where
  "held t = (if ic_handle (iw_iocp t) then 1 else 0)"

definition balanced :: "IocpThread \<Rightarrow> win_act list \<Rightarrow> IocpThread \<Rightarrow> bool" where
  "balanced t acts t' \<longleftrightarrow> count_list acts CreatePort + held t = count_list acts CloseHandle + held t'"

lemma IocpThread_new_ok: "iocp_thread_ok IocpThread_new" "held IocpThread_new = 0" "iw_shutdown IocpThread_new"
  by (simp_all add: iocp_thread_ok_def IocpThread_new_def held_def Iocp_new_def)

lemma group_ok_mono: "group_ok S n ts \<Longrightarrow> S \<subseteq> T \<Longrightarrow> group_ok T n ts"
  by (auto simp: group_ok_def)

lemma IocpThread_Init_ok:
  assumes "iocp_thread_ok t" and "IocpThread_Init os n t = (e, acts, t')"
  shows "iocp_thread_ok t' \<and> balanced t acts t'"
proof (cases "iw_shutdown t")
  case True
  obtain ts running where sp: "spawn_loop n 0 (wio_thread os) (replicate n Thread_null) 0 = (ts, running)" by fastforce
  have "group_ok {kAlive} (nat running) ts"
    using spawn_loop_ok [of 0 n "replicate n Thread_null" "wio_thread os"] sp by (auto simp: group_ok_def)
  from group_ok_mono [OF this, of "{kAlive, kActive}"] True assms sp show ?thesis
    by (auto simp: IocpThread_Init_def Iocp_create_def iocp_thread_ok_def balanced_def held_def Let_def split: if_splits)
qed (use assms in \<open>auto simp: IocpThread_Init_def balanced_def\<close>)

lemma IocpThread_Start_ok:
  assumes "iocp_thread_ok t" and "startable t"
  shows "\<exists>e t'. IocpThread_Start t = Some (e, t') \<and> iocp_thread_ok t' \<and> balanced t [] t' \<and> iw_shutdown t' = iw_shutdown t"
proof (cases "iw_shutdown t")
  case False
  have "group_ok {kAlive} (iw_running_threads t) (iw_threads t)" using assms(2) False by (simp add: startable_def)
  then obtain us where "start_loop (iw_running_threads t) 0 (iw_threads t) = Some us" "group_ok {kActive} (iw_running_threads t) us"
    using start_loop_ok [of 0 "iw_running_threads t" "iw_threads t"] by (auto simp: group_ok_def)
  with assms(1) False group_ok_mono [of "{kActive}" _ us "{kAlive, kActive}"] show ?thesis
    by (simp add: IocpThread_Start_def iocp_thread_ok_def balanced_def held_def)
qed (use assms in \<open>simp add: IocpThread_Start_def balanced_def\<close>)

lemma IocpThread_Shutdown_ok:
  assumes "iocp_thread_ok t"
  shows "\<exists>acts t'. IocpThread_Shutdown t = Some (acts, t') \<and> iocp_thread_ok t' \<and> balanced t acts t' \<and> iw_shutdown t'
    \<and> held t' = held t \<and> count_list acts CreatePort = 0 \<and> count_list acts CloseHandle = 0"
proof (cases "iw_shutdown t")
  case False
  have "group_ok {kAlive, kActive} (iw_running_threads t) (iw_threads t)" using assms False by (simp add: iocp_thread_ok_def)
  then obtain us where "join_loop (iw_running_threads t) 0 (iw_threads t) = Some us"
    using join_loop_ok [of 0 "iw_running_threads t" "iw_threads t"] by (auto simp: group_ok_def)
  with assms False show ?thesis
    by (simp add: IocpThread_Shutdown_def iocp_thread_ok_def balanced_def held_def Iocp_post_def)
qed (use assms in \<open>simp add: IocpThread_Shutdown_def balanced_def\<close>)

lemma IocpThread_dtor_ok:
  assumes "iocp_thread_ok t"
  shows "\<exists>acts. IocpThread_dtor t = Some acts \<and> count_list acts CreatePort = 0 \<and> count_list acts CloseHandle = held t"
proof -
  obtain acts t' where "IocpThread_Shutdown t = Some (acts, t')" "held t' = held t" "count_list acts CreatePort = 0"
    "count_list acts CloseHandle = 0" using IocpThread_Shutdown_ok [OF assms] by blast
  then show ?thesis by (auto simp: IocpThread_dtor_def Iocp_dtor_def held_def split: if_splits)
qed

lemma IocpThreadAdaptor_dtor_ok:
  assumes "iocp_thread_ok (ia_iocp a)"
  shows "\<exists>acts. IocpThreadAdaptor_dtor a = Some acts \<and> count_list acts CreatePort = 0
    \<and> count_list acts CloseHandle = held (ia_iocp a)"
proof -
  obtain acts t where t: "IocpThread_Shutdown (ia_iocp a) = Some (acts, t)" "iocp_thread_ok t" "held t = held (ia_iocp a)"
    "count_list acts CreatePort = 0" "count_list acts CloseHandle = 0" using IocpThread_Shutdown_ok [OF assms] by blast
  with IocpThread_dtor_ok [OF t(2)] show ?thesis by (auto simp: IocpThreadAdaptor_dtor_def)
qed

section \<open>The registry\<close>

text \<open>The polling objects of the process and the globals.\<close>

record iocp_sys =
  is_polls :: "nat \<rightharpoonup> iocp_polling"
  is_world :: iocp_world

datatype poll_op =
    NewP nat addr
  | InitP nat iocp_os nat
  | StartP nat
  | ShutdownP nat
  | AddP nat bool SOCKET u64 u32
  | ModifyP nat bool SOCKET u64 u32
  | DeleteP nat SOCKET u32
  | TimeoutP nat bool
  | DestroyP nat

definition call_poll :: "nat \<Rightarrow> (iocp_polling \<Rightarrow> iocp_world \<Rightarrow> ('r \<times> iocp_world) option) \<Rightarrow> iocp_sys \<Rightarrow> iocp_sys option" where
  "call_poll i f s = do { p \<leftarrow> is_polls s i; (_, w) \<leftarrow> f p (is_world s); Some (s\<lparr>is_world := w\<rparr>) }"

fun poll_exec :: "poll_op \<Rightarrow> iocp_sys \<Rightarrow> iocp_sys option" where
  "poll_exec (NewP i service) s = do {
     (p, w) \<leftarrow> WinPolling_new service (is_world s);
     Some (s\<lparr>is_polls := (is_polls s)(i \<mapsto> p), is_world := w\<rparr>) }"
| "poll_exec (InitP i os n) s = call_poll i (WinPolling_Init os n) s"
| "poll_exec (StartP i) s = call_poll i WinPolling_Start s"
| "poll_exec (ShutdownP i) s = do {
     p \<leftarrow> is_polls s i;
     (p, w) \<leftarrow> WinPolling_Shutdown p (is_world s);
     Some (s\<lparr>is_polls := (is_polls s)(i \<mapsto> p), is_world := w\<rparr>) }"
| "poll_exec (AddP i added sock key type) s = call_poll i (WinPolling_Add added sock key type) s"
| "poll_exec (ModifyP i added sock key type) s = call_poll i (WinPolling_Modify added sock key type) s"
| "poll_exec (DeleteP i sock type) s = call_poll i (WinPolling_Delete sock type) s"
| "poll_exec (TimeoutP i b) s = call_poll i (WinPolling_EnableTimeoutCheck b) s"
| "poll_exec (DestroyP i) s = do {
     p \<leftarrow> is_polls s i;
     w \<leftarrow> WinPolling_dtor p (is_world s);
     Some (s\<lparr>is_polls := (is_polls s)(i := None), is_world := w\<rparr>) }"

text \<open>What the callers respect: objects are created once and used while they exist, there are fewer than
  \<open>2 ^ 31 - 1\<close> of them, and the threads of a port are started once.\<close>

fun poll_allowed :: "poll_op \<Rightarrow> iocp_sys \<Rightarrow> bool" where
  "poll_allowed (NewP i service) s \<longleftrightarrow> is_polls s i = None \<and> i < 2147483646"
| "poll_allowed (StartP i) s \<longleftrightarrow> (\<exists>p. is_polls s i = Some p \<and> (wp_instance_id p = 1 \<longrightarrow>
     (\<forall>obj \<in> ran (ww_objs (is_world s)). startable (ia_iocp obj))))"
| "poll_allowed (InitP i os n) s \<longleftrightarrow> is_polls s i \<noteq> None"
| "poll_allowed (ShutdownP i) s \<longleftrightarrow> is_polls s i \<noteq> None"
| "poll_allowed (AddP i added sock key type) s \<longleftrightarrow> is_polls s i \<noteq> None"
| "poll_allowed (ModifyP i added sock key type) s \<longleftrightarrow> is_polls s i \<noteq> None"
| "poll_allowed (DeleteP i sock type) s \<longleftrightarrow> is_polls s i \<noteq> None"
| "poll_allowed (TimeoutP i b) s \<longleftrightarrow> is_polls s i \<noteq> None"
| "poll_allowed (DestroyP i) s \<longleftrightarrow> is_polls s i \<noteq> None"

text \<open>The adaptor at \<open>a\<close> belongs to all polling objects together; at most one of them controls it, and it
  runs only while that one has not been shut down.\<close>

definition shared_ok :: "iocp_sys \<Rightarrow> addr \<Rightarrow> IocpThreadAdaptor \<Rightarrow> bool" where
  "shared_ok s a obj \<longleftrightarrow> ww_adaptor (is_world s) = Some a \<and> ww_objs (is_world s) = [a \<mapsto> obj]
     \<and> ww_refs (is_world s) = [a \<mapsto> of_nat (card (dom (is_polls s)))] \<and> iocp_thread_ok (ia_iocp obj)
     \<and> count_list (ww_acts (is_world s)) CreatePort = count_list (ww_acts (is_world s)) CloseHandle + held (ia_iocp obj)
     \<and> (\<forall>p \<in> ran (is_polls s). wp_impl p = Some a \<and> 0 \<le> wp_instance_id p)
     \<and> (\<forall>i j p q. is_polls s i = Some p \<and> is_polls s j = Some q \<and> wp_instance_id p = 1 \<and> wp_instance_id q = 1 \<longrightarrow> i = j)
     \<and> (\<not> iw_shutdown (ia_iocp obj) \<longrightarrow> (\<exists>p \<in> ran (is_polls s). wp_instance_id p = 1))"

definition unused_ok :: "iocp_world \<Rightarrow> bool" where
  "unused_ok w \<longleftrightarrow> ww_refs w = Map.empty \<and> ww_objs w = Map.empty
     \<and> count_list (ww_acts w) CreatePort = count_list (ww_acts w) CloseHandle"

definition registry_ok :: "iocp_sys \<Rightarrow> bool" where
  "registry_ok s \<longleftrightarrow> dom (is_polls s) \<subseteq> {..<2147483646} \<and> ww_count (is_world s) = int (card (dom (is_polls s)))
     \<and> (if is_polls s = Map.empty then unused_ok (is_world s) else (\<exists>a obj. shared_ok s a obj))"

lemma registry_card:
  assumes "registry_ok s"
  shows "finite (dom (is_polls s))" and "card (dom (is_polls s)) \<le> 2147483646"
proof -
  have sub: "dom (is_polls s) \<subseteq> {..<2147483646}" using assms by (simp add: registry_ok_def)
  then show "finite (dom (is_polls s))" by (rule finite_subset) simp
  from card_mono [OF _ sub] show "card (dom (is_polls s)) \<le> 2147483646" by simp
qed

lemma registry_live:
  assumes "registry_ok s" and "is_polls s i = Some p"
  obtains a obj where "shared_ok s a obj" and "wp_impl p = Some a" and "0 \<le> wp_instance_id p"
proof -
  have "is_polls s \<noteq> Map.empty" using assms(2) by auto
  then obtain a obj where "shared_ok s a obj" using assms(1) by (auto simp: registry_ok_def)
  moreover have "p \<in> ran (is_polls s)" using assms(2) by (rule ranI)
  ultimately show thesis using that by (auto simp: shared_ok_def)
qed

text \<open>A call on the adaptor that keeps it in order keeps everything in order.\<close>

lemma on_impl_ok:
  assumes ok: "registry_ok s" and p: "is_polls s i = Some p"
    and f: "\<And>obj. iocp_thread_ok (ia_iocp obj) \<Longrightarrow> ww_objs (is_world s) (the (wp_impl p)) = Some obj \<Longrightarrow>
      \<exists>r acts obj'. f obj = Some (r, acts, obj') \<and> iocp_thread_ok (ia_iocp obj') \<and> balanced (ia_iocp obj) acts (ia_iocp obj')
        \<and> (\<not> iw_shutdown (ia_iocp obj') \<longrightarrow> \<not> iw_shutdown (ia_iocp obj) \<or> wp_instance_id p = 1)"
  shows "\<exists>r w. on_impl p f (is_world s) = Some (r, w) \<and> registry_ok (s\<lparr>is_world := w\<rparr>)"
proof -
  obtain a obj where a: "shared_ok s a obj" "wp_impl p = Some a" using registry_live [OF ok p] by blast
  have o: "ww_objs (is_world s) a = Some obj" "iocp_thread_ok (ia_iocp obj)" using a(1) by (simp_all add: shared_ok_def)
  with f a(2) obtain r acts obj' where f': "f obj = Some (r, acts, obj')" "iocp_thread_ok (ia_iocp obj')"
    "balanced (ia_iocp obj) acts (ia_iocp obj')"
    "\<not> iw_shutdown (ia_iocp obj') \<longrightarrow> \<not> iw_shutdown (ia_iocp obj) \<or> wp_instance_id p = 1" by fastforce
  define w where "w = is_world s\<lparr>ww_objs := (ww_objs (is_world s))(a \<mapsto> obj'), ww_acts := ww_acts (is_world s) @ acts\<rparr>"
  have "on_impl p f (is_world s) = Some (r, w)" using a(2) o(1) f'(1) by (simp add: on_impl_def w_def)
  moreover have "shared_ok (s\<lparr>is_world := w\<rparr>) a obj'"
    using a(1) f'(2-4) ranI [of "is_polls s", OF p] by (auto simp: shared_ok_def w_def balanced_def)
  then have "registry_ok (s\<lparr>is_world := w\<rparr>)" using ok p by (auto simp: registry_ok_def w_def)
  ultimately show ?thesis by blast
qed

lemma call_poll_ok:
  assumes "registry_ok s" and "is_polls s i = Some p"
    and "\<exists>r w. f p (is_world s) = Some (r, w) \<and> registry_ok (s\<lparr>is_world := w\<rparr>)"
  shows "\<exists>s'. call_poll i f s = Some s' \<and> registry_ok s'"
  using assms by (auto simp: call_poll_def)

lemma adaptor_calls_ok:
  assumes "registry_ok s" and "is_polls s i = Some p"
  shows "\<exists>r w. WinPolling_Init os n p (is_world s) = Some (r, w) \<and> registry_ok (s\<lparr>is_world := w\<rparr>)"
    and "\<exists>r w. WinPolling_Add added sock key type p (is_world s) = Some (r, w) \<and> registry_ok (s\<lparr>is_world := w\<rparr>)"
    and "\<exists>r w. WinPolling_Delete sock type p (is_world s) = Some (r, w) \<and> registry_ok (s\<lparr>is_world := w\<rparr>)"
    and "\<exists>r w. WinPolling_EnableTimeoutCheck b p (is_world s) = Some (r, w) \<and> registry_ok (s\<lparr>is_world := w\<rparr>)"
proof -
  have same: "balanced t [AddSocket x y] t" "balanced t [] t" for t x y by (simp_all add: balanced_def)
  show "\<exists>r w. WinPolling_Init os n p (is_world s) = Some (r, w) \<and> registry_ok (s\<lparr>is_world := w\<rparr>)"
  proof (cases "wp_instance_id p = 1")
    case True
    have "\<exists>r w. on_impl p (\<lambda>a. Some (IocpThreadAdaptor_Init os n a)) (is_world s) = Some (r, w) \<and> registry_ok (s\<lparr>is_world := w\<rparr>)"
      by (rule on_impl_ok [OF assms])
        (use IocpThread_Init_ok [of _ os n] True in \<open>auto simp: IocpThreadAdaptor_Init_def split: prod.splits\<close>)
    with True show ?thesis by (simp add: WinPolling_Init_def)
  qed (use assms in \<open>simp add: WinPolling_Init_def\<close>)
  show "\<exists>r w. WinPolling_Add added sock key type p (is_world s) = Some (r, w) \<and> registry_ok (s\<lparr>is_world := w\<rparr>)"
  proof (cases "wp_instance_id p = 0")
    case False
    have "\<exists>r w. on_impl p (\<lambda>a. Some (IocpThreadAdaptor_Add added sock key type (wp_service p) a)) (is_world s) = Some (r, w)
        \<and> registry_ok (s\<lparr>is_world := w\<rparr>)"
      by (rule on_impl_ok [OF assms])
        (auto simp: IocpThreadAdaptor_Add_def IocpThread_Add_def Iocp_add_def same)
    with False show ?thesis by (simp add: WinPolling_Add_def)
  qed (use assms in \<open>auto simp: WinPolling_Add_def\<close>)
  show "\<exists>r w. WinPolling_Delete sock type p (is_world s) = Some (r, w) \<and> registry_ok (s\<lparr>is_world := w\<rparr>)"
  proof (cases "wp_instance_id p = 0")
    case False
    have "\<exists>r w. on_impl p (\<lambda>a. Some (True, [], IocpThreadAdaptor_Delete sock type a)) (is_world s) = Some (r, w)
        \<and> registry_ok (s\<lparr>is_world := w\<rparr>)"
      by (rule on_impl_ok [OF assms]) (auto simp: IocpThreadAdaptor_Delete_def same split: option.splits)
    with False show ?thesis by (simp add: WinPolling_Delete_def)
  qed (use assms in \<open>auto simp: WinPolling_Delete_def\<close>)
  show "\<exists>r w. WinPolling_EnableTimeoutCheck b p (is_world s) = Some (r, w) \<and> registry_ok (s\<lparr>is_world := w\<rparr>)"
  proof (cases "wp_instance_id p = 0")
    case False
    have "\<exists>r w. on_impl p (\<lambda>a. Some ((), [], IocpThreadAdaptor_EnableTimeoutCheck (wp_service p) b a)) (is_world s) = Some (r, w)
        \<and> registry_ok (s\<lparr>is_world := w\<rparr>)"
      by (rule on_impl_ok [OF assms]) (auto simp: IocpThreadAdaptor_EnableTimeoutCheck_def same)
    with False show ?thesis by (simp add: WinPolling_EnableTimeoutCheck_def)
  qed (use assms in \<open>simp add: WinPolling_EnableTimeoutCheck_def\<close>)
qed

lemma Modify_is_Add: "WinPolling_Modify = WinPolling_Add"
  by (intro ext) (simp add: WinPolling_Modify_def WinPolling_Add_def IocpThreadAdaptor_Modify_def)

lemma Start_registry_ok:
  assumes "registry_ok s" and "is_polls s i = Some p" and "poll_allowed (StartP i) s"
  shows "\<exists>r w. WinPolling_Start p (is_world s) = Some (r, w) \<and> registry_ok (s\<lparr>is_world := w\<rparr>)"
proof (cases "wp_instance_id p = 1")
  case True
  have "\<exists>r w. on_impl p (\<lambda>a. do { (e, a) \<leftarrow> IocpThreadAdaptor_Start a; Some (e, [], a) }) (is_world s) = Some (r, w)
      \<and> registry_ok (s\<lparr>is_world := w\<rparr>)"
  proof (rule on_impl_ok [OF assms(1,2)])
    fix obj
    assume o: "iocp_thread_ok (ia_iocp obj)" "ww_objs (is_world s) (the (wp_impl p)) = Some obj"
    have "startable (ia_iocp obj)" using assms(2,3) True ranI [of "ww_objs (is_world s)", OF o(2)] by auto
    from IocpThread_Start_ok [OF o(1) this] obtain e t where "IocpThread_Start (ia_iocp obj) = Some (e, t)" "iocp_thread_ok t"
      "balanced (ia_iocp obj) [] t" by blast
    with True show "\<exists>r acts obj'. (do { (e, a) \<leftarrow> IocpThreadAdaptor_Start obj; Some (e, [], a) }) = Some (r, acts, obj')
        \<and> iocp_thread_ok (ia_iocp obj') \<and> balanced (ia_iocp obj) acts (ia_iocp obj')
        \<and> (\<not> iw_shutdown (ia_iocp obj') \<longrightarrow> \<not> iw_shutdown (ia_iocp obj) \<or> wp_instance_id p = 1)"
      by (simp add: IocpThreadAdaptor_Start_def)
  qed
  with True show ?thesis by (simp add: WinPolling_Start_def)
qed (use assms in \<open>simp add: WinPolling_Start_def\<close>)

lemma New_registry_ok:
  assumes "registry_ok s" and "is_polls s i = None" and "i < 2147483646"
  shows "\<exists>p w. WinPolling_new service (is_world s) = Some (p, w) \<and> registry_ok (s\<lparr>is_polls := (is_polls s)(i \<mapsto> p), is_world := w\<rparr>)
    \<and> wp_instance_id p = int (card (dom (is_polls s))) + 1"
proof -
  let ?n = "card (dom (is_polls s))"
  note fin = registry_card [OF assms(1)]
  have cnt: "ww_count (is_world s) = int ?n" using assms(1) by (simp add: registry_ok_def)
  have lt: "?n < 2147483646"
  proof -
    have "dom (is_polls s) \<subseteq> {..<2147483646}" "i \<notin> dom (is_polls s)" using assms(1,2) by (auto simp: registry_ok_def)
    then have "dom (is_polls s) \<subset> {..<2147483646}" using assms(3) by blast
    from psubset_card_mono [OF _ this] show ?thesis by simp
  qed
  have i32: "to_i32 (int ?n + 1) = int ?n + 1" using lt by (intro to_i32_id) auto
  have card: "card (insert i (dom (is_polls s))) = Suc ?n" using fin(1) assms(2) by (simp add: card_insert_if domIff)
  have z: "?n = 0 \<longleftrightarrow> is_polls s = Map.empty" using fin(1) by simp
  show ?thesis
  proof (cases "is_polls s = Map.empty")
    case True
    with assms(1) z have u: "unused_ok (is_world s)" "?n = 0" by (simp_all add: registry_ok_def)
    let ?a = "ww_fresh (is_world s)"
    let ?p = "\<lparr>wp_service = service, wp_impl = Some ?a, wp_enable_timeout_check = False, wp_instance_id = 1\<rparr>"
    let ?w = "is_world s\<lparr>ww_fresh := ?a + 1, ww_refs := [?a \<mapsto> 1], ww_objs := [?a \<mapsto> IocpThreadAdaptor_new],
      ww_adaptor := Some ?a, ww_count := 1\<rparr>"
    have "WinPolling_new service (is_world s) = Some (?p, ?w)"
      using cnt i32 u by (simp add: WinPolling_new_def Let_def unused_ok_def)
    moreover have "shared_ok (s\<lparr>is_polls := (is_polls s)(i \<mapsto> ?p), is_world := ?w\<rparr>) ?a IocpThreadAdaptor_new"
      using True u by (auto simp: shared_ok_def unused_ok_def IocpThreadAdaptor_new_def IocpThread_new_ok)
    then have "registry_ok (s\<lparr>is_polls := (is_polls s)(i \<mapsto> ?p), is_world := ?w\<rparr>)"
      using True assms(3) by (auto simp: registry_ok_def)
    ultimately show ?thesis using u by auto
  next
    case False
    then obtain a obj where a: "shared_ok s a obj" using assms(1) by (auto simp: registry_ok_def)
    have w: "(of_nat ?n :: u64) \<noteq> 0"
    proof
      assume "(of_nat ?n :: u64) = 0"
      then have "unat (of_nat ?n :: u64) = 0" by simp
      moreover have "unat (of_nat ?n :: u64) = ?n" using lt by (simp add: unat_of_nat)
      ultimately show False using False z by simp
    qed
    let ?p = "\<lparr>wp_service = service, wp_impl = Some a, wp_enable_timeout_check = False, wp_instance_id = int ?n + 1\<rparr>"
    let ?w = "is_world s\<lparr>ww_refs := [a \<mapsto> of_nat ?n + 1], ww_count := int ?n + 1\<rparr>"
    have "WinPolling_new service (is_world s) = Some (?p, ?w)"
      using a w cnt i32 z False
      by (simp add: WinPolling_new_def shared_ok_def RefCounted_RefIfNonZero_def RefCount_RefIfNonZero_def Let_def)
    moreover have "shared_ok (s\<lparr>is_polls := (is_polls s)(i \<mapsto> ?p), is_world := ?w\<rparr>) a obj"
      using a z False card assms(2) by (auto simp: shared_ok_def add.commute)
    then have "registry_ok (s\<lparr>is_polls := (is_polls s)(i \<mapsto> ?p), is_world := ?w\<rparr>)"
      using assms(1,3) card by (auto simp: registry_ok_def)
    ultimately show ?thesis by auto
  qed
qed

lemma Shutdown_registry_ok:
  assumes "registry_ok s" and "is_polls s i = Some p"
  shows "\<exists>w. WinPolling_Shutdown p (is_world s) = Some (p\<lparr>wp_instance_id := 0\<rparr>, w)
    \<and> registry_ok (s\<lparr>is_polls := (is_polls s)(i \<mapsto> p\<lparr>wp_instance_id := 0\<rparr>), is_world := w\<rparr>)"
proof -
  let ?p = "p\<lparr>wp_instance_id := 0\<rparr>"
  obtain a obj where a: "shared_ok s a obj" "wp_impl p = Some a" "0 \<le> wp_instance_id p"
    using registry_live [OF assms] by blast
  obtain acts t where t: "IocpThread_Shutdown (ia_iocp obj) = Some (acts, t)" "iocp_thread_ok t" "iw_shutdown t"
    "held t = held (ia_iocp obj)" "count_list acts CreatePort = 0" "count_list acts CloseHandle = 0"
    using IocpThread_Shutdown_ok [of "ia_iocp obj"] a(1) by (auto simp: shared_ok_def)
  have dom: "dom ((is_polls s)(i \<mapsto> ?p)) = dom (is_polls s)" using assms(2) by auto
  have ne: "is_polls s \<noteq> Map.empty" using assms(2) by auto
  show ?thesis
  proof (cases "wp_instance_id p = 1")
    case True
    define w where "w = is_world s\<lparr>ww_objs := [a \<mapsto> obj\<lparr>ia_iocp := t\<rparr>], ww_acts := ww_acts (is_world s) @ acts\<rparr>"
    have run: "WinPolling_Shutdown p (is_world s) = Some (?p, w)"
      using a t(1) True by (simp add: WinPolling_Shutdown_def on_impl_def IocpThreadAdaptor_Shutdown_def shared_ok_def w_def)
    have "shared_ok (s\<lparr>is_polls := (is_polls s)(i \<mapsto> ?p), is_world := w\<rparr>) a (obj\<lparr>ia_iocp := t\<rparr>)"
      using a t(2-6) dom by (auto simp: shared_ok_def w_def ran_def)
    with run show ?thesis using assms(1) dom by (auto simp: registry_ok_def w_def)
  next
    case False
    then have run: "WinPolling_Shutdown p (is_world s) = Some (?p, is_world s)"
      by (cases p) (auto simp: WinPolling_Shutdown_def)
    have "shared_ok (s\<lparr>is_polls := (is_polls s)(i \<mapsto> ?p), is_world := is_world s\<rparr>) a obj"
      using a False assms(2) dom unfolding shared_ok_def
      by (auto simp: ran_def split: if_splits) (metis option.inject)
    with run show ?thesis using assms(1) dom by (auto simp: registry_ok_def)
  qed
qed

lemma Unref_count:
  assumes "0 < n" and "n < size_lim"
  shows "RefCounted_Unref a [a \<mapsto> of_nat n] = Some (if n = 1 then Map.empty else [a \<mapsto> of_nat (n - 1)])"
  using assms of_nat_is_1 [of n] by (auto simp: RefCounted_Unref_def RefCount_Unref_def of_nat_diff)

text \<open>Dropping an object that does not control the adaptor.\<close>

lemma Destroy_registry_ok:
  assumes "registry_ok s" and "is_polls s i = Some p"
  shows "\<exists>w. WinPolling_dtor p (is_world s) = Some w \<and> registry_ok (s\<lparr>is_polls := (is_polls s)(i := None), is_world := w\<rparr>)"
proof -
  let ?p = "p\<lparr>wp_instance_id := 0\<rparr>" and ?n = "card (dom (is_polls s))"
  obtain w1 where w1: "WinPolling_Shutdown p (is_world s) = Some (?p, w1)"
    "registry_ok (s\<lparr>is_polls := (is_polls s)(i \<mapsto> ?p), is_world := w1\<rparr>)" (is "registry_ok ?s")
    using Shutdown_registry_ok [OF assms] by blast
  have dom: "insert i (dom (is_polls s)) = dom (is_polls s)" using assms(2) by auto
  obtain a obj where a: "shared_ok ?s a obj" "wp_impl p = Some a" using registry_live [OF w1(2), of i ?p] by auto
  have objs: "ww_objs w1 = [a \<mapsto> obj]"
    and bal: "count_list (ww_acts w1) CreatePort = count_list (ww_acts w1) CloseHandle + held (ia_iocp obj)"
    using a(1) by (simp_all add: shared_ok_def)
  note c = registry_card [OF assms(1)]
  have pos: "0 < ?n" using c(1) assms(2) by (auto simp: card_gt_0_iff)
  have i32: "to_i32 (int ?n - 1) = int (?n - 1)" using c(2) pos by (subst to_i32_id) auto
  have unref: "RefCounted_Unref a (ww_refs w1) = Some (if ?n = 1 then Map.empty else [a \<mapsto> of_nat (?n - 1)])"
  proof -
    have "ww_refs w1 = [a \<mapsto> of_nat ?n]" using a(1) by (simp add: shared_ok_def dom)
    moreover have "?n < size_lim" using c(2) by linarith
    ultimately show ?thesis using Unref_count [OF pos] by simp
  qed
  have cnt: "ww_count w1 = int ?n" using w1(2) by (simp add: registry_ok_def dom)
  have rem: "card (dom (is_polls s) - {i}) = ?n - 1" using c(1) assms(2) by (simp add: domI)
  show ?thesis
  proof (cases "?n = 1")
    case True
    have "iocp_thread_ok (ia_iocp obj)" using a(1) by (simp add: shared_ok_def)
    from IocpThreadAdaptor_dtor_ok [OF this] obtain acts where
      acts: "IocpThreadAdaptor_dtor obj = Some acts" "count_list acts CreatePort = 0" "count_list acts CloseHandle = held (ia_iocp obj)"
      by blast
    define w where "w = w1\<lparr>ww_count := 0, ww_refs := Map.empty, ww_objs := Map.empty, ww_acts := ww_acts w1 @ acts\<rparr>"
    have "WinPolling_dtor p (is_world s) = Some w"
      using a(2) objs w1(1) unref True acts(1) cnt i32 by (simp add: WinPolling_dtor_def w_def)
    moreover have "dom ((is_polls s)(i := None)) = {}" using rem True c(1) by simp
    then have "(is_polls s)(i := None) = Map.empty" by (simp only: dom_eq_empty_conv)
    then have "registry_ok (s\<lparr>is_polls := (is_polls s)(i := None), is_world := w\<rparr>)"
      using bal acts by (simp add: registry_ok_def unused_ok_def w_def)
    ultimately show ?thesis by blast
  next
    case False
    define w where "w = w1\<lparr>ww_count := int (?n - 1), ww_refs := [a \<mapsto> of_nat (?n - 1)]\<rparr>"
    have run: "WinPolling_dtor p (is_world s) = Some w"
      using a(2) objs w1(1) unref False cnt i32 by (simp add: WinPolling_dtor_def w_def)
    let ?m = "(is_polls s)(i \<mapsto> ?p)" and ?m' = "(is_polls s)(i := None)"
    have sub: "?m j = Some q" if "?m' j = Some q" for j q using that by (auto split: if_splits)
    have ran: "ran ?m' \<subseteq> ran ?m" "\<And>q. q \<in> ran ?m \<Longrightarrow> wp_instance_id q = 1 \<Longrightarrow> q \<in> ran ?m'"
      by (auto simp: ran_def split: if_splits)
    have facts: "ww_adaptor w1 = Some a" "iocp_thread_ok (ia_iocp obj)" "\<forall>q \<in> ran ?m. wp_impl q = Some a \<and> 0 \<le> wp_instance_id q"
      "\<forall>i j p q. ?m i = Some p \<and> ?m j = Some q \<and> wp_instance_id p = 1 \<and> wp_instance_id q = 1 \<longrightarrow> i = j"
      "\<not> iw_shutdown (ia_iocp obj) \<longrightarrow> (\<exists>q \<in> ran ?m. wp_instance_id q = 1)"
    proof -
      have sel: "is_polls ?s = ?m" "is_world ?s = w1" by simp_all
      show "ww_adaptor w1 = Some a" "iocp_thread_ok (ia_iocp obj)" "\<forall>q \<in> ran ?m. wp_impl q = Some a \<and> 0 \<le> wp_instance_id q"
        "\<forall>i j p q. ?m i = Some p \<and> ?m j = Some q \<and> wp_instance_id p = 1 \<and> wp_instance_id q = 1 \<longrightarrow> i = j"
        "\<not> iw_shutdown (ia_iocp obj) \<longrightarrow> (\<exists>q \<in> ran ?m. wp_instance_id q = 1)"
        using a(1) unfolding shared_ok_def sel by blast+
    qed
    define t where "t = s\<lparr>is_polls := ?m', is_world := w\<rparr>"
    have sel: "is_polls t = ?m'" "is_world t = w" by (simp_all add: t_def)
    have "shared_ok t a obj"
      unfolding shared_ok_def sel
    proof (intro conjI)
      show "\<forall>ia j p q. ?m' ia = Some p \<and> ?m' j = Some q \<and> wp_instance_id p = 1 \<and> wp_instance_id q = 1 \<longrightarrow> ia = j"
        using facts(4) sub by blast
    qed (use facts(1-3,5) ran rem objs bal in \<open>auto simp: w_def\<close>)
    moreover have "(is_polls s)(i := None) \<noteq> Map.empty"
      using rem False pos by (auto dest: arg_cong [where f = "\<lambda>m. card (dom m)"])
    ultimately have "registry_ok (s\<lparr>is_polls := (is_polls s)(i := None), is_world := w\<rparr>)"
      using assms(1) rem by (auto simp: registry_ok_def w_def t_def)
    with run show ?thesis by blast
  qed
qed

lemma poll_exec_ok:
  assumes "registry_ok s" and "poll_allowed c s"
  shows "\<exists>s'. poll_exec c s = Some s' \<and> registry_ok s'"
proof (cases c)
  case (NewP i service)
  with New_registry_ok [OF assms(1), of i service] assms(2) show ?thesis by auto
next
  case (InitP i os n)
  with assms obtain p where "is_polls s i = Some p" by auto
  with call_poll_ok [of s i p "WinPolling_Init os n", OF assms(1) this adaptor_calls_ok(1) [OF assms(1) this]] InitP show ?thesis by simp
next
  case (StartP i)
  with assms obtain p where "is_polls s i = Some p" by auto
  with call_poll_ok [of s i p WinPolling_Start, OF assms(1) this Start_registry_ok [OF assms(1) this]] assms(2) StartP show ?thesis by simp
next
  case (ShutdownP i)
  with assms obtain p where "is_polls s i = Some p" by auto
  with Shutdown_registry_ok [OF assms(1) this] ShutdownP show ?thesis by auto
next
  case (AddP i added sock key type)
  with assms obtain p where "is_polls s i = Some p" by auto
  with call_poll_ok [of s i p "WinPolling_Add added sock key type", OF assms(1) this adaptor_calls_ok(2) [OF assms(1) this]] AddP show ?thesis by simp
next
  case (ModifyP i added sock key type)
  with assms obtain p where "is_polls s i = Some p" by auto
  with call_poll_ok [of s i p "WinPolling_Add added sock key type", OF assms(1) this adaptor_calls_ok(2) [OF assms(1) this]] ModifyP show ?thesis by (simp add: Modify_is_Add)
next
  case (DeleteP i sock type)
  with assms obtain p where "is_polls s i = Some p" by auto
  with call_poll_ok [of s i p "WinPolling_Delete sock type", OF assms(1) this adaptor_calls_ok(3) [OF assms(1) this]] DeleteP show ?thesis by simp
next
  case (TimeoutP i b)
  with assms obtain p where "is_polls s i = Some p" by auto
  with call_poll_ok [of s i p "WinPolling_EnableTimeoutCheck b", OF assms(1) this adaptor_calls_ok(4) [OF assms(1) this]] TimeoutP show ?thesis by simp
next
  case (DestroyP i)
  with assms obtain p where "is_polls s i = Some p" by auto
  with Destroy_registry_ok [OF assms(1) this] DestroyP show ?thesis by auto
qed

section \<open>Reachable states\<close>

definition iocp_sys_start :: iocp_sys where
  "iocp_sys_start = \<lparr>is_polls = Map.empty, is_world = iocp_start\<rparr>"

inductive poll_reach :: "iocp_sys \<Rightarrow> bool" where
  start: "poll_reach iocp_sys_start"
| step: "poll_reach s \<Longrightarrow> poll_allowed c s \<Longrightarrow> poll_exec c s = Some s' \<Longrightarrow> poll_reach s'"

lemma poll_reach_ok: "poll_reach s \<Longrightarrow> registry_ok s"
proof (induction rule: poll_reach.induct)
  case start
  show ?case by (simp add: registry_ok_def iocp_sys_start_def iocp_start_def unused_ok_def)
next
  case (step s c s')
  with poll_exec_ok [of s c] show ?case by auto
qed

text \<open>An object controls the port while it is the one created first and not shut down; further steps
  that never leave the process without polling objects.\<close>

definition controlled :: "iocp_sys \<Rightarrow> bool" where
  "controlled s \<longleftrightarrow> (\<exists>p \<in> ran (is_polls s). wp_instance_id p = 1)"

inductive poll_steps :: "iocp_sys \<Rightarrow> iocp_sys \<Rightarrow> bool" where
  stay: "is_polls s \<noteq> Map.empty \<Longrightarrow> poll_steps s s"
| step: "poll_steps s t \<Longrightarrow> poll_allowed c t \<Longrightarrow> poll_exec c t = Some u \<Longrightarrow> is_polls u \<noteq> Map.empty \<Longrightarrow> poll_steps s u"

lemma poll_steps_reach: "poll_steps s t \<Longrightarrow> poll_reach s \<Longrightarrow> poll_reach t \<and> is_polls t \<noteq> Map.empty"
  by (induction rule: poll_steps.induct) (auto intro: poll_reach.step)

lemma uncontrolled_step:
  assumes "registry_ok s" and "is_polls s \<noteq> Map.empty" and "\<not> controlled s" and "poll_allowed c s" and "poll_exec c s = Some s'"
  shows "\<not> controlled s'"
proof (cases c)
  case (NewP i service)
  then obtain p w where n: "WinPolling_new service (is_world s) = Some (p, w)" "s' = s\<lparr>is_polls := (is_polls s)(i \<mapsto> p), is_world := w\<rparr>"
    "is_polls s i = None" "i < 2147483646" using assms(4,5) by auto
  have "wp_instance_id p = int (card (dom (is_polls s))) + 1"
    using New_registry_ok [OF assms(1) n(3,4), of service] n(1) by auto
  moreover have "0 < card (dom (is_polls s))" using registry_card(1) [OF assms(1)] assms(2) by (auto simp: card_gt_0_iff)
  ultimately show ?thesis using assms(3) n(2,3) by (simp add: controlled_def)
next
  case (ShutdownP i)
  then obtain p w q where "is_polls s i = Some p" "WinPolling_Shutdown p (is_world s) = Some (q, w)"
    "s' = s\<lparr>is_polls := (is_polls s)(i \<mapsto> q), is_world := w\<rparr>" using assms(5) by auto
  moreover have "wp_instance_id q = 0" using calculation(1,2) Shutdown_registry_ok [OF assms(1)] by fastforce
  ultimately show ?thesis using assms(3) by (auto simp: controlled_def ran_def split: if_splits)
next
  case (DestroyP i)
  then have "ran (is_polls s') \<subseteq> ran (is_polls s)" using assms(5) by (auto simp: ran_def split: if_splits)
  then show ?thesis using assms(3) by (auto simp: controlled_def)
qed (use assms(3,5) in \<open>auto simp: call_poll_def controlled_def\<close>)

lemma poll_steps_uncontrolled:
  assumes "poll_steps s t" and "poll_reach s" and "\<not> controlled s"
  shows "\<not> controlled t"
  using assms
proof (induction rule: poll_steps.induct)
  case (step s t c u)
  then have "poll_reach t" "is_polls t \<noteq> Map.empty" using poll_steps_reach by blast+
  with step uncontrolled_step [of t c u] poll_reach_ok [of t] show ?case by blast
qed

lemma WorkThread_Nil: "WorkThread olex on_event on_timeout check [] = Some"
  by (intro ext) simp

lemma WorkThread_no_timeout:
  "WorkThread olex on_event on_timeout False rs s = WorkThread olex on_event on_timeout' False rs s"
proof (induction rs arbitrary: s)
  case (Cons r rs)
  have "WorkThread olex on_event on_timeout False rs = WorkThread olex on_event on_timeout' False rs"
    by (intro ext) (rule Cons.IH)
  then show ?case by simp
qed simp

section \<open>Properties\<close>

text \<open>
  C26. In every state a process reaches through its polling objects: every call that is allowed returns,
  so that no assertion fails and the shared adaptor is never used after it was deleted; as long as
  there are polling objects, each of them refers to the one adaptor and its count is their number;
  and when the last one has been destroyed no adaptor is left and as many ports were closed as opened.
\<close>

theorem iocp_registry_safe:
  assumes "poll_reach s"
  shows "(poll_allowed c s \<longrightarrow> poll_exec c s \<noteq> None)
    \<and> (if is_polls s = Map.empty
       then ww_objs (is_world s) = Map.empty
         \<and> count_list (ww_acts (is_world s)) CreatePort = count_list (ww_acts (is_world s)) CloseHandle
       else \<exists>a obj. ww_objs (is_world s) = [a \<mapsto> obj] \<and> (\<forall>p \<in> ran (is_polls s). wp_impl p = Some a)
         \<and> ww_refs (is_world s) = [a \<mapsto> of_nat (card (dom (is_polls s)))])"
proof -
  note ok = poll_reach_ok [OF assms]
  have "poll_allowed c s \<longrightarrow> poll_exec c s \<noteq> None" using poll_exec_ok [OF ok, of c] by auto
  moreover have "\<exists>a obj. ww_objs (is_world s) = [a \<mapsto> obj] \<and> (\<forall>p \<in> ran (is_polls s). wp_impl p = Some a)
      \<and> ww_refs (is_world s) = [a \<mapsto> of_nat (card (dom (is_polls s)))]" if ne: "is_polls s \<noteq> Map.empty"
  proof -
    obtain a obj where "shared_ok s a obj" using ok ne by (auto simp: registry_ok_def)
    then show ?thesis by (intro exI [of _ a] exI [of _ obj]) (simp add: shared_ok_def)
  qed
  moreover have "unused_ok (is_world s)" if "is_polls s = Map.empty" using ok that by (simp add: registry_ok_def)
  ultimately show ?thesis by (auto simp: unused_ok_def)
qed

theorem iocp_registry_safe_witness:
  "poll_exec (NewP 0 5) iocp_sys_start \<noteq> None \<and> ww_objs (is_world iocp_sys_start) = Map.empty"
  using iocp_registry_safe [OF poll_reach.start, of "NewP 0 5"] by (auto simp: iocp_sys_start_def)

text \<open>
  The object that was created first decides for all: when it has been shut down or destroyed while
  others exist, then the port has no threads from then on, whatever is called, until there is not one
  polling object left. \<open>Init\<close> of every object, also of a new one, reports success and does nothing.
\<close>

theorem iocp_dead_after_first:
  assumes "poll_reach s" and "\<not> controlled s" and "poll_steps s t"
  shows "(\<forall>obj \<in> ran (ww_objs (is_world t)). iw_shutdown (ia_iocp obj))
    \<and> (\<forall>p \<in> ran (is_polls t). WinPolling_Init os n p (is_world t) = Some (RAPTOR_ERROR_NONE, is_world t))"
proof -
  have c: "\<not> controlled t" by (rule poll_steps_uncontrolled [OF assms(3,1,2)])
  have "poll_reach t" "is_polls t \<noteq> Map.empty" using poll_steps_reach [OF assms(3,1)] by auto
  then obtain a obj where "shared_ok t a obj" using poll_reach_ok by (force simp: registry_ok_def)
  then have "\<forall>obj \<in> ran (ww_objs (is_world t)). iw_shutdown (ia_iocp obj)" using c by (auto simp: shared_ok_def controlled_def)
  with c show ?thesis by (auto simp: controlled_def WinPolling_Init_def)
qed

text \<open>Two objects are created and the first one is shut down.\<close>

lemma two_polls_reach: "\<exists>s p q. poll_reach s \<and> is_polls s = [0 \<mapsto> p, 1 \<mapsto> q] \<and> \<not> controlled s"
proof -
  obtain p s1 where s1: "poll_exec (NewP 0 5) iocp_sys_start = Some s1" "is_polls s1 = [0 \<mapsto> p]" "wp_instance_id p = 1"
    using New_registry_ok [OF poll_reach_ok [OF poll_reach.start], of 0 5] by (auto simp: iocp_sys_start_def)
  have r1: "poll_reach s1" by (rule poll_reach.step [OF poll_reach.start _ s1(1)]) (simp add: iocp_sys_start_def)
  obtain q s2 where s2: "poll_exec (NewP 1 6) s1 = Some s2" "is_polls s2 = [0 \<mapsto> p, 1 \<mapsto> q]" "wp_instance_id q = 2"
    using New_registry_ok [OF poll_reach_ok [OF r1], of 1 6] s1(2) by auto
  have r2: "poll_reach s2" by (rule poll_reach.step [OF r1 _ s2(1)]) (use s1(2) in simp)
  obtain w where w: "WinPolling_Shutdown p (is_world s2) = Some (p\<lparr>wp_instance_id := 0\<rparr>, w)"
    using Shutdown_registry_ok [OF poll_reach_ok [OF r2], of 0 p] s2(2) by auto
  define s3 where "s3 = s2\<lparr>is_polls := [0 \<mapsto> p\<lparr>wp_instance_id := 0\<rparr>, 1 \<mapsto> q], is_world := w\<rparr>"
  have s3: "poll_exec (ShutdownP 0) s2 = Some s3" using w s2(2) by (simp add: s3_def fun_upd_twist)
  have "poll_reach s3" by (rule poll_reach.step [OF r2 _ s3]) (use s2(2) in simp)
  moreover have "\<not> controlled s3" using s2(3) by (auto simp: controlled_def s3_def ran_def split: if_splits)
  ultimately show ?thesis by (intro exI [of _ s3] exI [of _ "p\<lparr>wp_instance_id := 0\<rparr>"] exI [of _ q]) (simp add: s3_def)
qed

theorem iocp_dead_after_first_witness:
  "\<exists>s p q. poll_reach s \<and> is_polls s = [0 \<mapsto> p, 1 \<mapsto> q] \<and> \<not> controlled s
     \<and> (\<forall>obj \<in> ran (ww_objs (is_world s)). iw_shutdown (ia_iocp obj))"
proof -
  obtain s p q where s: "poll_reach s" "is_polls s = [0 \<mapsto> p, 1 \<mapsto> q]" "\<not> controlled s" using two_polls_reach by blast
  have "poll_steps s s" by (rule poll_steps.stay) (use s(2) in simp)
  with iocp_dead_after_first [OF s(1,3)] s show ?thesis by blast
qed

text \<open>
  A completion for a registered socket reaches the service that registered it, with the completion key
  of the registration and the event type of the operation. A failed operation is reported with the
  same event type, without \<open>kErrorEvent\<close>, and with the handle id 0 in place of its own.
\<close>

theorem iocp_completion_routed:
  assumes "ia_interesting_event_services adaptor sock = Some info" and "olex s a = Some ol"
    and "1 \<le> sint (ol_event_type ol)" and "sint (ol_event_type ol) \<le> 17"
    and "sock \<noteq> 0"
  shows "WorkThread olex (IocpThreadAdaptor_OnEventProcess on_event adaptor) on_timeout False
      [\<lparr>ir_down = False, ir_time = now, ir_completion = \<lparr>cp_ret = ok, cp_bytes = n, cp_key = sock,
         cp_overlapped = Some (Ov a), cp_last_error = err\<rparr>\<rparr>] s
    = on_event (si_service info) \<lparr>wd_ptr = si_CompletionKey info, wd_event_type = ol_event_type ol,
        wd_error_code = (if ok then 0 else if err = 0 then - 1 else err), wd_transferred_bytes = n,
        wd_handle_id = (if ok then ol_HandleId ol else 0), wd_overlaped = a\<rparr> s"
  using assms by (simp add: WorkThread_step_def IocpThreadAdaptor_OnEventProcess_def IocpThreadAdaptor_FindEventService_def
      WorkThread_Nil)

theorem iocp_completion_routed_witness:
  "WorkThread (\<lambda>s. [9 \<mapsto> \<lparr>ol_event_type = kConnectEvent, ol_HandleId = 3\<rparr>])
     (IocpThreadAdaptor_OnEventProcess (\<lambda>service d s. Some (s @ [(service, d)]))
        (IocpThreadAdaptor_new\<lparr>ia_interesting_event_services := [7 \<mapsto> \<lparr>si_CompletionKey = 7, si_service = 5, si_event_types = kConnectEvent\<rparr>]\<rparr>))
     (\<lambda>_. Some) False
     [\<lparr>ir_down = False, ir_time = 0, ir_completion = \<lparr>cp_ret = False, cp_bytes = 0, cp_key = 7,
        cp_overlapped = Some (Ov 9), cp_last_error = 1225\<rparr>\<rparr>] []
   = Some [(5, \<lparr>wd_ptr = 7, wd_event_type = kConnectEvent, wd_error_code = 1225, wd_transferred_bytes = 0,
       wd_handle_id = 0, wd_overlaped = 9\<rparr>)]"
  by (subst iocp_completion_routed [where info = "\<lparr>si_CompletionKey = 7, si_service = 5, si_event_types = kConnectEvent\<rparr>"
        and ol = "\<lparr>ol_event_type = kConnectEvent, ol_HandleId = 3\<rparr>"]) (simp_all add: kConnectEvent_def)

text \<open>
  No timeout check ever runs: \<open>EnableTimeoutCheck\<close> of a polling object only records its service, and
  nothing sets the flag that the threads of the port look at. In every reachable state the loop of the
  threads does the same for every \<open>OnTimeoutCheck\<close>.
\<close>

theorem iocp_timeout_check_never_runs:
  assumes "poll_reach s" and "obj \<in> ran (ww_objs (is_world s))"
  shows "WorkThread olex on_event on_timeout (iw_enable_timeout_check (ia_iocp obj)) rs st
       = WorkThread olex on_event (\<lambda>_. Some) False rs st"
proof -
  have "iocp_thread_ok (ia_iocp obj)"
    using poll_reach_ok [OF assms(1)] assms(2) by (auto simp: registry_ok_def unused_ok_def shared_ok_def split: if_splits)
  then show ?thesis using WorkThread_no_timeout [of olex on_event on_timeout rs st "\<lambda>_. Some"] by (simp add: iocp_thread_ok_def)
qed

theorem iocp_timeout_check_never_runs_witness:
  "\<exists>s obj. poll_reach s \<and> obj \<in> ran (ww_objs (is_world s))
     \<and> WorkThread (\<lambda>_. Map.empty) (\<lambda>_. Some) (\<lambda>_ _. None) (iw_enable_timeout_check (ia_iocp obj)) [] (0::nat) = Some 0"
proof -
  obtain s p q where s: "poll_reach s" "is_polls s = [0 \<mapsto> p, 1 \<mapsto> q]" using two_polls_reach by blast
  have "is_polls s \<noteq> Map.empty" using s(2) by simp
  then obtain a obj where "shared_ok s a obj" using poll_reach_ok [OF s(1)] by (auto simp: registry_ok_def)
  then have "obj \<in> ran (ww_objs (is_world s))" by (simp add: shared_ok_def)
  with s(1) iocp_timeout_check_never_runs [OF s(1) this] show ?thesis by auto
qed

section \<open>Calls with a result\<close>

text \<open>A call through the shared pointer to the polling object \<open>i\<close>; the null pointer is \<open>None\<close>.\<close>

definition poll_through ::
  "nat option \<Rightarrow> (iocp_polling \<Rightarrow> iocp_world \<Rightarrow> ('r \<times> iocp_world) option) \<Rightarrow> iocp_sys \<Rightarrow> ('r \<times> iocp_sys) option" where
  "poll_through i f s = do {
     i \<leftarrow> i;
     p \<leftarrow> is_polls s i;
     (r, w) \<leftarrow> f p (is_world s);
     Some (r, s\<lparr>is_world := w\<rparr>) }"

text \<open>\<open>_poll_thread = std::make_shared<PollingThread>(this)\<close>: the new object is made before the one the pointer
  held is released.\<close>

definition replace_win_poll :: "nat option \<Rightarrow> nat \<Rightarrow> addr \<Rightarrow> iocp_sys \<Rightarrow> iocp_sys option" where
  "replace_win_poll old i service s = do {
     s \<leftarrow> poll_exec (NewP i service) s;
     case old of None \<Rightarrow> Some s | Some j \<Rightarrow> poll_exec (DestroyP j) s }"

lemma poll_through_ok:
  assumes "registry_ok s" and "is_polls s i = Some p"
  shows "\<exists>e s'. poll_through (Some i) (WinPolling_Init os n) s = Some (e, s') \<and> registry_ok s' \<and> is_polls s' = is_polls s"
    and "\<exists>r s'. poll_through (Some i) (WinPolling_Add added sock key type) s = Some (r, s') \<and> registry_ok s' \<and> is_polls s' = is_polls s"
    and "\<exists>r s'. poll_through (Some i) (WinPolling_Delete sock type) s = Some (r, s') \<and> registry_ok s' \<and> is_polls s' = is_polls s"
    and "\<exists>r s'. poll_through (Some i) (WinPolling_EnableTimeoutCheck b) s = Some (r, s') \<and> registry_ok s' \<and> is_polls s' = is_polls s"
  using adaptor_calls_ok [OF assms] assms(2) by (fastforce simp: poll_through_def)+

lemma poll_through_Start_ok:
  assumes "registry_ok s" and "is_polls s i = Some p" and "poll_allowed (StartP i) s"
  shows "\<exists>e s'. poll_through (Some i) WinPolling_Start s = Some (e, s') \<and> registry_ok s' \<and> is_polls s' = is_polls s"
  using Start_registry_ok [OF assms] assms(2) by (fastforce simp: poll_through_def)

lemma poll_shutdown_ok:
  assumes "registry_ok s" and "is_polls s i = Some p"
  shows "\<exists>s'. poll_exec (ShutdownP i) s = Some s' \<and> registry_ok s' \<and> is_polls s' = (is_polls s)(i \<mapsto> p\<lparr>wp_instance_id := 0\<rparr>)"
  using Shutdown_registry_ok [OF assms] assms(2) by fastforce

text \<open>The new object controls the port only when there was no polling object before.\<close>

lemma replace_win_poll_ok:
  assumes "registry_ok s" and "is_polls s i = None" and "i < 2147483646" and "old = None \<or> (\<exists>j q. old = Some j \<and> is_polls s j = Some q)"
  shows "\<exists>p s'. replace_win_poll old i service s = Some s' \<and> registry_ok s' \<and> is_polls s' i = Some p
    \<and> wp_instance_id p = int (card (dom (is_polls s))) + 1 \<and> dom (is_polls s') = insert i (dom (is_polls s) - set_option old)"
proof -
  obtain p w where n: "WinPolling_new service (is_world s) = Some (p, w)"
    "registry_ok (s\<lparr>is_polls := (is_polls s)(i \<mapsto> p), is_world := w\<rparr>)" (is "registry_ok ?s")
    "wp_instance_id p = int (card (dom (is_polls s))) + 1"
    using New_registry_ok [OF assms(1-3)] by blast
  show ?thesis
  proof (cases old)
    case None
    with n show ?thesis by (fastforce simp: replace_win_poll_def)
  next
    case (Some j)
    then obtain q where q: "is_polls s j = Some q" using assms(4) by auto
    then have ij: "i \<noteq> j" using assms(2) by auto
    with q have "is_polls ?s j = Some q" by simp
    from Destroy_registry_ok [OF n(2) this] obtain w' where
      "WinPolling_dtor q (is_world ?s) = Some w'" "registry_ok (?s\<lparr>is_polls := (is_polls ?s)(j := None), is_world := w'\<rparr>)" by blast
    with n ij q Some show ?thesis by (auto simp: replace_win_poll_def)
  qed
qed

end
