(* ===== verification/WinConn.thy ===== *)
theory WinConn
  imports Conn WinPoll
begin

text \<open>
  \<open>Connection\<close> of the Windows build (src/src/windows/connection.cc). A receive is a \<open>WSARecv\<close> of no
  bytes whose completion says that \<open>recv\<close> has something to read; a send hands the front of the send
  buffer to one overlapped \<open>WSASend\<close>, and its completion says how many bytes went out. The answers of
  the system are arguments, the calls are recorded, and \<open>wn_flight\<close> holds the bytes of a send that the
  system has accepted and not completed.
\<close>

section \<open>State\<close>

datatype wsa_act =
    WSASend SOCKET "byte list list" u32
  | WSARecv SOCKET u32
  | DisconnectEx SOCKET
  | CloseSocket SOCKET

text \<open>The result of an overlapped call: 0, or \<open>SOCKET_ERROR\<close> with an error.\<close>

datatype wsa_result = WsaOk | WsaErr int

abbreviation "WSA_IO_PENDING \<equiv> (997 :: int)"
abbreviation "WSAEWOULDBLOCK \<equiv> (10035 :: int)"

record win_net =
  wn_eps :: "addr \<Rightarrow> EndpointImpl option"
  wn_iocp :: iocp_sys
  wn_acts :: "wsa_act list"
  wn_notes :: "notification list"
  wn_flight :: "byte list option"
  wn_counter :: u32

record WinConnection =
  wc_service :: bool
  wc_proto :: "protocol option"
  wc_send_pending :: bool
  wc_poll_thread :: "nat option"
  wc_send_overlapped :: OverLappedEx
  wc_recv_overlapped :: OverLappedEx
  wc_rcv_buffer :: SliceBuffer
  wc_snd_buffer :: SliceBuffer
  wc_endpoint :: addr
  wc_handle_id :: u32

text \<open>A call on the polling object \<open>i\<close>.\<close>

definition poll_call :: "nat \<Rightarrow> (iocp_polling \<Rightarrow> iocp_world \<Rightarrow> ('r \<times> iocp_world) option) \<Rightarrow> win_net \<Rightarrow> ('r \<times> win_net) option" where
  "poll_call i f w = do {
     p \<leftarrow> is_polls (wn_iocp w) i;
     (r, pw) \<leftarrow> f p (is_world (wn_iocp w));
     Some (r, w\<lparr>wn_iocp := (wn_iocp w)\<lparr>is_world := pw\<rparr>\<rparr>) }"

section \<open>Construction and closing\<close>

definition WinConnection_new :: "addr \<Rightarrow> win_net \<Rightarrow> WinConnection \<times> win_net" where
  "WinConnection_new obj w =
     (let handle_id = wn_counter w in
      (\<lparr>wc_service = False, wc_proto = None, wc_send_pending = False, wc_poll_thread = None,
        wc_send_overlapped = \<lparr>ol_event_type = kSendEvent, ol_HandleId = handle_id\<rparr>,
        wc_recv_overlapped = \<lparr>ol_event_type = kRecvEvent, ol_HandleId = handle_id\<rparr>,
        wc_rcv_buffer = SliceBuffer_new, wc_snd_buffer = SliceBuffer_new, wc_endpoint = obj,
        wc_handle_id = handle_id\<rparr>,
       w\<lparr>wn_counter := handle_id + 1\<rparr>))"

definition WinConnection_SetProtocol :: "protocol option \<Rightarrow> WinConnection \<Rightarrow> WinConnection" where
  "WinConnection_SetProtocol p c = c\<lparr>wc_proto := p\<rparr>"

definition WinConnection_IsOnline :: "WinConnection \<Rightarrow> win_net \<Rightarrow> bool option" where
  "WinConnection_IsOnline c w = do { e \<leftarrow> wn_eps w (wc_endpoint c); Some (EndpointImpl_IsOnline e) }"

definition WinConnection_SetExtendInfo :: "u64 \<Rightarrow> WinConnection \<Rightarrow> win_net \<Rightarrow> win_net option" where
  "WinConnection_SetExtendInfo data c w = do {
     e \<leftarrow> wn_eps w (wc_endpoint c);
     Some (w\<lparr>wn_eps := (wn_eps w)(wc_endpoint c \<mapsto> EndpointImpl_SetExtInfo data e)\<rparr>) }"

definition WinConnection_GetExtendInfo :: "WinConnection \<Rightarrow> win_net \<Rightarrow> u64 option" where
  "WinConnection_GetExtendInfo c w = do { e \<leftarrow> wn_eps w (wc_endpoint c); Some (EndpointImpl_GetExtInfo e) }"

text \<open>\<open>raptor_set_socket_shutdown\<close> of windows/socket_setting.cc; \<open>found\<close> is whether \<open>WSAIoctl\<close> finds \<open>DisconnectEx\<close>.\<close>

definition raptor_set_socket_shutdown_win :: "bool \<Rightarrow> SOCKET \<Rightarrow> wsa_act list" where
  "raptor_set_socket_shutdown_win found fd = (if found then [DisconnectEx fd] else []) @ [CloseSocket fd]"

definition WinConnection_Shutdown ::
  "bool \<Rightarrow> bool \<Rightarrow> Event \<Rightarrow> WinConnection \<Rightarrow> win_net \<Rightarrow> (WinConnection \<times> win_net) option" where
  "WinConnection_Shutdown found notify ev c w = do {
     e \<leftarrow> wn_eps w (wc_endpoint c);
     if \<not> EndpointImpl_IsOnline e then Some (c, w)
     else do {
       t \<leftarrow> wc_poll_thread c;
       (_, w) \<leftarrow> poll_call t (WinPolling_Delete (ei_fd e) 0) w;
       let w = w\<lparr>wn_acts := wn_acts w @ raptor_set_socket_shutdown_win found (ei_fd e)\<rparr>;
       let w = w\<lparr>wn_eps := (wn_eps w)(wc_endpoint c \<mapsto> e\<lparr>ei_fd := NOT 0\<rparr>)\<rparr>;
       let c = c\<lparr>wc_send_pending := False\<rparr>;
       w \<leftarrow> (if notify then (if wc_service c then Some (w\<lparr>wn_notes := wn_notes w @ [Closed (wc_endpoint c) ev]\<rparr>) else None)
             else Some w);
       Some (c\<lparr>wc_rcv_buffer := SliceBuffer_ClearBuffer (wc_rcv_buffer c),
               wc_snd_buffer := SliceBuffer_ClearBuffer (wc_snd_buffer c)\<rparr>, w) } }"

section \<open>Sending\<close>

definition MAX_PACKAGE_SIZE :: nat where "MAX_PACKAGE_SIZE = 0xffff"
definition MAX_WSABUF_COUNT :: nat where "MAX_WSABUF_COUNT = 16"

text \<open>The callback that collects the buffers; the state is \<open>prepare_send_size\<close> and the first \<open>counter\<close>
  elements of \<open>buffers\<close>.\<close>

definition collect :: "nat \<times> byte list list \<Rightarrow> byte list \<Rightarrow> bool \<times> nat \<times> byte list list" where
  "collect st s =
     (let (prepare_send_size, buffers) = st in
      if length buffers \<ge> MAX_WSABUF_COUNT then (False, st)
      else if prepare_send_size + length s > MAX_PACKAGE_SIZE then (False, st)
      else (True, prepare_send_size + length s, buffers @ [s]))"

definition WinConnection_AsyncSend :: "wsa_result \<Rightarrow> WinConnection \<Rightarrow> win_net \<Rightarrow> (bool \<times> WinConnection \<times> win_net) option" where
  "WinConnection_AsyncSend ret c w =
     (if SliceBuffer_Empty (wc_snd_buffer c) \<or> wc_send_pending c then Some (True, c, w)
      else do {
        let c = c\<lparr>wc_send_pending := True\<rparr>;
        let (prepare_send_size, buffers) = SliceBuffer_ForEachSlice (wc_snd_buffer c) collect (0, []);
        e \<leftarrow> wn_eps w (wc_endpoint c);
        let w = w\<lparr>wn_acts := wn_acts w @ [WSASend (ei_fd e) buffers (ol_HandleId (wc_send_overlapped c))]\<rparr>;
        (case ret of
           WsaOk \<Rightarrow> Some (True, c, w\<lparr>wn_flight := Some (concat buffers)\<rparr>)
         | WsaErr err \<Rightarrow>
             if err \<noteq> WSA_IO_PENDING then Some (False, c\<lparr>wc_send_pending := False\<rparr>, w)
             else Some (True, c, w\<lparr>wn_flight := Some (concat buffers)\<rparr>)) })"

definition WinConnection_SendMsg ::
  "wsa_result \<Rightarrow> byte list \<Rightarrow> WinConnection \<Rightarrow> win_net \<Rightarrow> (bool \<times> WinConnection \<times> win_net) option" where
  "WinConnection_SendMsg ret s c w = do {
     e \<leftarrow> wn_eps w (wc_endpoint c);
     if \<not> EndpointImpl_IsOnline e then Some (False, c, w)
     else WinConnection_AsyncSend ret (c\<lparr>wc_snd_buffer := SliceBuffer_AddSlice (wc_snd_buffer c) s\<rparr>) w }"

definition WinConnection_OnSendEvent ::
  "wsa_result \<Rightarrow> size_t \<Rightarrow> u32 \<Rightarrow> WinConnection \<Rightarrow> win_net \<Rightarrow> (bool \<times> WinConnection \<times> win_net) option" where
  "WinConnection_OnSendEvent ret nbytes handle_id c w =
     (if wc_handle_id c \<noteq> handle_id then Some (True, c, w)
      else if nbytes = 0 then Some (False, c, w)
      else do {
        let c = c\<lparr>wc_send_pending := False\<rparr>;
        (_, b) \<leftarrow> SliceBuffer_MoveHeader (wc_snd_buffer c) nbytes;
        let c = c\<lparr>wc_snd_buffer := b\<rparr>;
        if SliceBuffer_Empty (wc_snd_buffer c) then Some (True, c, w)
        else WinConnection_AsyncSend ret c w })"

section \<open>Receiving\<close>

definition WinConnection_AsyncRecv :: "wsa_result \<Rightarrow> WinConnection \<Rightarrow> win_net \<Rightarrow> (bool \<times> win_net) option" where
  "WinConnection_AsyncRecv ret c w = do {
     e \<leftarrow> wn_eps w (wc_endpoint c);
     let w = w\<lparr>wn_acts := wn_acts w @ [WSARecv (ei_fd e) (ol_HandleId (wc_recv_overlapped c))]\<rparr>;
     (case ret of
        WsaOk \<Rightarrow> Some (True, w)
      | WsaErr err \<Rightarrow> if err \<noteq> WSA_IO_PENDING then Some (False, w) else Some (True, w)) }"

definition WinConnection_Init ::
  "bool \<Rightarrow> wsa_result \<Rightarrow> nat \<Rightarrow> WinConnection \<Rightarrow> win_net \<Rightarrow> (bool \<times> WinConnection \<times> win_net) option" where
  "WinConnection_Init added ret iocp_thread c w = do {
     let c = c\<lparr>wc_service := True, wc_send_pending := False, wc_poll_thread := Some iocp_thread\<rparr>;
     e \<leftarrow> wn_eps w (wc_endpoint c);
     (_, w) \<leftarrow> poll_call iocp_thread
                (WinPolling_Add added (ei_fd e) (ei_connection_id e) (kRecvEvent OR kSendEvent)) w;
     (r, w) \<leftarrow> WinConnection_AsyncRecv ret c w;
     Some (r, c, w) }"

text \<open>\<open>ReadSliceFromRecvBuffer\<close> and \<open>ParsingProtocol\<close> are the text of linux/connection.cc, whose functions they
  are here.\<close>

definition WinConnection_ReadSliceFromRecvBuffer :: "SliceBuffer \<Rightarrow> size_t \<Rightarrow> (bool \<times> byte list) option" where
  "WinConnection_ReadSliceFromRecvBuffer = ReadSliceFromRecvBuffer"

definition WinConnection_ParsingProtocol :: "(byte list \<Rightarrow> int) \<Rightarrow> SliceBuffer \<Rightarrow> (int \<times> SliceBuffer \<times> byte list list) option" where
  "WinConnection_ParsingProtocol = ParsingProtocol"

datatype recv_end = Return bool | Rearm

text \<open>The loop of \<open>OnRecvEvent\<close>: it ends with a return, or behind the loop. \<open>buff\<close> has 8192 bytes here too.\<close>

fun OnRecvEvent_loop :: "recv_result list \<Rightarrow> WinConnection \<Rightarrow> win_net \<Rightarrow> (recv_end \<times> WinConnection \<times> win_net) option" where
  "OnRecvEvent_loop [] c w = Some (Return True, c, w)"
| "OnRecvEvent_loop (RecvErr err # rs) c w = Some (Return (WSAEWOULDBLOCK = err), c, w)"
| "OnRecvEvent_loop (RecvData data # rs) c w =
     (if length (recv_bytes data) = 0 then Some (Return False, c, w)
      else if \<not> wc_service c then None
      else case wc_proto c of
        Some proto \<Rightarrow> do {
          let rcv = SliceBuffer_AddSlice (wc_rcv_buffer c) (recv_bytes data);
          (ret, rcv, packages) \<leftarrow> WinConnection_ParsingProtocol (proto (wc_endpoint c)) rcv;
          let c = c\<lparr>wc_rcv_buffer := rcv\<rparr>;
          let w = w\<lparr>wn_notes := wn_notes w @ map (DataReceived (wc_endpoint c)) packages\<rparr>;
          if ret = - 1 then Some (Return False, c, w)
          else if length (recv_bytes data) = unused_space then OnRecvEvent_loop rs c w else Some (Rearm, c, w) }
      | None \<Rightarrow>
          let w = w\<lparr>wn_notes := wn_notes w @ [DataReceived (wc_endpoint c) (recv_bytes data)]\<rparr> in
          if length (recv_bytes data) = unused_space then OnRecvEvent_loop rs c w else Some (Rearm, c, w))"

definition WinConnection_OnRecvEvent ::
  "wsa_result \<Rightarrow> recv_result list \<Rightarrow> u32 \<Rightarrow> WinConnection \<Rightarrow> win_net \<Rightarrow> (bool \<times> WinConnection \<times> win_net) option" where
  "WinConnection_OnRecvEvent ret rs handle_id c w =
     (if handle_id \<noteq> wc_handle_id c then Some (True, c, w)
      else do {
        (r, c, w) \<leftarrow> OnRecvEvent_loop rs c w;
        (case r of
           Return b \<Rightarrow> Some (b, c, w)
         | Rearm \<Rightarrow> do { (b, w) \<leftarrow> WinConnection_AsyncRecv ret c w; Some (b, c, w) }) })"

section \<open>Events\<close>

definition WinConnection_DoRecvEvent ::
  "iocp_os \<Rightarrow> wsa_result \<Rightarrow> recv_result list \<Rightarrow> win_detail \<Rightarrow> WinConnection \<Rightarrow> win_net
   \<Rightarrow> (raptor_error \<times> WinConnection \<times> win_net) option" where
  "WinConnection_DoRecvEvent os ret rs detail c w = do {
     (ok, c, w) \<leftarrow> WinConnection_OnRecvEvent ret rs (wd_handle_id detail) c w;
     if ok then Some (RAPTOR_ERROR_NONE, c, w)
     else Some (MakeStatusFromWindowsError (wio_message os) (wio_last_error os) ''Connection:OnRecvEvent'', c, w) }"

definition WinConnection_DoSendEvent ::
  "iocp_os \<Rightarrow> wsa_result \<Rightarrow> win_detail \<Rightarrow> WinConnection \<Rightarrow> win_net \<Rightarrow> (raptor_error \<times> WinConnection \<times> win_net) option" where
  "WinConnection_DoSendEvent os ret detail c w = do {
     (ok, c, w) \<leftarrow> WinConnection_OnSendEvent ret (unat (wd_transferred_bytes detail)) (wd_handle_id detail) c w;
     if ok then Some (RAPTOR_ERROR_NONE, c, w)
     else Some (MakeStatusFromWindowsError (wio_message os) (wio_last_error os) ''Connection:OnSendEvent'', c, w) }"

section \<open>Receiving is receiving on Linux\<close>

text \<open>The parts that receiving uses, as the state of the Linux build, and a result of \<open>recv\<close> as a result there.\<close>

definition linux_view :: "WinConnection \<Rightarrow> Connection" where
  "linux_view c = \<lparr>c_service = wc_service c, c_proto = wc_proto c, c_recv_thread = None, c_send_thread = None,
     c_rcv_buffer = wc_rcv_buffer c, c_snd_buffer = wc_snd_buffer c, c_endpoint = wc_endpoint c, c_handle_id = wc_handle_id c\<rparr>"

definition linux_net :: "win_net \<Rightarrow> net" where
  "linux_net w = \<lparr>n_eps = wn_eps w, n_threads = (\<lambda>_. PollingThread_new), n_sys = [], n_notes = wn_notes w, n_sent = [],
     n_counter = wn_counter w\<rparr>"

fun linux_result :: "recv_result \<Rightarrow> recv_result" where
  "linux_result (RecvData data) = RecvData data"
| "linux_result (RecvErr err) = RecvErr (if err = WSAEWOULDBLOCK then EWOULDBLOCK else - 1)"

lemma linux_view_simps [simp]:
  "c_service (linux_view c) = wc_service c" "c_proto (linux_view c) = wc_proto c" "c_endpoint (linux_view c) = wc_endpoint c"
  "c_rcv_buffer (linux_view c) = wc_rcv_buffer c" "n_notes (linux_net w) = wn_notes w"
  "(linux_view c)\<lparr>c_rcv_buffer := b\<rparr> = linux_view (c\<lparr>wc_rcv_buffer := b\<rparr>)"
  "net_note ns (linux_net w) = linux_net (w\<lparr>wn_notes := wn_notes w @ ns\<rparr>)"
  by (simp_all add: linux_view_def linux_net_def net_note_def)

lemma unused_space_pos [simp]: "0 < unused_space"
  by (simp add: unused_space_def)

lemma recv_loop_linux:
  "Connection_OnRecv (map linux_result rs) (linux_view c) (linux_net w)
     = map_option (\<lambda>(r, c', w'). (if r = Return False then - 1 else 0, linux_view c', linux_net w')) (OnRecvEvent_loop rs c w)"
proof (induction rs c w rule: OnRecvEvent_loop.induct)
  case (3 data rs c w)
  show ?case
  proof (cases "recv_bytes data = [] \<or> \<not> wc_service c")
    case True
    then show ?thesis by (auto simp: Connection_on_bytes_def)
  next
    case False
    show ?thesis
    proof (cases "wc_proto c")
      case None
      with False "3.IH"(1) [OF _ _ None refl] show ?thesis by (auto simp: Connection_on_bytes_def)
    next
      case (Some proto)
      let ?p = "ParsingProtocol (proto (wc_endpoint c)) (SliceBuffer_AddSlice (wc_rcv_buffer c) (recv_bytes data))"
      show ?thesis
      proof (cases ?p)
        case None
        with Some False show ?thesis by (simp add: Connection_on_bytes_def WinConnection_ParsingProtocol_def)
      next
        case p: (Some r)
        obtain ret b ps where r: "r = (ret, b, ps)" by (cases r)
        with "3.IH"(2) [OF _ _ Some refl p [folded WinConnection_ParsingProtocol_def] _ _ refl refl] p Some False show ?thesis
          by (auto simp: Connection_on_bytes_def WinConnection_ParsingProtocol_def)
      qed
    qed
  qed
qed auto

text \<open>Whether \<open>OnRecvEvent\<close> leaves its loop behind a \<open>recv\<close> that did not fill the buffer.\<close>

fun short_read :: "recv_result list \<Rightarrow> bool" where
  "short_read [] \<longleftrightarrow> False"
| "short_read (RecvErr err # rs) \<longleftrightarrow> False"
| "short_read (RecvData data # rs) \<longleftrightarrow>
     recv_bytes data \<noteq> [] \<and> (length (recv_bytes data) = unused_space \<longrightarrow> short_read rs)"

lemma recv_loop_frame:
  "OnRecvEvent_loop rs c w = Some (r, c', w') \<Longrightarrow>
     wn_acts w' = wn_acts w \<and> wn_eps w' = wn_eps w \<and> wn_iocp w' = wn_iocp w \<and> wn_flight w' = wn_flight w
     \<and> wc_endpoint c' = wc_endpoint c \<and> wc_recv_overlapped c' = wc_recv_overlapped c
     \<and> (r = Rearm \<longrightarrow> short_read rs) \<and> (r = Return True \<longrightarrow> \<not> short_read rs)"
proof (induction rs c w arbitrary: r c' w' rule: OnRecvEvent_loop.induct)
  case (3 data rs c w)
  show ?case
  proof (cases "recv_bytes data = [] \<or> \<not> wc_service c")
    case True
    with "3.prems" show ?thesis by (auto split: if_splits)
  next
    case False
    show ?thesis
    proof (cases "wc_proto c")
      case None
      note ih = "3.IH"(1) [OF _ _ None refl]
      let ?w = "w\<lparr>wn_notes := wn_notes w @ [DataReceived (wc_endpoint c) (recv_bytes data)]\<rparr>"
      have run: "(if length (recv_bytes data) = unused_space then OnRecvEvent_loop rs c ?w else Some (Rearm, c, ?w)) = Some (r, c', w')"
        using None False "3.prems" by (simp add: Let_def split: if_splits)
      show ?thesis
      proof (cases "length (recv_bytes data) = unused_space")
        case True
        with run have "OnRecvEvent_loop rs c ?w = Some (r, c', w')" by simp
        from ih [OF _ _ True this] False True show ?thesis by auto
      qed (use run False in auto)
    next
      case (Some proto)
      with False "3.prems" obtain ret b ps where
        p: "WinConnection_ParsingProtocol (proto (wc_endpoint c)) (SliceBuffer_AddSlice (wc_rcv_buffer c) (recv_bytes data)) = Some (ret, b, ps)"
        by auto
      note ih = "3.IH"(2) [OF _ _ Some refl p refl refl refl refl]
      let ?c = "c\<lparr>wc_rcv_buffer := b\<rparr>" and ?w = "w\<lparr>wn_notes := wn_notes w @ map (DataReceived (wc_endpoint c)) ps\<rparr>"
      have run: "(if ret = - 1 then Some (Return False, ?c, ?w)
          else if length (recv_bytes data) = unused_space then OnRecvEvent_loop rs ?c ?w else Some (Rearm, ?c, ?w)) = Some (r, c', w')"
        using Some False "3.prems" p by (simp add: Let_def split: if_splits)
      show ?thesis
      proof (cases "ret \<noteq> - 1 \<and> length (recv_bytes data) = unused_space")
        case True
        with run have "OnRecvEvent_loop rs ?c ?w = Some (r, c', w')" by simp
        with ih True False show ?thesis by auto
      qed (use run False in \<open>auto split: if_splits\<close>)
    qed
  qed
qed auto

section \<open>What a send takes from the buffer\<close>

lemma collect_pair:
  "collect (k, bs) s = (if length bs \<ge> MAX_WSABUF_COUNT \<or> k + length s > MAX_PACKAGE_SIZE then (False, k, bs)
     else (True, k + length s, bs @ [s]))"
  by (simp add: collect_def)

text \<open>The slices a \<open>WSASend\<close> gets are a prefix of the buffer; it is not empty when the first slice fits.\<close>

lemma collect_prefix:
  "\<exists>n. for_each_loop collect ss (k, bs) = (k + length (concat (take n ss)), bs @ take n ss)"
proof (induction ss arbitrary: k bs)
  case Nil
  show ?case by simp
next
  case (Cons s ss)
  show ?case
  proof (cases "length bs \<ge> MAX_WSABUF_COUNT \<or> k + length s > MAX_PACKAGE_SIZE")
    case True
    then show ?thesis by (intro exI [of _ 0]) (auto simp: collect_pair)
  next
    case False
    from Cons.IH [of "k + length s" "bs @ [s]"] obtain n where
      "for_each_loop collect ss (k + length s, bs @ [s]) = (k + length s + length (concat (take n ss)), (bs @ [s]) @ take n ss)"
      by blast
    with False show ?thesis by (intro exI [of _ "Suc n"]) (simp add: collect_pair)
  qed
qed

definition sent_slices :: "byte list list \<Rightarrow> byte list list" where
  "sent_slices ss = snd (for_each_loop collect ss (0, []))"

lemma sent_slices_prefix: "\<exists>n. sent_slices ss = take n ss"
  using collect_prefix [of ss 0 "[]"] by (auto simp: sent_slices_def)

lemma sent_slices_first:
  assumes "length s \<le> MAX_PACKAGE_SIZE"
  shows "\<exists>n. sent_slices (s # ss) = s # take n ss"
proof -
  have "sent_slices (s # ss) = snd (for_each_loop collect ss (length s, [s]))"
    using assms by (simp add: sent_slices_def collect_pair MAX_WSABUF_COUNT_def)
  with collect_prefix [of ss "length s" "[s]"] show ?thesis by auto
qed

lemma sent_slices_too_long: "MAX_PACKAGE_SIZE < length s \<Longrightarrow> sent_slices (s # ss) = []"
  by (simp add: sent_slices_def collect_pair)

text \<open>The slices in a buffer that can be sent.\<close>

definition sendable :: "SliceBuffer \<Rightarrow> bool" where
  "sendable b \<longleftrightarrow> sb_ok b \<and> (\<forall>s \<in> set (sb_vs b). s \<noteq> [] \<and> length s \<le> MAX_PACKAGE_SIZE)"

lemma sendable_add:
  "sendable b \<Longrightarrow> s \<noteq> [] \<Longrightarrow> length s \<le> MAX_PACKAGE_SIZE \<Longrightarrow> length (sb_bytes b) + length s < size_lim
   \<Longrightarrow> sendable (SliceBuffer_AddSlice b s) \<and> sb_bytes (SliceBuffer_AddSlice b s) = sb_bytes b @ s"
  using AddSlice_ok [of b s] by (auto simp: sendable_def SliceBuffer_AddSlice_def)

lemma MoveHeader_slices:
  assumes "SliceBuffer_MoveHeader b n = Some (r, b')" and "\<forall>s \<in> set (sb_vs b). s \<noteq> [] \<and> length s \<le> m"
  shows "\<forall>s \<in> set (sb_vs b'). s \<noteq> [] \<and> length s \<le> m"
  using assms
proof (induction b n rule: SliceBuffer_MoveHeader.induct)
  case (1 b n)
  show ?case
  proof (cases "SliceBuffer_GetBufferLength b < n \<or> n = 0 \<or> sb_vs b = []")
    case True
    with "1.prems" show ?thesis by (auto simp: SliceBuffer_MoveHeader.simps [of b n] split: if_splits)
  next
    case False
    then obtain it rest where it: "sb_vs b = it # rest" by (cases "sb_vs b") auto
    show ?thesis
    proof (cases "length it < n")
      case True
      with False it "1.prems"(1) have
        "SliceBuffer_MoveHeader (b\<lparr>sb_vs := rest, sb_length := sz_sub (sb_length b) (length it)\<rparr>) (n - length it) = Some (r, b')"
        by (simp add: SliceBuffer_MoveHeader.simps [of b n] Let_def)
      with "1.IH" [of it rest "length it"] False it True "1.prems"(2) show ?thesis by auto
    next
      case ge: False
      with False it "1.prems" show ?thesis by (auto simp: SliceBuffer_MoveHeader.simps [of b n] Let_def split: if_splits)
    qed
  qed
qed

section \<open>Sending as a state machine\<close>

text \<open>The connection, the network, the bytes that went out and the bytes the application queued. A step
  is a call of \<open>SendMsg\<close>, or the completion of the outstanding send with some of its bytes; the calls
  succeed, as a connection with a failed send is closed.\<close>

record send_sys =
  ss_conn :: WinConnection
  ss_net :: win_net
  ss_wire :: "byte list"
  ss_queued :: "byte list"

inductive send_step :: "send_sys \<Rightarrow> send_sys \<Rightarrow> bool" where
  message: "WinConnection_SendMsg ret s (ss_conn x) (ss_net x) = Some (True, c, w) \<Longrightarrow>
     s \<noteq> [] \<Longrightarrow> length s \<le> MAX_PACKAGE_SIZE \<Longrightarrow> length (ss_queued x @ s) < size_lim \<Longrightarrow>
     send_step x (x\<lparr>ss_conn := c, ss_net := w, ss_queued := ss_queued x @ s\<rparr>)"
| completed: "wn_flight (ss_net x) = Some bs \<Longrightarrow> 0 < n \<Longrightarrow> n \<le> length bs \<Longrightarrow>
     WinConnection_OnSendEvent ret n (ol_HandleId (wc_send_overlapped (ss_conn x))) (ss_conn x) ((ss_net x)\<lparr>wn_flight := None\<rparr>)
       = Some (True, c, w) \<Longrightarrow>
     send_step x (x\<lparr>ss_conn := c, ss_net := w, ss_wire := ss_wire x @ take n bs\<rparr>)"

text \<open>What is in flight is the front of the buffer, and something is in flight unless the buffer is empty.\<close>

definition flight_ok :: "WinConnection \<Rightarrow> win_net \<Rightarrow> bool" where
  "flight_ok c w \<longleftrightarrow> (case wn_flight w of
      None \<Rightarrow> \<not> wc_send_pending c \<and> SliceBuffer_Empty (wc_snd_buffer c)
    | Some bs \<Rightarrow> wc_send_pending c \<and> bs \<noteq> [] \<and> (\<exists>r. bs @ r = sb_bytes (wc_snd_buffer c)))"

definition send_ok :: "send_sys \<Rightarrow> bool" where
  "send_ok x \<longleftrightarrow> sendable (wc_snd_buffer (ss_conn x)) \<and> flight_ok (ss_conn x) (ss_net x)
     \<and> ol_HandleId (wc_send_overlapped (ss_conn x)) = wc_handle_id (ss_conn x)
     \<and> ss_wire x @ sb_bytes (wc_snd_buffer (ss_conn x)) = ss_queued x"

lemma AsyncSend_pending:
  "wc_send_pending c \<Longrightarrow> WinConnection_AsyncSend ret c w = Some (True, c, w)"
  by (simp add: WinConnection_AsyncSend_def)

lemma AsyncSend_flight:
  assumes "WinConnection_AsyncSend ret c w = Some (True, c', w')" and "\<not> wc_send_pending c" and "wn_flight w = None"
    and "sendable (wc_snd_buffer c)"
  shows "flight_ok c' w' \<and> wc_snd_buffer c' = wc_snd_buffer c \<and> wc_handle_id c' = wc_handle_id c
    \<and> wc_send_overlapped c' = wc_send_overlapped c"
proof (cases "sb_vs (wc_snd_buffer c)")
  case Nil
  with assms show ?thesis by (auto simp: WinConnection_AsyncSend_def SliceBuffer_Empty_def flight_ok_def)
next
  case (Cons s ss)
  obtain m bufs where col: "SliceBuffer_ForEachSlice (wc_snd_buffer c) collect (0, []) = (m, bufs)" by fastforce
  have sl: "sent_slices (s # ss) = bufs" using col Cons by (simp add: sent_slices_def SliceBuffer_ForEachSlice_def)
  have s: "s \<noteq> []" "length s \<le> MAX_PACKAGE_SIZE" using assms(4) Cons by (auto simp: sendable_def)
  obtain n where b: "bufs = take n (s # ss)" using sent_slices_prefix [of "s # ss"] sl by auto
  have "concat bufs @ concat (drop n (s # ss)) = concat (take n (s # ss) @ drop n (s # ss))" unfolding b concat_append ..
  then have pre: "\<exists>r. concat bufs @ r = sb_bytes (wc_snd_buffer c)" using Cons by (auto simp: sb_bytes_def)
  have ne: "concat bufs \<noteq> []" using sent_slices_first [OF s(2), of ss] sl s(1) by auto
  have "c' = c\<lparr>wc_send_pending := True\<rparr>" "wn_flight w' = Some (concat bufs)"
    using assms(1,2) Cons col
    by (cases ret; auto simp: WinConnection_AsyncSend_def SliceBuffer_Empty_def Let_def split: if_splits)+
  with pre ne show ?thesis by (simp add: flight_ok_def)
qed

lemma send_step_ok:
  assumes "send_step x y" and "send_ok x"
  shows "send_ok y"
  using assms
proof (induction rule: send_step.induct)
  case (message ret s x c w)
  let ?c = "ss_conn x" and ?w = "ss_net x"
  let ?a = "?c\<lparr>wc_snd_buffer := SliceBuffer_AddSlice (wc_snd_buffer ?c) s\<rparr>"
  have run: "WinConnection_AsyncSend ret ?a ?w = Some (True, c, w)"
    using message(1) by (auto simp: WinConnection_SendMsg_def split: if_splits)
  have "length (ss_queued x) = length (ss_wire x) + length (sb_bytes (wc_snd_buffer ?c))"
    using message(5) unfolding send_ok_def by (metis length_append)
  then have "length (sb_bytes (wc_snd_buffer ?c)) + length s < size_lim" using message(4) by simp
  from sendable_add [OF _ message(2,3) this] message(5)
  have a: "sendable (wc_snd_buffer ?a)" "sb_bytes (wc_snd_buffer ?a) = sb_bytes (wc_snd_buffer ?c) @ s"
    by (simp_all add: send_ok_def)
  show ?case
  proof (cases "wn_flight ?w")
    case None
    then have "\<not> wc_send_pending ?a" using message(5) by (simp add: send_ok_def flight_ok_def)
    from AsyncSend_flight [OF run this None a(1)] a message(5) show ?thesis by (auto simp: send_ok_def)
  next
    case (Some bs)
    then have p: "wc_send_pending ?a" "bs \<noteq> []" "\<exists>r. bs @ r = sb_bytes (wc_snd_buffer ?c)"
      using message(5) by (simp_all add: send_ok_def flight_ok_def)
    from run AsyncSend_pending [OF p(1), of ret ?w] have "c = ?a" "w = ?w" by auto
    moreover have "\<exists>r. bs @ r = sb_bytes (wc_snd_buffer ?a)" using p(3) a(2) by (metis append_assoc)
    ultimately show ?thesis using p(1,2) a Some message(5) by (auto simp: send_ok_def flight_ok_def)
  qed
next
  case (completed x bs n ret c w)
  let ?c = "ss_conn x" and ?w = "(ss_net x)\<lparr>wn_flight := None\<rparr>"
  have f: "wc_send_pending ?c" "\<exists>r. bs @ r = sb_bytes (wc_snd_buffer ?c)" "sendable (wc_snd_buffer ?c)"
    "ol_HandleId (wc_send_overlapped ?c) = wc_handle_id ?c" "ss_wire x @ sb_bytes (wc_snd_buffer ?c) = ss_queued x"
    using completed(1,5) by (auto simp: send_ok_def flight_ok_def)
  then obtain r where r: "bs @ r = sb_bytes (wc_snd_buffer ?c)" by blast
  have len: "n \<le> length (sb_bytes (wc_snd_buffer ?c))" using completed(3) by (simp flip: r)
  have ok: "sb_ok (wc_snd_buffer ?c)" using f(3) by (simp add: sendable_def)
  obtain b where b: "SliceBuffer_MoveHeader (wc_snd_buffer ?c) n = Some (True, b)" "sb_ok b"
    "sb_bytes b = drop n (sb_bytes (wc_snd_buffer ?c))" using MoveHeader_ok [OF ok len] by blast
  have sl: "sendable b" using MoveHeader_slices [OF b(1), of MAX_PACKAGE_SIZE] f(3) b(2) by (auto simp: sendable_def)
  have tk: "take n (sb_bytes (wc_snd_buffer ?c)) = take n bs" using completed(3) by (simp flip: r)
  have str: "(ss_wire x @ take n bs) @ sb_bytes b = ss_queued x"
    using f(5) unfolding b(3) tk [symmetric] append_assoc append_take_drop_id .
  let ?a = "?c\<lparr>wc_send_pending := False, wc_snd_buffer := b\<rparr>"
  have run: "(if SliceBuffer_Empty b then Some (True, ?a, ?w) else WinConnection_AsyncSend ret ?a ?w) = Some (True, c, w)"
    using completed(2,4) b(1) f(4) by (auto simp: WinConnection_OnSendEvent_def Let_def split: if_splits)
  show ?case
  proof (cases "SliceBuffer_Empty b")
    case True
    with run have "c = ?a" "w = ?w" by auto
    with True sl str f(4) show ?thesis by (simp add: send_ok_def flight_ok_def)
  next
    case False
    with run have "WinConnection_AsyncSend ret ?a ?w = Some (True, c, w)" by simp
    from AsyncSend_flight [OF this] sl str f(4) show ?thesis by (simp add: send_ok_def)
  qed
qed

text \<open>A connection before its first send.\<close>

definition send_start :: "send_sys \<Rightarrow> bool" where
  "send_start x \<longleftrightarrow> wc_snd_buffer (ss_conn x) = SliceBuffer_new \<and> \<not> wc_send_pending (ss_conn x) \<and> wn_flight (ss_net x) = None
     \<and> ol_HandleId (wc_send_overlapped (ss_conn x)) = wc_handle_id (ss_conn x) \<and> ss_wire x = [] \<and> ss_queued x = []"

lemma send_start_ok: "send_start x \<Longrightarrow> send_ok x"
  by (simp add: send_start_def send_ok_def sendable_def sb_ok_new flight_ok_def SliceBuffer_Empty_def SliceBuffer_new_def
      sb_bytes_def sb_ok_def)

lemma send_reach_ok: "send_step\<^sup>*\<^sup>* x y \<Longrightarrow> send_start x \<Longrightarrow> send_ok y"
  by (induction rule: rtranclp_induct) (auto intro: send_start_ok send_step_ok)

section \<open>Properties\<close>

text \<open>
  C24. The two builds receive alike: whatever \<open>recv\<close> returns, \<open>OnRecvEvent\<close> hands over the same packages, in
  the same order, keeps the same bytes and fails in the same cases as \<open>OnRecv\<close> of the Linux build, and
  it does not return when that does not. Everything proved about receiving there holds here.
\<close>

theorem win_receives_like_linux:
  "Connection_OnRecv (map linux_result rs) (linux_view c) (linux_net w)
     = map_option (\<lambda>(r, c', w'). (if r = Return False then - 1 else 0, linux_view c', linux_net w')) (OnRecvEvent_loop rs c w)"
  by (rule recv_loop_linux)


text \<open>A connection for the examples.\<close>

definition win_net0 :: win_net where
  "win_net0 = \<lparr>wn_eps = [0 \<mapsto> EndpointImpl_new 7 ra_zero ra_zero], wn_iocp = iocp_sys_start, wn_acts = [], wn_notes = [],
     wn_flight = None, wn_counter = 1\<rparr>"

definition win_conn0 :: WinConnection where
  "win_conn0 = (fst (WinConnection_new 0 win_net0))\<lparr>wc_service := True\<rparr>"

lemma win_conn0_simps:
  "wc_snd_buffer win_conn0 = SliceBuffer_new" "wc_rcv_buffer win_conn0 = SliceBuffer_new" "\<not> wc_send_pending win_conn0"
  "wc_endpoint win_conn0 = 0" "wc_handle_id win_conn0 = 1" "wc_service win_conn0" "wc_proto win_conn0 = None"
  "wc_send_overlapped win_conn0 = \<lparr>ol_event_type = kSendEvent, ol_HandleId = 1\<rparr>"
  "wn_eps win_net0 0 = Some (EndpointImpl_new 7 ra_zero ra_zero)" "wn_flight win_net0 = None" "wn_acts win_net0 = []"
  "EndpointImpl_IsOnline (EndpointImpl_new 7 ra_zero ra_zero)" "ei_fd (EndpointImpl_new 7 ra_zero ra_zero) = 7"
  by (simp_all add: win_conn0_def WinConnection_new_def win_net0_def EndpointImpl_IsOnline_def EndpointImpl_new_def Let_def)


text \<open>
  A message of more than 65535 bytes is never sent: it does not fit into a send, so that \<open>WSASend\<close> is
  called without a buffer, and the completion of no bytes is an error that ends the connection.
\<close>

theorem win_large_message_fails:
  assumes "sb_vs (wc_snd_buffer c) = s # ss" and "65535 < length s" and "\<not> wc_send_pending c"
    and "wn_eps w (wc_endpoint c) = Some e"
  shows "\<exists>c'. WinConnection_AsyncSend WsaOk c w = Some (True, c',
      w\<lparr>wn_acts := wn_acts w @ [WSASend (ei_fd e) [] (ol_HandleId (wc_send_overlapped c))], wn_flight := Some []\<rparr>)
    \<and> WinConnection_OnSendEvent ret 0 (wc_handle_id c) c' w' = Some (False, c', w')"
proof -
  have "for_each_loop collect (s # ss) (0, []) = (0, [])" using assms(2) by (simp add: collect_pair MAX_PACKAGE_SIZE_def)
  then show ?thesis
    using assms(1,3,4)
    by (simp add: WinConnection_AsyncSend_def SliceBuffer_Empty_def SliceBuffer_ForEachSlice_def WinConnection_OnSendEvent_def)
qed

theorem win_large_message_fails_witness:
  "\<exists>c'. WinConnection_AsyncSend WsaOk (win_conn0\<lparr>wc_snd_buffer := \<lparr>sb_vs = [replicate 65536 0], sb_length = 65536\<rparr>\<rparr>) win_net0
      = Some (True, c', win_net0\<lparr>wn_acts := [WSASend 7 [] 1], wn_flight := Some []\<rparr>)
    \<and> WinConnection_OnSendEvent WsaOk 0 1 c' win_net0 = Some (False, c', win_net0)"
  using win_large_message_fails [of "win_conn0\<lparr>wc_snd_buffer := \<lparr>sb_vs = [replicate 65536 0], sb_length = 65536\<rparr>\<rparr>"
      "replicate 65536 0" "[]" win_net0 "EndpointImpl_new 7 ra_zero ra_zero" WsaOk win_net0]
  by (simp add: win_conn0_simps)

text \<open>
  After a successful receive event a new receive is outstanding only if the last \<open>recv\<close> did not fill
  its buffer. When the bytes that were waiting are a multiple of 8192, the next \<open>recv\<close> would block, and
  the event ends without a \<open>WSARecv\<close>: the connection gets no further receive event.
\<close>

theorem win_recv_not_rearmed:
  assumes "WinConnection_OnRecvEvent ret rs (wc_handle_id c) c w = Some (True, c', w')" and "wn_eps w (wc_endpoint c) = Some e"
  shows "wn_acts w' = wn_acts w @ (if short_read rs then [WSARecv (ei_fd e) (ol_HandleId (wc_recv_overlapped c))] else [])"
proof -
  obtain r c1 w1 where l: "OnRecvEvent_loop rs c w = Some (r, c1, w1)"
    using assms(1) by (auto simp: WinConnection_OnRecvEvent_def)
  note f = recv_loop_frame [OF l]
  show ?thesis
  proof (cases r)
    case (Return b)
    with assms(1) l f show ?thesis by (auto simp: WinConnection_OnRecvEvent_def)
  next
    case Rearm
    with assms l f show ?thesis
      by (auto simp: WinConnection_OnRecvEvent_def WinConnection_AsyncRecv_def Let_def split: wsa_result.splits if_splits)
  qed
qed

theorem win_recv_not_rearmed_witness:
  "\<exists>c' w'. WinConnection_OnRecvEvent WsaOk [RecvData (replicate 8192 0), RecvErr WSAEWOULDBLOCK] 1 win_conn0 win_net0 = Some (True, c', w')
     \<and> wn_acts w' = []"
proof -
  let ?rs = "[RecvData (replicate 8192 0), RecvErr WSAEWOULDBLOCK]"
  obtain c' w' where r: "WinConnection_OnRecvEvent WsaOk ?rs (wc_handle_id win_conn0) win_conn0 win_net0 = Some (True, c', w')"
    by (simp add: WinConnection_OnRecvEvent_def win_conn0_simps recv_bytes_def unused_space_def Let_def)
  have e: "wn_eps win_net0 (wc_endpoint win_conn0) = Some (EndpointImpl_new 7 ra_zero ra_zero)" by (simp add: win_conn0_simps)
  have "\<not> short_read ?rs" by (simp add: recv_bytes_def unused_space_def)
  with win_recv_not_rearmed [OF r e] r show ?thesis by (simp add: win_conn0_simps)
qed

text \<open>
  The completion of an operation that failed carries the handle id 0 (theory \<open>WinPoll\<close>), so that every
  connection but the first of the process takes it for another one's and does nothing.
\<close>

lemma win_failed_completion_ignored:
  "wd_handle_id detail = 0 \<Longrightarrow> wc_handle_id c \<noteq> 0 \<Longrightarrow>
     WinConnection_DoRecvEvent os ret rs detail c w = Some (RAPTOR_ERROR_NONE, c, w)
     \<and> WinConnection_DoSendEvent os ret detail c w = Some (RAPTOR_ERROR_NONE, c, w)"
  by (simp add: WinConnection_DoRecvEvent_def WinConnection_DoSendEvent_def WinConnection_OnRecvEvent_def WinConnection_OnSendEvent_def)

end
