(* ===== verification/WinSock.thy ===== *)
theory WinSock
  imports WinConn PropertyM SockSet
begin

text \<open>
  Creating and configuring sockets in the Windows build (src/src/windows/socket_setting.cc). As in theory
  \<open>SockSet\<close>, the system is a parameter \<open>ws\<close> whose answer to a call is any function of the calls made so
  far and the call. The state is the list of calls, the last error, and, for the proofs, the sockets
  that were opened and not closed yet.
\<close>

section \<open>System calls\<close>

abbreviation INVALID_SOCKET :: SOCKET where
  "INVALID_SOCKET \<equiv> NOT 0"

datatype wsa_ioctl = FIONBIO int | GetAcceptEx | GetAcceptExSockAddrs | GetConnectEx | GetDisconnectEx

datatype winopt = SO_REUSEADDR | SO_SNDTIMEO | SO_RCVTIMEO | TCP_NODELAY | IPV6_V6ONLY | SO_UPDATE_CONNECT_CONTEXT

datatype wincall =
    WSAIoctl SOCKET wsa_ioctl
  | WinSetsockopt SOCKET winopt "int list"
  | WSASocket int
  | WinBind SOCKET resolved_address
  | WinListen SOCKET
  | WinGetsockname SOCKET
  | Closesocket SOCKET
  | AcceptExCall SOCKET SOCKET addr
  | ConnectExCall SOCKET resolved_address addr
  | DisconnectExCall SOCKET

record winanswer =
  wa_ret :: int
  wa_sock :: SOCKET
  wa_error :: int
  wa_addr :: resolved_address

record winsock =
  ws_answer :: "wincall list \<Rightarrow> wincall \<Rightarrow> winanswer"
  ws_message :: "int \<Rightarrow> string option"

record winio =
  wi_trace :: "wincall list"
  wi_error :: int
  wi_open :: "SOCKET list"
  wi_bad_close :: bool

fun sock_effect :: "wincall \<Rightarrow> winanswer \<Rightarrow> winio \<Rightarrow> winio" where
  "sock_effect (WSASocket _) a s = (if wa_sock a = INVALID_SOCKET then s else s\<lparr>wi_open := wa_sock a # wi_open s\<rparr>)"
| "sock_effect (Closesocket fd) a s =
     s\<lparr>wi_bad_close := (wi_bad_close s \<or> fd \<notin> set (wi_open s)), wi_open := remove1 fd (wi_open s)\<rparr>"
| "sock_effect _ a s = s"

definition wcall :: "winsock \<Rightarrow> wincall \<Rightarrow> winio \<Rightarrow> winanswer \<times> winio" where
  "wcall ws c s =
     (let a = ws_answer ws (wi_trace s) c
      in (a, sock_effect c a (s\<lparr>wi_trace := wi_trace s @ [c], wi_error := wa_error a\<rparr>)))"

abbreviation wdo :: "winsock \<Rightarrow> wincall \<Rightarrow> winio \<Rightarrow> winio" where
  "wdo ws c s \<equiv> snd (wcall ws c s)"

definition windows_error :: "winsock \<Rightarrow> winio \<Rightarrow> string \<Rightarrow> raptor_error" where
  "windows_error ws s api = MakeStatusFromWindowsError (ws_message ws) (wi_error s) api"

lemma windows_error_Some [simp]:
  "windows_error ws s api \<noteq> RAPTOR_ERROR_NONE" "\<exists>y. windows_error ws s api = Some y"
  unfolding not_None_eq [symmetric] windows_error_def by (rule MakeStatusFromWindowsError_Some)+

section \<open>Options\<close>

text \<open>One call whose status decides.\<close>

definition status_call :: "winsock \<Rightarrow> wincall \<Rightarrow> string \<Rightarrow> winio \<Rightarrow> raptor_error \<times> winio" where
  "status_call ws c api s =
     (let (a, s) = wcall ws c s in (if wa_ret a = 0 then RAPTOR_ERROR_NONE else windows_error ws s api, s))"

definition raptor_set_socket_nonblocking_win :: "winsock \<Rightarrow> SOCKET \<Rightarrow> bool \<Rightarrow> winio \<Rightarrow> raptor_error \<times> winio" where
  "raptor_set_socket_nonblocking_win ws fd non_blocking s =
     status_call ws (WSAIoctl fd (FIONBIO (if non_blocking then 1 else 0))) ''WSAIoctl(FIONBIO)'' s"

definition raptor_set_socket_cloexec_win :: "winsock \<Rightarrow> SOCKET \<Rightarrow> bool \<Rightarrow> winio \<Rightarrow> raptor_error \<times> winio" where
  "raptor_set_socket_cloexec_win ws fd close_on_exec s = (RAPTOR_ERROR_NONE, s)"

definition raptor_set_socket_reuse_addr_win :: "winsock \<Rightarrow> SOCKET \<Rightarrow> bool \<Rightarrow> winio \<Rightarrow> raptor_error \<times> winio" where
  "raptor_set_socket_reuse_addr_win ws fd reuse s =
     status_call ws (WinSetsockopt fd SO_REUSEADDR [if reuse then 1 else 0]) ''setsockopt(SO_REUSEADDR)'' s"

definition raptor_set_socket_low_latency_win :: "winsock \<Rightarrow> SOCKET \<Rightarrow> bool \<Rightarrow> winio \<Rightarrow> raptor_error \<times> winio" where
  "raptor_set_socket_low_latency_win ws fd low_latency s =
     status_call ws (WinSetsockopt fd TCP_NODELAY [if low_latency then 1 else 0]) ''setsockopt(TCP_NODELAY)'' s"

definition raptor_set_socket_reuse_port_win :: "winsock \<Rightarrow> SOCKET \<Rightarrow> bool \<Rightarrow> winio \<Rightarrow> raptor_error \<times> winio" where
  "raptor_set_socket_reuse_port_win ws fd reuse s = (RAPTOR_ERROR_NONE, s)"

definition raptor_set_socket_snd_timeout_win :: "winsock \<Rightarrow> SOCKET \<Rightarrow> int \<Rightarrow> winio \<Rightarrow> raptor_error \<times> winio" where
  "raptor_set_socket_snd_timeout_win ws fd timeout_ms s =
     status_call ws (WinSetsockopt fd SO_SNDTIMEO (timeval timeout_ms)) ''setsockopt(SO_SNDTIMEO)'' s"

definition raptor_set_socket_rcv_timeout_win :: "winsock \<Rightarrow> SOCKET \<Rightarrow> int \<Rightarrow> winio \<Rightarrow> raptor_error \<times> winio" where
  "raptor_set_socket_rcv_timeout_win ws fd timeout_ms s =
     status_call ws (WinSetsockopt fd SO_RCVTIMEO (timeval timeout_ms)) ''setsockopt(SO_RCVTIMEO)'' s"

definition raptor_set_socket_ipv6_only_win :: "winsock \<Rightarrow> SOCKET \<Rightarrow> bool \<Rightarrow> winio \<Rightarrow> raptor_error \<times> winio" where
  "raptor_set_socket_ipv6_only_win ws fd only s =
     status_call ws (WinSetsockopt fd IPV6_V6ONLY [if only then 1 else 0]) ''setsockopt(IPV6_V6ONLY)'' s"

definition raptor_set_socket_tcp_user_timeout_win :: "winsock \<Rightarrow> SOCKET \<Rightarrow> int \<Rightarrow> winio \<Rightarrow> raptor_error \<times> winio" where
  "raptor_set_socket_tcp_user_timeout_win ws fd timeout s = (RAPTOR_ERROR_NONE, s)"

definition raptor_set_socket_no_sigpipe_if_possible_win :: "winsock \<Rightarrow> SOCKET \<Rightarrow> winio \<Rightarrow> raptor_error \<times> winio" where
  "raptor_set_socket_no_sigpipe_if_possible_win ws fd s = (RAPTOR_ERROR_NONE, s)"

section \<open>Creating a socket\<close>

definition ws2_socket :: "winsock \<Rightarrow> int \<Rightarrow> winio \<Rightarrow> SOCKET \<times> winio" where
  "ws2_socket ws family s = (let (a, s) = wcall ws (WSASocket family) s in (wa_sock a, s))"

text \<open>The part after the IPv6 attempt.\<close>

definition create_plain_socket_win ::
  "winsock \<Rightarrow> int \<Rightarrow> winio \<Rightarrow> (raptor_error \<times> raptor_dualstack_mode \<times> SOCKET) \<times> winio" where
  "create_plain_socket_win ws family s =
     (let dsmode = (if family = AF_INET then RAPTOR_DSMODE_IPV4 else RAPTOR_DSMODE_NONE);
          (newfd, s) = ws2_socket ws family s in
      (if newfd = INVALID_SOCKET then (windows_error ws s ''WSASocket'', dsmode, newfd)
       else (RAPTOR_ERROR_NONE, dsmode, newfd), s))"

definition raptor_create_dualstack_socket_win ::
  "winsock \<Rightarrow> resolved_address \<Rightarrow> winio \<Rightarrow> (raptor_error \<times> raptor_dualstack_mode \<times> SOCKET) \<times> winio" where
  "raptor_create_dualstack_socket_win ws addr s =
     (let family = sa_family addr in
      if family = AF_INET6 then
        let (newfd, s) = ws2_socket ws family s;
            (e, s) = (if newfd \<noteq> INVALID_SOCKET then raptor_set_socket_ipv6_only_win ws newfd False s
                      else (MakeStatusFromStaticString '''', s)) in
        if newfd \<noteq> INVALID_SOCKET \<and> e = RAPTOR_ERROR_NONE then ((RAPTOR_ERROR_NONE, RAPTOR_DSMODE_DUALSTACK, newfd), s)
        else if \<not> fst (raptor_sockaddr_is_v4mapped addr) then
          (if newfd = INVALID_SOCKET then (windows_error ws s ''WSASocket'', RAPTOR_DSMODE_IPV6, newfd)
           else (RAPTOR_ERROR_NONE, RAPTOR_DSMODE_IPV6, newfd), s)
        else
          let s = (if newfd \<noteq> INVALID_SOCKET then wdo ws (Closesocket newfd) s else s) in
          create_plain_socket_win ws AF_INET s
      else create_plain_socket_win ws family s)"

text \<open>The result is the error, \<open>*mapped_addr\<close>, \<open>*dsmode\<close> and \<open>*newfd\<close>; \<open>None\<close> is the assertion in
  \<open>raptor_sockaddr_make_wildcard6\<close>.\<close>

definition raptor_create_socket ::
  "winsock \<Rightarrow> resolved_address \<Rightarrow> winio
   \<Rightarrow> ((raptor_error \<times> resolved_address \<times> raptor_dualstack_mode \<times> SOCKET) \<times> winio) option" where
  "raptor_create_socket ws addr s = do {
     let addr = (case raptor_sockaddr_to_v4mapped addr of (True, Some m) \<Rightarrow> m | _ \<Rightarrow> addr);
     addr \<leftarrow> (case raptor_sockaddr_is_wildcard addr of
               (True, Some port) \<Rightarrow> raptor_sockaddr_make_wildcard6 port
             | _ \<Rightarrow> Some addr);
     let ((e, dsmode, newfd), s) = raptor_create_dualstack_socket_win ws addr s;
     Some ((e, addr, dsmode, newfd), s) }"

section \<open>Preparing sockets\<close>

fun wtry_all :: "(winio \<Rightarrow> raptor_error \<times> winio) list \<Rightarrow> winio \<Rightarrow> raptor_error \<times> winio" where
  "wtry_all [] s = (RAPTOR_ERROR_NONE, s)"
| "wtry_all (f # fs) s = (let (e, s) = f s in if e \<noteq> RAPTOR_ERROR_NONE then (e, s) else wtry_all fs s)"

definition raptor_tcp_prepare_socket :: "winsock \<Rightarrow> SOCKET \<Rightarrow> int \<Rightarrow> winio \<Rightarrow> raptor_error \<times> winio" where
  "raptor_tcp_prepare_socket ws sock timeout s =
     wtry_all [raptor_set_socket_nonblocking_win ws sock True, raptor_set_socket_ipv6_only_win ws sock False,
              raptor_set_socket_low_latency_win ws sock True, raptor_set_socket_tcp_user_timeout_win ws sock timeout] s"

text \<open>\<open>SOCKET_ERROR\<close> is -1; the result is the error and \<open>*port\<close>.\<close>

definition raptor_tcp_server_prepare_socket_win ::
  "winsock \<Rightarrow> SOCKET \<Rightarrow> resolved_address \<Rightarrow> winio \<Rightarrow> (raptor_error \<times> int option) \<times> winio" where
  "raptor_tcp_server_prepare_socket_win ws sock addr s =
     (let (e, s) = wtry_all [raptor_tcp_prepare_socket ws sock 0,
             (\<lambda>s. let (a, s) = wcall ws (WinBind sock addr) s in
                  (if wa_ret a = - 1 then windows_error ws s ''bind'' else RAPTOR_ERROR_NONE, s)),
             (\<lambda>s. let (a, s) = wcall ws (WinListen sock) s in
                  (if wa_ret a = - 1 then windows_error ws s ''listen'' else RAPTOR_ERROR_NONE, s))] s;
          failure = (\<lambda>e s. ((e, None), if sock \<noteq> INVALID_SOCKET then wdo ws (Closesocket sock) s else s)) in
      if e \<noteq> RAPTOR_ERROR_NONE then failure e s
      else
        let (a, s) = wcall ws (WinGetsockname sock) s in
        if wa_ret a = - 1 then failure (windows_error ws s ''getsockname'') s
        else ((RAPTOR_ERROR_NONE, Some (raptor_sockaddr_get_port (wa_addr a))), s))"

section \<open>Options of an application\<close>

text \<open>The options an application may set through the property of a connection, in the order of the code,
  each with its condition; the results of the calls are ignored.\<close>

definition win_property_steps :: "winsock \<Rightarrow> SOCKET \<Rightarrow> Property \<Rightarrow> (winio \<Rightarrow> raptor_error \<times> winio) list" where
  "win_property_steps ws fd p =
     (let bool = (\<lambda>key. Property_CheckValue cast_bool p key True);
          int = (\<lambda>key. Property_CheckValue cast_int p key 0) in
      (case bool ''SocketNoSIGPIPE'' of (b, v) \<Rightarrow>
         if b \<and> v then [raptor_set_socket_no_sigpipe_if_possible_win ws fd] else [])
      @ (case bool ''SocketReuseAddress'' of (b, v) \<Rightarrow>
         if b \<and> \<not> v then [raptor_set_socket_reuse_addr_win ws fd False] else [])
      @ (case bool ''SocketLowLatency'' of (b, v) \<Rightarrow>
         if b \<and> \<not> v then [raptor_set_socket_low_latency_win ws fd False] else [])
      @ (case int ''SocketSendTimeoutMs'' of (b, v) \<Rightarrow>
         if b \<and> v > 0 then [raptor_set_socket_snd_timeout_win ws fd v] else [])
      @ (case int ''SocketRecvTimeoutMs'' of (b, v) \<Rightarrow>
         if b \<and> v > 0 then [raptor_set_socket_rcv_timeout_win ws fd v] else [])
      @ (case bool ''SocketNonBlocking'' of (b, v) \<Rightarrow>
         if b \<and> \<not> v then [raptor_set_socket_nonblocking_win ws fd False] else []))"

fun wdo_all :: "(winio \<Rightarrow> raptor_error \<times> winio) list \<Rightarrow> winio \<Rightarrow> winio" where
  "wdo_all [] s = s"
| "wdo_all (f # fs) s = wdo_all fs (snd (f s))"

section \<open>Sockets opened and closed\<close>

definition keeps_socks :: "winio \<Rightarrow> winio \<Rightarrow> bool" where
  "keeps_socks s s' \<longleftrightarrow> wi_open s' = wi_open s \<and> wi_bad_close s' = wi_bad_close s"

lemma keeps_socks_refl [simp]: "keeps_socks s s"
  by (simp add: keeps_socks_def)

lemma keeps_socks_trans: "keeps_socks a b \<Longrightarrow> keeps_socks b c \<Longrightarrow> keeps_socks a c"
  by (simp add: keeps_socks_def)

fun changes_socks :: "wincall \<Rightarrow> bool" where
  "changes_socks (WSASocket _) \<longleftrightarrow> True"
| "changes_socks (Closesocket _) \<longleftrightarrow> True"
| "changes_socks _ \<longleftrightarrow> False"

lemma wcall_keeps: "\<not> changes_socks c \<Longrightarrow> keeps_socks s (wdo ws c s)"
  by (cases c) (simp_all add: wcall_def keeps_socks_def Let_def)

lemma status_call_keeps: "\<not> changes_socks c \<Longrightarrow> keeps_socks s (snd (status_call ws c api s))"
  using wcall_keeps [of c s ws] by (simp add: status_call_def Let_def case_prod_beta)

lemma win_setters_keep:
  "keeps_socks s (snd (raptor_set_socket_nonblocking_win ws fd b s))"
  "keeps_socks s (snd (raptor_set_socket_reuse_addr_win ws fd b s))"
  "keeps_socks s (snd (raptor_set_socket_low_latency_win ws fd b s))"
  "keeps_socks s (snd (raptor_set_socket_snd_timeout_win ws fd n s))"
  "keeps_socks s (snd (raptor_set_socket_rcv_timeout_win ws fd n s))"
  "keeps_socks s (snd (raptor_set_socket_ipv6_only_win ws fd b s))"
  "keeps_socks s (snd (raptor_set_socket_tcp_user_timeout_win ws fd n s))"
  "keeps_socks s (snd (raptor_set_socket_no_sigpipe_if_possible_win ws fd s))"
  by (simp_all add: raptor_set_socket_nonblocking_win_def raptor_set_socket_reuse_addr_win_def
      raptor_set_socket_low_latency_win_def raptor_set_socket_snd_timeout_win_def raptor_set_socket_rcv_timeout_win_def
      raptor_set_socket_ipv6_only_win_def raptor_set_socket_tcp_user_timeout_win_def
      raptor_set_socket_no_sigpipe_if_possible_win_def status_call_keeps)

lemma wtry_all_keeps: "(\<And>f s. f \<in> set fs \<Longrightarrow> keeps_socks s (snd (f s))) \<Longrightarrow> keeps_socks s (snd (wtry_all fs s))"
proof (induction fs arbitrary: s)
  case (Cons f fs)
  have "keeps_socks s (snd (f s))" using Cons.prems by simp
  moreover have "keeps_socks (snd (f s)) (snd (wtry_all fs (snd (f s))))" using Cons by simp
  ultimately show ?case using keeps_socks_trans by (simp add: Let_def case_prod_beta)
qed simp

lemma tcp_prepare_keeps: "keeps_socks s (snd (raptor_tcp_prepare_socket ws sock timeout s))"
  unfolding raptor_tcp_prepare_socket_def by (rule wtry_all_keeps) (auto simp: win_setters_keep)

lemma wdo_all_keeps: "(\<And>f s. f \<in> set fs \<Longrightarrow> keeps_socks s (snd (f s))) \<Longrightarrow> keeps_socks s (wdo_all fs s)"
proof (induction fs arbitrary: s)
  case (Cons f fs)
  have "keeps_socks s (snd (f s))" using Cons.prems by simp
  moreover have "keeps_socks (snd (f s)) (wdo_all fs (snd (f s)))" using Cons by simp
  ultimately show ?case using keeps_socks_trans by simp
qed simp

lemma win_property_steps_keep: "keeps_socks s (wdo_all (win_property_steps ws fd p) s)"
  by (rule wdo_all_keeps) (auto simp: win_property_steps_def Let_def win_setters_keep split: prod.splits if_splits)

lemma closesocket_open:
  "fd \<in> set (wi_open s) \<Longrightarrow> wi_open (wdo ws (Closesocket fd) s) = remove1 fd (wi_open s)
     \<and> wi_bad_close (wdo ws (Closesocket fd) s) = wi_bad_close s"
  by (simp add: wcall_def Let_def)

lemma ws2_socket_open:
  assumes "ws2_socket ws family s = (fd, s')"
  shows "wi_bad_close s' = wi_bad_close s \<and> wi_open s' = (if fd = INVALID_SOCKET then wi_open s else fd # wi_open s)"
  using assms by (auto simp: ws2_socket_def wcall_def Let_def)

definition win_creation :: "winio \<Rightarrow> raptor_error \<Rightarrow> SOCKET \<Rightarrow> winio \<Rightarrow> bool" where
  "win_creation s e fd s' \<longleftrightarrow> wi_bad_close s' = wi_bad_close s
     \<and> (if e = RAPTOR_ERROR_NONE then fd \<noteq> INVALID_SOCKET \<and> wi_open s' = fd # wi_open s
        else fd = INVALID_SOCKET \<and> wi_open s' = wi_open s)"

lemma create_plain_win_ok:
  assumes "create_plain_socket_win ws family s = ((e, m, fd), s')"
  shows "win_creation s e fd s'"
proof -
  obtain fd1 s1 where c: "ws2_socket ws family s = (fd1, s1)" by fastforce
  with assms ws2_socket_open [OF c] show ?thesis
    by (auto simp: create_plain_socket_win_def win_creation_def split: if_splits)
qed

lemma create_dualstack_win_ok:
  assumes "raptor_create_dualstack_socket_win ws addr s = ((e, m, fd), s')"
  shows "win_creation s e fd s'"
proof (cases "sa_family addr = AF_INET6")
  case False
  with assms show ?thesis by (auto simp: raptor_create_dualstack_socket_win_def intro: create_plain_win_ok)
next
  case True
  obtain fd1 s1 where c: "ws2_socket ws AF_INET6 s = (fd1, s1)" by fastforce
  obtain e2 s2 where o: "raptor_set_socket_ipv6_only_win ws fd1 False s1 = (e2, s2)" by fastforce
  have k: "keeps_socks s1 s2" using win_setters_keep(6) [of s1 ws fd1 False] by (simp add: o)
  note s1 = ws2_socket_open [OF c]
  show ?thesis
  proof (cases "fd1 = INVALID_SOCKET")
    case inv: True
    with True assms c s1 create_plain_win_ok [of ws AF_INET s1 e m fd s'] show ?thesis
      by (auto simp: raptor_create_dualstack_socket_win_def win_creation_def Let_def split: if_splits)
  next
    case fd: False
    have s2: "wi_open s2 = fd1 # wi_open s" "wi_bad_close s2 = wi_bad_close s" using k s1 fd by (simp_all add: keeps_socks_def)
    have run: "(if e2 = RAPTOR_ERROR_NONE then ((RAPTOR_ERROR_NONE, RAPTOR_DSMODE_DUALSTACK, fd1), s2)
        else if \<not> fst (raptor_sockaddr_is_v4mapped addr) then ((RAPTOR_ERROR_NONE, RAPTOR_DSMODE_IPV6, fd1), s2)
        else create_plain_socket_win ws AF_INET (wdo ws (Closesocket fd1) s2)) = ((e, m, fd), s')"
      using assms True c o fd by (auto simp: raptor_create_dualstack_socket_win_def Let_def simp del: not_None_eq)
    have cl: "wi_open (wdo ws (Closesocket fd1) s2) = wi_open s" "wi_bad_close (wdo ws (Closesocket fd1) s2) = wi_bad_close s"
      using closesocket_open [of fd1 s2 ws] s2 by auto
    show ?thesis
      using run fd s2 create_plain_win_ok [of ws AF_INET "wdo ws (Closesocket fd1) s2" e m fd s'] cl
      by (auto simp: win_creation_def split: if_splits simp del: not_None_eq)
  qed
qed

text \<open>A port is a 16-bit number, so that the wildcard address can be built.\<close>

lemma of_le_bound: "of_le bs < 256 ^ length bs"
proof (induction bs)
  case (Cons b bs)
  have "unat b < 256" using unsigned_less [where ?'a = nat, of b] by simp
  with Cons show ?case by (simp add: of_le_def)
qed (simp add: of_le_def)

lemma wildcard_port:
  assumes "raptor_sockaddr_is_wildcard a = (b, Some port)"
  shows "0 \<le> port \<and> port < 65536"
proof -
  have "ntohs_port (bytes_at 2 2 xs) < 65536" "0 \<le> ntohs_port (bytes_at 2 2 xs)" for xs
  proof -
    have "of_le (rev (bytes_at 2 2 xs)) < 256 ^ length (rev (bytes_at 2 2 xs))" by (rule of_le_bound)
    also have "\<dots> \<le> 256 ^ (2 :: nat)" by (rule power_increasing) (simp_all add: bytes_at_def)
    finally show "ntohs_port (bytes_at 2 2 xs) < 65536" by (simp add: ntohs_port_def)
  qed (simp add: ntohs_port_def)
  with assms show ?thesis by (auto simp: raptor_sockaddr_is_wildcard_def Let_def split: if_splits)
qed

lemma create_socket_ok:
  "\<exists>e m d fd s'. raptor_create_socket ws addr s = Some ((e, m, d, fd), s') \<and> win_creation s e fd s'"
proof -
  define a1 where "a1 = (case raptor_sockaddr_to_v4mapped addr of (True, Some m) \<Rightarrow> m | _ \<Rightarrow> addr)"
  have "\<exists>a2. (case raptor_sockaddr_is_wildcard a1 of (True, Some port) \<Rightarrow> raptor_sockaddr_make_wildcard6 port | _ \<Rightarrow> Some a1) = Some a2"
    using wildcard_port [of a1] by (auto simp: raptor_sockaddr_make_wildcard6_def split: prod.splits bool.splits option.splits)
  then obtain a2 where a2: "(case raptor_sockaddr_is_wildcard a1 of (True, Some port) \<Rightarrow> raptor_sockaddr_make_wildcard6 port | _ \<Rightarrow> Some a1) = Some a2" ..
  obtain e d fd s' where r: "raptor_create_dualstack_socket_win ws a2 s = ((e, d, fd), s')" by (metis surj_pair)
  with create_dualstack_win_ok [OF r] show ?thesis
    unfolding raptor_create_socket_def Let_def a1_def [symmetric] a2 by auto
qed

lemma server_prepare_win_ok:
  assumes "sock \<in> set (wi_open s)" and "sock \<noteq> INVALID_SOCKET"
    and "raptor_tcp_server_prepare_socket_win ws sock addr s = ((e, port), s')"
  shows "wi_bad_close s' = wi_bad_close s
    \<and> (if e = RAPTOR_ERROR_NONE then wi_open s' = wi_open s \<and> port \<noteq> None else wi_open s' = remove1 sock (wi_open s) \<and> port = None)"
proof -
  define fs where "fs = [raptor_tcp_prepare_socket ws sock 0,
    (\<lambda>s. let (a, s) = wcall ws (WinBind sock addr) s in (if wa_ret a = - 1 then windows_error ws s ''bind'' else RAPTOR_ERROR_NONE, s)),
    (\<lambda>s. let (a, s) = wcall ws (WinListen sock) s in (if wa_ret a = - 1 then windows_error ws s ''listen'' else RAPTOR_ERROR_NONE, s))]"
  obtain e1 s1 where r: "wtry_all fs s = (e1, s1)" by fastforce
  have "keeps_socks s (snd (wtry_all fs s))"
    by (rule wtry_all_keeps) (auto simp: fs_def tcp_prepare_keeps wcall_keeps Let_def case_prod_beta)
  then have k1: "keeps_socks s s1" by (simp add: r)
  obtain a s2 where g: "wcall ws (WinGetsockname sock) s1 = (a, s2)" by fastforce
  have k2: "keeps_socks s s2" using keeps_socks_trans [OF k1 wcall_keeps [of "WinGetsockname sock" s1 ws]] by (simp add: g)
  have cl: "wi_open (wdo ws (Closesocket sock) t) = remove1 sock (wi_open s) \<and> wi_bad_close (wdo ws (Closesocket sock) t) = wi_bad_close s"
    if "keeps_socks s t" for t
    using closesocket_open [of sock t ws] that assms(1) by (simp add: keeps_socks_def)
  have run: "((e, port), s') = (if e1 \<noteq> RAPTOR_ERROR_NONE then ((e1, None), wdo ws (Closesocket sock) s1)
      else if wa_ret a = - 1
      then ((windows_error ws s2 ''getsockname'', None), wdo ws (Closesocket sock) s2)
      else ((RAPTOR_ERROR_NONE, Some (raptor_sockaddr_get_port (wa_addr (fst (wcall ws (WinGetsockname sock) s1))))), s2))"
    using assms(2,3) unfolding raptor_tcp_server_prepare_socket_win_def fs_def [symmetric] r
    by (cases e1; cases "wa_ret a = - 1") (auto simp: Let_def g)
  show ?thesis using run cl [OF k1] cl [OF k2] k2 by (auto simp: keeps_socks_def split: if_splits simp del: not_None_eq)
qed

end
