(* ===== verification/WinListen.thy ===== *)
theory WinListen
  imports WinSock ListEntry EndpointM
begin

text \<open>
  The listener of the Windows build (src/src/windows/tcp_listener.cc). Per port it keeps a list of
  \<open>AcceptObject\<close>s, each with an \<open>AcceptEx\<close> call under way; a completion hands the accepted socket over and
  starts the next call. The objects are linked by the intrusive lists of theory \<open>ListEntry\<close>, whose heads
  live in a vector: when the vector grows its elements get new addresses. A result of \<open>None\<close> is an access
  to memory that is not allocated, or a release of memory that was not allocated as an object.
\<close>

section \<open>State\<close>

record AcceptObject =
  ao_new_socket :: SOCKET
  ao_listen_port :: int
  ao_mode :: raptor_dualstack_mode
  ao_addr_buffer :: "byte list"
  ao_olex :: OverLappedEx

definition AcceptObject_new :: AcceptObject where
  "AcceptObject_new = \<lparr>ao_new_socket = INVALID_SOCKET, ao_listen_port = 0, ao_mode = RAPTOR_DSMODE_NONE,
     ao_addr_buffer = replicate 88 0, ao_olex = \<lparr>ol_event_type = 0, ol_HandleId = 0\<rparr>\<rparr>"

text \<open>\<open>ListenInforEx\<close>: the address of the element, which is that of \<open>head\<close>, and the socket.\<close>

record ListenInforEx =
  li_head :: addr
  li_listen_fd :: SOCKET

record WinListener =
  wl_shutdown :: bool
  wl_AcceptEx :: bool
  wl_GetAcceptExSockAddrs :: bool
  wl_threads :: int
  wl_heads :: "ListenInforEx list"
  wl_capacity :: nat
  wl_poll_thread :: "nat option"

text \<open>The listener with the memory it uses, the system calls and the polling objects of the process.
  \<open>lw_posted\<close> holds the objects whose \<open>AcceptEx\<close> is under way.\<close>

record listen_world =
  lw_lis :: WinListener
  lw_list :: list_heap
  lw_objs :: "addr \<rightharpoonup> AcceptObject"
  lw_fresh :: addr
  lw_posted :: "addr list"
  lw_io :: winio
  lw_polls :: iocp_sys

text \<open>What the listener calls: the system, how \<open>GetAcceptExSockAddrs\<close> reads a buffer (the local and the remote
  address, or null), whether the port takes a socket, and the capacity a vector that is full gets.\<close>

record accept_env =
  ae_win :: winsock
  ae_addrs :: "byte list \<Rightarrow> byte list option \<times> byte list option"
  ae_added :: "SOCKET \<Rightarrow> bool"
  ae_grow :: "nat \<Rightarrow> nat"

definition TcpListener_new_win :: WinListener where
  "TcpListener_new_win = \<lparr>wl_shutdown = True, wl_AcceptEx = False, wl_GetAcceptExSockAddrs = False, wl_threads = 1,
     wl_heads = [], wl_capacity = 0, wl_poll_thread = None\<rparr>"

section \<open>Starting\<close>

text \<open>\<open>service\<close> is the address of the listener and \<open>i\<close> the polling object that is allocated.\<close>

definition TcpListener_Init_win ::
  "iocp_os \<Rightarrow> nat \<Rightarrow> addr \<Rightarrow> int \<Rightarrow> listen_world \<Rightarrow> (raptor_error \<times> listen_world) option" where
  "TcpListener_Init_win os i service threads w =
     (if \<not> wl_shutdown (lw_lis w) then Some (MakeStatusFromStaticString ''TcpListener is already running'', w)
      else do {
        polls \<leftarrow> replace_win_poll (wl_poll_thread (lw_lis w)) i service (lw_polls w);
        let lis = (lw_lis w)\<lparr>wl_poll_thread := Some i\<rparr>;
        (e, polls) \<leftarrow> poll_through (Some i) (WinPolling_Init os (to_u64 threads)) polls;
        if e \<noteq> RAPTOR_ERROR_NONE then Some (e, w\<lparr>lw_lis := lis, lw_polls := polls\<rparr>)
        else do {
          (_, polls) \<leftarrow> poll_through (Some i) (WinPolling_EnableTimeoutCheck False) polls;
          Some (RAPTOR_ERROR_NONE,
                w\<lparr>lw_lis := lis\<lparr>wl_shutdown := False, wl_threads := threads\<rparr>, lw_polls := polls\<rparr>) } })"

definition TcpListener_Start_win :: "listen_world \<Rightarrow> (raptor_error \<times> listen_world) option" where
  "TcpListener_Start_win w =
     (if wl_shutdown (lw_lis w) then Some (MakeStatusFromStaticString ''TcpListener is not initialized'', w)
      else do {
        (e, polls) \<leftarrow> poll_through (wl_poll_thread (lw_lis w)) WinPolling_Start (lw_polls w);
        Some (e, w\<lparr>lw_polls := polls\<rparr>) })"

section \<open>Objects\<close>

text \<open>\<open>new AcceptObject\<close> and \<open>delete\<close>, with the destructor.\<close>

definition alloc_object :: "AcceptObject \<Rightarrow> listen_world \<Rightarrow> addr \<times> listen_world" where
  "alloc_object node w =
     (let a = lw_fresh w in
      (a, w\<lparr>lw_fresh := a + 1, lw_objs := (lw_objs w)(a \<mapsto> node),
            lw_list := (lw_list w)\<lparr>lnodes := insert a (lnodes (lw_list w)),
              lnext := (lnext (lw_list w))(a := a), lprev := (lprev (lw_list w))(a := a)\<rparr>\<rparr>))"

definition delete_object :: "winsock \<Rightarrow> addr \<Rightarrow> listen_world \<Rightarrow> listen_world option" where
  "delete_object ws a w = do {
     obj \<leftarrow> lw_objs w a;
     Some (w\<lparr>lw_objs := (lw_objs w)(a := None),
             lw_list := (lw_list w)\<lparr>lnodes := lnodes (lw_list w) - {a}\<rparr>,
             lw_io := (if ao_new_socket obj \<noteq> INVALID_SOCKET then wdo ws (Closesocket (ao_new_socket obj)) (lw_io w) else lw_io w)\<rparr>) }"

text \<open>A copy of the list entry at \<open>a\<close>, at the address \<open>b\<close>.\<close>

definition copy_entry :: "addr \<Rightarrow> addr \<Rightarrow> list_heap \<Rightarrow> list_heap" where
  "copy_entry a b h = h\<lparr>lnodes := insert b (lnodes h), lnext := (lnext h)(b := lnext h a), lprev := (lprev h)(b := lprev h a)\<rparr>"

definition free_entry :: "addr \<Rightarrow> list_heap \<Rightarrow> list_heap" where
  "free_entry a h = h\<lparr>lnodes := lnodes h - {a}\<rparr>"

section \<open>Shutting down\<close>

partial_function (option) pop_objects :: "winsock \<Rightarrow> addr \<Rightarrow> listen_world \<Rightarrow> listen_world option" where
  "pop_objects ws head w = do {
     (entry, h) \<leftarrow> raptor_list_pop_back head (lw_list w);
     let w = w\<lparr>lw_list := h\<rparr>;
     case entry of
       None \<Rightarrow> Some w
     | Some a \<Rightarrow> do { w \<leftarrow> delete_object ws a w; pop_objects ws head w } }"

text \<open>The loop over \<open>_heads\<close>: \<open>info\<close> is a copy of the element, in a variable of the loop.\<close>

fun shutdown_heads :: "winsock \<Rightarrow> ListenInforEx list \<Rightarrow> listen_world \<Rightarrow> listen_world option" where
  "shutdown_heads ws [] w = Some w"
| "shutdown_heads ws (x # xs) w = do {
     let info = lw_fresh w;
     let w = w\<lparr>lw_fresh := info + 1, lw_list := copy_entry (li_head x) info (lw_list w)\<rparr>;
     w \<leftarrow> pop_objects ws info w;
     (_, polls) \<leftarrow> poll_through (wl_poll_thread (lw_lis w)) (WinPolling_Delete (li_listen_fd x) 0) (lw_polls w);
     shutdown_heads ws xs (w\<lparr>lw_polls := polls, lw_io := wdo ws (Closesocket (li_listen_fd x)) (lw_io w),
                             lw_list := free_entry info (lw_list w)\<rparr>) }"

definition TcpListener_Shutdown_win :: "winsock \<Rightarrow> listen_world \<Rightarrow> listen_world option" where
  "TcpListener_Shutdown_win ws w =
     (if wl_shutdown (lw_lis w) then Some w
      else do {
        w \<leftarrow> shutdown_heads ws (wl_heads (lw_lis w)) (w\<lparr>lw_lis := (lw_lis w)\<lparr>wl_shutdown := True\<rparr>\<rparr>);
        i \<leftarrow> wl_poll_thread (lw_lis w);
        polls \<leftarrow> poll_exec (ShutdownP i) (lw_polls w);
        Some (w\<lparr>lw_polls := polls, lw_list := foldr free_entry (map li_head (wl_heads (lw_lis w))) (lw_list w),
                lw_lis := (lw_lis w)\<lparr>wl_heads := []\<rparr>\<rparr>) })"

section \<open>Accepting\<close>

definition TcpListener_GetExtensionFunction :: "winsock \<Rightarrow> SOCKET \<Rightarrow> listen_world \<Rightarrow> raptor_error \<times> listen_world" where
  "TcpListener_GetExtensionFunction ws fd w =
     (let get = (\<lambda>present set code w.
            if present (lw_lis w) then (RAPTOR_ERROR_NONE, w)
            else let (a, io) = wcall ws (WSAIoctl fd code) (lw_io w) in
              if wa_ret a \<noteq> 0 then (windows_error ws io ''WSAIoctl'', w\<lparr>lw_io := io\<rparr>)
              else (RAPTOR_ERROR_NONE, w\<lparr>lw_io := io, lw_lis := set (lw_lis w)\<rparr>));
          (e, w) = get wl_AcceptEx (\<lambda>lis. lis\<lparr>wl_AcceptEx := True\<rparr>) GetAcceptEx w in
      if e \<noteq> RAPTOR_ERROR_NONE then (e, w)
      else get wl_GetAcceptExSockAddrs (\<lambda>lis. lis\<lparr>wl_GetAcceptExSockAddrs := True\<rparr>) GetAcceptExSockAddrs w)"

abbreviation ERROR_IO_PENDING :: int where
  "ERROR_IO_PENDING \<equiv> 997"

text \<open>\<open>None\<close>: \<open>sp\<close> is not an object, or the function pointer is null.\<close>

definition set_new_socket :: "addr \<Rightarrow> SOCKET \<Rightarrow> listen_world \<Rightarrow> listen_world option" where
  "set_new_socket sp sock w = do { obj \<leftarrow> lw_objs w sp; Some (w\<lparr>lw_objs := (lw_objs w)(sp \<mapsto> obj\<lparr>ao_new_socket := sock\<rparr>)\<rparr>) }"

definition TcpListener_StartAcceptEx ::
  "winsock \<Rightarrow> SOCKET \<Rightarrow> resolved_address \<Rightarrow> addr \<Rightarrow> listen_world \<Rightarrow> (raptor_error \<times> listen_world) option" where
  "TcpListener_StartAcceptEx ws listen_fd addr sp w =
     (let failure = (\<lambda>sock e w. do {
            let io = (if sock \<noteq> INVALID_SOCKET then wdo ws (Closesocket sock) (lw_io w) else lw_io w);
            w \<leftarrow> set_new_socket sp INVALID_SOCKET (w\<lparr>lw_io := io\<rparr>);
            Some (e, w) });
          (sock, io) = ws2_socket ws (sa_family addr) (lw_io w) in
      if sock = INVALID_SOCKET then failure sock (windows_error ws io ''WSASocket'') (w\<lparr>lw_io := io\<rparr>)
      else let (error, io) = raptor_tcp_prepare_socket ws sock 0 io in
        if error \<noteq> RAPTOR_ERROR_NONE then failure sock error (w\<lparr>lw_io := io\<rparr>)
        else do {
          w \<leftarrow> set_new_socket sp sock (w\<lparr>lw_io := io\<rparr>);
          if \<not> wl_AcceptEx (lw_lis w) then None
          else let (a, io) = wcall ws (AcceptExCall listen_fd sock sp) (lw_io w); w = w\<lparr>lw_io := io\<rparr> in
            if wa_ret a = 0 \<and> wa_error a \<noteq> ERROR_IO_PENDING then failure sock (windows_error ws io ''AcceptEx'') w
            else Some (RAPTOR_ERROR_NONE, w\<lparr>lw_posted := lw_posted w @ [sp]\<rparr>) })"

text \<open>\<open>_heads.emplace_back(tmp)\<close>: when the vector is full its elements are copied to new memory and the
  old memory is released.\<close>

fun move_heads :: "ListenInforEx list \<Rightarrow> addr \<Rightarrow> list_heap \<Rightarrow> ListenInforEx list \<times> addr \<times> list_heap" where
  "move_heads [] f h = ([], f, h)"
| "move_heads (x # xs) f h =
     (let (ys, f', h) = move_heads xs (f + 1) (free_entry (li_head x) (copy_entry (li_head x) f h))
      in (x\<lparr>li_head := f\<rparr> # ys, f', h))"

definition heads_emplace_back :: "(nat \<Rightarrow> nat) \<Rightarrow> listen_world \<Rightarrow> listen_world" where
  "heads_emplace_back grow w =
     (let lis = lw_lis w; n = length (wl_heads lis);
          (heads, f, h) = (if n < wl_capacity lis then (wl_heads lis, lw_fresh w, lw_list w)
                           else move_heads (wl_heads lis) (lw_fresh w) (lw_list w));
          capacity = (if n < wl_capacity lis then wl_capacity lis else max (n + 1) (grow n))
      in w\<lparr>lw_lis := lis\<lparr>wl_heads := heads @ [\<lparr>li_head = f, li_listen_fd = 0\<rparr>], wl_capacity := capacity\<rparr>,
           lw_fresh := f + 1, lw_list := h\<lparr>lnodes := insert f (lnodes h)\<rparr>\<rparr>)"

definition AcceptBaseHandleId :: u32 where
  "AcceptBaseHandleId = 9527"

text \<open>The loop that starts the calls; \<open>n\<close> rounds are left.\<close>

fun accept_loop ::
  "winsock \<Rightarrow> nat \<Rightarrow> SOCKET \<Rightarrow> resolved_address \<Rightarrow> int \<Rightarrow> raptor_dualstack_mode \<Rightarrow> nat \<Rightarrow> addr
   \<Rightarrow> listen_world \<Rightarrow> (raptor_error \<times> listen_world) option" where
  "accept_loop ws 0 listen_fd addr port mode index head w = Some (RAPTOR_ERROR_NONE, w)"
| "accept_loop ws (Suc n) listen_fd addr port mode index head w = do {
     let (node, w) = alloc_object (AcceptObject_new\<lparr>ao_listen_port := port, ao_mode := mode,
            ao_olex := \<lparr>ol_event_type = kAcceptEvent, ol_HandleId = AcceptBaseHandleId + of_nat index\<rparr>\<rparr>) w;
     h \<leftarrow> raptor_list_push_back head node (lw_list w);
     (e, w) \<leftarrow> TcpListener_StartAcceptEx ws listen_fd addr node (w\<lparr>lw_list := h\<rparr>);
     if e \<noteq> RAPTOR_ERROR_NONE then do {
       (_, h) \<leftarrow> raptor_list_remove_entry node (lw_list w);
       w \<leftarrow> delete_object ws node (w\<lparr>lw_list := h\<rparr>);
       Some (e, w) }
     else accept_loop ws n listen_fd addr port mode index head w }"

text \<open>From the lock to the end: the socket is listening on \<open>port\<close>.\<close>

definition register_port ::
  "accept_env \<Rightarrow> SOCKET \<Rightarrow> resolved_address \<Rightarrow> raptor_dualstack_mode \<Rightarrow> int \<Rightarrow> listen_world \<Rightarrow> (raptor_error \<times> listen_world) option" where
  "register_port env listen_fd mapped_addr mode port w = do {
     let index = length (wl_heads (lw_lis w));
     let w = heads_emplace_back (ae_grow env) w;
     info \<leftarrow> vec_at (wl_heads (lw_lis w)) index;
     let info = info\<lparr>li_listen_fd := listen_fd\<rparr>;
     let w = w\<lparr>lw_lis := (lw_lis w)\<lparr>wl_heads := (wl_heads (lw_lis w))[index := info]\<rparr>\<rparr>;
     h \<leftarrow> RAPTOR_LIST_INIT (li_head info) (lw_list w);
     (_, polls) \<leftarrow> poll_through (wl_poll_thread (lw_lis w))
        (WinPolling_Add (ae_added env listen_fd) listen_fd listen_fd kAcceptEvent) (lw_polls w);
     let w = w\<lparr>lw_list := h, lw_polls := polls\<rparr>;
     accept_loop (ae_win env) (nat (wl_threads (lw_lis w) + 1)) listen_fd mapped_addr port mode index (li_head info) w }"

definition TcpListener_AddListeningPort_win ::
  "accept_env \<Rightarrow> resolved_address \<Rightarrow> listen_world \<Rightarrow> (raptor_error \<times> listen_world) option" where
  "TcpListener_AddListeningPort_win env addr w =
     (if wl_shutdown (lw_lis w) then Some (MakeStatusFromStaticString ''TcpListener has been shutdown'', w)
      else do {
        let ws = ae_win env;
        ((e, mapped_addr, mode, listen_fd), io) \<leftarrow> raptor_create_socket ws addr (lw_io w);
        let w = w\<lparr>lw_io := io\<rparr>;
        if e \<noteq> RAPTOR_ERROR_NONE then Some (e, w)
        else do {
          let (e, w) = (if \<not> wl_AcceptEx (lw_lis w) \<or> \<not> wl_GetAcceptExSockAddrs (lw_lis w)
                        then TcpListener_GetExtensionFunction ws listen_fd w else (RAPTOR_ERROR_NONE, w));
          if e \<noteq> RAPTOR_ERROR_NONE then Some (e, w\<lparr>lw_io := wdo ws (Closesocket listen_fd) (lw_io w)\<rparr>)
          else do {
            let ((e, port), io) = raptor_tcp_server_prepare_socket_win ws listen_fd mapped_addr (lw_io w);
            let w = w\<lparr>lw_io := io\<rparr>;
            if e \<noteq> RAPTOR_ERROR_NONE then Some (e, w)
            else register_port env listen_fd mapped_addr mode (case port of None \<Rightarrow> 0 | Some p \<Rightarrow> p) w } } })"

section \<open>Completions\<close>

text \<open>\<open>memcpy(addr, src, len)\<close> into an address that is zero.\<close>

definition filled_address :: "byte list option \<Rightarrow> resolved_address" where
  "filled_address src =
     (case src of None \<Rightarrow> ra_zero | Some bs \<Rightarrow> \<lparr>ra_addr = bs @ drop (length bs) (ra_addr ra_zero), ra_len = length bs\<rparr>)"

text \<open>The result is \<open>*server\<close> and \<open>*client\<close>.\<close>

definition TcpListener_ParsingNewConnectionAddress ::
  "(byte list \<Rightarrow> byte list option \<times> byte list option) \<Rightarrow> AcceptObject \<Rightarrow> resolved_address \<times> resolved_address" where
  "TcpListener_ParsingNewConnectionAddress addrs sp =
     (let (local, remote) = addrs (ao_addr_buffer sp) in (filled_address local, filled_address remote))"

definition TcpListener_ProcessProperty_win :: "winsock \<Rightarrow> SOCKET \<Rightarrow> Property \<Rightarrow> winio \<Rightarrow> winio" where
  "TcpListener_ProcessProperty_win ws fd p io = wdo_all (win_property_steps ws fd p) io"

text \<open>The application's \<open>OnAccept\<close>: what it leaves of the property, and the calls it makes.\<close>

type_synonym win_accept_handler = "EndpointImpl \<Rightarrow> Property \<Rightarrow> winio \<Rightarrow> Property \<times> winio"

definition TcpListener_OnEventProcess_win ::
  "accept_env \<Rightarrow> win_accept_handler \<Rightarrow> win_detail \<Rightarrow> listen_world \<Rightarrow> listen_world option" where
  "TcpListener_OnEventProcess_win env handler detail w =
     (if wd_event_type detail AND kAcceptEvent = 0 then None
      else do {
        let ws = ae_win env;
        let a = wd_overlaped detail;
        obj \<leftarrow> lw_objs w a;
        let listen_fd = wd_ptr detail;
        _ \<leftarrow> (if wl_GetAcceptExSockAddrs (lw_lis w) then Some () else None);
        let (server, client) = TcpListener_ParsingNewConnectionAddress (ae_addrs env) obj;
        let ep = EndpointImpl_SetListenPort (of_int (ao_listen_port obj)) (EndpointImpl_new (ao_new_socket obj) server client);
        let (property, io) = handler ep Property_new (lw_io w);
        let io = TcpListener_ProcessProperty_win ws (ao_new_socket obj) property io;
        w \<leftarrow> set_new_socket a INVALID_SOCKET (w\<lparr>lw_io := io\<rparr>);
        (e, w) \<leftarrow> TcpListener_StartAcceptEx ws listen_fd server a w;
        if e \<noteq> RAPTOR_ERROR_NONE then TcpListener_Shutdown_win ws w else Some w })"

section \<open>Shutting down with a port\<close>

text \<open>
  The nodes \<open>xs\<close> behind the element at \<open>el\<close> of the vector: they are linked to the address \<open>orig\<close> the
  element had when they were linked, which has been released when the vector grew since then.
\<close>

definition ring_at :: "list_heap \<Rightarrow> addr set \<Rightarrow> addr \<Rightarrow> addr \<Rightarrow> addr \<Rightarrow> addr list \<Rightarrow> bool" where
  "ring_at h objs fresh el orig xs \<longleftrightarrow> distinct xs \<and> set xs \<subseteq> objs \<and> el \<notin> objs \<and> orig \<notin> objs \<and> orig < fresh
     \<and> el \<in> lnodes h \<and> el < fresh \<and> (orig \<in> lnodes h \<longrightarrow> orig = el)
     \<and> lnext h el \<in> insert orig (set xs) \<and> lprev h el = last (orig # xs) \<and> map (lprev h) xs = butlast (orig # xs)"

lemma ring_frame:
  assumes "ring_at h objs fresh el orig xs"
    and "\<And>a. a \<in> insert el (set xs) \<Longrightarrow> lnext h' a = lnext h a \<and> lprev h' a = lprev h a"
    and "el \<in> lnodes h'" and "orig \<in> lnodes h' \<Longrightarrow> orig \<in> lnodes h" and "set xs \<subseteq> objs'" and "el \<notin> objs'"
    and "orig \<notin> objs'" and "fresh \<le> fresh'"
  shows "ring_at h' objs' fresh' el orig xs"
proof -
  have "map (lprev h') xs = map (lprev h) xs" using assms(2) by auto
  then show ?thesis using assms unfolding ring_at_def by auto
qed

lemma delete_object_node:
  assumes "lw_objs w a = Some obj"
  shows "\<exists>io. delete_object ws a w = Some (w\<lparr>lw_objs := (lw_objs w)(a := None),
      lw_list := (lw_list w)\<lparr>lnodes := lnodes (lw_list w) - {a}\<rparr>, lw_io := io\<rparr>)"
  unfolding delete_object_def assms by (simp only: bind.simps) blast

lemma pop_objects_stuck:
  assumes "distinct ys" and "set ys \<subseteq> dom (lw_objs w)" and "set ys \<subseteq> lnodes (lw_list w)"
    and "orig \<notin> dom (lw_objs w)" and "c \<in> lnodes (lw_list w)" and "c \<notin> insert orig (set ys)" and "lnext (lw_list w) c \<noteq> c"
    and "lprev (lw_list w) c = last (orig # ys)" and "map (lprev (lw_list w)) ys = butlast (orig # ys)"
    and "orig \<in> lnodes (lw_list w) \<Longrightarrow> lprev (lw_list w) orig \<in> insert orig (set ys) \<or> lprev (lw_list w) orig \<notin> lnodes (lw_list w)"
  shows "pop_objects ws c w = None"
  using assms
proof (induction ys arbitrary: w rule: rev_induct)
  case Nil
  let ?h = "lw_list w"
  have p: "lprev ?h c = orig" and ne: "RAPTOR_LIST_IS_EMPTY c ?h = Some False"
    using Nil.prems by (simp_all add: RAPTOR_LIST_IS_EMPTY_def get_next_def)
  show ?case
  proof (cases "orig \<in> lnodes ?h \<and> lprev ?h orig \<in> lnodes ?h")
    case True
    then have "lprev ?h orig = orig" using Nil.prems by auto
    with True p ne Nil.prems(4,5) show ?thesis
      by (subst pop_objects.simps) (auto simp: raptor_list_pop_back_def get_prev_def set_next_def set_prev_def delete_object_def domIff)
  next
    case False
    with p ne Nil.prems(5) show ?thesis
      by (subst pop_objects.simps) (auto simp: raptor_list_pop_back_def get_prev_def set_next_def)
  qed
next
  case (snoc y ys)
  let ?h = "lw_list w" and ?second = "last (orig # ys)"
  have y: "y \<in> lnodes ?h" "y \<in> dom (lw_objs w)" "y \<noteq> c" "y \<noteq> orig" "y \<notin> set ys" using snoc.prems by auto
  have p: "lprev ?h c = y" and ne: "RAPTOR_LIST_IS_EMPTY c ?h = Some False"
    using snoc.prems by (simp_all add: RAPTOR_LIST_IS_EMPTY_def get_next_def)
  have "map (lprev ?h) ys @ [lprev ?h y] = butlast (orig # ys) @ [?second]"
    using snoc.prems(9) append_butlast_last_id [of "orig # ys"] butlast_snoc [of "orig # ys" y]
    by (simp del: butlast.simps last.simps)
  then have py: "lprev ?h y = ?second" and ps: "map (lprev ?h) ys = butlast (orig # ys)" by simp_all
  show ?case
  proof (cases "?second \<in> lnodes ?h")
    case False
    with p py ne y snoc.prems(5) show ?thesis
      by (subst pop_objects.simps) (simp add: raptor_list_pop_back_def get_prev_def set_next_def del: last.simps)
  next
    case True
    define h1 where "h1 = ?h\<lparr>lnext := (lnext ?h)(?second := c), lprev := (lprev ?h)(c := ?second)\<rparr>"
    have pop: "raptor_list_pop_back c ?h = Some (Some y, h1)"
      using p py ne y True snoc.prems(5)
      by (simp add: raptor_list_pop_back_def get_prev_def set_next_def set_prev_def h1_def del: last.simps)
    obtain obj where "lw_objs (w\<lparr>lw_list := h1\<rparr>) y = Some obj" using y by auto
    from delete_object_node [OF this] obtain io where
      d: "delete_object ws y (w\<lparr>lw_list := h1\<rparr>) = Some (w\<lparr>lw_objs := (lw_objs w)(y := None),
        lw_list := h1\<lparr>lnodes := lnodes ?h - {y}\<rparr>, lw_io := io\<rparr>)" (is "_ = Some ?w")
      by (auto simp: h1_def)
    have sc: "?second \<noteq> c" using snoc.prems(6) last_in [of orig ys] by auto
    have "pop_objects ws c ?w = None"
    proof (rule snoc.IH)
      show "orig \<in> lnodes (lw_list ?w) \<Longrightarrow> lprev (lw_list ?w) orig \<in> insert orig (set ys) \<or> lprev (lw_list ?w) orig \<notin> lnodes (lw_list ?w)"
        using snoc.prems(6,10) by (auto simp: h1_def)
      show "map (lprev (lw_list ?w)) ys = butlast (orig # ys)" using ps snoc.prems(6) by (simp add: h1_def del: butlast.simps)
    qed (use snoc.prems y sc in \<open>auto simp: h1_def simp del: last.simps\<close>)
    with pop d show ?thesis by (subst pop_objects.simps) simp
  qed
qed

lemma shutdown_first_stuck:
  assumes r: "ring_at (lw_list w) (dom (lw_objs w)) (lw_fresh w) (li_head x) orig xs"
    and "dom (lw_objs w) \<subseteq> lnodes (lw_list w)" and "lnodes (lw_list w) \<subseteq> {..<lw_fresh w}"
  shows "shutdown_heads ws (x # rest) w = None"
proof -
  let ?h = "copy_entry (li_head x) (lw_fresh w) (lw_list w)"
  let ?w = "w\<lparr>lw_fresh := lw_fresh w + 1, lw_list := ?h\<rparr>"
  have nd: "lw_fresh w \<notin> dom (lw_objs w)" using assms(2,3) by auto
  have "set xs \<subseteq> dom (lw_objs w)" using r by (simp add: ring_at_def)
  then have xl: "set xs \<subseteq> lnodes (lw_list w)" using assms(2) by (rule subset_trans)
  from nd have f: "lw_fresh w \<notin> insert orig (insert (li_head x) (set xs))" using r by (auto simp: ring_at_def)
  have "map (lprev ?h) xs = map (lprev (lw_list w)) xs" using f by (auto simp: copy_entry_def)
  also have "\<dots> = butlast (orig # xs)" using r by (simp add: ring_at_def del: butlast.simps)
  finally have lp: "map (lprev ?h) xs = butlast (orig # xs)" .
  have "pop_objects ws (lw_fresh w) ?w = None"
  proof (rule pop_objects_stuck)
    show "map (lprev (lw_list ?w)) xs = butlast (orig # xs)" using lp by (simp del: butlast.simps)
    show "lprev (lw_list ?w) orig \<in> insert orig (set xs) \<or> lprev (lw_list ?w) orig \<notin> lnodes (lw_list ?w)"
      if "orig \<in> lnodes (lw_list ?w)"
    proof -
      have "orig = li_head x" using that r f by (auto simp: ring_at_def copy_entry_def)
      then show ?thesis using r f last_in [of orig xs] by (auto simp: ring_at_def copy_entry_def simp del: last.simps)
    qed
  qed (use r f nd xl in \<open>auto simp: ring_at_def copy_entry_def\<close>)
  then show ?thesis by simp
qed

section \<open>Starting an accept\<close>

lemma set_new_socket_Some:
  "lw_objs w a = Some obj \<Longrightarrow> set_new_socket a s w = Some (w\<lparr>lw_objs := (lw_objs w)(a \<mapsto> obj\<lparr>ao_new_socket := s\<rparr>)\<rparr>)"
  by (simp add: set_new_socket_def)

text \<open>The state after \<open>StartAcceptEx\<close>: the object holds a new socket and its call is under way, or it holds
  none and no socket was left open.\<close>

definition accept_started :: "addr \<Rightarrow> listen_world \<Rightarrow> raptor_error \<Rightarrow> SOCKET \<Rightarrow> winio \<Rightarrow> listen_world \<Rightarrow> bool" where
  "accept_started a w e s io w' \<longleftrightarrow>
     w' = w\<lparr>lw_objs := (lw_objs w)(a \<mapsto> (the (lw_objs w a))\<lparr>ao_new_socket := s\<rparr>), lw_io := io,
            lw_posted := lw_posted w @ (if e = RAPTOR_ERROR_NONE then [a] else [])\<rparr>
     \<and> wi_bad_close io = wi_bad_close (lw_io w)
     \<and> (if e = RAPTOR_ERROR_NONE then s \<noteq> INVALID_SOCKET \<and> wi_open io = s # wi_open (lw_io w)
        else s = INVALID_SOCKET \<and> wi_open io = wi_open (lw_io w))"

lemma start_failure:
  assumes "lw_objs w a = Some obj" and "e \<noteq> RAPTOR_ERROR_NONE" and "sock \<noteq> INVALID_SOCKET"
    and "wi_open io = sock # opened" and "opened = wi_open (lw_io w)" and "wi_bad_close io = wi_bad_close (lw_io w)"
  shows "accept_started a w e INVALID_SOCKET (wdo ws (Closesocket sock) io)
    (w\<lparr>lw_io := wdo ws (Closesocket sock) io, lw_objs := (lw_objs w)(a \<mapsto> obj\<lparr>ao_new_socket := INVALID_SOCKET\<rparr>)\<rparr>)"
  using closesocket_open [of sock io ws] assms by (simp add: accept_started_def del: not_None_eq)

lemma StartAcceptEx_ok:
  assumes obj: "lw_objs w a = Some obj" and ex: "wl_AcceptEx (lw_lis w)"
  shows "\<exists>e s io w'. TcpListener_StartAcceptEx ws listen_fd addr a w = Some (e, w') \<and> accept_started a w e s io w'"
proof -
  obtain sock io where c: "ws2_socket ws (sa_family addr) (lw_io w) = (sock, io)" by fastforce
  note o = ws2_socket_open [OF c]
  show ?thesis
  proof (cases "sock = INVALID_SOCKET")
    case True
    have "accept_started a w (windows_error ws io ''WSASocket'') INVALID_SOCKET io
      (w\<lparr>lw_io := io, lw_objs := (lw_objs w)(a \<mapsto> obj\<lparr>ao_new_socket := INVALID_SOCKET\<rparr>)\<rparr>)"
      using o True obj by (simp add: accept_started_def)
    with c True obj show ?thesis by (fastforce simp: TcpListener_StartAcceptEx_def set_new_socket_Some Let_def)
  next
    case s: False
    obtain e io1 where p: "raptor_tcp_prepare_socket ws sock 0 io = (e, io1)" by fastforce
    have k1: "keeps_socks io io1" using tcp_prepare_keeps [of io ws sock 0] by (simp add: p)
    then have o1: "wi_open io1 = sock # wi_open (lw_io w)" "wi_bad_close io1 = wi_bad_close (lw_io w)"
      using o s by (simp_all add: keeps_socks_def)
    show ?thesis
    proof (cases "e = RAPTOR_ERROR_NONE")
      case False
      from start_failure [OF obj False s o1(1) refl o1(2), of ws] c s p False obj show ?thesis
        by (fastforce simp: TcpListener_StartAcceptEx_def set_new_socket_Some Let_def simp del: not_None_eq)
    next
      case True
      obtain r io2 where a: "wcall ws (AcceptExCall listen_fd sock a) io1 = (r, io2)" by fastforce
      have k2: "keeps_socks io1 io2" using wcall_keeps [of "AcceptExCall listen_fd sock a" io1 ws] by (simp add: a)
      then have o2: "wi_open io2 = sock # wi_open (lw_io w)" "wi_bad_close io2 = wi_bad_close (lw_io w)"
        using o1 by (simp_all add: keeps_socks_def)
      show ?thesis
      proof (cases "wa_ret r = 0 \<and> wa_error r \<noteq> ERROR_IO_PENDING")
        case failed: True
        from start_failure [OF obj windows_error_Some(1) s o2(1) refl o2(2), of ws io2 "''AcceptEx''" ws] c s p True a failed obj ex show ?thesis
          by (fastforce simp: TcpListener_StartAcceptEx_def set_new_socket_Some Let_def simp del: not_None_eq)
      next
        case False
        with c s p True a obj ex o2 show ?thesis
          by (auto simp: TcpListener_StartAcceptEx_def set_new_socket_Some accept_started_def Let_def)
      qed
    qed
  qed
qed

section \<open>The list of a port\<close>

lemma push_back_frame:
  assumes "list_rep h head xs" and "raptor_list_push_back head x h = Some h'" and "a \<notin> set (head # x # xs)"
  shows "lnext h' a = lnext h a \<and> lprev h' a = lprev h a"
proof -
  have "lprev h head = last (head # xs)" using list_rep_split(5) [of h head xs "[]"] assms(1) by simp
  moreover have "a \<noteq> last (head # xs)" using assms(3) last_in [of head xs] by auto
  ultimately show ?thesis
    using assms(2,3) by (auto simp: raptor_list_push_back_def get_prev_def set_next_def set_prev_def split: if_splits simp del: last.simps)
qed

lemma remove_last_frame:
  assumes "list_rep h head (xs @ [x])" and "raptor_list_remove_entry x h = Some (r, h')" and "a \<notin> set (head # xs)"
  shows "lnext h' a = lnext h a \<and> lprev h' a = lprev h a"
proof -
  have "lprev h x = last (head # xs)" "lnext h x = head"
    using list_rep_split(5) [OF assms(1)] list_rep_split(2) [of h head "xs @ [x]" "[]"] assms(1) by simp_all
  moreover have "a \<noteq> last (head # xs)" using assms(3) last_in [of head xs] by auto
  ultimately show ?thesis
    using assms(2,3) by (auto simp: raptor_list_remove_entry_def get_next_def get_prev_def set_next_def set_prev_def
        split: if_splits simp del: last.simps)
qed

text \<open>Fields of the entries that existed before are kept, except those of the list at \<open>head\<close>.\<close>

definition fields_kept :: "addr set \<Rightarrow> addr \<Rightarrow> list_heap \<Rightarrow> list_heap \<Rightarrow> bool" where
  "fields_kept own fresh h h' \<longleftrightarrow> (\<forall>a. a < fresh \<and> a \<notin> own \<longrightarrow> lnext h' a = lnext h a \<and> lprev h' a = lprev h a)"

lemma fields_kept_trans:
  "fields_kept own f h h1 \<Longrightarrow> fields_kept own' f' h1 h2 \<Longrightarrow> own' \<subseteq> own \<union> {f..} \<Longrightarrow> f \<le> f' \<Longrightarrow> fields_kept own f h h2"
  unfolding fields_kept_def by (metis (no_types, lifting) UnE atLeast_iff leD order.strict_trans2 subsetD)

lemma list_rep_alloc:
  assumes "list_rep h head xs" and "a \<notin> set (head # xs)"
  shows "list_rep (h\<lparr>lnodes := insert a (lnodes h), lnext := (lnext h)(a := a), lprev := (lprev h)(a := a)\<rparr>) head xs"
proof -
  have "map ((lnext h)(a := a)) (head # xs) = map (lnext h) (head # xs)"
    "map ((lprev h)(a := a)) (xs @ [head]) = map (lprev h) (xs @ [head])"
    using assms(2) by (auto simp: map_upd_notin)
  with assms(1) show ?thesis by (auto simp: list_rep_def simp del: list.map map_append fun_upd_apply map_eq_conv)
qed

lemma list_rep_free: "list_rep h head xs \<Longrightarrow> a \<notin> set (head # xs) \<Longrightarrow> list_rep (h\<lparr>lnodes := lnodes h - {a}\<rparr>) head xs"
  by (auto simp: list_rep_def)

section \<open>The accepts of a port\<close>

definition port_ok :: "listen_world \<Rightarrow> addr \<Rightarrow> addr list \<Rightarrow> bool" where
  "port_ok w head xs \<longleftrightarrow> list_rep (lw_list w) head xs \<and> set xs \<subseteq> dom (lw_objs w) \<and> dom (lw_objs w) \<subseteq> lnodes (lw_list w)
     \<and> lnodes (lw_list w) \<subseteq> {..<lw_fresh w} \<and> head \<notin> dom (lw_objs w) \<and> wl_AcceptEx (lw_lis w)"

text \<open>The objects \<open>zs\<close> are new, hold one new socket each, and their calls are under way.\<close>

definition accepting :: "int \<Rightarrow> AcceptObject option \<Rightarrow> bool" where
  "accepting port obj \<longleftrightarrow> (\<exists>x. obj = Some x \<and> ao_new_socket x \<noteq> INVALID_SOCKET \<and> ao_listen_port x = port
     \<and> ol_event_type (ao_olex x) = kAcceptEvent)"

definition sockets_of :: "(addr \<rightharpoonup> AcceptObject) \<Rightarrow> addr list \<Rightarrow> SOCKET multiset" where
  "sockets_of objs zs = mset (map (\<lambda>z. ao_new_socket (the (objs z))) zs)"

definition accepts_added :: "int \<Rightarrow> addr set \<Rightarrow> listen_world \<Rightarrow> addr list \<Rightarrow> listen_world \<Rightarrow> bool" where
  "accepts_added port own w zs w' \<longleftrightarrow> lw_lis w' = lw_lis w \<and> lw_polls w' = lw_polls w \<and> lw_posted w' = lw_posted w @ zs
     \<and> distinct zs \<and> set zs \<subseteq> {lw_fresh w..<lw_fresh w'} \<and> lw_fresh w \<le> lw_fresh w'
     \<and> dom (lw_objs w') = dom (lw_objs w) \<union> set zs \<and> (\<forall>a. a < lw_fresh w \<longrightarrow> lw_objs w' a = lw_objs w a)
     \<and> lnodes (lw_list w') = lnodes (lw_list w) \<union> set zs \<and> fields_kept own (lw_fresh w) (lw_list w) (lw_list w')
     \<and> (\<forall>z \<in> set zs. accepting port (lw_objs w' z))
     \<and> mset (wi_open (lw_io w')) = mset (wi_open (lw_io w)) + sockets_of (lw_objs w') zs
     \<and> wi_bad_close (lw_io w') = wi_bad_close (lw_io w)"

lemma accepts_added_none [simp]: "accepts_added port own w [] w"
  by (simp add: accepts_added_def fields_kept_def sockets_of_def)

lemma accepts_added_trans:
  assumes a: "accepts_added port own w ys w1" and b: "accepts_added port own1 w1 zs w2" and o: "own1 \<subseteq> own \<union> {lw_fresh w..}"
  shows "accepts_added port own w (ys @ zs) w2"
proof -
  have "fields_kept own (lw_fresh w) (lw_list w) (lw_list w2)"
    by (rule fields_kept_trans [of _ _ _ "lw_list w1" own1 "lw_fresh w1"]) (use a b o in \<open>simp_all add: accepts_added_def\<close>)
  moreover have ys: "\<forall>y \<in> set ys. lw_objs w2 y = lw_objs w1 y" using a b by (auto simp: accepts_added_def)
  then have "sockets_of (lw_objs w2) ys = sockets_of (lw_objs w1) ys" by (simp add: sockets_of_def cong: map_cong)
  then have "mset (wi_open (lw_io w2)) = mset (wi_open (lw_io w)) + sockets_of (lw_objs w2) (ys @ zs)"
    using a b by (simp add: accepts_added_def sockets_of_def)
  moreover have "set ys \<inter> set zs = {}" using a b by (force simp: accepts_added_def)
  moreover have "\<forall>z \<in> set (ys @ zs). accepting port (lw_objs w2 z)" using a b ys by (auto simp: accepts_added_def)
  moreover have "set (ys @ zs) \<subseteq> {lw_fresh w..<lw_fresh w2}" using a b by (force simp: accepts_added_def)
  ultimately show ?thesis using a b unfolding accepts_added_def by (simp add: Un_assoc)
qed

text \<open>One round of the loop.\<close>

lemma accept_round:
  assumes ok: "port_ok w head xs"
  shows "\<exists>e zs w'. accept_loop ws (Suc n) listen_fd addr port mode index head w
       = (if e \<noteq> RAPTOR_ERROR_NONE then Some (e, w') else accept_loop ws n listen_fd addr port mode index head w')
     \<and> length zs = (if e = RAPTOR_ERROR_NONE then 1 else 0)
     \<and> port_ok w' head (xs @ zs) \<and> accepts_added port (set (head # xs)) w zs w'"
proof -
  define node where "node = AcceptObject_new\<lparr>ao_listen_port := port, ao_mode := mode,
    ao_olex := \<lparr>ol_event_type = kAcceptEvent, ol_HandleId = AcceptBaseHandleId + of_nat index\<rparr>\<rparr>"
  let ?a = "lw_fresh w" and ?h = "lw_list w"
  define h0 where "h0 = ?h\<lparr>lnodes := insert ?a (lnodes ?h), lnext := (lnext ?h)(?a := ?a), lprev := (lprev ?h)(?a := ?a)\<rparr>"
  define w0 where "w0 = w\<lparr>lw_fresh := ?a + 1, lw_objs := (lw_objs w)(?a \<mapsto> node), lw_list := h0\<rparr>"
  have al: "alloc_object node w = (?a, w0)" "lw_list w0 = h0" by (simp_all add: alloc_object_def w0_def h0_def Let_def)
  have rep: "list_rep ?h head xs" and a: "?a \<notin> lnodes ?h" using ok by (auto simp: port_ok_def)
  then have an: "?a \<notin> set (head # xs)" by (auto simp: list_rep_def)
  have ao: "?a \<notin> dom (lw_objs w)" using ok a by (auto simp: port_ok_def)
  have r0: "list_rep h0 head xs" unfolding h0_def by (rule list_rep_alloc [OF rep an])
  have "?a \<in> lnodes h0" by (simp add: h0_def)
  from push_back_rep [OF r0 this an] obtain h1 where h1: "raptor_list_push_back head ?a h0 = Some h1"
    "list_rep h1 head (xs @ [?a])" "lnodes h1 = lnodes h0" by blast
  have k1: "lnext h1 b = lnext ?h b \<and> lprev h1 b = lprev ?h b" if "b < ?a" "b \<notin> set (head # xs)" for b
    using push_back_frame [OF r0 h1(1), of b] that by (auto simp: h0_def)
  let ?w1 = "w0\<lparr>lw_list := h1\<rparr>"
  have o1: "lw_objs ?w1 ?a = Some node" and ex: "wl_AcceptEx (lw_lis ?w1)" using ok by (simp_all add: w0_def port_ok_def)
  from StartAcceptEx_ok [OF o1 ex, of ws listen_fd addr] obtain e s io w2 where
    st: "TcpListener_StartAcceptEx ws listen_fd addr ?a ?w1 = Some (e, w2)" and acc: "accept_started ?a ?w1 e s io w2" by blast
  show ?thesis
  proof (cases "e = RAPTOR_ERROR_NONE")
    case True
    have w2: "w2 = ?w1\<lparr>lw_objs := (lw_objs w)(?a \<mapsto> node\<lparr>ao_new_socket := s\<rparr>), lw_io := io, lw_posted := lw_posted w @ [?a]\<rparr>"
      "s \<noteq> INVALID_SOCKET" "wi_open io = s # wi_open (lw_io w)" "wi_bad_close io = wi_bad_close (lw_io w)"
      using acc True by (simp_all add: accept_started_def w0_def)
    have run: "accept_loop ws (Suc n) listen_fd addr port mode index head w = accept_loop ws n listen_fd addr port mode index head w2"
      using al h1(1) st True by (simp add: node_def)
    have "port_ok w2 head (xs @ [?a])" using ok h1 w2(1) an by (auto simp: port_ok_def w0_def h0_def)
    moreover have "accepts_added port (set (head # xs)) w [?a] w2"
      using w2 h1(3) k1 by (auto simp: accepts_added_def w0_def h0_def fields_kept_def accepting_def sockets_of_def node_def)
    ultimately show ?thesis using run True by (intro exI [of _ e] exI [of _ "[?a]"] exI [of _ w2]) simp
  next
    case False
    have w2: "w2 = ?w1\<lparr>lw_objs := (lw_objs w)(?a \<mapsto> node\<lparr>ao_new_socket := INVALID_SOCKET\<rparr>), lw_io := io, lw_posted := lw_posted w\<rparr>"
      "wi_open io = wi_open (lw_io w)" "wi_bad_close io = wi_bad_close (lw_io w)"
      using acc False by (simp_all add: accept_started_def w0_def del: not_None_eq)
    obtain h3 where h3: "raptor_list_remove_entry ?a h1 = Some (1, h3)" "list_rep h3 head xs" "lnodes h3 = lnodes h1"
      using remove_entry_rep [OF h1(2)] by auto
    have k3: "lnext h3 b = lnext ?h b \<and> lprev h3 b = lprev ?h b" if "b < ?a" "b \<notin> set (head # xs)" for b
      using remove_last_frame [OF h1(2) h3(1) that(2)] k1 [OF that] by simp
    define w3 where "w3 = w2\<lparr>lw_objs := lw_objs w, lw_list := h3\<lparr>lnodes := lnodes ?h\<rparr>\<rparr>"
    have "(lw_objs w)(?a := None) = lw_objs w" using ao by auto
    moreover have "lnodes h3 - {?a} = lnodes ?h" using h3(3) h1(3) a by (auto simp: h0_def)
    ultimately have d: "delete_object ws ?a (w2\<lparr>lw_list := h3\<rparr>) = Some w3"
      by (simp add: delete_object_def w2(1) w3_def)
    have run: "accept_loop ws (Suc n) listen_fd addr port mode index head w = Some (e, w3)"
      using al h1(1) st False h3(1) d by (simp add: node_def w2(1) del: not_None_eq)
    have "list_rep (h3\<lparr>lnodes := lnodes ?h\<rparr>) head xs" using h3(2) rep by (simp add: list_rep_def)
    then have "port_ok w3 head xs" using ok by (auto simp: port_ok_def w3_def w2(1) w0_def)
    moreover have "accepts_added port (set (head # xs)) w [] w3"
      using w2 k3 by (auto simp: accepts_added_def w3_def w0_def fields_kept_def sockets_of_def)
    ultimately show ?thesis using run False by (intro exI [of _ e] exI [of _ "[]"] exI [of _ w3]) (simp del: not_None_eq)
  qed
qed

lemma accept_loop_ok:
  assumes "port_ok w head xs"
  shows "\<exists>e zs w'. accept_loop ws n listen_fd addr port mode index head w = Some (e, w')
     \<and> (if e = RAPTOR_ERROR_NONE then length zs = n else length zs < n)
     \<and> port_ok w' head (xs @ zs) \<and> accepts_added port (set (head # xs)) w zs w'"
  using assms
proof (induction n arbitrary: w xs)
  case 0
  then show ?case by (intro exI [of _ RAPTOR_ERROR_NONE] exI [of _ "[]"] exI [of _ w]) simp
next
  case (Suc n)
  from accept_round [OF Suc.prems, of ws n listen_fd addr port mode index] obtain e ys w1 where
    r: "accept_loop ws (Suc n) listen_fd addr port mode index head w
       = (if e \<noteq> RAPTOR_ERROR_NONE then Some (e, w1) else accept_loop ws n listen_fd addr port mode index head w1)"
    "length ys = (if e = RAPTOR_ERROR_NONE then 1 else 0)" "port_ok w1 head (xs @ ys)" "accepts_added port (set (head # xs)) w ys w1" by blast
  show ?case
  proof (cases "e = RAPTOR_ERROR_NONE")
    case False
    then show ?thesis using r by (intro exI [of _ e] exI [of _ "[]"] exI [of _ w1]) (simp del: not_None_eq accept_loop.simps)
  next
    case True
    from Suc.IH [OF r(3)] obtain e2 zs w2 where s: "accept_loop ws n listen_fd addr port mode index head w1 = Some (e2, w2)"
      "if e2 = RAPTOR_ERROR_NONE then length zs = n else length zs < n"
      "port_ok w2 head ((xs @ ys) @ zs)" "accepts_added port (set (head # xs @ ys)) w1 zs w2" by blast
    have "accepts_added port (set (head # xs)) w (ys @ zs) w2"
      by (rule accepts_added_trans [OF r(4) s(4)]) (use r(4) in \<open>auto simp: accepts_added_def\<close>)
    then show ?thesis using True r(1,2) s
      by (intro exI [of _ e2] exI [of _ "ys @ zs"] exI [of _ w2]) (auto simp del: not_None_eq accept_loop.simps)
  qed
qed

section \<open>The vector of heads\<close>

lemma move_heads_ok:
  assumes "move_heads xs f h = (ys, f', h')" and "\<forall>x \<in> set xs. li_head x < f"
  shows "f' = f + length xs \<and> map li_listen_fd ys = map li_listen_fd xs \<and> map li_head ys = [f..<f + length xs]
     \<and> (\<forall>a < f. lnext h' a = lnext h a \<and> lprev h' a = lprev h a)
     \<and> lnodes h' = lnodes h - li_head ` set xs \<union> {f..<f + length xs}"
  using assms
proof (induction xs arbitrary: f h ys)
  case (Cons x xs)
  define h1 where "h1 = free_entry (li_head x) (copy_entry (li_head x) f h)"
  obtain zs where zs: "move_heads xs (f + 1) h1 = (zs, f', h')" "ys = x\<lparr>li_head := f\<rparr> # zs"
    using Cons.prems(1) by (auto simp: h1_def Let_def split: prod.splits)
  have x: "li_head x < f" using Cons.prems(2) by simp
  have "\<forall>x \<in> set xs. li_head x < f + 1" using Cons.prems(2) by auto
  note ih = Cons.IH [OF zs(1) this]
  have "lnodes h1 = insert f (lnodes h - {li_head x})" using x by (auto simp: h1_def free_entry_def copy_entry_def)
  then have "lnodes h' = lnodes h - li_head ` set (x # xs) \<union> {f..<f + length (x # xs)}"
    using ih Cons.prems(2) by auto
  moreover have "[f..<f + length (x # xs)] = f # [f + 1..<f + 1 + length xs]" by (simp add: upt_conv_Cons del: upt_Suc)
  moreover have "\<forall>a < f. lnext h' a = lnext h a \<and> lprev h' a = lprev h a"
    using ih by (auto simp: h1_def free_entry_def copy_entry_def)
  ultimately show ?case using ih zs(2) by simp
qed simp

text \<open>The element that is moved first keeps the fields of its head.\<close>

lemma move_heads_first:
  assumes "move_heads (x # xs) f h = (ys, f', h')" and "\<forall>x \<in> set (x # xs). li_head x < f"
  shows "li_head (hd ys) = f \<and> lnext h' f = lnext h (li_head x) \<and> lprev h' f = lprev h (li_head x)"
proof -
  define h1 where "h1 = free_entry (li_head x) (copy_entry (li_head x) f h)"
  obtain zs where zs: "move_heads xs (f + 1) h1 = (zs, f', h')" "ys = x\<lparr>li_head := f\<rparr> # zs"
    using assms(1) by (auto simp: h1_def Let_def split: prod.splits)
  have "\<forall>x \<in> set xs. li_head x < f + 1" using assms(2) by auto
  from move_heads_ok [OF zs(1) this] zs(2) show ?thesis by (simp add: h1_def free_entry_def copy_entry_def)
qed

text \<open>The memory of the listener: objects, heads, and the nodes behind the first head.\<close>

definition first_ring :: "listen_world \<Rightarrow> bool" where
  "first_ring w \<longleftrightarrow> (\<exists>orig xs. ring_at (lw_list w) (dom (lw_objs w)) (lw_fresh w) (li_head (hd (wl_heads (lw_lis w)))) orig xs)"

definition memory_ok :: "listen_world \<Rightarrow> bool" where
  "memory_ok w \<longleftrightarrow> li_head ` set (wl_heads (lw_lis w)) \<subseteq> lnodes (lw_list w) - dom (lw_objs w)
     \<and> dom (lw_objs w) \<subseteq> lnodes (lw_list w) \<and> lnodes (lw_list w) \<subseteq> {..<lw_fresh w}
     \<and> (wl_heads (lw_lis w) \<noteq> [] \<longrightarrow> first_ring w)"

text \<open>The new element is at \<open>f\<close>; the others are \<open>hs\<close>.\<close>

definition emplaced :: "listen_world \<Rightarrow> ListenInforEx list \<Rightarrow> addr \<Rightarrow> list_heap \<Rightarrow> bool" where
  "emplaced w hs f h \<longleftrightarrow> map li_listen_fd hs = map li_listen_fd (wl_heads (lw_lis w)) \<and> lw_fresh w \<le> f \<and> f \<in> lnodes h
     \<and> li_head ` set hs \<subseteq> lnodes h - dom (lw_objs w) \<and> dom (lw_objs w) \<subseteq> lnodes h \<and> lnodes h \<subseteq> {..f} \<and> f \<notin> dom (lw_objs w)
     \<and> f \<notin> li_head ` set hs
     \<and> (hs \<noteq> [] \<longrightarrow> (\<exists>orig xs. ring_at h (dom (lw_objs w)) f (li_head (hd hs)) orig xs))"

lemma emplace_back_ok:
  assumes m: "memory_ok w"
  shows "\<exists>hs c f h. heads_emplace_back grow w = w\<lparr>lw_lis := (lw_lis w)\<lparr>wl_heads := hs @ [\<lparr>li_head = f, li_listen_fd = 0\<rparr>],
           wl_capacity := c\<rparr>, lw_fresh := f + 1, lw_list := h\<rparr> \<and> emplaced w hs f h"
proof -
  let ?hs = "wl_heads (lw_lis w)" and ?h = "lw_list w"
  have lt: "\<forall>x \<in> set ?hs. li_head x < lw_fresh w" and ob: "\<forall>a \<in> dom (lw_objs w). a < lw_fresh w"
    using m by (auto simp: memory_ok_def)
  show ?thesis
  proof (cases "length ?hs < wl_capacity (lw_lis w)")
    case True
    let ?h1 = "?h\<lparr>lnodes := insert (lw_fresh w) (lnodes ?h)\<rparr>"
    have rg: "\<exists>orig xs. ring_at ?h1 (dom (lw_objs w)) (lw_fresh w) (li_head (hd ?hs)) orig xs" if ne: "?hs \<noteq> []"
    proof -
      obtain orig xs where r: "ring_at ?h (dom (lw_objs w)) (lw_fresh w) (li_head (hd ?hs)) orig xs"
        using m ne by (auto simp: memory_ok_def first_ring_def)
      have "ring_at ?h1 (dom (lw_objs w)) (lw_fresh w) (li_head (hd ?hs)) orig xs"
        by (rule ring_frame [OF r]) (use r in \<open>auto simp: ring_at_def\<close>)
      then show ?thesis by blast
    qed
    have sub: "li_head ` set ?hs \<subseteq> lnodes ?h - dom (lw_objs w)" "dom (lw_objs w) \<subseteq> lnodes ?h" "lnodes ?h \<subseteq> {..<lw_fresh w}"
      using m by (simp_all add: memory_ok_def)
    have run: "heads_emplace_back grow w = w\<lparr>lw_lis := (lw_lis w)\<lparr>wl_heads := ?hs @ [\<lparr>li_head = lw_fresh w, li_listen_fd = 0\<rparr>],
      wl_capacity := wl_capacity (lw_lis w)\<rparr>, lw_fresh := lw_fresh w + 1, lw_list := ?h1\<rparr>"
      using True by (simp add: heads_emplace_back_def Let_def)
    show ?thesis
      by (rule exI [of _ ?hs], rule exI [of _ "wl_capacity (lw_lis w)"], rule exI [of _ "lw_fresh w"], rule exI [of _ ?h1],
          unfold emplaced_def, intro conjI, rule run) (use rg sub lt ob in auto)
  next
    case False
    obtain hs f h where mv: "move_heads ?hs (lw_fresh w) ?h = (hs, f, h)" by (metis surj_pair)
    note ok = move_heads_ok [OF mv lt]
    let ?h1 = "h\<lparr>lnodes := insert f (lnodes h)\<rparr>"
    have heads: "li_head ` set hs = {lw_fresh w..<f}" using ok by (metis atLeastLessThan_upt image_set)
    have new: "dom (lw_objs w) \<subseteq> lnodes h" "lnodes h \<subseteq> {..<f}" using m ok by (auto simp: memory_ok_def)
    have rg: "\<exists>orig xs. ring_at ?h1 (dom (lw_objs w)) f (li_head (hd hs)) orig xs" if ne: "hs \<noteq> []"
    proof -
      obtain x rest where x: "?hs = x # rest" using ok ne by (cases ?hs) auto
      obtain orig xs where r: "ring_at ?h (dom (lw_objs w)) (lw_fresh w) (li_head x) orig xs"
        using m x by (auto simp: memory_ok_def first_ring_def)
      have fst: "li_head (hd hs) = lw_fresh w" "lnext h (lw_fresh w) = lnext ?h (li_head x)" "lprev h (lw_fresh w) = lprev ?h (li_head x)"
        using move_heads_first [OF mv [unfolded x]] lt x by auto
      have sx: "distinct xs" "set xs \<subseteq> dom (lw_objs w)" "orig < lw_fresh w" "orig \<in> lnodes ?h \<longrightarrow> orig = li_head x"
        "orig \<notin> dom (lw_objs w)" "lnext ?h (li_head x) \<in> insert orig (set xs)" "lprev ?h (li_head x) = last (orig # xs)"
        "map (lprev ?h) xs = butlast (orig # xs)"
        using r unfolding ring_at_def by blast+
      have "map (lprev h) xs = map (lprev ?h) xs" using ok ob sx(2) by auto
      then have lp: "map (lprev h) xs = butlast (orig # xs)" using sx(8) by (rule trans)
      have og: "orig \<notin> lnodes h" using sx(3,4) ok x by auto
      have fr: "lw_fresh w < f" "lw_fresh w \<in> lnodes h" "lw_fresh w \<notin> dom (lw_objs w)" using ok x ob by auto
      have "ring_at ?h1 (dom (lw_objs w)) f (li_head (hd hs)) orig xs"
        unfolding ring_at_def fst using sx(1,2,3,5,6,7) lp og fr fst(2,3) by simp
      then show ?thesis by blast
    qed
    let ?c = "max (length ?hs + 1) (grow (length ?hs))"
    have run: "heads_emplace_back grow w = w\<lparr>lw_lis := (lw_lis w)\<lparr>wl_heads := hs @ [\<lparr>li_head = f, li_listen_fd = 0\<rparr>],
      wl_capacity := ?c\<rparr>, lw_fresh := f + 1, lw_list := ?h1\<rparr>"
      using False mv by (simp add: heads_emplace_back_def Let_def)
    have le: "lw_fresh w \<le> f" "map li_listen_fd hs = map li_listen_fd ?hs" "{lw_fresh w..<f} \<subseteq> lnodes h" using ok by auto
    have dj: "lw_objs w x = None" if "lw_fresh w \<le> x" for x using ob that by (meson domIff leD)
    show ?thesis
      by (rule exI [of _ hs], rule exI [of _ ?c], rule exI [of _ f], rule exI [of _ ?h1],
          unfold emplaced_def, intro conjI, rule run) (use rg heads new le dj in auto)
  qed
qed

lemma first_ring_of_list:
  assumes "port_ok w head zs" and "head \<in> lnodes (lw_list w)"
  shows "ring_at (lw_list w) (dom (lw_objs w)) (lw_fresh w) head head zs"
proof -
  have rep: "list_rep (lw_list w) head zs" using assms(1) by (simp add: port_ok_def)
  have p: "lprev (lw_list w) head = last (head # zs)" "map (lprev (lw_list w)) zs = butlast (head # zs)"
    using list_rep_split(5) [of "lw_list w" head zs "[]"] list_rep_split(4) [of "lw_list w" head zs "[]"] rep by simp_all
  have n: "lnext (lw_list w) head = hd (zs @ [head])" using list_rep_split(2) [of "lw_list w" head "[]" zs] rep by simp
  have "hd (zs @ [head]) \<in> insert head (set zs)" using hd_in [of zs head] by simp
  moreover have "distinct zs" "set zs \<subseteq> dom (lw_objs w)" "head \<notin> dom (lw_objs w)" "head < lw_fresh w"
    using assms by (auto simp: port_ok_def list_rep_def)
  ultimately show ?thesis unfolding ring_at_def using p n assms(2) by simp
qed

text \<open>What adding a port does: the calls \<open>zs\<close> are new, and at most one listening socket.\<close>

definition calls_new :: "listen_world \<Rightarrow> addr list \<Rightarrow> int \<Rightarrow> listen_world \<Rightarrow> bool" where
  "calls_new w zs port w' \<longleftrightarrow> lw_posted w' = lw_posted w @ zs \<and> distinct zs \<and> set zs \<inter> dom (lw_objs w) = {}
     \<and> dom (lw_objs w') = dom (lw_objs w) \<union> set zs
     \<and> (\<forall>a \<in> dom (lw_objs w). lw_objs w' a = lw_objs w a) \<and> (\<forall>z \<in> set zs. accepting port (lw_objs w' z))"

definition port_added :: "listen_world \<Rightarrow> SOCKET list \<Rightarrow> addr list \<Rightarrow> int \<Rightarrow> listen_world \<Rightarrow> bool" where
  "port_added w fds zs port w' \<longleftrightarrow> calls_new w zs port w'
     \<and> map li_listen_fd (wl_heads (lw_lis w')) = map li_listen_fd (wl_heads (lw_lis w)) @ fds
     \<and> mset (wi_open (lw_io w')) = mset (wi_open (lw_io w)) + mset fds + sockets_of (lw_objs w') zs
     \<and> wi_bad_close (lw_io w') = wi_bad_close (lw_io w)"

lemma LIST_INIT_ok:
  assumes "f \<in> lnodes h"
  shows "\<exists>h'. RAPTOR_LIST_INIT f h = Some h' \<and> list_rep h' f [] \<and> lnodes h' = lnodes h
    \<and> (\<forall>a. a \<noteq> f \<longrightarrow> lnext h' a = lnext h a \<and> lprev h' a = lprev h a)"
  using assms by (simp add: RAPTOR_LIST_INIT_def set_next_def set_prev_def list_rep_def)

lemma register_port_ok:
  assumes m: "memory_ok w" and reg: "registry_ok (lw_polls w)" and i: "wl_poll_thread (lw_lis w) = Some i" "is_polls (lw_polls w) i = Some p"
    and ex: "wl_AcceptEx (lw_lis w)"
  shows "\<exists>e w' hs c zs f. register_port env listen_fd addr mode port w = Some (e, w') \<and> memory_ok w'
     \<and> lw_lis w' = (lw_lis w)\<lparr>wl_heads := hs @ [\<lparr>li_head = f, li_listen_fd = listen_fd\<rparr>], wl_capacity := c\<rparr>
     \<and> registry_ok (lw_polls w') \<and> is_polls (lw_polls w') = is_polls (lw_polls w)
     \<and> map li_listen_fd (wl_heads (lw_lis w')) = map li_listen_fd (wl_heads (lw_lis w)) @ [listen_fd]
     \<and> mset (wi_open (lw_io w')) = mset (wi_open (lw_io w)) + sockets_of (lw_objs w') zs
     \<and> wi_bad_close (lw_io w') = wi_bad_close (lw_io w) \<and> calls_new w zs port w'
     \<and> (if e = RAPTOR_ERROR_NONE then length zs = nat (wl_threads (lw_lis w) + 1) else length zs < nat (wl_threads (lw_lis w) + 1))"
proof -
  let ?objs = "lw_objs w"
  obtain hs c f h where em: "heads_emplace_back (ae_grow env) w
      = w\<lparr>lw_lis := (lw_lis w)\<lparr>wl_heads := hs @ [\<lparr>li_head = f, li_listen_fd = 0\<rparr>], wl_capacity := c\<rparr>, lw_fresh := f + 1, lw_list := h\<rparr>"
    and emp: "emplaced w hs f h" using emplace_back_ok [OF m, of "ae_grow env"] by blast
  have fds: "map li_listen_fd hs = map li_listen_fd (wl_heads (lw_lis w))" and ff: "lw_fresh w \<le> f" "f \<in> lnodes h"
    and sub: "li_head ` set hs \<subseteq> lnodes h - dom ?objs" "dom ?objs \<subseteq> lnodes h" "lnodes h \<subseteq> {..f}" "f \<notin> dom ?objs"
      "f \<notin> li_head ` set hs"
    and rg: "hs \<noteq> [] \<longrightarrow> (\<exists>orig xs. ring_at h (dom ?objs) f (li_head (hd hs)) orig xs)"
    using emp by (simp_all add: emplaced_def)
  obtain h1 where h1: "RAPTOR_LIST_INIT f h = Some h1" "list_rep h1 f []" "lnodes h1 = lnodes h"
    "\<forall>a. a \<noteq> f \<longrightarrow> lnext h1 a = lnext h a \<and> lprev h1 a = lprev h a" using LIST_INIT_ok [OF ff(2)] by blast
  obtain r polls where pl: "poll_through (Some i) (WinPolling_Add (ae_added env listen_fd) listen_fd listen_fd kAcceptEvent) (lw_polls w)
      = Some (r, polls)" "registry_ok polls" "is_polls polls = is_polls (lw_polls w)"
    using poll_through_ok(2) [OF reg i(2)] by blast
  let ?lis = "(lw_lis w)\<lparr>wl_heads := hs @ [\<lparr>li_head = f, li_listen_fd = listen_fd\<rparr>], wl_capacity := c\<rparr>"
  define w1 where "w1 = w\<lparr>lw_fresh := f + 1, lw_lis := (lw_lis w)\<lparr>wl_capacity := c,
    wl_heads := hs @ [\<lparr>li_head = f, li_listen_fd = listen_fd\<rparr>]\<rparr>, lw_list := h1, lw_polls := polls\<rparr>"
  have lw1: "lw_lis w1 = ?lis" "lw_objs w1 = ?objs" "lw_list w1 = h1" "lw_fresh w1 = f + 1" "lw_io w1 = lw_io w"
    "lw_posted w1 = lw_posted w" "lw_polls w1 = polls" by (simp_all add: w1_def)
  have lt: "{..f} = {..<f + 1}" by auto
  have "port_ok w1 f []" using h1(2,3) sub(2,3,4) ex lt by (simp add: port_ok_def lw1)
  from accept_loop_ok [OF this, of "ae_win env" "nat (wl_threads (lw_lis w) + 1)" listen_fd addr port mode "length (wl_heads (lw_lis w))"]
  obtain e zs w2 where al: "accept_loop (ae_win env) (nat (wl_threads (lw_lis w) + 1)) listen_fd addr port mode (length (wl_heads (lw_lis w))) f w1
       = Some (e, w2)" and len: "if e = RAPTOR_ERROR_NONE then length zs = nat (wl_threads (lw_lis w) + 1) else length zs < nat (wl_threads (lw_lis w) + 1)"
    and po: "port_ok w2 f zs" and ad: "accepts_added port (set [f]) w1 zs w2" by auto
  have "length hs = length (wl_heads (lw_lis w))" using fds by (metis length_map)
  then have run: "register_port env listen_fd addr mode port w = Some (e, w2)"
    using em h1(1) pl(1) i(1) al by (simp add: register_port_def Let_def vec_at_def w1_def nth_append list_update_append)
  note a = ad [unfolded accepts_added_def lw1]
  have zs: "set zs \<inter> dom ?objs = {}" using a sub(2,3) by fastforce
  have heads: "li_head ` set (wl_heads (lw_lis w2)) \<subseteq> lnodes (lw_list w2) - dom (lw_objs w2)"
  proof -
    have "x \<notin> set zs" if "x \<in> lnodes h" for x using a sub(3) that by fastforce
    then show ?thesis using a sub(1,4) ff(2) h1(3) by auto
  qed
  have ring: "first_ring w2"
  proof (cases hs)
    case Nil
    have "f \<in> lnodes (lw_list w2)" using a ff(2) h1(3) by simp
    from first_ring_of_list [OF po this] show ?thesis using a Nil by (auto simp: first_ring_def)
  next
    case (Cons x rest)
    then obtain orig xs where r: "ring_at h (dom ?objs) f (li_head x) orig xs" using rg by auto
    have "ring_at (lw_list w2) (dom (lw_objs w2)) (lw_fresh w2) (li_head x) orig xs"
    proof (rule ring_frame [OF r])
      show "lnext (lw_list w2) b = lnext h b \<and> lprev (lw_list w2) b = lprev h b" if "b \<in> insert (li_head x) (set xs)" for b
      proof -
        have "set xs \<subseteq> dom ?objs" "li_head x < f" using r by (simp_all add: ring_at_def)
        moreover have "y < f" if "y \<in> dom ?objs" for y using that sub(2,3,4) by (metis atMost_iff order_le_imp_less_or_eq subsetD)
        ultimately have "b < f" using that by auto
        then show ?thesis using a h1(4) by (simp add: fields_kept_def)
      qed
    qed (use a r heads Cons sub h1(3) in \<open>auto simp: ring_at_def\<close>)
    then show ?thesis using a Cons by (auto simp: first_ring_def)
  qed
  have "memory_ok w2" using heads ring po by (simp add: memory_ok_def port_ok_def)
  have new: "calls_new w zs port w2" unfolding calls_new_def
  proof (intro conjI ballI)
    show "lw_objs w2 b = ?objs b" if "b \<in> dom ?objs" for b
    proof -
      have "b < f + 1" using subsetD [OF sub(2) that] sub(3) by auto
      then show ?thesis using a by simp
    qed
  qed (use a zs in simp_all)
  show ?thesis
    by (rule exI [of _ e], rule exI [of _ w2], rule exI [of _ hs], rule exI [of _ c], rule exI [of _ zs], rule exI [of _ f],
        intro conjI) (use run \<open>memory_ok w2\<close> a new len pl fds in simp_all)
qed

section \<open>The listener\<close>

definition listen_ok :: "listen_world \<Rightarrow> bool" where
  "listen_ok w \<longleftrightarrow> memory_ok w \<and> registry_ok (lw_polls w)
     \<and> (\<forall>i. wl_poll_thread (lw_lis w) = Some i \<longrightarrow> is_polls (lw_polls w) i \<noteq> None)
     \<and> (\<not> wl_shutdown (lw_lis w) \<longrightarrow> wl_poll_thread (lw_lis w) \<noteq> None)
     \<and> distinct (lw_posted w) \<and> set (lw_posted w) = dom (lw_objs w)
     \<and> (\<forall>a \<in> dom (lw_objs w). \<exists>port. accepting port (lw_objs w a))
     \<and> (wl_heads (lw_lis w) = [] \<longrightarrow> lw_objs w = Map.empty)
     \<and> (wl_heads (lw_lis w) \<noteq> [] \<longrightarrow> \<not> wl_shutdown (lw_lis w) \<and> wl_AcceptEx (lw_lis w) \<and> wl_GetAcceptExSockAddrs (lw_lis w))"

lemma listen_ok_io [simp]: "listen_ok (w\<lparr>lw_io := io\<rparr>) \<longleftrightarrow> listen_ok w"
  by (simp add: listen_ok_def memory_ok_def first_ring_def)

lemma GetExtensionFunction_ok:
  assumes "TcpListener_GetExtensionFunction ws fd w = (e, w')"
  shows "\<exists>b c io. w' = w\<lparr>lw_io := io, lw_lis := (lw_lis w)\<lparr>wl_AcceptEx := b, wl_GetAcceptExSockAddrs := c\<rparr>\<rparr>
    \<and> keeps_socks (lw_io w) io \<and> (wl_AcceptEx (lw_lis w) \<longrightarrow> b) \<and> (wl_GetAcceptExSockAddrs (lw_lis w) \<longrightarrow> c) \<and> (e = RAPTOR_ERROR_NONE \<longrightarrow> b \<and> c)"
proof -
  obtain r1 io1 where c1: "wcall ws (WSAIoctl fd GetAcceptEx) (lw_io w) = (r1, io1)" by fastforce
  obtain r2 io2 where c2: "wcall ws (WSAIoctl fd GetAcceptExSockAddrs) (lw_io w) = (r2, io2)" by fastforce
  obtain r3 io3 where c3: "wcall ws (WSAIoctl fd GetAcceptExSockAddrs) io1 = (r3, io3)" by fastforce
  have k: "keeps_socks (lw_io w) io1" "keeps_socks (lw_io w) io2" "keeps_socks io1 io3"
    using wcall_keeps [of "WSAIoctl fd GetAcceptEx" "lw_io w" ws] wcall_keeps [of "WSAIoctl fd GetAcceptExSockAddrs" "lw_io w" ws]
      wcall_keeps [of "WSAIoctl fd GetAcceptExSockAddrs" io1 ws] by (simp_all add: c1 c2 c3)
  note k3 = keeps_socks_trans [OF k(1,3)]
  define b c io where "b = (wl_AcceptEx (lw_lis w) \<or> wa_ret r1 = 0)"
    and "c = (wl_GetAcceptExSockAddrs (lw_lis w) \<or> (if wl_AcceptEx (lw_lis w) then wa_ret r2 = 0 else wa_ret r1 = 0 \<and> wa_ret r3 = 0))"
    and "io = (if wl_AcceptEx (lw_lis w) then if wl_GetAcceptExSockAddrs (lw_lis w) then lw_io w else io2
               else if wa_ret r1 \<noteq> 0 \<or> wl_GetAcceptExSockAddrs (lw_lis w) then io1 else io3)"
  have "(e, w') = ((if b \<and> c then RAPTOR_ERROR_NONE else windows_error ws io ''WSAIoctl''),
      w\<lparr>lw_io := io, lw_lis := (lw_lis w)\<lparr>wl_AcceptEx := b, wl_GetAcceptExSockAddrs := c\<rparr>\<rparr>)"
    unfolding assms [symmetric] TcpListener_GetExtensionFunction_def
    by (cases "wl_AcceptEx (lw_lis w)"; cases "wl_GetAcceptExSockAddrs (lw_lis w)"; cases "wa_ret r1 = 0"; cases "wa_ret r2 = 0"; cases "wa_ret r3 = 0")
      (simp_all add: Let_def c1 c2 c3 b_def c_def io_def)
  then have "e = (if b \<and> c then RAPTOR_ERROR_NONE else windows_error ws io ''WSAIoctl'')"
    "w' = w\<lparr>lw_io := io, lw_lis := (lw_lis w)\<lparr>wl_AcceptEx := b, wl_GetAcceptExSockAddrs := c\<rparr>\<rparr>" by simp_all
  moreover have "keeps_socks (lw_io w) io" using k k3 by (simp add: io_def)
  ultimately show ?thesis using windows_error_Some(1) [of ws io "''WSAIoctl''"]
    by (intro exI [of _ b] exI [of _ c] exI [of _ io]) (simp add: b_def c_def del: not_None_eq split: if_splits)
qed

text \<open>A listener with other calls made, and maybe more of the extension functions known.\<close>

definition same_listener :: "listen_world \<Rightarrow> listen_world \<Rightarrow> bool" where
  "same_listener w w' \<longleftrightarrow> (\<exists>b c io. w' = w\<lparr>lw_io := io, lw_lis := (lw_lis w)\<lparr>wl_AcceptEx := b, wl_GetAcceptExSockAddrs := c\<rparr>\<rparr>
     \<and> (wl_AcceptEx (lw_lis w) \<longrightarrow> b) \<and> (wl_GetAcceptExSockAddrs (lw_lis w) \<longrightarrow> c))"

lemma same_listener_io: "same_listener w (w\<lparr>lw_io := io\<rparr>)"
  unfolding same_listener_def
  by (intro exI [of _ "wl_AcceptEx (lw_lis w)"] exI [of _ "wl_GetAcceptExSockAddrs (lw_lis w)"] exI [of _ io]) simp

lemma same_listener_ok:
  assumes "same_listener w w'" and "listen_ok w"
  shows "listen_ok w'" and "lw_objs w' = lw_objs w" and "lw_posted w' = lw_posted w" and "wl_heads (lw_lis w') = wl_heads (lw_lis w)"
    and "wl_threads (lw_lis w') = wl_threads (lw_lis w)" and "wl_shutdown (lw_lis w') = wl_shutdown (lw_lis w)"
proof -
  obtain b c io where w: "w' = w\<lparr>lw_io := io, lw_lis := (lw_lis w)\<lparr>wl_AcceptEx := b, wl_GetAcceptExSockAddrs := c\<rparr>\<rparr>"
    and bc: "wl_AcceptEx (lw_lis w) \<longrightarrow> b" "wl_GetAcceptExSockAddrs (lw_lis w) \<longrightarrow> c" using assms(1) unfolding same_listener_def by blast
  show "listen_ok w'" using assms(2) bc by (simp add: w listen_ok_def memory_ok_def first_ring_def)
qed (use assms in \<open>auto simp: same_listener_def\<close>)

lemma same_listener_added:
  assumes "same_listener w w'" and "listen_ok w" and "wi_open (lw_io w') = wi_open (lw_io w)"
    and "wi_bad_close (lw_io w') = wi_bad_close (lw_io w)"
  shows "port_added w [] [] 0 w'"
  using same_listener_ok [OF assms(1,2)] assms(3,4) by (simp add: port_added_def calls_new_def sockets_of_def)

lemma same_listener_trans: "same_listener w w' \<Longrightarrow> same_listener w (w'\<lparr>lw_io := io\<rparr>)"
proof -
  assume "same_listener w w'"
  then obtain b c io' where w: "w' = w\<lparr>lw_io := io', lw_lis := (lw_lis w)\<lparr>wl_AcceptEx := b, wl_GetAcceptExSockAddrs := c\<rparr>\<rparr>"
    and bc: "wl_AcceptEx (lw_lis w) \<longrightarrow> b" "wl_GetAcceptExSockAddrs (lw_lis w) \<longrightarrow> c" unfolding same_listener_def by blast
  show ?thesis unfolding same_listener_def
    by (rule exI [of _ b], rule exI [of _ c], rule exI [of _ io]) (use bc in \<open>simp add: w\<close>)
qed

text \<open>The calls of a port that was registered.\<close>

lemma registered_ok:
  assumes ok: "listen_ok w" and run: "\<not> wl_shutdown (lw_lis w)" and ext: "wl_AcceptEx (lw_lis w)" "wl_GetAcceptExSockAddrs (lw_lis w)"
  shows "\<exists>e w' zs. register_port env listen_fd addr mode port w = Some (e, w') \<and> listen_ok w' \<and> calls_new w zs port w'
     \<and> wl_threads (lw_lis w') = wl_threads (lw_lis w)
     \<and> map li_listen_fd (wl_heads (lw_lis w')) = map li_listen_fd (wl_heads (lw_lis w)) @ [listen_fd]
     \<and> mset (wi_open (lw_io w')) = mset (wi_open (lw_io w)) + sockets_of (lw_objs w') zs
     \<and> wi_bad_close (lw_io w') = wi_bad_close (lw_io w)
     \<and> (if e = RAPTOR_ERROR_NONE then length zs = nat (wl_threads (lw_lis w) + 1) else length zs < nat (wl_threads (lw_lis w) + 1))"
proof -
  have m: "memory_ok w" "registry_ok (lw_polls w)" and po: "distinct (lw_posted w)" "set (lw_posted w) = dom (lw_objs w)"
    and acc: "\<forall>a \<in> dom (lw_objs w). \<exists>port. accepting port (lw_objs w a)" using ok by (simp_all add: listen_ok_def)
  obtain i p where i: "wl_poll_thread (lw_lis w) = Some i" "is_polls (lw_polls w) i = Some p"
  proof -
    obtain i where "wl_poll_thread (lw_lis w) = Some i" using ok run by (auto simp: listen_ok_def)
    moreover from this obtain p where "is_polls (lw_polls w) i = Some p" using ok unfolding listen_ok_def by blast
    ultimately show thesis by (rule that)
  qed
  from register_port_ok [OF m i ext(1), of env listen_fd addr mode port] obtain e w' hs c zs f where
    r: "register_port env listen_fd addr mode port w = Some (e, w')" "memory_ok w'"
    "lw_lis w' = (lw_lis w)\<lparr>wl_heads := hs @ [\<lparr>li_head = f, li_listen_fd = listen_fd\<rparr>], wl_capacity := c\<rparr>"
    "registry_ok (lw_polls w')" "is_polls (lw_polls w') = is_polls (lw_polls w)" and cn: "calls_new w zs port w'"
    and rest: "map li_listen_fd (wl_heads (lw_lis w')) = map li_listen_fd (wl_heads (lw_lis w)) @ [listen_fd]"
    "mset (wi_open (lw_io w')) = mset (wi_open (lw_io w)) + sockets_of (lw_objs w') zs"
    "wi_bad_close (lw_io w') = wi_bad_close (lw_io w)"
    "if e = RAPTOR_ERROR_NONE then length zs = nat (wl_threads (lw_lis w) + 1) else length zs < nat (wl_threads (lw_lis w) + 1)"
    by blast
  note cn' = cn [unfolded calls_new_def]
  have "\<forall>a \<in> dom (lw_objs w'). \<exists>port. accepting port (lw_objs w' a)"
  proof
    fix a
    assume "a \<in> dom (lw_objs w')"
    then have "a \<in> set zs \<or> a \<in> dom (lw_objs w)" using cn' by blast
    then show "\<exists>port. accepting port (lw_objs w' a)"
    proof
      assume a: "a \<in> dom (lw_objs w)"
      then have "lw_objs w' a = lw_objs w a" using cn' by blast
      then show ?thesis using a acc by simp
    qed (use cn' in blast)
  qed
  then have "listen_ok w'" using r cn' po run ext i by (simp add: listen_ok_def inf_commute)
  with r(1,3) cn rest show ?thesis by auto
qed

lemma AddListeningPort_ok:
  assumes ok: "listen_ok w" and run: "\<not> wl_shutdown (lw_lis w)"
  shows "\<exists>e w' fds zs port. TcpListener_AddListeningPort_win env addr w = Some (e, w') \<and> listen_ok w' \<and> port_added w fds zs port w'
     \<and> wl_threads (lw_lis w') = wl_threads (lw_lis w)
     \<and> (if e = RAPTOR_ERROR_NONE then length fds = 1 \<and> length zs = nat (wl_threads (lw_lis w) + 1)
        else length fds \<le> 1 \<and> length zs \<le> nat (wl_threads (lw_lis w)) * length fds)"
proof -
  let ?ws = "ae_win env" and ?run = "TcpListener_AddListeningPort_win env addr w"
  have unchanged: ?thesis if "?run = Some (e, w')" "e \<noteq> RAPTOR_ERROR_NONE" "same_listener w w'" "wi_open (lw_io w') = wi_open (lw_io w)"
    "wi_bad_close (lw_io w') = wi_bad_close (lw_io w)" for e w'
    using that same_listener_ok [OF that(3) ok] same_listener_added [OF that(3) ok that(4,5)]
    by (intro exI [of _ e] exI [of _ w'] exI [of _ "[]"] exI [of _ 0]) (simp del: not_None_eq)
  obtain e1 m mode fd io1 where c: "raptor_create_socket ?ws addr (lw_io w) = Some ((e1, m, mode, fd), io1)"
    and wc: "win_creation (lw_io w) e1 fd io1" using create_socket_ok [of ?ws addr "lw_io w"] by blast
  let ?w1 = "w\<lparr>lw_io := io1\<rparr>"
  show ?thesis
  proof (cases "e1 = RAPTOR_ERROR_NONE")
    case False
    have r1: "?run = Some (e1, ?w1)" using run c False by (simp add: TcpListener_AddListeningPort_win_def del: not_None_eq)
    have "wi_open (lw_io ?w1) = wi_open (lw_io w)" "wi_bad_close (lw_io ?w1) = wi_bad_close (lw_io w)"
      using wc False by (simp_all add: win_creation_def del: not_None_eq)
    from unchanged [OF r1 False same_listener_io this] show ?thesis .
  next
    case t1: True
    have fd: "fd \<noteq> INVALID_SOCKET" "wi_open io1 = fd # wi_open (lw_io w)" "wi_bad_close io1 = wi_bad_close (lw_io w)"
      using wc t1 by (simp_all add: win_creation_def)
    obtain e2 w2 where g: "(if \<not> wl_AcceptEx (lw_lis ?w1) \<or> \<not> wl_GetAcceptExSockAddrs (lw_lis ?w1)
        then TcpListener_GetExtensionFunction ?ws fd ?w1 else (RAPTOR_ERROR_NONE, ?w1)) = (e2, w2)" by fastforce
    have "same_listener w w2 \<and> keeps_socks io1 (lw_io w2)
      \<and> (e2 = RAPTOR_ERROR_NONE \<longrightarrow> wl_AcceptEx (lw_lis w2) \<and> wl_GetAcceptExSockAddrs (lw_lis w2))"
    proof (cases "wl_AcceptEx (lw_lis w) \<and> wl_GetAcceptExSockAddrs (lw_lis w)")
      case True
      then have "e2 = RAPTOR_ERROR_NONE" "w2 = ?w1" using g by simp_all
      then show ?thesis using True same_listener_io [of w io1] by simp
    next
      case False
      then have "TcpListener_GetExtensionFunction ?ws fd ?w1 = (e2, w2)" using g by (auto split: if_splits)
      from GetExtensionFunction_ok [OF this] obtain b c io where
        "w2 = ?w1\<lparr>lw_io := io, lw_lis := (lw_lis ?w1)\<lparr>wl_AcceptEx := b, wl_GetAcceptExSockAddrs := c\<rparr>\<rparr>"
        "keeps_socks (lw_io ?w1) io" "wl_AcceptEx (lw_lis ?w1) \<longrightarrow> b" "wl_GetAcceptExSockAddrs (lw_lis ?w1) \<longrightarrow> c"
        "e2 = RAPTOR_ERROR_NONE \<longrightarrow> b \<and> c" by blast
      then show ?thesis by (auto simp: same_listener_def)
    qed
    then have s2: "same_listener w w2" and k2: "keeps_socks io1 (lw_io w2)"
      and x2: "e2 = RAPTOR_ERROR_NONE \<longrightarrow> wl_AcceptEx (lw_lis w2) \<and> wl_GetAcceptExSockAddrs (lw_lis w2)" by blast+
    have o2: "wi_open (lw_io w2) = fd # wi_open (lw_io w)" "wi_bad_close (lw_io w2) = wi_bad_close (lw_io w)"
      using k2 fd by (simp_all add: keeps_socks_def)
    show ?thesis
    proof (cases "e2 = RAPTOR_ERROR_NONE")
      case False
      have "?run = Some (e2, w2\<lparr>lw_io := wdo ?ws (Closesocket fd) (lw_io w2)\<rparr>)"
        using run c t1 g False by (simp add: TcpListener_AddListeningPort_win_def Let_def del: not_None_eq)
      moreover have "wi_open (wdo ?ws (Closesocket fd) (lw_io w2)) = wi_open (lw_io w)"
        "wi_bad_close (wdo ?ws (Closesocket fd) (lw_io w2)) = wi_bad_close (lw_io w)"
        using closesocket_open [of fd "lw_io w2" ?ws] o2 by simp_all
      ultimately show ?thesis using unchanged [OF _ False same_listener_trans [OF s2]] by simp
    next
      case t2: True
      obtain e3 port io3 where pr: "raptor_tcp_server_prepare_socket_win ?ws fd m (lw_io w2) = ((e3, port), io3)" by (metis surj_pair)
      note p = server_prepare_win_ok [OF _ fd(1) pr]
      let ?w3 = "w2\<lparr>lw_io := io3\<rparr>"
      have r3: "?run = (if e3 \<noteq> RAPTOR_ERROR_NONE then Some (e3, ?w3)
          else register_port env fd m mode (case port of None \<Rightarrow> 0 | Some p \<Rightarrow> p) ?w3)"
        using run c t1 g t2 pr by (simp add: TcpListener_AddListeningPort_win_def Let_def)
      show ?thesis
      proof (cases "e3 = RAPTOR_ERROR_NONE")
        case False
        then have "?run = Some (e3, ?w3)" using r3 by (simp del: not_None_eq)
        moreover have "wi_open io3 = wi_open (lw_io w)" "wi_bad_close io3 = wi_bad_close (lw_io w)"
          using p o2 False by (simp_all del: not_None_eq)
        ultimately show ?thesis using unchanged [OF _ False same_listener_trans [OF s2]] by simp
      next
        case t3: True
        note l3 = same_listener_ok [OF same_listener_trans [OF s2, of io3] ok]
        have o3: "mset (wi_open io3) = mset (wi_open (lw_io w)) + {#fd#}" "wi_bad_close io3 = wi_bad_close (lw_io w)"
          using p o2 t3 by simp_all
        have "wl_AcceptEx (lw_lis ?w3)" "wl_GetAcceptExSockAddrs (lw_lis ?w3)" "\<not> wl_shutdown (lw_lis ?w3)" using x2 t2 l3(6) run by simp_all
        from registered_ok [OF l3(1) this(3,1,2), of env fd m mode "case port of None \<Rightarrow> 0 | Some p \<Rightarrow> p"] obtain e w' zs where
          r: "register_port env fd m mode (case port of None \<Rightarrow> 0 | Some p \<Rightarrow> p) ?w3 = Some (e, w')" "listen_ok w'"
            "calls_new ?w3 zs (case port of None \<Rightarrow> 0 | Some p \<Rightarrow> p) w'" "wl_threads (lw_lis w') = wl_threads (lw_lis ?w3)"
            "map li_listen_fd (wl_heads (lw_lis w')) = map li_listen_fd (wl_heads (lw_lis ?w3)) @ [fd]"
            "mset (wi_open (lw_io w')) = mset (wi_open (lw_io ?w3)) + sockets_of (lw_objs w') zs"
            "wi_bad_close (lw_io w') = wi_bad_close (lw_io ?w3)"
            "if e = RAPTOR_ERROR_NONE then length zs = nat (wl_threads (lw_lis ?w3) + 1) else length zs < nat (wl_threads (lw_lis ?w3) + 1)"
          by blast
        have "port_added w [fd] zs (case port of None \<Rightarrow> 0 | Some p \<Rightarrow> p) w'"
          using r(3,5,6,7) o3 l3 by (simp add: port_added_def calls_new_def)
        moreover have "length zs \<le> nat (wl_threads (lw_lis w))" if "e \<noteq> RAPTOR_ERROR_NONE"
          using r(8) that l3(5) by (simp add: nat_add_distrib split: if_splits)
        ultimately show ?thesis using r3 t3 r(1,2,4,8) l3(5)
          by (intro exI [of _ e] exI [of _ w'] exI [of _ "[fd]"] exI [of _ zs] exI [of _ "case port of None \<Rightarrow> 0 | Some p \<Rightarrow> p"])
             (simp split: if_splits del: not_None_eq)
      qed
    qed
  qed
qed

section \<open>Reachable listeners\<close>

lemma memory_ok_cong:
  "memory_ok w \<Longrightarrow> wl_heads (lw_lis w') = wl_heads (lw_lis w) \<Longrightarrow> lw_list w' = lw_list w \<Longrightarrow> lw_fresh w' = lw_fresh w
   \<Longrightarrow> dom (lw_objs w') = dom (lw_objs w) \<Longrightarrow> memory_ok w'"
  by (simp add: memory_ok_def first_ring_def)

lemma Shutdown_stuck:
  assumes m: "memory_ok w" and run: "\<not> wl_shutdown (lw_lis w)" and ne: "wl_heads (lw_lis w) \<noteq> []"
  shows "TcpListener_Shutdown_win ws w = None"
proof -
  let ?w = "w\<lparr>lw_lis := (lw_lis w)\<lparr>wl_shutdown := True\<rparr>\<rparr>"
  obtain x rest where x: "wl_heads (lw_lis w) = x # rest" using ne by (cases "wl_heads (lw_lis w)") auto
  obtain orig xs where "ring_at (lw_list w) (dom (lw_objs w)) (lw_fresh w) (li_head x) orig xs"
    using m x by (auto simp: memory_ok_def first_ring_def)
  then have "shutdown_heads ws (x # rest) ?w = None"
    using m by (intro shutdown_first_stuck [of ?w x orig xs]) (simp_all add: memory_ok_def)
  then show ?thesis using run x by (simp add: TcpListener_Shutdown_win_def del: shutdown_heads.simps)
qed

text \<open>The system finishes the call of the object \<open>a\<close> and writes the addresses.\<close>

definition accept_done :: "addr \<Rightarrow> byte list \<Rightarrow> listen_world \<Rightarrow> listen_world" where
  "accept_done a buf w = w\<lparr>lw_posted := remove1 a (lw_posted w),
     lw_objs := (lw_objs w)(a := map_option (\<lambda>obj. obj\<lparr>ao_addr_buffer := buf\<rparr>) (lw_objs w a))\<rparr>"

definition listen_start :: "iocp_sys \<Rightarrow> winio \<Rightarrow> listen_world" where
  "listen_start polls io = \<lparr>lw_lis = TcpListener_new_win, lw_list = \<lparr>lnext = (\<lambda>a. a), lprev = (\<lambda>a. a), lnodes = {}\<rparr>,
     lw_objs = Map.empty, lw_fresh = 0, lw_posted = [], lw_io = io, lw_polls = polls\<rparr>"

text \<open>The last rule is what the other polling objects of the process do.\<close>

inductive listen_reach :: "accept_env \<Rightarrow> listen_world \<Rightarrow> bool" for env :: accept_env where
  listen_new: "poll_reach polls \<Longrightarrow> listen_reach env (listen_start polls io)"
| listen_init: "listen_reach env w \<Longrightarrow> is_polls (lw_polls w) i = None \<Longrightarrow> i < 2147483646
    \<Longrightarrow> TcpListener_Init_win os i service threads w = Some (e, w') \<Longrightarrow> listen_reach env w'"
| listen_run: "listen_reach env w \<Longrightarrow> TcpListener_Start_win w = Some (e, w')
    \<Longrightarrow> (\<And>i. wl_poll_thread (lw_lis w) = Some i \<Longrightarrow> poll_allowed (StartP i) (lw_polls w)) \<Longrightarrow> listen_reach env w'"
| listen_port: "listen_reach env w \<Longrightarrow> TcpListener_AddListeningPort_win env addr w = Some (e, w') \<Longrightarrow> listen_reach env w'"
| listen_event: "listen_reach env w \<Longrightarrow> a \<in> set (lw_posted w) \<Longrightarrow> wd_event_type d = kAcceptEvent \<Longrightarrow> wd_overlaped d = a
    \<Longrightarrow> TcpListener_OnEventProcess_win env handler d (accept_done a buf w) = Some w' \<Longrightarrow> listen_reach env w'"
| listen_shutdown: "listen_reach env w \<Longrightarrow> TcpListener_Shutdown_win (ae_win env) w = Some w' \<Longrightarrow> listen_reach env w'"
| listen_others: "listen_reach env w \<Longrightarrow> poll_allowed c (lw_polls w) \<Longrightarrow> poll_exec c (lw_polls w) = Some polls
    \<Longrightarrow> (\<And>i. wl_poll_thread (lw_lis w) = Some i \<Longrightarrow> is_polls polls i \<noteq> None) \<Longrightarrow> listen_reach env (w\<lparr>lw_polls := polls\<rparr>)"

lemma Init_listen_ok:
  assumes ok: "listen_ok w" and i: "is_polls (lw_polls w) i = None" "i < 2147483646"
  shows "\<exists>e w'. TcpListener_Init_win os i service threads w = Some (e, w') \<and> listen_ok w'"
proof (cases "wl_shutdown (lw_lis w)")
  case True
  let ?old = "wl_poll_thread (lw_lis w)" and ?lis = "(lw_lis w)\<lparr>wl_poll_thread := Some i\<rparr>"
  have parts: "memory_ok w" "registry_ok (lw_polls w)" "wl_heads (lw_lis w) = []" "lw_objs w = Map.empty" "lw_posted w = []"
    using ok True by (auto simp: listen_ok_def)
  have "?old = None \<or> (\<exists>j q. ?old = Some j \<and> is_polls (lw_polls w) j = Some q)"
    using ok unfolding listen_ok_def by (metis not_None_eq)
  from replace_win_poll_ok [OF parts(2) i this] obtain p polls where
    p: "replace_win_poll ?old i service (lw_polls w) = Some polls" "registry_ok polls" "is_polls polls i = Some p" by blast
  obtain e polls2 where p2: "poll_through (Some i) (WinPolling_Init os (to_u64 threads)) polls = Some (e, polls2)"
    "registry_ok polls2" "is_polls polls2 = is_polls polls" using poll_through_ok(1) [OF p(2,3)] by blast
  have p2i: "is_polls polls2 i = Some p" using p(3) p2(3) by simp
  obtain u polls3 where p3: "poll_through (Some i) (WinPolling_EnableTimeoutCheck False) polls2 = Some (u, polls3)"
    "registry_ok polls3" "is_polls polls3 = is_polls polls2" using poll_through_ok(4) [OF p2(2) p2i] by blast
  have ok2: "listen_ok (w\<lparr>lw_lis := lis, lw_polls := ps\<rparr>)"
    if "wl_heads lis = []" "wl_poll_thread lis = Some i" "registry_ok ps" "is_polls ps i = Some p" for lis ps
    using parts that memory_ok_cong [OF parts(1), of "w\<lparr>lw_lis := lis, lw_polls := ps\<rparr>"] by (simp add: listen_ok_def)
  show ?thesis
  proof (cases "e = RAPTOR_ERROR_NONE")
    case False
    then have "TcpListener_Init_win os i service threads w = Some (e, w\<lparr>lw_lis := ?lis, lw_polls := polls2\<rparr>)"
      using True p(1) p2(1) by (simp add: TcpListener_Init_win_def del: not_None_eq)
    then show ?thesis using ok2 [of ?lis polls2] parts p2 p2i by simp
  next
    case noerr: True
    let ?lis2 = "?lis\<lparr>wl_shutdown := False, wl_threads := threads\<rparr>"
    have "TcpListener_Init_win os i service threads w = Some (e, w\<lparr>lw_lis := ?lis2, lw_polls := polls3\<rparr>)"
      using True noerr p(1) p2(1) p3(1) by (simp add: TcpListener_Init_win_def)
    then show ?thesis using ok2 [of ?lis2 polls3] parts p3 p2i by simp
  qed
qed (use ok in \<open>simp add: TcpListener_Init_win_def\<close>)

lemma polls_listen_ok:
  assumes "listen_ok w" and "registry_ok ps" and "\<And>i. wl_poll_thread (lw_lis w) = Some i \<Longrightarrow> is_polls ps i \<noteq> None"
  shows "listen_ok (w\<lparr>lw_polls := ps\<rparr>)"
  using assms memory_ok_cong [of w "w\<lparr>lw_polls := ps\<rparr>"] by (simp add: listen_ok_def del: not_None_eq)

lemma Start_listen_ok:
  assumes ok: "listen_ok w" and "\<And>i. wl_poll_thread (lw_lis w) = Some i \<Longrightarrow> poll_allowed (StartP i) (lw_polls w)"
  shows "\<exists>e w'. TcpListener_Start_win w = Some (e, w') \<and> listen_ok w'"
proof (cases "wl_shutdown (lw_lis w)")
  case False
  have reg: "registry_ok (lw_polls w)" using ok by (simp add: listen_ok_def)
  obtain i where i: "wl_poll_thread (lw_lis w) = Some i" using ok False by (auto simp: listen_ok_def)
  then obtain p where p: "is_polls (lw_polls w) i = Some p" using ok unfolding listen_ok_def by blast
  from poll_through_Start_ok [OF reg p assms(2) [OF i]] obtain e ps where
    s: "poll_through (Some i) WinPolling_Start (lw_polls w) = Some (e, ps)" "registry_ok ps" "is_polls ps = is_polls (lw_polls w)" by blast
  have "listen_ok (w\<lparr>lw_polls := ps\<rparr>)" by (rule polls_listen_ok [OF ok s(2)]) (use i p s(3) in simp)
  with s False i show ?thesis by (simp add: TcpListener_Start_win_def)
qed (use ok in \<open>simp add: TcpListener_Start_win_def\<close>)

lemma Shutdown_listen_ok:
  assumes ok: "listen_ok w" and r: "TcpListener_Shutdown_win ws w = Some w'"
  shows "listen_ok w'"
proof (cases "wl_shutdown (lw_lis w)")
  case False
  have m: "memory_ok w" and reg: "registry_ok (lw_polls w)" using ok by (simp_all add: listen_ok_def)
  have nil: "wl_heads (lw_lis w) = []" using Shutdown_stuck [OF m False, of ws] r by fastforce
  have objs: "lw_objs w = Map.empty" "lw_posted w = []" using ok nil by (auto simp: listen_ok_def)
  obtain i where i: "wl_poll_thread (lw_lis w) = Some i" using ok False by (auto simp: listen_ok_def)
  then obtain p where p: "is_polls (lw_polls w) i = Some p" using ok unfolding listen_ok_def by blast
  from poll_shutdown_ok [OF reg p] obtain ps where
    s: "poll_exec (ShutdownP i) (lw_polls w) = Some ps" "registry_ok ps" "is_polls ps = (is_polls (lw_polls w))(i \<mapsto> p\<lparr>wp_instance_id := 0\<rparr>)" by blast
  have "w' = w\<lparr>lw_polls := ps, lw_list := lw_list w, lw_lis := (lw_lis w)\<lparr>wl_shutdown := True, wl_heads := []\<rparr>\<rparr>"
    using r False nil i s(1) by (simp add: TcpListener_Shutdown_win_def del: poll_exec.simps)
  then show ?thesis using objs nil i s memory_ok_cong [OF m, of w'] by (simp add: listen_ok_def)
qed (use ok r in \<open>simp add: TcpListener_Shutdown_win_def\<close>)

text \<open>The state in which the next call of the object is started: the application has got the socket.\<close>

definition handed_over :: "accept_env \<Rightarrow> win_accept_handler \<Rightarrow> addr \<Rightarrow> AcceptObject \<Rightarrow> byte list \<Rightarrow> listen_world \<Rightarrow> listen_world" where
  "handed_over env handler a obj buf w =
     (let (l, r) = ae_addrs env buf;
          ep = EndpointImpl_SetListenPort (of_int (ao_listen_port obj)) (EndpointImpl_new (ao_new_socket obj) (filled_address l) (filled_address r));
          (property, io) = handler ep Property_new (lw_io w)
      in w\<lparr>lw_posted := remove1 a (lw_posted w),
           lw_io := TcpListener_ProcessProperty_win (ae_win env) (ao_new_socket obj) property io,
           lw_objs := (lw_objs w)(a \<mapsto> obj\<lparr>ao_addr_buffer := buf, ao_new_socket := INVALID_SOCKET\<rparr>)\<rparr>)"

lemma OnEvent_ok:
  assumes ok: "listen_ok w" and a: "a \<in> set (lw_posted w)" and obj: "lw_objs w a = Some obj"
    and d: "wd_event_type d = kAcceptEvent" "wd_overlaped d = a"
  shows "\<exists>e s io w'. TcpListener_StartAcceptEx (ae_win env) (wd_ptr d) (filled_address (fst (ae_addrs env buf))) a
         (handed_over env handler a obj buf w) = Some (e, w')
     \<and> accept_started a (handed_over env handler a obj buf w) e s io w'
     \<and> TcpListener_OnEventProcess_win env handler d (accept_done a buf w) = (if e = RAPTOR_ERROR_NONE then Some w' else None)
     \<and> (e = RAPTOR_ERROR_NONE \<longrightarrow> listen_ok w')"
proof -
  define w1 where "w1 = handed_over env handler a obj buf w"
  obtain l r where lr: "ae_addrs env buf = (l, r)" by fastforce
  define ep where "ep = EndpointImpl_SetListenPort (of_int (ao_listen_port obj)) (EndpointImpl_new (ao_new_socket obj) (filled_address l) (filled_address r))"
  obtain pr io where h: "handler ep Property_new (lw_io w) = (pr, io)" by fastforce
  define io1 where "io1 = TcpListener_ProcessProperty_win (ae_win env) (ao_new_socket obj) pr io"
  let ?obj = "obj\<lparr>ao_addr_buffer := buf, ao_new_socket := INVALID_SOCKET\<rparr>"
  have w1: "w1 = w\<lparr>lw_posted := remove1 a (lw_posted w), lw_io := io1, lw_objs := (lw_objs w)(a \<mapsto> ?obj)\<rparr>"
    by (simp add: w1_def handed_over_def lr h ep_def [symmetric] io1_def)
  have m: "memory_ok w" and po: "distinct (lw_posted w)" "set (lw_posted w) = dom (lw_objs w)"
    and acc: "\<forall>a \<in> dom (lw_objs w). \<exists>port. accepting port (lw_objs w a)" using ok by (simp_all add: listen_ok_def)
  have ne: "wl_heads (lw_lis w) \<noteq> []" using ok obj by (auto simp: listen_ok_def)
  then have run: "\<not> wl_shutdown (lw_lis w)" "wl_AcceptEx (lw_lis w)" "wl_GetAcceptExSockAddrs (lw_lis w)"
    using ok by (simp_all add: listen_ok_def)
  have "lw_objs w1 a = Some ?obj" "wl_AcceptEx (lw_lis w1)" using run by (simp_all add: w1)
  from StartAcceptEx_ok [OF this, of "ae_win env" "wd_ptr d" "filled_address l"] obtain e s io2 w2 where
    st: "TcpListener_StartAcceptEx (ae_win env) (wd_ptr d) (filled_address l) a w1 = Some (e, w2)" and as: "accept_started a w1 e s io2 w2" by blast
  note w2 = as [unfolded accept_started_def, THEN conjunct1]
  have m2: "memory_ok w2" by (rule memory_ok_cong [OF m]) (use obj in \<open>auto simp: w2 w1\<close>)
  have sd: "TcpListener_Shutdown_win (ae_win env) w2 = None" by (rule Shutdown_stuck [OF m2]) (use run ne in \<open>simp_all add: w2 w1\<close>)
  have "kAcceptEvent AND kAcceptEvent \<noteq> 0" by (simp add: kAcceptEvent_def)
  then have ev: "TcpListener_OnEventProcess_win env handler d (accept_done a buf w) = (if e \<noteq> RAPTOR_ERROR_NONE then TcpListener_Shutdown_win (ae_win env) w2 else Some w2)"
    using d run obj lr h st
    by (simp add: TcpListener_OnEventProcess_win_def accept_done_def TcpListener_ParsingNewConnectionAddress_def
        set_new_socket_def ep_def [symmetric] w1 io1_def Let_def del: not_None_eq)
  have "listen_ok w2" if e: "e = RAPTOR_ERROR_NONE"
  proof -
    have s: "s \<noteq> INVALID_SOCKET" using as e by (simp add: accept_started_def)
    have posted: "distinct (lw_posted w2)" "set (lw_posted w2) = dom (lw_objs w2)"
      using po a obj e by (auto simp: w2 w1 set_remove1_eq)
    have "accepting port (lw_objs w2 b)" if "accepting port (lw_objs w b)" for port b
      using that s obj by (auto simp: w2 w1 accepting_def)
    moreover have "dom (lw_objs w2) = dom (lw_objs w)" using obj by (auto simp: w2 w1)
    ultimately have "\<forall>b \<in> dom (lw_objs w2). \<exists>port. accepting port (lw_objs w2 b)" using acc by metis
    with ok m2 posted run ne show ?thesis by (simp add: listen_ok_def w2 w1)
  qed
  with st as ev sd show ?thesis unfolding w1_def [symmetric] lr by (auto simp del: not_None_eq)
qed

lemma listen_reach_ok: "listen_reach env w \<Longrightarrow> listen_ok w"
proof (induction rule: listen_reach.induct)
  case (listen_new polls io)
  then show ?case using poll_reach_ok
    by (simp add: listen_ok_def listen_start_def memory_ok_def TcpListener_new_win_def)
next
  case (listen_init w i os service threads e w')
  then show ?case using Init_listen_ok [of w i os service threads] by simp
next
  case (listen_run w e w')
  then show ?case using Start_listen_ok [of w] by simp
next
  case (listen_port w addr e w')
  then show ?case using AddListeningPort_ok [of w env addr]
    by (cases "wl_shutdown (lw_lis w)") (auto simp: TcpListener_AddListeningPort_win_def [of env addr w])
next
  case (listen_event w a d handler buf w')
  then obtain obj where "lw_objs w a = Some obj" by (auto simp: listen_ok_def)
  from OnEvent_ok [OF listen_event.IH listen_event.hyps(2) this listen_event.hyps(3,4), of env buf handler] listen_event.hyps(5)
  show ?case by (auto split: if_splits)
next
  case (listen_shutdown w w')
  then show ?case using Shutdown_listen_ok by blast
next
  case (listen_others w c polls)
  have "registry_ok (lw_polls w)" using listen_others.IH by (simp add: listen_ok_def)
  from poll_exec_ok [OF this listen_others.hyps(2)] listen_others.hyps(3) have "registry_ok polls" by simp
  then show ?case by (rule polls_listen_ok [OF listen_others.IH _ listen_others.hyps(4)])
qed

section \<open>Properties\<close>

text \<open>
  C27. A reachable listener keeps exactly one \<open>AcceptEx\<close> call under way for each of its objects. While it runs,
  adding a port never goes wrong; with no error it opens one listening socket and starts one call more
  than there are threads, each with a socket of its own, and with an error the sockets that stay
  open are those of the calls that were started and of the port that was registered for them.
\<close>

theorem win_listener_accepts:
  assumes "listen_reach env w"
  shows "distinct (lw_posted w) \<and> set (lw_posted w) = dom (lw_objs w)
    \<and> (\<not> wl_shutdown (lw_lis w) \<longrightarrow> (\<exists>e w' fds zs port. TcpListener_AddListeningPort_win env addr w = Some (e, w')
        \<and> lw_posted w' = lw_posted w @ zs \<and> (\<forall>z \<in> set zs. accepting port (lw_objs w' z))
        \<and> map li_listen_fd (wl_heads (lw_lis w')) = map li_listen_fd (wl_heads (lw_lis w)) @ fds
        \<and> mset (wi_open (lw_io w')) = mset (wi_open (lw_io w)) + mset fds + sockets_of (lw_objs w') zs
        \<and> (if e = RAPTOR_ERROR_NONE then length fds = 1 \<and> length zs = nat (wl_threads (lw_lis w) + 1)
           else length fds \<le> 1 \<and> length zs \<le> nat (wl_threads (lw_lis w)) * length fds)))"
proof -
  have ok: "listen_ok w" by (rule listen_reach_ok [OF assms])
  then have "distinct (lw_posted w) \<and> set (lw_posted w) = dom (lw_objs w)" by (simp add: listen_ok_def)
  then show ?thesis using AddListeningPort_ok [OF ok, of env addr] unfolding port_added_def calls_new_def by blast
qed

text \<open>
  C28. When an \<open>AcceptEx\<close> call completes, the application gets an endpoint with the accepted socket, the port and
  the two addresses the system wrote; the object then gets a new socket and its next call is started.
  When that call cannot be started the listener shuts itself down, which is undefined behaviour.
\<close>

theorem win_accept_rearmed:
  assumes "listen_reach env w" and "a \<in> set (lw_posted w)" and "lw_objs w a = Some obj"
    and "wd_event_type d = kAcceptEvent" and "wd_overlaped d = a"
  shows "\<exists>e w'. TcpListener_StartAcceptEx (ae_win env) (wd_ptr d) (filled_address (fst (ae_addrs env buf))) a
         (handed_over env handler a obj buf w) = Some (e, w')
     \<and> (if e = RAPTOR_ERROR_NONE
        then TcpListener_OnEventProcess_win env handler d (accept_done a buf w) = Some w'
          \<and> lw_posted w' = remove1 a (lw_posted w) @ [a] \<and> accepting (ao_listen_port obj) (lw_objs w' a)
        else TcpListener_OnEventProcess_win env handler d (accept_done a buf w) = None)"
proof -
  have ok: "listen_ok w" by (rule listen_reach_ok [OF assms(1)])
  then have "\<forall>a \<in> dom (lw_objs w). \<exists>port. accepting port (lw_objs w a)" by (simp add: listen_ok_def)
  then obtain port where "accepting port (Some obj)" using assms(3) by (metis domI)
  then have acc: "accepting (ao_listen_port obj) (Some obj)" by (simp add: accepting_def)
  from OnEvent_ok [OF ok assms(2-5), of env buf handler] obtain e s io w' where
    st: "TcpListener_StartAcceptEx (ae_win env) (wd_ptr d) (filled_address (fst (ae_addrs env buf))) a
      (handed_over env handler a obj buf w) = Some (e, w')"
    and as: "accept_started a (handed_over env handler a obj buf w) e s io w'"
    and ev: "TcpListener_OnEventProcess_win env handler d (accept_done a buf w) = (if e = RAPTOR_ERROR_NONE then Some w' else None)" by blast
  have "lw_posted w' = remove1 a (lw_posted w) @ [a] \<and> accepting (ao_listen_port obj) (lw_objs w' a)" if "e = RAPTOR_ERROR_NONE"
    using as that acc by (auto simp: accept_started_def handed_over_def accepting_def split: prod.splits)
  with st ev show ?thesis by (auto simp del: not_None_eq)
qed

text \<open>
  C40. Shutting down a listener that has a port is undefined behaviour: \<open>Shutdown\<close> walks over a copy of the
  list head, so the walk never sees the end of the list; it runs into the head in the vector, or into
  the memory the head had before the vector grew, and releases or writes memory that is no object.
\<close>

theorem win_listener_shutdown_undefined:
  assumes "listen_reach env w" and "wl_heads (lw_lis w) \<noteq> []"
  shows "TcpListener_Shutdown_win ws w = None"
  using listen_reach_ok [OF assms(1)] assms(2) by (intro Shutdown_stuck) (simp_all add: listen_ok_def)

section \<open>A listener on one port\<close>

text \<open>A system where every call succeeds, but for \<open>ConnectEx\<close>, which answers \<open>cx\<close>; like those of Windows, its socket
  handles are multiples of 4.\<close>

definition demo_ws :: "int \<Rightarrow> winsock" where
  "demo_ws cx = \<lparr>ws_answer = (\<lambda>tr c. \<lparr>wa_ret = (case c of AcceptExCall _ _ _ \<Rightarrow> 1 | ConnectExCall _ _ _ \<Rightarrow> cx | _ \<Rightarrow> 0),
     wa_sock = 4 * of_nat (length tr + 1), wa_error = 10061, wa_addr = ra_zero\<rparr>), ws_message = (\<lambda>_. None)\<rparr>"

abbreviation demo_winsock :: winsock where
  "demo_winsock \<equiv> demo_ws 1"

definition demo_env :: accept_env where
  "demo_env = \<lparr>ae_win = demo_winsock, ae_addrs = (\<lambda>_. (None, None)), ae_added = (\<lambda>_. True), ae_grow = (\<lambda>n. n)\<rparr>"

definition demo_os :: iocp_os where
  "demo_os = \<lparr>wio_created = True, wio_last_error = 0, wio_message = (\<lambda>_. None), wio_thread = (\<lambda>_. True)\<rparr>"

definition demo_io :: winio where
  "demo_io = \<lparr>wi_trace = [], wi_error = 0, wi_open = [], wi_bad_close = False\<rparr>"

lemma demo_ret: "wa_ret (fst (wcall (demo_ws cx) c s)) = (case c of AcceptExCall _ _ _ \<Rightarrow> 1 | ConnectExCall _ _ _ \<Rightarrow> cx | _ \<Rightarrow> 0)"
  by (simp add: wcall_def demo_ws_def Let_def)

lemma demo_socket: "wa_sock (fst (wcall (demo_ws cx) c s)) \<noteq> INVALID_SOCKET"
proof
  assume eq: "wa_sock (fst (wcall (demo_ws cx) c s)) = INVALID_SOCKET"
  have "even (wa_sock (fst (wcall (demo_ws cx) c s)))" by (simp add: wcall_def demo_ws_def Let_def)
  then show False unfolding eq by simp
qed

lemma demo_setters:
  "fst (raptor_set_socket_nonblocking_win (demo_ws cx) fd b s) = RAPTOR_ERROR_NONE"
  "fst (raptor_set_socket_low_latency_win (demo_ws cx) fd b s) = RAPTOR_ERROR_NONE"
  "fst (raptor_set_socket_ipv6_only_win (demo_ws cx) fd b s) = RAPTOR_ERROR_NONE"
  "fst (raptor_set_socket_tcp_user_timeout_win (demo_ws cx) fd n s) = RAPTOR_ERROR_NONE"
  by (simp_all add: raptor_set_socket_nonblocking_win_def raptor_set_socket_low_latency_win_def raptor_set_socket_ipv6_only_win_def
      raptor_set_socket_tcp_user_timeout_win_def status_call_def Let_def case_prod_beta demo_ret)

lemma demo_plain: "fst (fst (create_plain_socket_win (demo_ws cx) family s)) = RAPTOR_ERROR_NONE"
  using demo_socket [of cx "WSASocket family" s] by (simp add: create_plain_socket_win_def ws2_socket_def Let_def case_prod_beta)

lemma demo_dualstack: "fst (fst (raptor_create_dualstack_socket_win (demo_ws cx) addr s)) = RAPTOR_ERROR_NONE"
  using demo_socket [of cx "WSASocket AF_INET6" s] demo_setters(3)
  by (simp add: raptor_create_dualstack_socket_win_def demo_plain ws2_socket_def Let_def case_prod_beta)

lemma demo_create: "\<exists>m d fd io. raptor_create_socket (demo_ws cx) addr s = Some ((RAPTOR_ERROR_NONE, m, d, fd), io) \<and> fd \<noteq> INVALID_SOCKET"
proof -
  obtain e m d fd io where r: "raptor_create_socket (demo_ws cx) addr s = Some ((e, m, d, fd), io)" "win_creation s e fd io"
    using create_socket_ok by blast
  then have "e = RAPTOR_ERROR_NONE" using demo_dualstack [of cx m s]
    by (auto simp: raptor_create_socket_def Let_def split: prod.splits)
  with r show ?thesis by (simp add: win_creation_def)
qed

lemma demo_prepare: "fst (raptor_tcp_prepare_socket (demo_ws cx) sock n s) = RAPTOR_ERROR_NONE"
  by (simp add: raptor_tcp_prepare_socket_def demo_setters case_prod_beta Let_def)

lemma demo_server_prepare: "fst (fst (raptor_tcp_server_prepare_socket_win (demo_ws cx) sock addr s)) = RAPTOR_ERROR_NONE"
  by (simp add: raptor_tcp_server_prepare_socket_win_def demo_prepare demo_ret case_prod_beta Let_def)

lemma demo_extension: "fst (TcpListener_GetExtensionFunction (demo_ws cx) fd w) = RAPTOR_ERROR_NONE"
  by (simp add: TcpListener_GetExtensionFunction_def demo_ret case_prod_beta Let_def)

text \<open>A listener that was just created starts, and can add a port.\<close>

lemma demo_IocpThread_Init: "\<exists>acts t. IocpThread_Init demo_os (Suc 0) IocpThread_new = (RAPTOR_ERROR_NONE, acts, t)"
  by (simp add: IocpThread_Init_def IocpThread_new_def Iocp_create_def Iocp_new_def demo_os_def Thread_new_def
      InternalThreadImpl_new_def Let_def)

text \<open>The first polling object of a process gets its port and a thread.\<close>

lemma demo_polls:
  "\<exists>p q r. replace_win_poll None 0 service iocp_sys_start = Some p \<and> poll_through (Some 0) (WinPolling_Init demo_os (Suc 0)) p = Some (RAPTOR_ERROR_NONE, q)
     \<and> poll_through (Some 0) (WinPolling_EnableTimeoutCheck False) q = Some ((), r)"
proof -
  obtain acts t where i: "IocpThread_Init demo_os (Suc 0) IocpThread_new = (RAPTOR_ERROR_NONE, acts, t)" using demo_IocpThread_Init by blast
  show ?thesis
    by (simp add: replace_win_poll_def poll_through_def WinPolling_new_def iocp_sys_start_def iocp_start_def WinPolling_Init_def on_impl_def
        WinPolling_EnableTimeoutCheck_def IocpThreadAdaptor_Init_def IocpThreadAdaptor_new_def to_i32_def i)
qed

lemma demo_init: "\<exists>w. listen_reach env w \<and> \<not> wl_shutdown (lw_lis w) \<and> wl_threads (lw_lis w) = 1"
proof -
  let ?w = "listen_start iocp_sys_start demo_io"
  have reach: "listen_reach env ?w" by (rule listen_new [OF poll_reach.start])
  have "\<exists>w. TcpListener_Init_win demo_os 0 7 1 ?w = Some (RAPTOR_ERROR_NONE, w) \<and> \<not> wl_shutdown (lw_lis w) \<and> wl_threads (lw_lis w) = 1"
    using demo_polls [of 7] by (auto simp: TcpListener_Init_win_def listen_start_def TcpListener_new_win_def to_u64_def)
  then obtain w where w: "TcpListener_Init_win demo_os 0 7 1 ?w = Some (RAPTOR_ERROR_NONE, w)" "\<not> wl_shutdown (lw_lis w) \<and> wl_threads (lw_lis w) = 1" by blast
  have "listen_reach env w"
    by (rule listen_init [OF reach _ _ w(1)]) (simp_all add: listen_start_def iocp_sys_start_def)
  with w(2) show ?thesis by blast
qed

lemma demo_StartAcceptEx:
  assumes "TcpListener_StartAcceptEx demo_winsock listen_fd addr a w = Some (e, w')"
  shows "e = RAPTOR_ERROR_NONE"
proof -
  obtain sock io where c: "ws2_socket demo_winsock (sa_family addr) (lw_io w) = (sock, io)" by fastforce
  have s: "sock \<noteq> INVALID_SOCKET"
    using demo_socket [of 1 "WSASocket (sa_family addr)" "lw_io w"] c by (auto simp: ws2_socket_def case_prod_beta)
  obtain e1 io1 where p: "raptor_tcp_prepare_socket demo_winsock sock 0 io = (e1, io1)" by fastforce
  have "e1 = RAPTOR_ERROR_NONE" using demo_prepare [of 1 sock 0 io] p by simp
  with assms c s p show ?thesis
    by (auto simp: TcpListener_StartAcceptEx_def Let_def case_prod_beta demo_ret split: if_splits)
qed

lemma demo_accept_loop:
  "accept_loop demo_winsock n listen_fd addr port mode index head w = Some (e, w') \<Longrightarrow> e = RAPTOR_ERROR_NONE"
proof (induction n arbitrary: w)
  case (Suc n)
  then show ?case by (auto simp: Let_def dest!: demo_StartAcceptEx split: prod.splits if_splits)
qed simp

lemma demo_port:
  assumes ok: "listen_ok w" and run: "\<not> wl_shutdown (lw_lis w)"
  shows "\<exists>w'. TcpListener_AddListeningPort_win demo_env addr w = Some (RAPTOR_ERROR_NONE, w') \<and> wl_heads (lw_lis w') \<noteq> []"
proof -
  obtain m d fd io1 where c: "raptor_create_socket demo_winsock addr (lw_io w) = Some ((RAPTOR_ERROR_NONE, m, d, fd), io1)"
    using demo_create by blast
  let ?w1 = "w\<lparr>lw_io := io1\<rparr>"
  obtain e2 w2 where g: "TcpListener_GetExtensionFunction demo_winsock fd ?w1 = (e2, w2)" by fastforce
  have e2: "e2 = RAPTOR_ERROR_NONE" using demo_extension [of 1 fd ?w1] by (simp add: g)
  define w3 where "w3 = (if \<not> wl_AcceptEx (lw_lis w) \<or> \<not> wl_GetAcceptExSockAddrs (lw_lis w) then w2 else ?w1)"
  have w3: "listen_ok w3 \<and> \<not> wl_shutdown (lw_lis w3) \<and> wl_AcceptEx (lw_lis w3) \<and> wl_GetAcceptExSockAddrs (lw_lis w3)"
  proof (cases "wl_AcceptEx (lw_lis w) \<and> wl_GetAcceptExSockAddrs (lw_lis w)")
    case True
    then show ?thesis using ok run by (simp add: w3_def)
  next
    case False
    from GetExtensionFunction_ok [OF g] e2 obtain io where
      "w2 = ?w1\<lparr>lw_io := io, lw_lis := (lw_lis ?w1)\<lparr>wl_AcceptEx := True, wl_GetAcceptExSockAddrs := True\<rparr>\<rparr>" by auto
    then have w2: "w2 = w\<lparr>lw_io := io, lw_lis := (lw_lis w)\<lparr>wl_AcceptEx := True, wl_GetAcceptExSockAddrs := True\<rparr>\<rparr>" by simp
    then have "same_listener w w2" unfolding same_listener_def by blast
    from same_listener_ok [OF this ok] False w2 run show ?thesis by (auto simp: w3_def)
  qed
  obtain e3 port io3 where p: "raptor_tcp_server_prepare_socket_win demo_winsock fd m (lw_io w3) = ((e3, port), io3)" by (metis surj_pair)
  have e3: "e3 = RAPTOR_ERROR_NONE" using demo_server_prepare [of 1 fd m "lw_io w3"] by (simp add: p)
  have r: "TcpListener_AddListeningPort_win demo_env addr w
      = register_port demo_env fd m d (case port of None \<Rightarrow> 0 | Some p \<Rightarrow> p) (w3\<lparr>lw_io := io3\<rparr>)"
    using run c g e2 p e3
    by (cases "wl_AcceptEx (lw_lis w) \<and> wl_GetAcceptExSockAddrs (lw_lis w)")
       (auto simp: TcpListener_AddListeningPort_win_def demo_env_def w3_def Let_def)
  let ?w4 = "w3\<lparr>lw_io := io3\<rparr>"
  have "listen_ok ?w4" "\<not> wl_shutdown (lw_lis ?w4)" "wl_AcceptEx (lw_lis ?w4)" "wl_GetAcceptExSockAddrs (lw_lis ?w4)" using w3 by simp_all
  from registered_ok [OF this, of demo_env fd m d] obtain e w' where
    "register_port demo_env fd m d (case port of None \<Rightarrow> 0 | Some p \<Rightarrow> p) ?w4 = Some (e, w')"
    "map li_listen_fd (wl_heads (lw_lis w')) = map li_listen_fd (wl_heads (lw_lis ?w4)) @ [fd]" by blast
  moreover from this(1) have "e = RAPTOR_ERROR_NONE"
    by (auto simp: register_port_def demo_env_def Let_def dest!: demo_accept_loop)
  ultimately show ?thesis using r by auto
qed

lemma demo_listening: "\<exists>w. listen_reach demo_env w \<and> wl_heads (lw_lis w) \<noteq> [] \<and> \<not> wl_shutdown (lw_lis w)"
proof -
  obtain w where w: "listen_reach demo_env w" "\<not> wl_shutdown (lw_lis w)" using demo_init by blast
  from demo_port [OF listen_reach_ok [OF w(1)] w(2)] obtain w' where
    "TcpListener_AddListeningPort_win demo_env ra_zero w = Some (RAPTOR_ERROR_NONE, w')" "wl_heads (lw_lis w') \<noteq> []" by blast
  with listen_port [OF w(1)] listen_reach_ok show ?thesis by (metis listen_ok_def)
qed

theorem win_listener_accepts_witness:
  "\<exists>w. listen_reach demo_env w \<and> \<not> wl_shutdown (lw_lis w) \<and> TcpListener_AddListeningPort_win demo_env ra_zero w \<noteq> None"
proof -
  obtain w where w: "listen_reach demo_env w" "\<not> wl_shutdown (lw_lis w)" using demo_init by blast
  from win_listener_accepts [OF w(1), of ra_zero] w(2) have "\<exists>e w'. TcpListener_AddListeningPort_win demo_env ra_zero w = Some (e, w')" by blast
  with w show ?thesis by auto
qed

theorem win_listener_shutdown_undefined_witness:
  "\<exists>w. listen_reach demo_env w \<and> wl_heads (lw_lis w) \<noteq> [] \<and> TcpListener_Shutdown_win demo_winsock w = None"
  using demo_listening win_listener_shutdown_undefined by blast

text \<open>A call that is under way: without an outstanding call there would be no completion.\<close>

lemma demo_posted: "\<exists>w a obj. listen_reach demo_env w \<and> a \<in> set (lw_posted w) \<and> lw_objs w a = Some obj"
proof -
  obtain w where w: "listen_reach demo_env w" "\<not> wl_shutdown (lw_lis w)" "wl_threads (lw_lis w) = 1" using demo_init by blast
  note ok = listen_reach_ok [OF w(1)]
  obtain w' where w': "TcpListener_AddListeningPort_win demo_env ra_zero w = Some (RAPTOR_ERROR_NONE, w')"
    using demo_port [OF ok w(2)] by blast
  from AddListeningPort_ok [OF ok w(2), of demo_env ra_zero] w' w(3) obtain fds zs port where
    "port_added w fds zs port w'" "length zs = 2" by (auto split: if_splits)
  then obtain a where "a \<in> set (lw_posted w')" by (cases zs) (auto simp: port_added_def calls_new_def)
  moreover have reach: "listen_reach demo_env w'" by (rule listen_port [OF w(1) w'])
  moreover obtain obj where "lw_objs w' a = Some obj" using listen_reach_ok [OF reach] calculation(1) by (auto simp: listen_ok_def)
  ultimately show ?thesis by blast
qed

theorem win_accept_rearmed_witness:
  "\<exists>w a w'. listen_reach demo_env w \<and> a \<in> set (lw_posted w)
     \<and> TcpListener_OnEventProcess_win demo_env (\<lambda>ep p io. (p, io)) \<lparr>wd_ptr = 8, wd_event_type = kAcceptEvent, wd_error_code = 0,
          wd_transferred_bytes = 0, wd_handle_id = 9527, wd_overlaped = a\<rparr> (accept_done a [] w) = Some w'
     \<and> lw_posted w' = remove1 a (lw_posted w) @ [a]"
proof -
  obtain w a obj where w: "listen_reach demo_env w" "a \<in> set (lw_posted w)" "lw_objs w a = Some obj" using demo_posted by blast
  let ?d = "\<lparr>wd_ptr = 8, wd_event_type = kAcceptEvent, wd_error_code = 0, wd_transferred_bytes = 0, wd_handle_id = 9527, wd_overlaped = a\<rparr>"
  and ?h = "\<lambda>ep p io. (p :: Property, io :: winio)"
  from win_accept_rearmed [OF w, of ?d "[]" ?h] obtain e w' where
    st: "TcpListener_StartAcceptEx (ae_win demo_env) 8 (filled_address (fst (ae_addrs demo_env []))) a (handed_over demo_env ?h a obj [] w) = Some (e, w')"
    and r: "if e = RAPTOR_ERROR_NONE
        then TcpListener_OnEventProcess_win demo_env ?h ?d (accept_done a [] w) = Some w'
          \<and> lw_posted w' = remove1 a (lw_posted w) @ [a] \<and> accepting (ao_listen_port obj) (lw_objs w' a)
        else TcpListener_OnEventProcess_win demo_env ?h ?d (accept_done a [] w) = None" by auto
  have "ae_win demo_env = demo_winsock" by (simp add: demo_env_def)
  with st have "e = RAPTOR_ERROR_NONE" using demo_StartAcceptEx by metis
  with r w show ?thesis by auto
qed

end
