(* ===== verification/WinConnect.thy ===== *)
theory WinConnect
  imports WinListen Resolve
begin

text \<open>
  The connector of the Windows build (src/src/windows/tcp_connector.cc). Each connection attempt has an
  entry, which holds the overlapped structure of its \<open>ConnectEx\<close> call and is found again from it when the
  call completes. The system is a parameter as in theory \<open>WinSock\<close>; a result of \<open>None\<close> is a use of an entry
  that was freed, a null pointer, or an assertion that fails.
\<close>

section \<open>State\<close>

record win_connect_entry =
  ke_ole :: OverLappedEx
  ke_addr :: resolved_address
  ke_fd :: SOCKET
  ke_user_value :: u64

definition win_connect_entry_zero :: win_connect_entry where
  "win_connect_entry_zero = \<lparr>ke_ole = \<lparr>ol_event_type = 0, ol_HandleId = 0\<rparr>, ke_addr = ra_zero, ke_fd = 0, ke_user_value = 0\<rparr>"

record WinConnector =
  wk_shutdown :: bool
  wk_connectex :: bool
  wk_tcp_user_timeout_ms :: int
  wk_counter :: u32
  wk_records :: "addr set"
  wk_poll_thread :: "nat option"

text \<open>\<open>kw_pending\<close> holds the entries whose \<open>ConnectEx\<close> call is under way.\<close>

record connect_world =
  kw_con :: WinConnector
  kw_entries :: "addr \<rightharpoonup> win_connect_entry"
  kw_fresh :: addr
  kw_pending :: "addr set"
  kw_io :: winio
  kw_polls :: iocp_sys
  kw_resolver :: resolver

definition TcpConnector_new_win :: WinConnector where
  "TcpConnector_new_win = \<lparr>wk_shutdown = True, wk_connectex = False, wk_tcp_user_timeout_ms = 0, wk_counter = 0,
     wk_records = {}, wk_poll_thread = None\<rparr>"

section \<open>Starting and stopping\<close>

definition TcpConnector_Init_win ::
  "iocp_os \<Rightarrow> nat \<Rightarrow> addr \<Rightarrow> int \<Rightarrow> int \<Rightarrow> connect_world \<Rightarrow> (raptor_error \<times> connect_world) option" where
  "TcpConnector_Init_win os i service threads tcp_user_timeout w =
     (if \<not> wk_shutdown (kw_con w) then Some (MakeStatusFromStaticString ''TcpConnector is already running'', w)
      else do {
        polls \<leftarrow> replace_win_poll (wk_poll_thread (kw_con w)) i service (kw_polls w);
        let con = (kw_con w)\<lparr>wk_poll_thread := Some i\<rparr>;
        (e, polls) \<leftarrow> poll_through (Some i) (WinPolling_Init os (to_u64 threads)) polls;
        if e \<noteq> RAPTOR_ERROR_NONE then Some (e, w\<lparr>kw_con := con, kw_polls := polls\<rparr>)
        else do {
          (_, polls) \<leftarrow> poll_through (Some i) (WinPolling_EnableTimeoutCheck False) polls;
          Some (RAPTOR_ERROR_NONE,
                w\<lparr>kw_con := con\<lparr>wk_tcp_user_timeout_ms := tcp_user_timeout, wk_shutdown := False\<rparr>, kw_polls := polls\<rparr>) } })"

definition TcpConnector_Start_win :: "connect_world \<Rightarrow> (raptor_error \<times> connect_world) option" where
  "TcpConnector_Start_win w =
     (if wk_shutdown (kw_con w) then Some (MakeStatusFromStaticString ''TcpConnector is not initialized'', w)
      else do {
        (e, polls) \<leftarrow> poll_through (wk_poll_thread (kw_con w)) WinPolling_Start (kw_polls w);
        Some (e, w\<lparr>kw_polls := polls\<rparr>) })"

text \<open>The loop over \<open>_records\<close>, in the order of a \<open>std::set\<close>.\<close>

fun close_records_win :: "winsock \<Rightarrow> addr list \<Rightarrow> connect_world \<Rightarrow> connect_world option" where
  "close_records_win ws [] w = Some w"
| "close_records_win ws (record # rest) w = do {
     entry \<leftarrow> kw_entries w record;
     let w = w\<lparr>kw_io := wdo ws (Closesocket (ke_fd entry)) (kw_io w)\<rparr>;
     (_, polls) \<leftarrow> poll_through (wk_poll_thread (kw_con w)) (WinPolling_Delete (ke_fd entry) 0) (kw_polls w);
     close_records_win ws rest (w\<lparr>kw_polls := polls\<rparr>) }"

definition TcpConnector_Shutdown_win :: "winsock \<Rightarrow> connect_world \<Rightarrow> connect_world option" where
  "TcpConnector_Shutdown_win ws w =
     (if wk_shutdown (kw_con w) then Some w
      else do {
        let w = w\<lparr>kw_con := (kw_con w)\<lparr>wk_shutdown := True\<rparr>\<rparr>;
        w \<leftarrow> close_records_win ws (sorted_list_of_set (wk_records (kw_con w))) w;
        let w = w\<lparr>kw_con := (kw_con w)\<lparr>wk_records := {}\<rparr>\<rparr>;
        i \<leftarrow> wk_poll_thread (kw_con w);
        polls \<leftarrow> poll_exec (ShutdownP i) (kw_polls w);
        Some (w\<lparr>kw_polls := polls\<rparr>) })"

section \<open>Connecting\<close>

definition TcpConnector_GetConnectExIfNecessary :: "winsock \<Rightarrow> SOCKET \<Rightarrow> connect_world \<Rightarrow> raptor_error \<times> connect_world" where
  "TcpConnector_GetConnectExIfNecessary ws s w =
     (if \<not> wk_connectex (kw_con w) then
        let (a, io) = wcall ws (WSAIoctl s GetConnectEx) (kw_io w) in
        if wa_ret a \<noteq> 0
        then (windows_error ws io ''WSAIoctl(SIO_GET_EXTENSION_FUNCTION_POINTER)'', w\<lparr>kw_io := io\<rparr>)
        else (RAPTOR_ERROR_NONE, w\<lparr>kw_io := io, kw_con := (kw_con w)\<lparr>wk_connectex := True\<rparr>\<rparr>)
      else (RAPTOR_ERROR_NONE, w))"

text \<open>The label \<open>failure\<close>: the socket is closed and the entry deleted.\<close>

definition connect_failure :: "winsock \<Rightarrow> addr \<Rightarrow> SOCKET \<Rightarrow> raptor_error \<Rightarrow> connect_world \<Rightarrow> raptor_error \<times> connect_world" where
  "connect_failure ws entry fd error w =
     (error, w\<lparr>kw_io := (if fd \<noteq> INVALID_SOCKET then wdo ws (Closesocket fd) (kw_io w) else kw_io w),
               kw_entries := (kw_entries w)(entry := None)\<rparr>)"

text \<open>Up to \<open>bind\<close>: the entry was allocated at \<open>entry\<close>; the result is the error, the socket and the mapped address.\<close>

definition connect_prepare ::
  "winsock \<Rightarrow> resolved_address \<Rightarrow> int \<Rightarrow> connect_world \<Rightarrow> ((raptor_error \<times> SOCKET \<times> resolved_address) \<times> connect_world) option" where
  "connect_prepare ws addr timeout_millseconds w = do {
     ((error, mapped_addr, mode, fd), io) \<leftarrow> raptor_create_socket ws addr (kw_io w);
     let w = w\<lparr>kw_io := io\<rparr>;
     if error \<noteq> RAPTOR_ERROR_NONE then Some ((error, fd, mapped_addr), w)
     else do {
       let (error, io) = raptor_tcp_prepare_socket ws fd timeout_millseconds (kw_io w);
       let w = w\<lparr>kw_io := io\<rparr>;
       if error \<noteq> RAPTOR_ERROR_NONE then Some ((error, fd, mapped_addr), w)
       else do {
         let (error, w) = TcpConnector_GetConnectExIfNecessary ws fd w;
         if error \<noteq> RAPTOR_ERROR_NONE then Some ((error, fd, mapped_addr), w)
         else do {
           local_address \<leftarrow> raptor_sockaddr_make_wildcard6 0;
           let (a, io) = wcall ws (WinBind fd local_address) (kw_io w);
           let w = w\<lparr>kw_io := io\<rparr>;
           Some ((if wa_ret a \<noteq> 0 then windows_error ws io ''bind'' else RAPTOR_ERROR_NONE, fd, mapped_addr), w) } } } }"

definition TcpConnector_InternalConnect ::
  "winsock \<Rightarrow> (SOCKET \<Rightarrow> bool) \<Rightarrow> resolved_address \<Rightarrow> u64 \<Rightarrow> int \<Rightarrow> connect_world \<Rightarrow> (raptor_error \<times> connect_world) option" where
  "TcpConnector_InternalConnect ws added addr user timeout_millseconds w = do {
     let entry = kw_fresh w;
     let w = w\<lparr>kw_fresh := entry + 1, kw_entries := (kw_entries w)(entry \<mapsto> win_connect_entry_zero)\<rparr>;
     ((error, fd, mapped_addr), w) \<leftarrow> connect_prepare ws addr timeout_millseconds w;
     if error \<noteq> RAPTOR_ERROR_NONE then Some (connect_failure ws entry fd error w)
     else do {
       let ole = \<lparr>ol_event_type = kConnectEvent, ol_HandleId = wk_counter (kw_con w)\<rparr>;
       let e = \<lparr>ke_ole = ole, ke_addr = mapped_addr, ke_fd = fd, ke_user_value = user\<rparr>;
       (_, polls) \<leftarrow> poll_through (wk_poll_thread (kw_con w)) (WinPolling_Add (added fd) fd fd kConnectEvent) (kw_polls w);
       let w = w\<lparr>kw_entries := (kw_entries w)(entry \<mapsto> e), kw_polls := polls,
                 kw_con := (kw_con w)\<lparr>wk_counter := wk_counter (kw_con w) + 1, wk_records := insert entry (wk_records (kw_con w))\<rparr>\<rparr>;
       let (a, io) = wcall ws (ConnectExCall fd mapped_addr entry) (kw_io w);
       let w = w\<lparr>kw_io := io\<rparr>;
       if wa_ret a = 0 \<and> wa_error a \<noteq> ERROR_IO_PENDING
       then Some (connect_failure ws entry fd (windows_error ws io ''ConnectEx'') w)
       else Some (RAPTOR_ERROR_NONE, w\<lparr>kw_pending := insert entry (kw_pending w)\<rparr>) } }"

text \<open>\<open>gai\<close>, \<open>os\<close> and \<open>garbage\<close> are the arguments of \<open>raptor_blocking_resolve_address\<close>.\<close>

definition TcpConnector_Connect_win ::
  "winsock \<Rightarrow> (SOCKET \<Rightarrow> bool) \<Rightarrow> (string \<Rightarrow> string \<Rightarrow> gai_answer) \<Rightarrow> os_error \<Rightarrow> (nat \<Rightarrow> byte list) \<Rightarrow> string \<Rightarrow> u64 \<Rightarrow> connect_world
   \<Rightarrow> (raptor_error \<times> connect_world) option" where
  "TcpConnector_Connect_win ws added gai os garbage addr user w = do {
     (e, addrs, rs) \<leftarrow> raptor_blocking_resolve_address gai os garbage addr None None (kw_resolver w);
     let w = w\<lparr>kw_resolver := rs\<rparr>;
     if e \<noteq> RAPTOR_ERROR_NONE then Some (e, w)
     else do {
       found \<leftarrow> addrs;
       case found of
         [] \<Rightarrow> Some (map_option (\<lambda>st. Status_AppendMessage st addr) (MakeStatusFromStaticString ''Invalid address: ''), w)
       | a # _ \<Rightarrow> do {
           (e, w) \<leftarrow> TcpConnector_InternalConnect ws added a user (wk_tcp_user_timeout_ms (kw_con w)) w;
           Some (e, w\<lparr>kw_resolver := raptor_resolved_addresses_destroy addrs (kw_resolver w)\<rparr>) } } }"

section \<open>Completions\<close>

definition TcpConnector_FindRecordEntryFromOverlapped :: "addr \<Rightarrow> connect_world \<Rightarrow> win_connect_entry option" where
  "TcpConnector_FindRecordEntryFromOverlapped overlaped w = kw_entries w overlaped"

definition TcpConnector_ProcessProperty_win :: "winsock \<Rightarrow> SOCKET \<Rightarrow> Property \<Rightarrow> winio \<Rightarrow> winio" where
  "TcpConnector_ProcessProperty_win ws fd p io = wdo_all (win_property_steps ws fd p) io"

record win_connect_handler =
  on_connect_win :: "EndpointImpl \<Rightarrow> Property \<Rightarrow> winio \<Rightarrow> EndpointImpl \<times> Property \<times> winio"
  on_error_win :: "EndpointImpl \<Rightarrow> raptor_error \<Rightarrow> winio \<Rightarrow> winio"

text \<open>\<open>getsockname\<close> leaves the address zero when it fails.\<close>

definition TcpConnector_OnEventProcess_win ::
  "winsock \<Rightarrow> win_connect_handler \<Rightarrow> win_detail \<Rightarrow> connect_world \<Rightarrow> connect_world option" where
  "TcpConnector_OnEventProcess_win ws h detail w =
     (if wd_event_type detail AND kConnectEvent = 0 then None
      else do {
        let record = wd_overlaped detail;
        entry \<leftarrow> TcpConnector_FindRecordEntryFromOverlapped record w;
        let (a, io) = wcall ws (WinGetsockname (ke_fd entry)) (kw_io w);
        let loc = (if wa_ret a = - 1 then ra_zero\<lparr>ra_len := 128\<rparr> else wa_addr a);
        let endpoint = EndpointImpl_new (ke_fd entry) loc (ke_addr entry);
        let io = (if wd_event_type detail AND kErrorEvent \<noteq> 0
            then on_error_win h endpoint (MakeStatusFromWindowsError (ws_message ws) (wd_error_code detail) ''IOCP_WAIT'') io
            else let io = wdo ws (WinSetsockopt (ke_fd entry) SO_UPDATE_CONNECT_CONTEXT []) io;
                     property = Property_of_entry (''UserCustomValue'', ke_user_value entry);
                     (endpoint, property, io) = on_connect_win h endpoint property io
                 in (if EndpointImpl_IsOnline endpoint then TcpConnector_ProcessProperty_win ws (ke_fd entry) property io else io));
        let w = w\<lparr>kw_io := io, kw_pending := kw_pending w - {record}\<rparr>;
        if record \<in> wk_records (kw_con w)
        then Some (w\<lparr>kw_con := (kw_con w)\<lparr>wk_records := wk_records (kw_con w) - {record}\<rparr>,
                     kw_entries := (kw_entries w)(record := None)\<rparr>)
        else Some w })"

section \<open>Sockets and entries of an attempt\<close>

lemma GetConnectEx_ok:
  assumes "TcpConnector_GetConnectExIfNecessary ws fd w = (e, w')"
  shows "\<exists>b io. w' = w\<lparr>kw_io := io, kw_con := (kw_con w)\<lparr>wk_connectex := b\<rparr>\<rparr> \<and> keeps_socks (kw_io w) io"
proof (cases "wk_connectex (kw_con w)")
  case True
  then have "w' = w" using assms by (simp add: TcpConnector_GetConnectExIfNecessary_def)
  then show ?thesis using True by (intro exI [of _ True] exI [of _ "kw_io w"]) simp
next
  case False
  obtain r io where c: "wcall ws (WSAIoctl fd GetConnectEx) (kw_io w) = (r, io)" by fastforce
  have k: "keeps_socks (kw_io w) io" using wcall_keeps [of "WSAIoctl fd GetConnectEx" "kw_io w" ws] by (simp add: c)
  show ?thesis
  proof (cases "wa_ret r = 0")
    case True
    then show ?thesis using assms False c k
      by (intro exI [of _ True] exI [of _ io]) (simp add: TcpConnector_GetConnectExIfNecessary_def)
  next
    case nonzero: False
    then have w': "w' = w\<lparr>kw_io := io\<rparr>" using assms False c by (simp add: TcpConnector_GetConnectExIfNecessary_def)
    show ?thesis unfolding w' by (rule exI [of _ "wk_connectex (kw_con w)"], rule exI [of _ io]) (simp add: k)
  qed
qed

text \<open>A state that differs in the system calls and in what is known of the extension functions only.\<close>

definition prepared :: "connect_world \<Rightarrow> raptor_error \<Rightarrow> SOCKET \<Rightarrow> connect_world \<Rightarrow> bool" where
  "prepared w e fd w' \<longleftrightarrow> (\<exists>b io. w' = w\<lparr>kw_io := io, kw_con := (kw_con w)\<lparr>wk_connectex := b\<rparr>\<rparr>
     \<and> wi_bad_close io = wi_bad_close (kw_io w) \<and> (e = RAPTOR_ERROR_NONE \<longrightarrow> fd \<noteq> INVALID_SOCKET)
     \<and> wi_open io = (if fd = INVALID_SOCKET then wi_open (kw_io w) else fd # wi_open (kw_io w)))"

lemma preparedI:
  "fd \<noteq> INVALID_SOCKET \<Longrightarrow> w' = w\<lparr>kw_io := io, kw_con := (kw_con w)\<lparr>wk_connectex := b\<rparr>\<rparr> \<Longrightarrow> keeps_socks io1 io
   \<Longrightarrow> wi_open io1 = fd # wi_open (kw_io w) \<Longrightarrow> wi_bad_close io1 = wi_bad_close (kw_io w) \<Longrightarrow> prepared w e fd w'"
  unfolding prepared_def keeps_socks_def by (intro exI [of _ b] exI [of _ io]) simp

lemma connect_prepare_ok:
  "\<exists>e fd m w'. connect_prepare ws addr timeout w = Some ((e, fd, m), w') \<and> prepared w e fd w'"
proof -
  obtain e1 m mode fd io1 where c: "raptor_create_socket ws addr (kw_io w) = Some ((e1, m, mode, fd), io1)"
    and wc: "win_creation (kw_io w) e1 fd io1" using create_socket_ok by blast
  let ?b = "wk_connectex (kw_con w)"
  have w1: "w\<lparr>kw_io := io\<rparr> = w\<lparr>kw_io := io, kw_con := (kw_con w)\<lparr>wk_connectex := ?b\<rparr>\<rparr>" for io by simp
  show ?thesis
  proof (cases "e1 = RAPTOR_ERROR_NONE")
    case False
    then have "prepared w e1 fd (w\<lparr>kw_io := io1\<rparr>)"
      using wc unfolding prepared_def by (intro exI [of _ ?b] exI [of _ io1]) (simp add: win_creation_def del: not_None_eq)
    with c False show ?thesis by (simp add: connect_prepare_def del: not_None_eq)
  next
    case t1: True
    have fd: "fd \<noteq> INVALID_SOCKET" and op: "wi_open io1 = fd # wi_open (kw_io w)" "wi_bad_close io1 = wi_bad_close (kw_io w)"
      using wc t1 by (simp_all add: win_creation_def)
    obtain e2 io2 where p: "raptor_tcp_prepare_socket ws fd timeout io1 = (e2, io2)" by fastforce
    have k2: "keeps_socks io1 io2" using tcp_prepare_keeps [of io1 ws fd timeout] by (simp add: p)
    show ?thesis
    proof (cases "e2 = RAPTOR_ERROR_NONE")
      case False
      have "prepared w e2 fd (w\<lparr>kw_io := io2\<rparr>)" by (rule preparedI [OF fd w1 k2 op])
      with c t1 p False show ?thesis by (simp add: connect_prepare_def Let_def del: not_None_eq)
    next
      case t2: True
      obtain e3 w3 where g: "TcpConnector_GetConnectExIfNecessary ws fd (w\<lparr>kw_io := io2\<rparr>) = (e3, w3)" by fastforce
      from GetConnectEx_ok [OF g] obtain b io3 where w3: "w3 = w\<lparr>kw_io := io3, kw_con := (kw_con w)\<lparr>wk_connectex := b\<rparr>\<rparr>"
        and k: "keeps_socks io2 io3" by auto
      have k3: "keeps_socks io1 io3" by (rule keeps_socks_trans [OF k2 k])
      show ?thesis
      proof (cases "e3 = RAPTOR_ERROR_NONE")
        case False
        have "prepared w e3 fd w3" by (rule preparedI [OF fd w3 k3 op])
        with c t1 p t2 g False show ?thesis by (simp add: connect_prepare_def Let_def del: not_None_eq)
      next
        case t3: True
        obtain l where l: "raptor_sockaddr_make_wildcard6 0 = Some l" by (auto simp: raptor_sockaddr_make_wildcard6_def)
        obtain r io4 where bd: "wcall ws (WinBind fd l) (kw_io w3) = (r, io4)" by fastforce
        have "keeps_socks io3 io4" using wcall_keeps [of "WinBind fd l" "kw_io w3" ws] bd w3 by simp
        then have k4: "keeps_socks io1 io4" by (rule keeps_socks_trans [OF k3])
        have "w3\<lparr>kw_io := io4\<rparr> = w\<lparr>kw_io := io4, kw_con := (kw_con w)\<lparr>wk_connectex := b\<rparr>\<rparr>" by (simp add: w3)
        from preparedI [OF fd this k4 op] c t1 p t2 g t3 l bd show ?thesis by (simp add: connect_prepare_def Let_def)
      qed
    qed
  qed
qed

text \<open>What an attempt leaves: with no error one entry more, which is recorded and under way, and one socket
  more; with an error no entry and no socket, but maybe a record.\<close>

definition attempted :: "connect_world \<Rightarrow> raptor_error \<Rightarrow> connect_world \<Rightarrow> bool" where
  "attempted w e w' \<longleftrightarrow> kw_fresh w' = kw_fresh w + 1 \<and> kw_resolver w' = kw_resolver w
     \<and> wk_shutdown (kw_con w') = wk_shutdown (kw_con w) \<and> wk_poll_thread (kw_con w') = wk_poll_thread (kw_con w)
     \<and> wi_bad_close (kw_io w') = wi_bad_close (kw_io w)
     \<and> (if e = RAPTOR_ERROR_NONE
        then \<exists>x. kw_entries w' = (kw_entries w)(kw_fresh w \<mapsto> x) \<and> ke_fd x \<noteq> INVALID_SOCKET \<and> ol_event_type (ke_ole x) = kConnectEvent
          \<and> wi_open (kw_io w') = ke_fd x # wi_open (kw_io w)
          \<and> wk_records (kw_con w') = insert (kw_fresh w) (wk_records (kw_con w)) \<and> kw_pending w' = insert (kw_fresh w) (kw_pending w)
        else kw_entries w' = (kw_entries w)(kw_fresh w := None) \<and> wi_open (kw_io w') = wi_open (kw_io w) \<and> kw_pending w' = kw_pending w
          \<and> (wk_records (kw_con w') = wk_records (kw_con w) \<or> wk_records (kw_con w') = insert (kw_fresh w) (wk_records (kw_con w))))"

text \<open>\<open>ConnectEx\<close> never fails before the call is under way.\<close>

definition connectex_pends :: "winsock \<Rightarrow> bool" where
  "connectex_pends ws \<longleftrightarrow> (\<forall>tr fd addr a. wa_ret (ws_answer ws tr (ConnectExCall fd addr a)) \<noteq> 0
     \<or> wa_error (ws_answer ws tr (ConnectExCall fd addr a)) = ERROR_IO_PENDING)"

lemma connect_failure_open:
  assumes "fd \<noteq> INVALID_SOCKET \<Longrightarrow> wi_open (kw_io w) = fd # opened" and "fd = INVALID_SOCKET \<Longrightarrow> wi_open (kw_io w) = opened"
  shows "wi_open (kw_io (snd (connect_failure ws entry fd e w))) = opened
    \<and> wi_bad_close (kw_io (snd (connect_failure ws entry fd e w))) = wi_bad_close (kw_io w)"
  using assms closesocket_open [of fd "kw_io w" ws] by (simp add: connect_failure_def)

lemma InternalConnect_ok:
  assumes reg: "registry_ok (kw_polls w)" and i: "wk_poll_thread (kw_con w) = Some i" "is_polls (kw_polls w) i = Some p"
  shows "\<exists>e w'. TcpConnector_InternalConnect ws added addr user timeout w = Some (e, w') \<and> attempted w e w'
     \<and> registry_ok (kw_polls w') \<and> is_polls (kw_polls w') = is_polls (kw_polls w)
     \<and> (connectex_pends ws \<and> e \<noteq> RAPTOR_ERROR_NONE \<longrightarrow> wk_records (kw_con w') = wk_records (kw_con w))"
proof -
  let ?a = "kw_fresh w"
  define w0 where "w0 = w\<lparr>kw_fresh := ?a + 1, kw_entries := (kw_entries w)(?a \<mapsto> win_connect_entry_zero)\<rparr>"
  obtain e fd m w1 where p1: "connect_prepare ws addr timeout w0 = Some ((e, fd, m), w1)" and pr: "prepared w0 e fd w1"
    using connect_prepare_ok by blast
  obtain b io where w1: "w1 = w0\<lparr>kw_io := io, kw_con := (kw_con w0)\<lparr>wk_connectex := b\<rparr>\<rparr>" and bad: "wi_bad_close io = wi_bad_close (kw_io w)"
    and val: "e = RAPTOR_ERROR_NONE \<longrightarrow> fd \<noteq> INVALID_SOCKET"
    and op: "wi_open io = (if fd = INVALID_SOCKET then wi_open (kw_io w) else fd # wi_open (kw_io w))"
    using pr by (auto simp: prepared_def w0_def)
  show ?thesis
  proof (cases "e = RAPTOR_ERROR_NONE")
    case False
    define w2 where "w2 = snd (connect_failure ws ?a fd e w1)"
    have run: "TcpConnector_InternalConnect ws added addr user timeout w = Some (e, w2)"
      using p1 [unfolded w0_def] False by (simp add: TcpConnector_InternalConnect_def connect_failure_def w2_def Let_def del: not_None_eq)
    have o2: "wi_open (kw_io w2) = wi_open (kw_io w) \<and> wi_bad_close (kw_io w2) = wi_bad_close (kw_io w1)"
      unfolding w2_def by (rule connect_failure_open) (use op in \<open>simp_all add: w1\<close>)
    define io2 where "io2 = kw_io w2"
    have w2: "w2 = w1\<lparr>kw_io := io2, kw_entries := (kw_entries w)(?a := None)\<rparr>"
      by (simp add: io2_def w2_def connect_failure_def w1 w0_def)
    have "attempted w e w2 \<and> kw_polls w2 = kw_polls w \<and> wk_records (kw_con w2) = wk_records (kw_con w)"
      using o2 False bad by (simp add: attempted_def w2 w1 w0_def del: not_None_eq)
    with run reg show ?thesis by auto
  next
    case True
    then have fd: "fd \<noteq> INVALID_SOCKET" using val by simp
    obtain r polls where pl: "poll_through (Some i) (WinPolling_Add (added fd) fd fd kConnectEvent) (kw_polls w) = Some (r, polls)"
      "registry_ok polls" "is_polls polls = is_polls (kw_polls w)" using poll_through_ok(2) [OF reg i(2)] by blast
    define x where "x = \<lparr>ke_ole = \<lparr>ol_event_type = kConnectEvent, ol_HandleId = wk_counter (kw_con w)\<rparr>, ke_addr = m, ke_fd = fd, ke_user_value = user\<rparr>"
    obtain c io2 where cx: "wcall ws (ConnectExCall fd m ?a) io = (c, io2)" by fastforce
    have "keeps_socks io io2" using wcall_keeps [of "ConnectExCall fd m ?a" io ws] by (simp add: cx)
    then have op2: "wi_open io2 = fd # wi_open (kw_io w)" "wi_bad_close io2 = wi_bad_close (kw_io w)"
      using op bad fd by (simp_all add: keeps_socks_def)
    define w2 where "w2 = w1\<lparr>kw_entries := (kw_entries w1)(?a \<mapsto> x), kw_polls := polls,
      kw_con := (kw_con w1)\<lparr>wk_counter := wk_counter (kw_con w1) + 1, wk_records := insert ?a (wk_records (kw_con w1))\<rparr>, kw_io := io2\<rparr>"
    have run: "TcpConnector_InternalConnect ws added addr user timeout w =
        (if wa_ret c = 0 \<and> wa_error c \<noteq> ERROR_IO_PENDING then Some (connect_failure ws ?a fd (windows_error ws io2 ''ConnectEx'') w2)
         else Some (RAPTOR_ERROR_NONE, w2\<lparr>kw_pending := insert ?a (kw_pending w2)\<rparr>))"
      using p1 [unfolded w0_def] True pl(1) cx i(1)
      by (simp add: TcpConnector_InternalConnect_def w1 w0_def w2_def x_def Let_def)
    show ?thesis
    proof (cases "wa_ret c = 0 \<and> wa_error c \<noteq> ERROR_IO_PENDING")
      case failed: True
      let ?e = "windows_error ws io2 ''ConnectEx''"
      define w3 where "w3 = snd (connect_failure ws ?a fd ?e w2)"
      have r3: "TcpConnector_InternalConnect ws added addr user timeout w = Some (?e, w3)"
        using run failed by (simp add: w3_def connect_failure_def)
      have o3: "wi_open (kw_io w3) = wi_open (kw_io w) \<and> wi_bad_close (kw_io w3) = wi_bad_close (kw_io w2)"
        unfolding w3_def by (rule connect_failure_open) (use op2 fd in \<open>simp_all add: w2_def\<close>)
      define io3 where "io3 = kw_io w3"
      have w3: "w3 = w2\<lparr>kw_io := io3, kw_entries := (kw_entries w)(?a := None)\<rparr>"
        by (simp add: io3_def w3_def connect_failure_def w2_def w1 w0_def)
      have "attempted w ?e w3 \<and> kw_polls w3 = polls" unfolding attempted_def
        using o3 op2 by (simp add: w3 w2_def w1 w0_def)
      moreover have "wa_ret (ws_answer ws (wi_trace io) (ConnectExCall fd m ?a)) = 0"
        "wa_error (ws_answer ws (wi_trace io) (ConnectExCall fd m ?a)) \<noteq> ERROR_IO_PENDING"
        using cx failed by (auto simp: wcall_def Let_def)
      then have "\<not> connectex_pends ws" unfolding connectex_pends_def by blast
      ultimately show ?thesis using r3 pl by auto
    next
      case False
      let ?w3 = "w2\<lparr>kw_pending := insert ?a (kw_pending w2)\<rparr>"
      have "attempted w RAPTOR_ERROR_NONE ?w3" unfolding attempted_def
        using op2 fd by (simp add: w2_def w1 w0_def) (rule exI [of _ x], simp add: x_def)
      then show ?thesis using run False pl by (auto simp: w2_def)
    qed
  qed
qed

section \<open>Reachable connectors\<close>

definition connect_ok :: "connect_world \<Rightarrow> bool" where
  "connect_ok w \<longleftrightarrow> registry_ok (kw_polls w)
     \<and> (\<forall>i. wk_poll_thread (kw_con w) = Some i \<longrightarrow> is_polls (kw_polls w) i \<noteq> None)
     \<and> (\<not> wk_shutdown (kw_con w) \<longrightarrow> wk_poll_thread (kw_con w) \<noteq> None)
     \<and> finite (wk_records (kw_con w)) \<and> wk_records (kw_con w) \<subseteq> dom (kw_entries w) \<and> kw_pending w \<subseteq> dom (kw_entries w)
     \<and> dom (kw_entries w) \<subseteq> {..<kw_fresh w}"

lemma connect_ok_poll:
  assumes "connect_ok w" and "wk_poll_thread (kw_con w) \<noteq> None"
  obtains i p where "wk_poll_thread (kw_con w) = Some i" and "is_polls (kw_polls w) i = Some p" and "registry_ok (kw_polls w)"
proof -
  obtain i where i: "wk_poll_thread (kw_con w) = Some i" using assms(2) by auto
  moreover from i obtain p where "is_polls (kw_polls w) i = Some p" using assms(1) unfolding connect_ok_def by blast
  moreover have "registry_ok (kw_polls w)" using assms(1) by (simp add: connect_ok_def)
  ultimately show thesis by (rule that)
qed

lemma polls_connect_ok:
  assumes "connect_ok w" and "registry_ok ps" and "\<And>i. wk_poll_thread (kw_con w) = Some i \<Longrightarrow> is_polls ps i \<noteq> None"
  shows "connect_ok (w\<lparr>kw_polls := ps\<rparr>)"
  using assms by (simp add: connect_ok_def del: not_None_eq)

lemma close_records_win_ok:
  assumes "registry_ok (kw_polls w)" and "wk_poll_thread (kw_con w) = Some i" and "is_polls (kw_polls w) i = Some p"
    and "set rs \<subseteq> dom (kw_entries w)"
  shows "\<exists>io polls. close_records_win ws rs w = Some (w\<lparr>kw_io := io, kw_polls := polls\<rparr>) \<and> registry_ok polls \<and> is_polls polls = is_polls (kw_polls w)"
  using assms
proof (induction rs arbitrary: w)
  case Nil
  then show ?case by (intro exI [of _ "kw_io w"] exI [of _ "kw_polls w"]) simp
next
  case (Cons r rs)
  obtain x where x: "kw_entries w r = Some x" using Cons.prems(4) by auto
  define io where "io = wdo ws (Closesocket (ke_fd x)) (kw_io w)"
  obtain u polls where d: "poll_through (Some i) (WinPolling_Delete (ke_fd x) 0) (kw_polls w) = Some (u, polls)" "registry_ok polls"
    "is_polls polls = is_polls (kw_polls w)" using poll_through_ok(3) [OF Cons.prems(1,3)] by blast
  have "\<exists>io' polls'. close_records_win ws rs (w\<lparr>kw_io := io, kw_polls := polls\<rparr>) = Some (w\<lparr>kw_io := io, kw_polls := polls\<rparr>\<lparr>kw_io := io', kw_polls := polls'\<rparr>)
      \<and> registry_ok polls' \<and> is_polls polls' = is_polls (kw_polls (w\<lparr>kw_io := io, kw_polls := polls\<rparr>))"
    by (rule Cons.IH) (use Cons.prems d in simp_all)
  then show ?case using x d Cons.prems(2) by (auto simp: io_def [symmetric])
qed

lemma close_records_win_freed: "r \<in> set rs \<Longrightarrow> kw_entries w r = None \<Longrightarrow> close_records_win ws rs w = None"
proof (induction rs arbitrary: w)
  case (Cons x rs)
  show ?case
  proof (cases "x = r")
    case False
    then have "r \<in> set rs" using Cons.prems(1) by simp
    with Cons.IH Cons.prems(2) have "close_records_win ws rs (w\<lparr>kw_io := io, kw_polls := polls\<rparr>) = None" for io polls by simp
    then show ?thesis by (auto simp: Let_def split: option.splits bind_splits)
  qed (use Cons.prems in simp)
qed simp

lemma Shutdown_connect_ok:
  assumes ok: "connect_ok w"
  shows "\<exists>w'. TcpConnector_Shutdown_win ws w = Some w' \<and> connect_ok w'
    \<and> wk_shutdown (kw_con w') \<and> (\<not> wk_shutdown (kw_con w) \<longrightarrow> wk_records (kw_con w') = {})
    \<and> wk_poll_thread (kw_con w') = wk_poll_thread (kw_con w) \<and> dom (is_polls (kw_polls w')) = dom (is_polls (kw_polls w))"
proof (cases "wk_shutdown (kw_con w)")
  case False
  have "wk_poll_thread (kw_con w) \<noteq> None" using ok False by (simp add: connect_ok_def)
  with ok obtain i p where i: "wk_poll_thread (kw_con w) = Some i" "is_polls (kw_polls w) i = Some p" "registry_ok (kw_polls w)"
    by (rule connect_ok_poll)
  let ?w = "w\<lparr>kw_con := (kw_con w)\<lparr>wk_shutdown := True\<rparr>\<rparr>" and ?rs = "sorted_list_of_set (wk_records (kw_con w))"
  have "set ?rs \<subseteq> dom (kw_entries ?w)" using ok by (simp add: connect_ok_def)
  from close_records_win_ok [of ?w i p ?rs ws] this i obtain io polls where
    c: "close_records_win ws ?rs ?w = Some (?w\<lparr>kw_io := io, kw_polls := polls\<rparr>)" "registry_ok polls" "is_polls polls = is_polls (kw_polls w)" by auto
  have pi: "is_polls polls i = Some p" using c(3) i(2) by simp
  from poll_shutdown_ok [OF c(2) pi] obtain ps where
    s: "poll_exec (ShutdownP i) polls = Some ps" "registry_ok ps" "is_polls ps = (is_polls polls)(i \<mapsto> p\<lparr>wp_instance_id := 0\<rparr>)" by blast
  let ?w' = "?w\<lparr>kw_io := io, kw_con := (kw_con w)\<lparr>wk_shutdown := True, wk_records := {}\<rparr>, kw_polls := ps\<rparr>"
  have "TcpConnector_Shutdown_win ws w = Some ?w'"
    using False c(1) s(1) i(1) by (simp add: TcpConnector_Shutdown_win_def Let_def del: poll_exec.simps)
  moreover have "connect_ok ?w'" using ok s i by (simp add: connect_ok_def)
  moreover have "dom (is_polls ps) = dom (is_polls (kw_polls w))" using s(3) c(3) i(2) by auto
  ultimately show ?thesis by simp
qed (use ok in \<open>simp add: TcpConnector_Shutdown_win_def\<close>)

lemma Init_connect_ok:
  assumes ok: "connect_ok w" and i: "is_polls (kw_polls w) i = None" "i < 2147483646"
  shows "\<exists>e w'. TcpConnector_Init_win os i service threads timeout w = Some (e, w') \<and> connect_ok w'"
proof (cases "wk_shutdown (kw_con w)")
  case True
  let ?old = "wk_poll_thread (kw_con w)" and ?con = "(kw_con w)\<lparr>wk_poll_thread := Some i\<rparr>"
  have reg: "registry_ok (kw_polls w)" using ok by (simp add: connect_ok_def)
  have "?old = None \<or> (\<exists>j q. ?old = Some j \<and> is_polls (kw_polls w) j = Some q)"
    using ok unfolding connect_ok_def by (metis not_None_eq)
  from replace_win_poll_ok [OF reg i this] obtain p polls where
    p: "replace_win_poll ?old i service (kw_polls w) = Some polls" "registry_ok polls" "is_polls polls i = Some p" by blast
  obtain e polls2 where p2: "poll_through (Some i) (WinPolling_Init os (to_u64 threads)) polls = Some (e, polls2)"
    "registry_ok polls2" "is_polls polls2 = is_polls polls" using poll_through_ok(1) [OF p(2,3)] by blast
  have p2i: "is_polls polls2 i = Some p" using p(3) p2(3) by simp
  obtain u polls3 where p3: "poll_through (Some i) (WinPolling_EnableTimeoutCheck False) polls2 = Some (u, polls3)"
    "registry_ok polls3" "is_polls polls3 = is_polls polls2" using poll_through_ok(4) [OF p2(2) p2i] by blast
  show ?thesis
  proof (cases "e = RAPTOR_ERROR_NONE")
    case False
    then have "TcpConnector_Init_win os i service threads timeout w = Some (e, w\<lparr>kw_con := ?con, kw_polls := polls2\<rparr>)"
      using True p(1) p2(1) by (simp add: TcpConnector_Init_win_def del: not_None_eq)
    moreover have "connect_ok (w\<lparr>kw_con := ?con, kw_polls := polls2\<rparr>)" using ok p2 p2i by (simp add: connect_ok_def)
    ultimately show ?thesis by blast
  next
    case noerr: True
    let ?con2 = "?con\<lparr>wk_tcp_user_timeout_ms := timeout, wk_shutdown := False\<rparr>"
    have "TcpConnector_Init_win os i service threads timeout w = Some (e, w\<lparr>kw_con := ?con2, kw_polls := polls3\<rparr>)"
      using True noerr p(1) p2(1) p3(1) by (simp add: TcpConnector_Init_win_def)
    moreover have "connect_ok (w\<lparr>kw_con := ?con2, kw_polls := polls3\<rparr>)" using ok p3 p2i by (simp add: connect_ok_def)
    ultimately show ?thesis by blast
  qed
qed (use ok in \<open>simp add: TcpConnector_Init_win_def\<close>)

lemma Start_connect_ok:
  assumes ok: "connect_ok w" and al: "\<And>i. wk_poll_thread (kw_con w) = Some i \<Longrightarrow> poll_allowed (StartP i) (kw_polls w)"
  shows "\<exists>e w'. TcpConnector_Start_win w = Some (e, w') \<and> connect_ok w'"
proof (cases "wk_shutdown (kw_con w)")
  case False
  have "wk_poll_thread (kw_con w) \<noteq> None" using ok False by (simp add: connect_ok_def)
  with ok obtain i p where i: "wk_poll_thread (kw_con w) = Some i" "is_polls (kw_polls w) i = Some p" "registry_ok (kw_polls w)"
    by (rule connect_ok_poll)
  from poll_through_Start_ok [OF i(3,2) al [OF i(1)]] obtain e ps where
    s: "poll_through (Some i) WinPolling_Start (kw_polls w) = Some (e, ps)" "registry_ok ps" "is_polls ps = is_polls (kw_polls w)" by blast
  have "connect_ok (w\<lparr>kw_polls := ps\<rparr>)" by (rule polls_connect_ok [OF ok s(2)]) (use i s(3) in simp)
  with s False i show ?thesis by (simp add: TcpConnector_Start_win_def)
qed (use ok in \<open>simp add: TcpConnector_Start_win_def\<close>)

definition connect_start :: "iocp_sys \<Rightarrow> winio \<Rightarrow> connect_world" where
  "connect_start polls io = \<lparr>kw_con = TcpConnector_new_win, kw_entries = Map.empty, kw_fresh = 0, kw_pending = {}, kw_io = io,
     kw_polls = polls, kw_resolver = \<lparr>rs_lists = 0, rs_arrays = 0\<rparr>\<rparr>"

text \<open>The last rule is what the other polling objects of the process do.\<close>

inductive connect_reach :: "winsock \<Rightarrow> (SOCKET \<Rightarrow> bool) \<Rightarrow> connect_world \<Rightarrow> bool" for ws :: winsock and added :: "SOCKET \<Rightarrow> bool" where
  connect_new: "poll_reach polls \<Longrightarrow> connect_reach ws added (connect_start polls io)"
| connect_init: "connect_reach ws added w \<Longrightarrow> is_polls (kw_polls w) i = None \<Longrightarrow> i < 2147483646
    \<Longrightarrow> TcpConnector_Init_win os i service threads timeout w = Some (e, w') \<Longrightarrow> connect_reach ws added w'"
| connect_run: "connect_reach ws added w \<Longrightarrow> TcpConnector_Start_win w = Some (e, w')
    \<Longrightarrow> (\<And>i. wk_poll_thread (kw_con w) = Some i \<Longrightarrow> poll_allowed (StartP i) (kw_polls w)) \<Longrightarrow> connect_reach ws added w'"
| connect_attempt: "connect_reach ws added w \<Longrightarrow> wk_poll_thread (kw_con w) \<noteq> None
    \<Longrightarrow> TcpConnector_Connect_win ws added gai os garbage addr user w = Some (e, w') \<Longrightarrow> connect_reach ws added w'"
| connect_event: "connect_reach ws added w \<Longrightarrow> wd_overlaped d \<in> kw_pending w
    \<Longrightarrow> TcpConnector_OnEventProcess_win ws h d w = Some w' \<Longrightarrow> connect_reach ws added w'"
| connect_shutdown: "connect_reach ws added w \<Longrightarrow> TcpConnector_Shutdown_win ws w = Some w' \<Longrightarrow> connect_reach ws added w'"
| connect_others: "connect_reach ws added w \<Longrightarrow> poll_allowed c (kw_polls w) \<Longrightarrow> poll_exec c (kw_polls w) = Some polls
    \<Longrightarrow> (\<And>i. wk_poll_thread (kw_con w) = Some i \<Longrightarrow> is_polls polls i \<noteq> None) \<Longrightarrow> connect_reach ws added (w\<lparr>kw_polls := polls\<rparr>)"

lemma attempted_connect_ok:
  assumes ok: "connect_ok w" and at: "attempted w e w'" and polls: "registry_ok (kw_polls w')" "is_polls (kw_polls w') = is_polls (kw_polls w)"
    and rec: "e \<noteq> RAPTOR_ERROR_NONE \<Longrightarrow> wk_records (kw_con w') = wk_records (kw_con w)"
  shows "connect_ok w'"
proof -
  have fresh: "kw_fresh w \<notin> dom (kw_entries w)" using ok by (auto simp: connect_ok_def)
  show ?thesis
  proof (cases "e = RAPTOR_ERROR_NONE")
    case True
    then obtain x where "kw_entries w' = (kw_entries w)(kw_fresh w \<mapsto> x)" using at by (auto simp: attempted_def)
    then have "dom (kw_entries w') = insert (kw_fresh w) (dom (kw_entries w))" by simp
    then show ?thesis using ok at polls True by (auto simp: connect_ok_def attempted_def)
  next
    case False
    then have "kw_entries w' = (kw_entries w)(kw_fresh w := None)" using at by (simp add: attempted_def del: not_None_eq)
    then have "kw_entries w' = kw_entries w" using fresh by (auto simp: fun_upd_idem_iff)
    then show ?thesis using ok at polls False rec by (auto simp: connect_ok_def attempted_def)
  qed
qed

lemma resolver_connect_ok [simp]: "connect_ok (w\<lparr>kw_resolver := rs\<rparr>) \<longleftrightarrow> connect_ok w"
  by (simp add: connect_ok_def)

lemma Connect_connect_ok:
  assumes ok: "connect_ok w" and p: "wk_poll_thread (kw_con w) \<noteq> None" and ws: "connectex_pends ws"
    and run: "TcpConnector_Connect_win ws added gai os garbage addr user w = Some (e, w')"
  shows "connect_ok w'"
proof -
  obtain e1 addrs rs where r: "raptor_blocking_resolve_address gai os garbage addr None None (kw_resolver w) = Some (e1, addrs, rs)"
    using run by (auto simp: TcpConnector_Connect_win_def)
  let ?w = "w\<lparr>kw_resolver := rs\<rparr>"
  show ?thesis
  proof (cases "\<exists>a as. e1 = RAPTOR_ERROR_NONE \<and> addrs = Some (a # as)")
    case True
    then obtain a as where a: "e1 = RAPTOR_ERROR_NONE" "addrs = Some (a # as)" by blast
    obtain i q where i: "wk_poll_thread (kw_con ?w) = Some i" "is_polls (kw_polls ?w) i = Some q" "registry_ok (kw_polls ?w)"
      using connect_ok_poll [OF ok p] by auto
    from InternalConnect_ok [OF i(3,1,2), of ws added a user "wk_tcp_user_timeout_ms (kw_con w)"] obtain e2 w2 where
      c: "TcpConnector_InternalConnect ws added a user (wk_tcp_user_timeout_ms (kw_con w)) ?w = Some (e2, w2)" "attempted ?w e2 w2"
      "registry_ok (kw_polls w2)" "is_polls (kw_polls w2) = is_polls (kw_polls ?w)"
      "connectex_pends ws \<and> e2 \<noteq> RAPTOR_ERROR_NONE \<longrightarrow> wk_records (kw_con w2) = wk_records (kw_con ?w)" by blast
    have "connect_ok ?w" using ok by simp
    from attempted_connect_ok [OF this c(2-4)] c(5) ws have "connect_ok w2" by blast
    moreover have "w' = w2\<lparr>kw_resolver := raptor_resolved_addresses_destroy addrs (kw_resolver w2)\<rparr>"
      using run r a c(1) by (simp add: TcpConnector_Connect_win_def)
    ultimately show ?thesis by simp
  next
    case False
    then have "e1 \<noteq> RAPTOR_ERROR_NONE \<or> addrs = None \<or> addrs = Some []" by (metis list.exhaust option.exhaust)
    then have "w' = ?w" using run r by (auto simp: TcpConnector_Connect_win_def Let_def split: if_splits)
    then show ?thesis using ok by simp
  qed
qed

lemma OnEvent_connect_ok:
  assumes ok: "connect_ok w" and a: "kw_entries w (wd_overlaped d) = Some x" and t: "wd_event_type d AND kConnectEvent \<noteq> 0"
  shows "\<exists>io. TcpConnector_OnEventProcess_win ws h d w = Some (
      if wd_overlaped d \<in> wk_records (kw_con w)
      then w\<lparr>kw_io := io, kw_pending := kw_pending w - {wd_overlaped d},
             kw_con := (kw_con w)\<lparr>wk_records := wk_records (kw_con w) - {wd_overlaped d}\<rparr>,
             kw_entries := (kw_entries w)(wd_overlaped d := None)\<rparr>
      else w\<lparr>kw_io := io, kw_pending := kw_pending w - {wd_overlaped d}\<rparr>)"
  using a t by (auto simp: TcpConnector_OnEventProcess_win_def TcpConnector_FindRecordEntryFromOverlapped_def Let_def case_prod_beta)

lemma OnEvent_keeps_ok:
  assumes ok: "connect_ok w" and run: "TcpConnector_OnEventProcess_win ws h d w = Some w'"
  shows "connect_ok w'"
proof -
  have t: "wd_event_type d AND kConnectEvent \<noteq> 0" and "kw_entries w (wd_overlaped d) \<noteq> None"
    using run by (auto simp: TcpConnector_OnEventProcess_win_def TcpConnector_FindRecordEntryFromOverlapped_def Let_def
        split: if_splits)
  then obtain x where "kw_entries w (wd_overlaped d) = Some x" by auto
  from OnEvent_connect_ok [OF ok this t, of ws h] run obtain io where
    "w' = (if wd_overlaped d \<in> wk_records (kw_con w)
      then w\<lparr>kw_io := io, kw_pending := kw_pending w - {wd_overlaped d},
             kw_con := (kw_con w)\<lparr>wk_records := wk_records (kw_con w) - {wd_overlaped d}\<rparr>,
             kw_entries := (kw_entries w)(wd_overlaped d := None)\<rparr>
      else w\<lparr>kw_io := io, kw_pending := kw_pending w - {wd_overlaped d}\<rparr>)" by auto
  then show ?thesis using ok by (auto simp: connect_ok_def)
qed

lemma connect_reach_ok: "connect_reach ws added w \<Longrightarrow> connectex_pends ws \<Longrightarrow> connect_ok w"
proof (induction rule: connect_reach.induct)
  case (connect_new polls io)
  then show ?case using poll_reach_ok by (simp add: connect_ok_def connect_start_def TcpConnector_new_win_def)
next
  case (connect_init w i os service threads timeout e w')
  then show ?case using Init_connect_ok [of w i os service threads timeout] by simp
next
  case (connect_run w e w')
  then show ?case using Start_connect_ok [of w] by simp
next
  case (connect_attempt w gai os garbage addr user e w')
  then show ?case using Connect_connect_ok by blast
next
  case (connect_event w d h w')
  then show ?case using OnEvent_keeps_ok by blast
next
  case (connect_shutdown w w')
  then show ?case using Shutdown_connect_ok [of w ws] by auto
next
  case (connect_others w c polls)
  have "registry_ok (kw_polls w)" using connect_others.IH connect_others.prems by (simp add: connect_ok_def)
  from poll_exec_ok [OF this connect_others.hyps(2)] connect_others.hyps(3) have "registry_ok polls" by simp
  then show ?case using polls_connect_ok connect_others by blast
qed

section \<open>Properties\<close>

text \<open>
  C29. A connector whose \<open>ConnectEx\<close> calls never fail at once never uses a freed entry. It can be shut down in every
  reachable state. A completion of a call under way is handled, and frees the entry when it is still recorded. An
  attempt that returns no error has opened one socket and has one entry, recorded and under way, more than
  before; an attempt that returns an error leaves no entry, record or socket behind.
\<close>

theorem win_connector_safe:
  assumes "connect_reach ws added w" and "connectex_pends ws"
  shows "TcpConnector_Shutdown_win ws w \<noteq> None
    \<and> (wd_overlaped d \<in> kw_pending w \<and> wd_event_type d AND kConnectEvent \<noteq> 0 \<longrightarrow>
         (\<exists>w'. TcpConnector_OnEventProcess_win ws h d w = Some w' \<and> kw_pending w' = kw_pending w - {wd_overlaped d}
            \<and> wk_records (kw_con w') = wk_records (kw_con w) - {wd_overlaped d}
            \<and> (wd_overlaped d \<in> wk_records (kw_con w) \<longrightarrow> kw_entries w' (wd_overlaped d) = None)))
    \<and> (wk_poll_thread (kw_con w) \<noteq> None \<longrightarrow>
         (\<exists>e w'. TcpConnector_InternalConnect ws added addr user timeout w = Some (e, w') \<and> wi_bad_close (kw_io w') = wi_bad_close (kw_io w)
            \<and> (if e = RAPTOR_ERROR_NONE
               then \<exists>x. kw_entries w' = (kw_entries w)(kw_fresh w \<mapsto> x) \<and> wi_open (kw_io w') = ke_fd x # wi_open (kw_io w)
                 \<and> kw_fresh w \<notin> dom (kw_entries w) \<and> wk_records (kw_con w') = insert (kw_fresh w) (wk_records (kw_con w))
                 \<and> kw_pending w' = insert (kw_fresh w) (kw_pending w)
               else kw_entries w' = kw_entries w \<and> wi_open (kw_io w') = wi_open (kw_io w)
                 \<and> wk_records (kw_con w') = wk_records (kw_con w) \<and> kw_pending w' = kw_pending w)))"
proof -
  have ok: "connect_ok w" by (rule connect_reach_ok [OF assms])
  then have fresh: "kw_fresh w \<notin> dom (kw_entries w)" by (auto simp: connect_ok_def)
  then have idem: "(kw_entries w)(kw_fresh w := None) = kw_entries w" by (auto simp: fun_upd_idem_iff)
  have sd: "TcpConnector_Shutdown_win ws w \<noteq> None" using Shutdown_connect_ok [OF ok, of ws] by auto
  have ev: "\<exists>w'. TcpConnector_OnEventProcess_win ws h d w = Some w' \<and> kw_pending w' = kw_pending w - {wd_overlaped d}
      \<and> wk_records (kw_con w') = wk_records (kw_con w) - {wd_overlaped d}
      \<and> (wd_overlaped d \<in> wk_records (kw_con w) \<longrightarrow> kw_entries w' (wd_overlaped d) = None)"
    if e: "wd_overlaped d \<in> kw_pending w" "wd_event_type d AND kConnectEvent \<noteq> 0"
  proof -
    have "kw_pending w \<subseteq> dom (kw_entries w)" using ok by (simp add: connect_ok_def)
    then obtain x where "kw_entries w (wd_overlaped d) = Some x" using e(1) by auto
    from OnEvent_connect_ok [OF ok this e(2), of ws h] show ?thesis by auto
  qed
  have at: "\<exists>e w'. TcpConnector_InternalConnect ws added addr user timeout w = Some (e, w') \<and> attempted w e w'
      \<and> (e \<noteq> RAPTOR_ERROR_NONE \<longrightarrow> wk_records (kw_con w') = wk_records (kw_con w))" if p: "wk_poll_thread (kw_con w) \<noteq> None"
  proof -
    obtain i q where i: "wk_poll_thread (kw_con w) = Some i" "is_polls (kw_polls w) i = Some q" "registry_ok (kw_polls w)"
      using connect_ok_poll [OF ok p] by blast
    from InternalConnect_ok [OF i(3,1,2), of ws added addr user timeout] assms(2) show ?thesis by blast
  qed
  show ?thesis
    by (intro conjI impI sd, blast intro: ev, drule at) (use fresh idem in \<open>fastforce simp: attempted_def simp del: not_None_eq split: if_splits\<close>)
qed

text \<open>
  When \<open>ConnectEx\<close> fails at once, after the attempt was recorded, the entry is freed but its record is kept:
  shutting down the connector then uses the freed entry.
\<close>

theorem win_connect_failure_dangling:
  assumes "connect_ok w" and "\<not> wk_shutdown (kw_con w)"
    and "TcpConnector_InternalConnect ws added addr user timeout w = Some (e, w')" and "e \<noteq> RAPTOR_ERROR_NONE"
    and "wk_records (kw_con w') \<noteq> wk_records (kw_con w)"
  shows "TcpConnector_Shutdown_win ws w' = None"
proof -
  have "wk_poll_thread (kw_con w) \<noteq> None" using assms(1,2) by (simp add: connect_ok_def)
  with assms(1) obtain i p where i: "wk_poll_thread (kw_con w) = Some i" "is_polls (kw_polls w) i = Some p" "registry_ok (kw_polls w)"
    by (rule connect_ok_poll)
  from InternalConnect_ok [OF i(3,1,2), of ws added addr user timeout] assms(3) have at: "attempted w e w'" by auto
  let ?rs = "sorted_list_of_set (wk_records (kw_con w'))"
  have rec: "wk_records (kw_con w') = insert (kw_fresh w) (wk_records (kw_con w))" and none: "kw_entries w' (kw_fresh w) = None"
    and run: "\<not> wk_shutdown (kw_con w')"
    using at assms(2,4,5) by (auto simp: attempted_def simp del: not_None_eq)
  have "finite (wk_records (kw_con w'))" using assms(1) by (simp add: rec connect_ok_def)
  then have "kw_fresh w \<in> set ?rs" using rec by (metis insertI1 set_sorted_list_of_set)
  then have "close_records_win ws ?rs (w'\<lparr>kw_con := (kw_con w')\<lparr>wk_shutdown := True\<rparr>\<rparr>) = None"
    by (rule close_records_win_freed) (simp add: none)
  then show ?thesis using run by (simp add: TcpConnector_Shutdown_win_def Let_def)
qed

text \<open>
  C39. The connector cannot tell a refused connection from an established one: a completion that failed, with
  whatever error, is handled exactly like one that succeeded, so the application's \<open>OnConnect\<close> is called for it.
\<close>

definition connect_round :: "bool \<Rightarrow> int \<Rightarrow> u32 \<Rightarrow> SOCKET \<Rightarrow> addr \<Rightarrow> iocp_round" where
  "connect_round ok err n sock a = \<lparr>ir_down = False, ir_time = 0, ir_completion = \<lparr>cp_ret = ok, cp_bytes = n, cp_key = sock,
     cp_overlapped = Some (Ov a), cp_last_error = err\<rparr>\<rparr>"

theorem win_connect_error_unseen:
  assumes "ia_interesting_event_services adaptor sock = Some info" and "sock \<noteq> 0"
    and "kw_entries w a = Some x" and "ol_event_type (ke_ole x) = kConnectEvent"
  shows "WorkThread (\<lambda>w. map_option ke_ole \<circ> kw_entries w)
       (IocpThreadAdaptor_OnEventProcess (\<lambda>service. TcpConnector_OnEventProcess_win ws h) adaptor) on_timeout False
       [connect_round ok err n sock a] w
     = WorkThread (\<lambda>w. map_option ke_ole \<circ> kw_entries w)
       (IocpThreadAdaptor_OnEventProcess (\<lambda>service. TcpConnector_OnEventProcess_win ws h) adaptor) on_timeout False
       [connect_round True 0 n sock a] w"
proof -
  have t: "sint kConnectEvent = 8" "kConnectEvent AND kErrorEvent = 0" by (simp_all add: kConnectEvent_def kErrorEvent_def)
  define seen where "seen = TcpConnector_OnEventProcess_win ws h \<lparr>wd_ptr = si_CompletionKey info, wd_event_type = kConnectEvent,
    wd_error_code = 0, wd_transferred_bytes = n, wd_handle_id = 0, wd_overlaped = a\<rparr> w"
  have irrelevant: "TcpConnector_OnEventProcess_win ws h \<lparr>wd_ptr = si_CompletionKey info, wd_event_type = kConnectEvent,
    wd_error_code = e, wd_transferred_bytes = n, wd_handle_id = i, wd_overlaped = a\<rparr> w = seen" for e i
    using t(2) by (simp add: TcpConnector_OnEventProcess_win_def seen_def)
  show ?thesis
    using assms t irrelevant by (simp add: connect_round_def WorkThread_step_def IocpThreadAdaptor_OnEventProcess_def
        IocpThreadAdaptor_FindEventService_def Let_def)
qed

text \<open>
  A connector that is shut down and initialized again reports no error, but its polling object is not
  the one that controls the completion port, which has been shut down: no thread will ever serve it. Here it is the only one in
  the process.
\<close>

theorem win_restart_dead:
  assumes "connect_reach ws added w" and "connectex_pends ws" and "\<not> wk_shutdown (kw_con w)"
    and "dom (is_polls (kw_polls w)) = {i}" and "j \<noteq> i" and "j < 2147483646"
    and "TcpConnector_Shutdown_win ws w = Some w1"
  shows "\<exists>w2. TcpConnector_Init_win os j service threads timeout w1 = Some (RAPTOR_ERROR_NONE, w2) \<and> \<not> wk_shutdown (kw_con w2)
    \<and> (\<forall>obj \<in> ran (ww_objs (is_world (kw_polls w2))). iw_shutdown (ia_iocp obj))"
proof -
  have ok: "connect_ok w" by (rule connect_reach_ok [OF assms(1,2)])
  from Shutdown_connect_ok [OF ok, of ws] assms(3,7) have ok1: "connect_ok w1" and sd: "wk_shutdown (kw_con w1)"
    and same: "wk_poll_thread (kw_con w1) = wk_poll_thread (kw_con w)" "dom (is_polls (kw_polls w1)) = dom (is_polls (kw_polls w))" by auto
  have "wk_poll_thread (kw_con w) \<noteq> None" using ok assms(3) by (simp add: connect_ok_def)
  then have "wk_poll_thread (kw_con w) = Some i" using ok assms(4) by (auto simp: connect_ok_def)
  then have d1: "wk_poll_thread (kw_con w1) = Some i \<and> dom (is_polls (kw_polls w1)) = {i}"
    using same assms(4) by simp
  then obtain q where q: "is_polls (kw_polls w1) i = Some q" by auto
  have nj: "is_polls (kw_polls w1) j = None" using d1 assms(5) by (metis domIff singletonD)
  have reg: "registry_ok (kw_polls w1)" using ok1 by (simp add: connect_ok_def)
  from replace_win_poll_ok [OF reg nj assms(6), of "Some i" service] q obtain p polls where
    p: "replace_win_poll (Some i) j service (kw_polls w1) = Some polls" "registry_ok polls" "is_polls polls j = Some p"
    "wp_instance_id p = int (card (dom (is_polls (kw_polls w1)))) + 1" "dom (is_polls polls) = insert j (dom (is_polls (kw_polls w1)) - set_option (Some i))" by blast
  have id: "wp_instance_id p = 2" using p(4) d1 by simp
  have i2: "poll_through (Some j) (WinPolling_Init os (to_u64 threads)) polls = Some (RAPTOR_ERROR_NONE, polls)"
    using p(3) id by (simp add: poll_through_def WinPolling_Init_def)
  obtain u polls3 where p3: "poll_through (Some j) (WinPolling_EnableTimeoutCheck False) polls = Some (u, polls3)"
    "registry_ok polls3" "is_polls polls3 = is_polls polls" using poll_through_ok(4) [OF p(2,3)] by blast
  have dom3: "dom (is_polls polls3) = {j}" using p(5) p3(3) d1 by simp
  have "is_polls polls3 k = [j \<mapsto> p] k" for k using dom3 p(3) p3(3) by (cases "k = j") (simp, metis domIff fun_upd_apply singletonD)
  then have "is_polls polls3 = [j \<mapsto> p]" by (rule ext)
  then have ran3: "ran (is_polls polls3) = {p}" by simp
  have "is_polls polls3 \<noteq> Map.empty" using dom3 by auto
  then obtain a obj where "shared_ok polls3 a obj" using p3(2) by (auto simp: registry_ok_def)
  then have "\<forall>obj \<in> ran (ww_objs (is_world polls3)). iw_shutdown (ia_iocp obj)" using ran3 id by (auto simp: shared_ok_def)
  with sd d1 p(1) i2 p3(1) show ?thesis by (simp add: TcpConnector_Init_win_def)
qed

section \<open>A connector that starts\<close>

lemma poll_through_polls: "poll_through i f s = Some (r, s') \<Longrightarrow> is_polls s' = is_polls s"
  by (auto simp: poll_through_def)

lemma demo_connector:
  "\<exists>w. connect_reach ws added w \<and> connect_ok w \<and> \<not> wk_shutdown (kw_con w) \<and> dom (is_polls (kw_polls w)) = {0}"
proof -
  let ?w = "connect_start iocp_sys_start demo_io"
  have reach: "connect_reach ws added ?w" by (rule connect_new [OF poll_reach.start])
  have ok: "connect_ok ?w" using poll_reach_ok [OF poll_reach.start] by (simp add: connect_ok_def connect_start_def TcpConnector_new_win_def)
  have none: "is_polls (kw_polls ?w) 0 = None" by (simp add: connect_start_def iocp_sys_start_def)
  obtain p q r where p: "replace_win_poll None 0 5 iocp_sys_start = Some p" "poll_through (Some 0) (WinPolling_Init demo_os (Suc 0)) p = Some (RAPTOR_ERROR_NONE, q)"
    "poll_through (Some 0) (WinPolling_EnableTimeoutCheck False) q = Some ((), r)" using demo_polls by blast
  obtain w where w: "TcpConnector_Init_win demo_os 0 5 1 0 ?w = Some (RAPTOR_ERROR_NONE, w)" "\<not> wk_shutdown (kw_con w)" "kw_polls w = r"
    using p by (simp add: TcpConnector_Init_win_def connect_start_def TcpConnector_new_win_def to_u64_def)
  have "connect_reach ws added w" by (rule connect_init [OF reach none _ w(1)]) simp
  moreover have "connect_ok w" using Init_connect_ok [OF ok none, of demo_os 5 1 0] w(1) by simp
  moreover have "dom (is_polls r) = {0}"
  proof -
    have "dom (is_polls p) = insert 0 (dom (is_polls iocp_sys_start) - set_option None)"
      using replace_win_poll_ok [OF poll_reach_ok [OF poll_reach.start], of 0 None 5] p(1) by (auto simp: iocp_sys_start_def)
    then show ?thesis using poll_through_polls [OF p(2)] poll_through_polls [OF p(3)] by (simp add: iocp_sys_start_def)
  qed
  ultimately show ?thesis using w(2,3) by blast
qed

lemma demo_pends: "connectex_pends (demo_ws 1)"
  by (simp add: connectex_pends_def demo_ws_def)

lemma demo_connect_prepare: "\<exists>fd m w'. connect_prepare (demo_ws cx) addr timeout w = Some ((RAPTOR_ERROR_NONE, fd, m), w')"
proof -
  obtain m d fd io where c: "raptor_create_socket (demo_ws cx) addr (kw_io w) = Some ((RAPTOR_ERROR_NONE, m, d, fd), io)"
    using demo_create by blast
  obtain e1 io1 where p: "raptor_tcp_prepare_socket (demo_ws cx) fd timeout io = (e1, io1)" by fastforce
  have e1: "e1 = RAPTOR_ERROR_NONE" using demo_prepare [of cx fd timeout io] by (simp add: p)
  obtain e2 w2 where g: "TcpConnector_GetConnectExIfNecessary (demo_ws cx) fd (w\<lparr>kw_io := io1\<rparr>) = (e2, w2)" by fastforce
  have "fst (TcpConnector_GetConnectExIfNecessary (demo_ws cx) fd (w\<lparr>kw_io := io1\<rparr>)) = RAPTOR_ERROR_NONE"
    by (simp add: TcpConnector_GetConnectExIfNecessary_def demo_ret case_prod_beta)
  then have e2: "e2 = RAPTOR_ERROR_NONE" by (simp add: g)
  obtain l where l: "raptor_sockaddr_make_wildcard6 0 = Some l" by (auto simp: raptor_sockaddr_make_wildcard6_def)
  show ?thesis using c p e1 g e2 l by (simp add: connect_prepare_def Let_def case_prod_beta demo_ret)
qed

lemma demo_connect_fails:
  assumes "TcpConnector_InternalConnect (demo_ws 0) added addr user timeout w = Some (e, w')"
  shows "e \<noteq> RAPTOR_ERROR_NONE \<and> kw_fresh w \<in> wk_records (kw_con w')"
proof -
  let ?w = "w\<lparr>kw_fresh := kw_fresh w + 1, kw_entries := (kw_entries w)(kw_fresh w \<mapsto> win_connect_entry_zero)\<rparr>"
  obtain fd m w1 where "connect_prepare (demo_ws 0) addr timeout ?w = Some ((RAPTOR_ERROR_NONE, fd, m), w1)"
    using demo_connect_prepare by blast
  moreover have "wa_error (fst (wcall (demo_ws 0) c s)) = 10061" for c s by (simp add: wcall_def demo_ws_def Let_def)
  ultimately show ?thesis
    using assms by (auto simp: TcpConnector_InternalConnect_def Let_def case_prod_beta demo_ret connect_failure_def)
qed

theorem win_connector_safe_witness:
  "\<exists>w. connect_reach (demo_ws 1) (\<lambda>_. True) w \<and> \<not> wk_shutdown (kw_con w) \<and> connectex_pends (demo_ws 1) \<and> TcpConnector_Shutdown_win (demo_ws 1) w \<noteq> None"
proof -
  obtain w where w: "connect_reach (demo_ws 1) (\<lambda>_. True) w" "\<not> wk_shutdown (kw_con w)" using demo_connector by blast
  with win_connector_safe [OF w(1) demo_pends] demo_pends show ?thesis by blast
qed

theorem win_connect_failure_dangling_witness:
  "\<exists>w e w'. connect_ok w \<and> TcpConnector_InternalConnect (demo_ws 0) (\<lambda>_. True) ra_zero 7 0 w = Some (e, w') \<and> e \<noteq> RAPTOR_ERROR_NONE
     \<and> TcpConnector_Shutdown_win (demo_ws 0) w' = None"
proof -
  obtain w where w: "connect_ok w" "\<not> wk_shutdown (kw_con w)" using demo_connector by blast
  have "wk_poll_thread (kw_con w) \<noteq> None" using w by (simp add: connect_ok_def)
  with w(1) obtain i p where i: "wk_poll_thread (kw_con w) = Some i" "is_polls (kw_polls w) i = Some p" "registry_ok (kw_polls w)"
    by (rule connect_ok_poll)
  obtain e w' where r: "TcpConnector_InternalConnect (demo_ws 0) (\<lambda>_. True) ra_zero 7 0 w = Some (e, w')"
    using InternalConnect_ok [OF i(3,1,2)] by blast
  have f: "e \<noteq> RAPTOR_ERROR_NONE" "kw_fresh w \<in> wk_records (kw_con w')" using demo_connect_fails [OF r] by auto
  have "wk_records (kw_con w) \<subseteq> dom (kw_entries w)" "dom (kw_entries w) \<subseteq> {..<kw_fresh w}" using w(1) by (simp_all add: connect_ok_def)
  then have "kw_fresh w \<notin> wk_records (kw_con w)" by (meson lessThan_iff less_irrefl subsetD)
  then have "wk_records (kw_con w') \<noteq> wk_records (kw_con w)" using f(2) by blast
  from win_connect_failure_dangling [OF w r f(1) this] w(1) r f(1) show ?thesis by blast
qed

theorem win_connect_error_unseen_witness:
  "WorkThread (\<lambda>w. map_option ke_ole \<circ> kw_entries w)
     (IocpThreadAdaptor_OnEventProcess (\<lambda>service. TcpConnector_OnEventProcess_win (demo_ws 1)
          \<lparr>on_connect_win = (\<lambda>ep p io. (ep, p, io)), on_error_win = (\<lambda>ep e io. io)\<rparr>)
        (IocpThreadAdaptor_new\<lparr>ia_interesting_event_services := [8 \<mapsto> \<lparr>si_CompletionKey = 8, si_service = 5, si_event_types = kConnectEvent\<rparr>]\<rparr>))
     (\<lambda>_. Some) False [connect_round False 10061 0 8 9]
     ((connect_start iocp_sys_start demo_io)\<lparr>kw_entries := [9 \<mapsto> win_connect_entry_zero\<lparr>ke_ole := \<lparr>ol_event_type = kConnectEvent, ol_HandleId = 3\<rparr>\<rparr>]\<rparr>)
   = WorkThread (\<lambda>w. map_option ke_ole \<circ> kw_entries w)
     (IocpThreadAdaptor_OnEventProcess (\<lambda>service. TcpConnector_OnEventProcess_win (demo_ws 1)
          \<lparr>on_connect_win = (\<lambda>ep p io. (ep, p, io)), on_error_win = (\<lambda>ep e io. io)\<rparr>)
        (IocpThreadAdaptor_new\<lparr>ia_interesting_event_services := [8 \<mapsto> \<lparr>si_CompletionKey = 8, si_service = 5, si_event_types = kConnectEvent\<rparr>]\<rparr>))
     (\<lambda>_. Some) False [connect_round True 0 0 8 9]
     ((connect_start iocp_sys_start demo_io)\<lparr>kw_entries := [9 \<mapsto> win_connect_entry_zero\<lparr>ke_ole := \<lparr>ol_event_type = kConnectEvent, ol_HandleId = 3\<rparr>\<rparr>]\<rparr>)"
  by (rule win_connect_error_unseen [where x = "win_connect_entry_zero\<lparr>ke_ole := \<lparr>ol_event_type = kConnectEvent, ol_HandleId = 3\<rparr>\<rparr>"]) simp_all

theorem win_restart_dead_witness:
  "\<exists>w w1 w2. connect_reach (demo_ws 1) (\<lambda>_. True) w \<and> TcpConnector_Shutdown_win (demo_ws 1) w = Some w1
     \<and> TcpConnector_Init_win demo_os 1 5 1 0 w1 = Some (RAPTOR_ERROR_NONE, w2)
     \<and> (\<forall>obj \<in> ran (ww_objs (is_world (kw_polls w2))). iw_shutdown (ia_iocp obj))"
proof -
  obtain w where w: "connect_reach (demo_ws 1) (\<lambda>_. True) w" "connect_ok w" "\<not> wk_shutdown (kw_con w)" "dom (is_polls (kw_polls w)) = {0}"
    using demo_connector by blast
  obtain w1 where s: "TcpConnector_Shutdown_win (demo_ws 1) w = Some w1" using Shutdown_connect_ok [OF w(2)] by blast
  from win_restart_dead [OF w(1) demo_pends w(3,4) _ _ s, of 1 demo_os 5 1 0] w(1) s show ?thesis by auto
qed

end
