(* ===== verification/Spec2Isabelle.thy ===== *)
theory Spec2Isabelle
  imports ContainerIds Surface LogM WinConnect
begin

text \<open>
  Verification of raptor-lite, an asynchronous TCP library in C++ (src/).

  \<^bold>\<open>The program.\<close> An application creates an acceptor, a connector and a container
  (src/src/surface). The acceptor listens (linux/tcp_listener.cc) and the connector connects
  (linux/tcp_connector.cc); each hands the application an endpoint (common/endpoint_impl.cc) for
  every new TCP connection. The application attaches endpoints to the container
  (common/container_impl.cc), which keeps a table of connections (linux/connection.cc), reads and
  writes their sockets when its polling threads (linux/epoll.cc, epoll_thread.cc) report events, cuts
  the bytes into packages with the application's protocol handler, and delivers packages, closings
  and timers from a message queue (utils/mpscq.cc) on its message threads. Byte strings are
  reference counted slices (utils/slice.cc, slice_buffer.cc), errors are reference counted statuses
  (utils/status.cc), and there are a timer (utils/timer.cc), threads (utils/thread.cc), an intrusive
  list (utils/list_entry.cc), socket addresses (common/socket_util.cc), name resolution
  (common/resolve_address.cc, host_port.cc), socket options (linux/socket_setting.cc), property lists
  (include/raptor-lite/impl/property.h) and a log (utils/log.cc, color.cc). In the Windows build the
  files of src/src/windows take the place of those of src/src/linux: its polling threads share one
  completion port, and listener, connector and connections start overlapped calls and get their completions.

  \<^bold>\<open>Conventions.\<close> An object is a record with the fields of the class; an operation takes and returns
  it. \<open>None\<close> in place of a result stands for what the program must never do: a null or dangling
  pointer used, an assertion that fails, a loop that does not end. So a theorem that an operation is
  \<open>Some\<close> says that it is safe and returns. A \<open>raptor_error\<close> is a value of its own, whose \<open>None\<close> is
  \<open>RAPTOR_ERROR_NONE\<close>. Integers that may wrap are words, or have the wrap-around written out
  (\<open>to_i32\<close>, \<open>sz_add\<close>); sizes bounded by memory are \<open>nat\<close>. What the operating system, the clock and
  the application answer is an argument: a function of the calls made so far, a script of results,
  or a handler. Log output is left out of the components that produce it.

  \<^bold>\<open>The theories, in the order of their imports.\<close>
  \<^item> Prelude: types, \<open>size_t\<close> arithmetic, casts, bounds-checked vectors, the option monad.
  \<^item> Slice (slice.cc over a heap of reference counted blocks), SliceBuf (slice_buffer.cc): every
    program over slices is free of use after free, double free and leaks, and implements byte lists.
  \<^item> RefPtr (ref_counted.h, ref_counted_ptr.h): the same for reference counted pointers.
  \<^item> Cid (cid.h): connection ids. Multimap: \<open>std::multimap\<close> as the container uses it.
  \<^item> Mpscq (mpscq.cc): the queue as a sequential structure and as the interleaved steps of its
    producers and its consumer; its contract is the locale \<open>fifo_queue\<close>, which MsgQueue turns into a queue of
    messages, used by the container, the timer and the log.
  \<^item> Text (string.cc), Status (status.cc, event.h), HostPort (host_port.cc, string_view.h), SockAddr
    (socket_util.cc), Resolve (resolve_address.cc), PropertyM (property.h), ListEntry (list_entry.cc).
  \<^item> Threads (thread.cc) and Polling (epoll.cc, epoll_thread.cc): life cycles, delivery of every
    event, and the event array that several threads share.
  \<^item> EndpointM (endpoint_impl.cc, surface/endpoint.cc), Conn (linux/connection.cc): parsing is exactly
    the framing of the byte stream, independent of its segmentation; sending loses nothing.
  \<^item> TimerM (timer.cc); Container (container_impl.cc) with its invariant in ContainerInv, the proofs for
    the operations in ContainerOps, for the threads in ContainerLife, reachable states in
    ContainerSpec, and the properties in ContainerProps and ContainerIds (what goes wrong when
    connection ids are reused).
  \<^item> SockSet (socket_setting.cc), Listener (tcp_listener.cc), Connector (tcp_connector.cc): over every
    run no descriptor is closed twice or leaked, but for the cases that are stated.
  \<^item> Surface (src/src/surface): containers, acceptors and connectors as the application makes them.
  \<^item> LogM (log.cc, color.cc): the log implements a queue of lines; no line is cut.
  \<^item> WinPoll (windows/iocp.cc, iocp_thread.cc): the adaptor all polling objects of a process share is counted
    correctly, and completions are routed by their socket. WinConn (windows/connection.cc): packages are cut as on
    Linux, and sending loses nothing. WinSock (windows/socket_setting.cc): no socket leaks while one is
    created and configured. WinListen (windows/tcp_listener.cc): every object has one accept under way, over a
    heap in which the vector of list heads may move. WinConnect (windows/tcp_connector.cc): entries are
    used while they exist. What goes wrong in the port is stated beside these: shutting down a listener,
    a \<open>ConnectEx\<close> that fails at once, completions that failed, messages above 65535 bytes, restarting.

  \<^bold>\<open>Loops.\<close> Most loops are structural recursion over the data or over a script of answers. Fuel is
  used where the number of rounds is known, and the theorems show that it is enough: draining a queue
  (the number of addresses handed out), the idle check (the number of deadlines), the message and log
  threads (the number of messages). \<open>ParsingProtocol\<close>, \<open>connect_loop\<close>, \<open>close_objects\<close> and \<open>pop_objects\<close> are partial functions in
  the option monad, since the first two need not end: C38 states when.

  \<^bold>\<open>Not modelled.\<close>
  Wrappers of the clock, \<open>sysconf\<close>, mutexes, condition variables and \<open>std::atomic\<close> (time.cc, cpu.cc,
  sync.cc, atomic.h) only call the system: times are arguments, and an atomic access is one step.
  Container operations run one after the other: interleavings are modelled inside the queue (Mpscq),
  for the shared event array (Polling), and for the two races of ContainerIds. Example programs and
  the test harness (example/, testutil.cc) print to the console.
\<close>

end
